(* ===== verification/Prelude.thy ===== *)
theory Prelude
  imports Main "HOL-Library.Word" "HOL-Library.Monad_Syntax" "HOL-Library.AList"
begin

text \<open>
  Shared ground of the development: the machine types the headers use, the theorem
  collections the component theories feed, and the generic facts on lists, words and
  association lists that more than one component needs.
\<close>

unbundle bit_operations_syntax

section \<open>Machine types\<close>

type_synonym u8 = "8 word"
type_synonym u16 = "16 word"
type_synonym u32 = "32 word"
type_synonym u64 = "64 word"
type_synonym byte = "8 word"
type_synonym Buffer = "byte list"

section \<open>Theorem collections\<close>

text \<open>
  \<open>layout_simps\<close>: lengths and positions of wire fields; \<open>inv_intros\<close>: every fact of the form
  ``this operation keeps that invariant''.
\<close>

named_theorems layout_simps
named_theorems inv_intros

section \<open>Words\<close>

lemma bit_255_iff: "bit (255 :: 'a::len word) n \<longleftrightarrow> n < 8 \<and> n < LENGTH('a)"
proof -
  have "(255 :: 'a word) = mask 8"
    by (simp add: mask_eq_exp_minus_1)
  then show ?thesis
    by (simp only: bit_mask_iff) (auto simp: possible_bit_word)
qed

lemma mask_255_ucast [simp]: "(ucast (v AND 255) :: byte) = ucast v" for v :: "'a::len word"
  by (rule bit_word_eqI) (auto simp: bit_ucast_iff bit_and_iff bit_255_iff simp del: bit_numeral_word_iff dest: bit_imp_le_length)

lemma unat_word_of_nat_less:
  "n < 2 ^ LENGTH('a) \<Longrightarrow> unat (word_of_nat n :: 'a::len word) = n"
  by (simp add: unsigned_of_nat take_bit_nat_eq_self)

lemma unat_diff_split: "n \<le> m \<Longrightarrow> unat m = unat (m - n) + unat n" for n m :: "'a::len word"
  by (simp add: unat_sub word_le_nat_alt)

lemma unat_add_no_wrap:
  fixes n k :: "'a::len word"
  assumes "n \<le> m" and "k \<le> m - n"
  shows "unat (n + k) = unat n + unat k"
proof -
  have "unat n + unat k \<le> unat m"
    using assms unat_diff_split [OF assms(1)] by (simp add: word_le_nat_alt)
  then show ?thesis
    using unsigned_less [of m] by (simp add: unat_word_ariths(1) le_less_trans)
qed

section \<open>Lists\<close>

text \<open>Copying a run of bytes into an array, as \<open>std::copy_n\<close> does.\<close>

definition copy_at :: "'a list \<Rightarrow> nat \<Rightarrow> 'a list \<Rightarrow> 'a list" where
  "copy_at dst off xs = take off dst @ xs @ drop (off + length xs) dst"

lemma length_copy_at [simp]:
  "off + length xs \<le> length dst \<Longrightarrow> length (copy_at dst off xs) = length dst"
  by (simp add: copy_at_def)

lemma take_copy_at [simp]:
  "off \<le> length dst \<Longrightarrow> take (off + length xs) (copy_at dst off xs) = take off dst @ xs"
  by (simp add: copy_at_def)

lemma copy_at_Nil [simp]: "copy_at dst off [] = dst"
  by (simp add: copy_at_def)

section \<open>Association lists as the iteration order of a hash map\<close>

text \<open>
  A \<open>std::unordered_map\<close> that the code iterates over is an association list with distinct
  keys; \<open>AList.delete\<close> is \<open>erase\<close>.
\<close>

abbreviation distinct_keys :: "('k \<times> 'v) list \<Rightarrow> bool" where
  "distinct_keys ps \<equiv> distinct (map fst ps)"

lemma length_delete_present:
  assumes "k \<in> fst ` set ps"
  shows "length (AList.delete k ps) < length ps"
proof -
  from assms obtain v where "(k, v) \<in> set ps" by auto
  then show ?thesis
    unfolding AList.delete_eq by (intro length_filter_less) auto
qed

lemma length_delete_distinct:
  assumes "distinct_keys ps" and "map_of ps k = Some v"
  shows "length (AList.delete k ps) + 1 = length ps"
proof -
  have mem: "k \<in> set (map fst ps)" using assms(2) by (metis map_of_eq_None_iff option.distinct(1) set_map)
  have "length (AList.delete k ps) = length (map fst (AList.delete k ps))" by simp
  also have "\<dots> = length (remove1 k (map fst ps))"
    using assms(1) by (simp add: AList.delete_keys distinct_remove1_removeAll)
  also have "\<dots> = length ps - 1" using mem by (simp add: length_remove1)
  finally show ?thesis using mem by (cases ps) simp_all
qed

lemma map_of_distinct_mem:
  "distinct_keys ps \<Longrightarrow> map_of ps k = Some v \<longleftrightarrow> (k, v) \<in> set ps"
  by (simp add: map_of_eq_Some_iff)

end
