(* ===== verification/Channel.thy ===== *)
theory Channel
  imports Prelude
begin

text \<open>
  The boundary to \<open>boost::asio::experimental::channel\<close>, which is not part of the repository. The
  components that use a channel take its operations as an argument (\<open>ChannelOps\<close>), over an
  arbitrary type \<open>'c\<close> of channel objects; what they rely on is the hypothesis
  \<open>implements_channel\<close>: the operations behave as the documentation describes in terms of the
  buffered messages, the number of receives in progress, whether the channel is open, and its
  capacity. A message handed directly to a waiting receive counts as buffered until that
  receive completes, which is why a channel accepts as many messages beyond its capacity as
  there are receives in progress.
\<close>

section \<open>The operations that are used\<close>

datatype 'm ChannelEvent = Channel_message 'm | Channel_closed | Channel_pending

record ('c, 'm) ChannelOps =
  chan_new :: "nat \<Rightarrow> 'c"
  chan_try_send :: "'c \<Rightarrow> 'm \<Rightarrow> 'c \<times> bool"
  chan_begin_receive :: "'c \<Rightarrow> 'c"
  chan_end_receive :: "'c \<Rightarrow> 'c \<times> 'm ChannelEvent"
  chan_close :: "'c \<Rightarrow> 'c"

section \<open>The documented behaviour\<close>

record 'm ChannelView =
  view_buffer :: "'m list"
  view_waiting :: nat
  view_open :: bool
  view_capacity :: nat

definition view_accepts :: "'m ChannelView \<Rightarrow> bool" where
  "view_accepts s \<longleftrightarrow> view_open s \<and> length (view_buffer s) < view_capacity s + view_waiting s"

definition view_new :: "nat \<Rightarrow> 'm ChannelView" where
  "view_new n = \<lparr>view_buffer = [], view_waiting = 0, view_open = True, view_capacity = n\<rparr>"

definition view_try_send :: "'m ChannelView \<Rightarrow> 'm \<Rightarrow> 'm ChannelView \<times> bool" where
  "view_try_send s m =
     (if view_accepts s then (s\<lparr>view_buffer := view_buffer s @ [m]\<rparr>, True) else (s, False))"

definition view_begin_receive :: "'m ChannelView \<Rightarrow> 'm ChannelView" where
  "view_begin_receive s = s\<lparr>view_waiting := view_waiting s + 1\<rparr>"

definition view_end_receive :: "'m ChannelView \<Rightarrow> 'm ChannelView \<times> 'm ChannelEvent" where
  "view_end_receive s =
     (case view_buffer s of
        m # ms \<Rightarrow>
          (s\<lparr>view_buffer := ms, view_waiting := view_waiting s - 1\<rparr>, Channel_message m)
      | [] \<Rightarrow>
          if view_open s then (s, Channel_pending)
          else (s\<lparr>view_waiting := view_waiting s - 1\<rparr>, Channel_closed))"

definition view_close :: "'m ChannelView \<Rightarrow> 'm ChannelView" where
  "view_close s = s\<lparr>view_open := False\<rparr>"

definition implements_channel :: "('c, 'm) ChannelOps \<Rightarrow> ('c \<Rightarrow> 'm ChannelView) \<Rightarrow> bool" where
  "implements_channel ops view \<longleftrightarrow>
     (\<forall>n. view (chan_new ops n) = view_new n) \<and>
     (\<forall>c m. map_prod view id (chan_try_send ops c m) = view_try_send (view c) m) \<and>
     (\<forall>c. view (chan_begin_receive ops c) = view_begin_receive (view c)) \<and>
     (\<forall>c. map_prod view id (chan_end_receive ops c) = view_end_receive (view c)) \<and>
     (\<forall>c. view (chan_close ops c) = view_close (view c))"

text \<open>A concrete implementation, for evaluation: the documented behaviour itself.\<close>

definition reference_channel :: "('m ChannelView, 'm) ChannelOps" where
  "reference_channel =
     \<lparr>chan_new = view_new, chan_try_send = view_try_send,
      chan_begin_receive = view_begin_receive, chan_end_receive = view_end_receive,
      chan_close = view_close\<rparr>"

lemma reference_channel_implements: "implements_channel reference_channel id"
  by (simp add: implements_channel_def reference_channel_def prod.map_id)

section \<open>Consequences used by the clients\<close>

lemma implements_channelD:
  assumes "implements_channel ops view"
  shows "view (chan_new ops n) = view_new n"
    and "view (fst (chan_try_send ops c m)) = fst (view_try_send (view c) m)"
    and "snd (chan_try_send ops c m) = snd (view_try_send (view c) m)"
    and "view (chan_begin_receive ops c) = view_begin_receive (view c)"
    and "view (fst (chan_end_receive ops c)) = fst (view_end_receive (view c))"
    and "snd (chan_end_receive ops c) = snd (view_end_receive (view c))"
    and "view (chan_close ops c) = view_close (view c)"
proof -
  note h = assms [unfolded implements_channel_def]
  show "view (chan_new ops n) = view_new n"
    and "view (chan_begin_receive ops c) = view_begin_receive (view c)"
    and "view (chan_close ops c) = view_close (view c)"
    using h by blast+
  have "map_prod view id (chan_try_send ops c m) = view_try_send (view c) m"
    and "map_prod view id (chan_end_receive ops c) = view_end_receive (view c)"
    using h by blast+
  then show "view (fst (chan_try_send ops c m)) = fst (view_try_send (view c) m)"
    and "snd (chan_try_send ops c m) = snd (view_try_send (view c) m)"
    and "view (fst (chan_end_receive ops c)) = fst (view_end_receive (view c))"
    and "snd (chan_end_receive ops c) = snd (view_end_receive (view c))"
    by (metis fst_map_prod snd_map_prod id_apply)+
qed

lemmas view_op_defs =
  view_try_send_def view_begin_receive_def view_end_receive_def view_close_def view_new_def
  view_accepts_def

lemma view_close_absorb [simp]: "view_close (view_close s) = view_close s"
  by (simp add: view_close_def)

lemma closed_try_send: "\<not> view_open s \<Longrightarrow> view_try_send s m = (s, False)"
  by (simp add: view_op_defs)

end
