(* ===== verification/Identifiers.thy ===== *)
theory Identifiers
  imports Prelude
begin

text \<open>
  Identifiers and protocol version (\<open>identifiers.hpp\<close>, \<open>protocol_version.hpp\<close>). A
  \<open>detail::StrongId\<close> instantiation is a one-constructor datatype around its value, so that a
  stream identifier and a message type stay different types; the defaulted \<open>operator<=>\<close> of
  each is an instance of \<open>linorder\<close>.
\<close>

section \<open>Strong identifiers\<close>

datatype StreamId = StreamId (stream_value: u64)

datatype MessageType = MessageType (message_type_value: u32)

text \<open>The value reserved to mean ``no identifier assigned''; also the default constructor.\<close>

definition StreamId_default :: StreamId where
  "StreamId_default = StreamId 0"

definition stream_is_valid :: "StreamId \<Rightarrow> bool" where
  "stream_is_valid sid \<longleftrightarrow> stream_value sid \<noteq> 0"

definition message_type_is_valid :: "MessageType \<Rightarrow> bool" where
  "message_type_is_valid mt \<longleftrightarrow> message_type_value mt \<noteq> 0"

type_synonym RequestId = StreamId

definition is_client_stream :: "StreamId \<Rightarrow> bool" where
  "is_client_stream sid \<longleftrightarrow> stream_is_valid sid \<and> stream_value sid mod 2 = 1"

definition is_server_stream :: "StreamId \<Rightarrow> bool" where
  "is_server_stream sid \<longleftrightarrow> stream_is_valid sid \<and> stream_value sid mod 2 = 0"

section \<open>Comparison\<close>

text \<open>
  The defaulted \<open>operator<=>\<close> compares the members in order of declaration and yields a
  \<open>std::strong_ordering\<close>; the relational operators the compiler derives from it are the class
  operations of \<open>linorder\<close>.
\<close>

datatype strong_ordering = Ordering_less | Ordering_equal | Ordering_greater

fun compare_value :: "'a::linorder \<Rightarrow> 'a \<Rightarrow> strong_ordering" where
  "compare_value a b =
     (if a < b then Ordering_less else if a = b then Ordering_equal else Ordering_greater)"

definition StreamId_compare :: "StreamId \<Rightarrow> StreamId \<Rightarrow> strong_ordering" where
  "StreamId_compare a b = compare_value (stream_value a) (stream_value b)"

definition MessageType_compare :: "MessageType \<Rightarrow> MessageType \<Rightarrow> strong_ordering" where
  "MessageType_compare a b = compare_value (message_type_value a) (message_type_value b)"

instantiation StreamId :: linorder
begin

definition less_eq_StreamId :: "StreamId \<Rightarrow> StreamId \<Rightarrow> bool" where
  "less_eq_StreamId a b \<longleftrightarrow> StreamId_compare a b \<noteq> Ordering_greater"

definition less_StreamId :: "StreamId \<Rightarrow> StreamId \<Rightarrow> bool" where
  "less_StreamId a b \<longleftrightarrow> StreamId_compare a b = Ordering_less"

instance
  by standard
    (auto simp: less_eq_StreamId_def less_StreamId_def StreamId_compare_def StreamId.expand
      split: if_splits)

end

instantiation MessageType :: linorder
begin

definition less_eq_MessageType :: "MessageType \<Rightarrow> MessageType \<Rightarrow> bool" where
  "less_eq_MessageType a b \<longleftrightarrow> MessageType_compare a b \<noteq> Ordering_greater"

definition less_MessageType :: "MessageType \<Rightarrow> MessageType \<Rightarrow> bool" where
  "less_MessageType a b \<longleftrightarrow> MessageType_compare a b = Ordering_less"

instance
  by standard
    (auto simp: less_eq_MessageType_def less_MessageType_def MessageType_compare_def
      MessageType.expand split: if_splits)

end

section \<open>Protocol version\<close>

datatype ProtocolVersion = ProtocolVersion (version_major: u16) (version_minor: u16)

definition current_protocol_version :: ProtocolVersion where
  "current_protocol_version = ProtocolVersion 0 1"

text \<open>Member-wise comparison, \<open>major\<close> before \<open>minor\<close>.\<close>

definition ProtocolVersion_compare :: "ProtocolVersion \<Rightarrow> ProtocolVersion \<Rightarrow> strong_ordering" where
  "ProtocolVersion_compare a b =
     (case compare_value (version_major a) (version_major b) of
        Ordering_equal \<Rightarrow> compare_value (version_minor a) (version_minor b)
      | other \<Rightarrow> other)"

instantiation ProtocolVersion :: linorder
begin

definition less_eq_ProtocolVersion :: "ProtocolVersion \<Rightarrow> ProtocolVersion \<Rightarrow> bool" where
  "less_eq_ProtocolVersion a b \<longleftrightarrow> ProtocolVersion_compare a b \<noteq> Ordering_greater"

definition less_ProtocolVersion :: "ProtocolVersion \<Rightarrow> ProtocolVersion \<Rightarrow> bool" where
  "less_ProtocolVersion a b \<longleftrightarrow> ProtocolVersion_compare a b = Ordering_less"

instance
  by standard
    (auto simp: less_eq_ProtocolVersion_def less_ProtocolVersion_def ProtocolVersion_compare_def
      ProtocolVersion.expand split: if_splits)

end

text \<open>The order of versions is the lexicographic one, and equality agrees with comparison.\<close>

lemma version_order:
  "v \<le> w \<longleftrightarrow> version_major v < version_major w \<or>
     version_major v = version_major w \<and> version_minor v \<le> version_minor w"
  "ProtocolVersion_compare v w = Ordering_equal \<longleftrightarrow> v = w"
  by (auto simp: less_eq_ProtocolVersion_def ProtocolVersion_compare_def ProtocolVersion.expand
      split: if_splits)

section \<open>Properties\<close>

lemma word_mod_2_cases: "(v :: 'a::len word) mod 2 = 0 \<or> v mod 2 = 1"
proof -
  have "even v \<or> odd v" by blast
  then show ?thesis by (auto simp: even_iff_mod_2_eq_zero odd_iff_mod_2_eq_one)
qed

text \<open>
  Every non-zero stream identifier is a client stream or a server stream and never both; the
  zero identifier is neither.
\<close>

lemma stream_partition:
  "stream_is_valid sid \<longleftrightarrow> (is_client_stream sid \<noteq> is_server_stream sid)"
  "\<not> (is_client_stream sid \<and> is_server_stream sid)"
  using word_mod_2_cases [of "stream_value sid"]
  by (auto simp: is_client_stream_def is_server_stream_def)

lemma invalid_stream_neither:
  "\<not> is_client_stream StreamId_default" "\<not> is_server_stream StreamId_default"
  by (simp_all add: is_client_stream_def is_server_stream_def stream_is_valid_def
      StreamId_default_def)

end
