(* ===== verification/Frame_Model.thy ===== *)
theory Frame_Model
  imports Identifiers
begin

text \<open>
  Frame flags, frames and frame validation (\<open>frame_flags.hpp\<close>, \<open>frame.hpp\<close>). \<open>FrameFlags\<close> and
  \<open>FrameType\<close> are scoped enumerations over a byte: a header decoded from the wire may hold any
  byte value in them, so each is a one-constructor datatype around the byte.
\<close>

section \<open>Flags\<close>

datatype FrameFlags = FrameFlags (flags_value: u8)

abbreviation "Flags_none \<equiv> FrameFlags 0"
abbreviation "Flags_end_of_stream \<equiv> FrameFlags 1"
abbreviation "Flags_cancel \<equiv> FrameFlags 2"
abbreviation "Flags_error \<equiv> FrameFlags 4"

definition flags_or :: "FrameFlags \<Rightarrow> FrameFlags \<Rightarrow> FrameFlags" where
  "flags_or lhs rhs = FrameFlags (flags_value lhs OR flags_value rhs)"

definition flags_and :: "FrameFlags \<Rightarrow> FrameFlags \<Rightarrow> FrameFlags" where
  "flags_and lhs rhs = FrameFlags (flags_value lhs AND flags_value rhs)"

definition flags_not :: "FrameFlags \<Rightarrow> FrameFlags" where
  "flags_not v = FrameFlags (NOT (flags_value v))"

definition has_flag :: "FrameFlags \<Rightarrow> FrameFlags \<Rightarrow> bool" where
  "has_flag flags flag \<longleftrightarrow> flags_and flags flag = flag"

section \<open>Frames\<close>

datatype FrameType = FrameType (frame_type_value: u8)

abbreviation "FrameType_request \<equiv> FrameType 1"
abbreviation "FrameType_response \<equiv> FrameType 2"

record FrameHeader =
  header_version :: ProtocolVersion
  header_type :: FrameType
  header_flags :: FrameFlags
  header_stream :: StreamId
  header_payload_size :: u32

definition default_header :: FrameHeader where
  "default_header =
     \<lparr>header_version = current_protocol_version, header_type = FrameType_request,
      header_flags = Flags_none, header_stream = StreamId_default, header_payload_size = 0\<rparr>"

record Frame =
  frame_header :: FrameHeader
  frame_payload :: Buffer

definition default_max_payload_size :: u32 where
  "default_max_payload_size = 16 * 1024 * 1024"

section \<open>Validation\<close>

datatype FrameValidationError =
  Validation_none | Validation_unsupported_version | Validation_unknown_frame_type
| Validation_unknown_flags | Validation_invalid_flag_combination | Validation_invalid_stream
| Validation_payload_length_mismatch | Validation_payload_too_large

definition is_known_frame_type :: "FrameType \<Rightarrow> bool" where
  "is_known_frame_type t \<longleftrightarrow> t = FrameType_request \<or> t = FrameType_response"

definition has_only_known_flags :: "FrameFlags \<Rightarrow> bool" where
  "has_only_known_flags flags \<longleftrightarrow>
     (let known_flags = flags_or (flags_or Flags_end_of_stream Flags_cancel) Flags_error in
      flags_and flags (flags_not known_flags) = Flags_none)"

definition validate_frame :: "Frame \<Rightarrow> u32 \<Rightarrow> FrameValidationError" where
  "validate_frame f max_payload_size =
     (let h = frame_header f in
      if header_version h \<noteq> current_protocol_version then Validation_unsupported_version
      else if \<not> is_known_frame_type (header_type h) then Validation_unknown_frame_type
      else if \<not> has_only_known_flags (header_flags h) then Validation_unknown_flags
      else if has_flag (header_flags h) Flags_cancel \<and> has_flag (header_flags h) Flags_error
        then Validation_invalid_flag_combination
      else if \<not> stream_is_valid (header_stream h) then Validation_invalid_stream
      else if header_payload_size h > max_payload_size then Validation_payload_too_large
      else if length (frame_payload f) > 2 ^ 32 - 1 \<or>
              unat (header_payload_size h) \<noteq> length (frame_payload f)
        then Validation_payload_length_mismatch
      else Validation_none)"

section \<open>Properties of flags\<close>

lemma and_not_eq_0_iff: "x AND NOT m = 0 \<longleftrightarrow> x AND m = x" for x m :: "'a::len word"
proof
  assume "x AND NOT m = 0"
  moreover have "x = (x AND m) OR (x AND NOT m)"
    by (rule bit_word_eqI) (auto simp: bit_simps)
  ultimately show "x AND m = x" by simp
next
  assume "x AND m = x"
  moreover have "(x AND m) AND NOT m = 0"
    by (rule bit_word_eqI) (auto simp: bit_simps)
  ultimately show "x AND NOT m = 0" by simp
qed

lemma known_flag_bits: "v AND NOT 7 = 0 \<longleftrightarrow> v \<le> 7" for v :: u8
proof -
  have "v AND NOT 7 = 0 \<longleftrightarrow> v AND mask 3 = v"
    by (subst and_not_eq_0_iff) (simp add: mask_eq_exp_minus_1)
  also have "\<dots> \<longleftrightarrow> unat v < 2 ^ 3"
    by (simp add: take_bit_eq_mask [symmetric] word_unat_eq_iff unsigned_take_bit_eq
        take_bit_nat_eq_self_iff)
  finally show ?thesis
    by (auto simp: word_le_nat_alt)
qed

lemma has_only_known_flags_iff: "has_only_known_flags f \<longleftrightarrow> flags_value f \<le> 7"
  using known_flag_bits [of "flags_value f"]
  by (simp add: has_only_known_flags_def flags_and_def flags_or_def flags_not_def)

lemma has_flag_or: "has_flag (flags_or a b) b"
  by (cases a; cases b) (simp add: has_flag_def flags_and_def flags_or_def bit.conj_disj_distrib2)

lemma has_flag_or_mono: "has_flag a c \<Longrightarrow> has_flag (flags_or a b) c"
  by (cases a; cases b; cases c)
    (auto simp: has_flag_def flags_and_def flags_or_def bit.conj_disj_distrib2 intro: bit_word_eqI)

end
