(* ===== verification/Frame_Codec.thy ===== *)
theory Frame_Codec
  imports Frame_Model
begin

text \<open>
  The wire format of a frame (\<open>frame_codec.hpp\<close>): an 18-byte big-endian header followed by the
  payload. The \<open>detail::write_be*\<close> functions store through a byte pointer; here they take the
  array and the offset and return the array. The \<open>detail::read_be*\<close> functions read the array
  from an offset. Each pair is an instance of the locale \<open>wire_field\<close>, which states what the
  header codec needs of a field.
\<close>

section \<open>Big-endian fields\<close>

definition frame_header_size :: nat where
  "frame_header_size = 18"

definition write_be16 :: "Buffer \<Rightarrow> nat \<Rightarrow> u16 \<Rightarrow> Buffer" where
  "write_be16 out off v =
     (let out = out[off := ucast (drop_bit 8 v AND 0xFF)] in
      out[off + 1 := ucast (v AND 0xFF)])"

definition write_be32 :: "Buffer \<Rightarrow> nat \<Rightarrow> u32 \<Rightarrow> Buffer" where
  "write_be32 out off v =
     (let out = out[off := ucast (drop_bit 24 v AND 0xFF)];
          out = out[off + 1 := ucast (drop_bit 16 v AND 0xFF)];
          out = out[off + 2 := ucast (drop_bit 8 v AND 0xFF)] in
      out[off + 3 := ucast (v AND 0xFF)])"

function write_be64_loop :: "nat \<Rightarrow> Buffer \<Rightarrow> nat \<Rightarrow> u64 \<Rightarrow> Buffer" where
  "write_be64_loop i out off v =
     (if i < 8 then
        write_be64_loop (i + 1) (out[off + i := ucast (drop_bit (56 - 8 * i) v AND 0xFF)]) off v
      else out)"
  by pat_completeness auto
termination
  by (relation "measure (\<lambda>(i, _). 8 - i)") auto

definition write_be64 :: "Buffer \<Rightarrow> nat \<Rightarrow> u64 \<Rightarrow> Buffer" where
  "write_be64 out off v = write_be64_loop 0 out off v"

definition read_be16 :: "Buffer \<Rightarrow> nat \<Rightarrow> u16" where
  "read_be16 inp off = push_bit 8 (ucast (inp ! off)) OR ucast (inp ! (off + 1))"

definition read_be32 :: "Buffer \<Rightarrow> nat \<Rightarrow> u32" where
  "read_be32 inp off =
     ((push_bit 24 (ucast (inp ! off)) OR push_bit 16 (ucast (inp ! (off + 1)))) OR
      push_bit 8 (ucast (inp ! (off + 2)))) OR ucast (inp ! (off + 3))"

function read_be64_loop :: "nat \<Rightarrow> u64 \<Rightarrow> Buffer \<Rightarrow> nat \<Rightarrow> u64" where
  "read_be64_loop i v inp off =
     (if i < 8 then read_be64_loop (i + 1) (push_bit 8 v OR ucast (inp ! (off + i))) inp off
      else v)"
  by pat_completeness auto
termination
  by (relation "measure (\<lambda>(i, _). 8 - i)") auto

definition read_be64 :: "Buffer \<Rightarrow> nat \<Rightarrow> u64" where
  "read_be64 inp off = read_be64_loop 0 0 inp off"

declare write_be64_loop.simps [simp del] read_be64_loop.simps [simp del]

section \<open>The header codec\<close>

definition encode_frame_header :: "FrameHeader \<Rightarrow> Buffer" where
  "encode_frame_header h =
     (let out = replicate frame_header_size 0;
          out = write_be16 out 0 (version_major (header_version h));
          out = write_be16 out 2 (version_minor (header_version h));
          out = out[4 := frame_type_value (header_type h)];
          out = out[5 := flags_value (header_flags h)];
          out = write_be64 out 6 (stream_value (header_stream h)) in
      write_be32 out 14 (header_payload_size h))"

definition decode_frame_header :: "Buffer \<Rightarrow> FrameHeader option" where
  "decode_frame_header bytes =
     (if length bytes < frame_header_size then None
      else Some
        \<lparr>header_version = ProtocolVersion (read_be16 bytes 0) (read_be16 bytes 2),
         header_type = FrameType (bytes ! 4),
         header_flags = FrameFlags (bytes ! 5),
         header_stream = StreamId (read_be64 bytes 6),
         header_payload_size = read_be32 bytes 14\<rparr>)"

definition encode_frame :: "Frame \<Rightarrow> Buffer" where
  "encode_frame f = encode_frame_header (frame_header f) @ frame_payload f"

section \<open>What the header codec needs of a field\<close>

text \<open>
  A field of \<open>w\<close> bytes: writing puts its serialisation into the array and touches nothing else,
  reading inverts the serialisation and every run of \<open>w\<close> bytes is the serialisation of the
  value read from it.
\<close>

lemma copy_at_Cons:
  "off + Suc (length xs) \<le> length out \<Longrightarrow>
     copy_at out off (x # xs) = copy_at (out[off := x]) (Suc off) xs"
  by (simp add: copy_at_def take_Suc_conv_app_nth upd_conv_take_nth_drop
      add.commute)

locale wire_field =
  fixes wr :: "Buffer \<Rightarrow> nat \<Rightarrow> 'v \<Rightarrow> Buffer"
    and rd :: "Buffer \<Rightarrow> nat \<Rightarrow> 'v"
    and ser :: "'v \<Rightarrow> Buffer"
    and w :: nat
  assumes wr_eq: "off + w \<le> length out \<Longrightarrow> wr out off v = copy_at out off (ser v)"
    and length_ser: "length (ser v) = w"
    and rd_ser: "rd (ser v) 0 = v"
    and ser_rd: "length bs = w \<Longrightarrow> ser (rd bs 0) = bs"
    and rd_local: "off + w \<le> length inp \<Longrightarrow> rd inp off = rd (take w (drop off inp)) 0"
begin

lemma length_wr: "off + w \<le> length out \<Longrightarrow> length (wr out off v) = length out"
  by (simp add: wr_eq length_ser)

lemma rd_append:
  assumes "length xs = off"
  shows "rd (xs @ ser v @ ys) off = v"
proof -
  have "rd (xs @ ser v @ ys) off = rd (take w (drop off (xs @ ser v @ ys))) 0"
    by (rule rd_local) (simp add: assms length_ser)
  also have "take w (drop off (xs @ ser v @ ys)) = ser v"
    using assms by (simp add: length_ser)
  finally show ?thesis by (simp add: rd_ser)
qed

lemma rd_wr: "off + w \<le> length out \<Longrightarrow> rd (wr out off v) off = v"
  by (simp add: wr_eq copy_at_def rd_append)

lemma ser_rd_at: "off + w \<le> length inp \<Longrightarrow> ser (rd inp off) = take w (drop off inp)"
  by (subst rd_local) (simp_all add: ser_rd)

lemma ser_inject: "ser u = ser v \<longleftrightarrow> u = v"
  by (auto dest: arg_cong [where f = "\<lambda>bs. rd bs 0"] simp: rd_ser)

end

section \<open>The three field widths are wire fields\<close>

definition be16_bytes :: "u16 \<Rightarrow> Buffer" where
  "be16_bytes v = [ucast (drop_bit 8 v), ucast v]"

definition be32_bytes :: "u32 \<Rightarrow> Buffer" where
  "be32_bytes v =
     [ucast (drop_bit 24 v), ucast (drop_bit 16 v), ucast (drop_bit 8 v), ucast v]"

definition be64_bytes :: "u64 \<Rightarrow> Buffer" where
  "be64_bytes v =
     [ucast (drop_bit 56 v), ucast (drop_bit 48 v), ucast (drop_bit 40 v),
      ucast (drop_bit 32 v), ucast (drop_bit 24 v), ucast (drop_bit 16 v),
      ucast (drop_bit 8 v), ucast v]"

lemma list_of_length:
  "length xs = 2 \<longleftrightarrow> (\<exists>a b. xs = [a, b])"
  "length xs = 4 \<longleftrightarrow> (\<exists>a b c d. xs = [a, b, c, d])"
  "length xs = 8 \<longleftrightarrow> (\<exists>a b c d e f g h. xs = [a, b, c, d, e, f, g, h])"
  by (auto simp: numeral_eq_Suc length_Suc_conv)

lemma nth_take_drop: "i < w \<Longrightarrow> off + w \<le> length xs \<Longrightarrow> take w (drop off xs) ! i = xs ! (off + i)"
  by simp

lemma write_be64_unfold:
  "write_be64 out off v =
     out[off := ucast (drop_bit 56 v), off + 1 := ucast (drop_bit 48 v),
         off + 2 := ucast (drop_bit 40 v), off + 3 := ucast (drop_bit 32 v),
         off + 4 := ucast (drop_bit 24 v), off + 5 := ucast (drop_bit 16 v),
         off + 6 := ucast (drop_bit 8 v), off + 7 := ucast v]"
  by (simp add: write_be64_def write_be64_loop.simps numeral_eq_Suc)

lemma read_be64_nested:
  "read_be64 inp off =
     push_bit 8 (push_bit 8 (push_bit 8 (push_bit 8 (push_bit 8 (push_bit 8 (push_bit 8
       (ucast (inp ! off)) OR ucast (inp ! (off + 1))) OR ucast (inp ! (off + 2)))
       OR ucast (inp ! (off + 3))) OR ucast (inp ! (off + 4))) OR ucast (inp ! (off + 5)))
       OR ucast (inp ! (off + 6))) OR ucast (inp ! (off + 7))"
  by (simp add: read_be64_def read_be64_loop.simps push_bit_or)
    (simp add: numeral_eq_Suc)

lemma read_be64_unfold:
  "read_be64 inp off =
     ((((((push_bit 56 (ucast (inp ! off)) OR push_bit 48 (ucast (inp ! (off + 1))))
       OR push_bit 40 (ucast (inp ! (off + 2)))) OR push_bit 32 (ucast (inp ! (off + 3))))
       OR push_bit 24 (ucast (inp ! (off + 4)))) OR push_bit 16 (ucast (inp ! (off + 5))))
       OR push_bit 8 (ucast (inp ! (off + 6)))) OR ucast (inp ! (off + 7))"
  by (simp add: read_be64_nested push_bit_or)

text \<open>Appending the byte at position \<open>k\<close> to the bytes above it.\<close>

lemma join_byte:
  "push_bit 8 (drop_bit (k + 8) v) OR ucast (ucast (drop_bit k v) :: byte) = drop_bit k v"
  for v :: "'a::len word"
proof (rule bit_word_eqI)
  fix n
  assume "n < LENGTH('a)"
  moreover have "k + 8 + (n - 8) = k + n" if "8 \<le> n" using that by simp
  ultimately show "bit (push_bit 8 (drop_bit (k + 8) v) OR ucast (ucast (drop_bit k v) :: byte)) n =
      bit (drop_bit k v) n"
    by (cases "n < 8") (simp_all add: bit_simps)
qed

lemma top_byte: "ucast (ucast (drop_bit 24 v) :: byte) = drop_bit 24 (v :: u32)"
  "ucast (ucast (drop_bit 56 w) :: byte) = drop_bit 56 (w :: u64)"
  by (rule bit_word_eqI, auto simp: bit_simps dest: bit_imp_le_length)+

lemmas join_bytes32 = top_byte(1) join_byte [of 16, simplified] join_byte [of 8, simplified]
  join_byte [of 0, simplified]
lemmas join_bytes64 = top_byte(2) join_byte [of 48, simplified] join_byte [of 40, simplified]
  join_byte [of 32, simplified] join_byte [of 24, simplified] join_byte [of 16, simplified]
  join_byte [of 8, simplified] join_byte [of 0, simplified]

lemma read_be32_nested:
  "read_be32 inp off =
     push_bit 8 (push_bit 8 (push_bit 8 (ucast (inp ! off)) OR ucast (inp ! (off + 1)))
       OR ucast (inp ! (off + 2))) OR ucast (inp ! (off + 3))"
  by (simp add: read_be32_def push_bit_or)

interpretation be16: wire_field write_be16 read_be16 be16_bytes 2
proof
  show "be16_bytes (read_be16 bs 0) = bs" if "length bs = 2" for bs
    using that
    by (auto simp: list_of_length be16_bytes_def read_be16_def intro!: bit_word_eqI)
      (auto simp: bit_simps dest: bit_imp_le_length)
  show "read_be16 (be16_bytes v) 0 = v" for v
    by (rule bit_word_eqI) (auto simp: be16_bytes_def read_be16_def bit_simps)
qed (simp_all add: write_be16_def be16_bytes_def read_be16_def copy_at_Cons Let_def)

interpretation be32: wire_field write_be32 read_be32 be32_bytes 4
proof
  show "be32_bytes (read_be32 bs 0) = bs" if "length bs = 4" for bs
    using that
    by (auto simp: list_of_length be32_bytes_def read_be32_def intro!: bit_word_eqI)
      (auto simp: bit_simps dest: bit_imp_le_length)
  show "read_be32 (be32_bytes v) 0 = v" for v
    by (simp add: be32_bytes_def read_be32_nested join_bytes32 del: push_bit_or push_bit_push_bit)
  show "write_be32 out off v = copy_at out off (be32_bytes v)" if "off + 4 \<le> length out"
    for out off v
    using that
    by (simp add: write_be32_def be32_bytes_def copy_at_Cons) (simp add: numeral_eq_Suc)
qed (simp_all add: be32_bytes_def read_be32_def)

interpretation be64: wire_field write_be64 read_be64 be64_bytes 8
proof
  show "be64_bytes (read_be64 bs 0) = bs" if "length bs = 8" for bs
    using that
    by (auto simp: list_of_length be64_bytes_def read_be64_unfold intro!: bit_word_eqI)
      (auto simp: bit_simps dest: bit_imp_le_length)
  show "read_be64 (be64_bytes v) 0 = v" for v
    by (simp add: be64_bytes_def read_be64_nested join_bytes64 del: push_bit_or push_bit_push_bit)
  show "write_be64 out off v = copy_at out off (be64_bytes v)" if "off + 8 \<le> length out"
    for out off v
    using that
    by (simp add: write_be64_unfold be64_bytes_def copy_at_Cons) (simp add: numeral_eq_Suc)
qed (simp_all add: be64_bytes_def read_be64_unfold)

section \<open>Header layout and round trips\<close>

lemmas field_lengths [layout_simps, simp] = be16.length_ser be32.length_ser be64.length_ser

text \<open>The eighteen bytes in order: the wire layout the header comment documents.\<close>

lemma encode_header_layout:
  "encode_frame_header h =
     be16_bytes (version_major (header_version h)) @
     be16_bytes (version_minor (header_version h)) @
     [frame_type_value (header_type h), flags_value (header_flags h)] @
     be64_bytes (stream_value (header_stream h)) @ be32_bytes (header_payload_size h)"
  by (simp add: encode_frame_header_def Let_def frame_header_size_def write_be16_def
      write_be32_def write_be64_unfold be16_bytes_def be32_bytes_def be64_bytes_def)
    (simp add: numeral_eq_Suc)

lemma length_encode_header [simp, layout_simps]:
  "length (encode_frame_header h) = frame_header_size"
  by (simp add: encode_header_layout frame_header_size_def)

lemma length_encode_frame [simp, layout_simps]:
  "length (encode_frame f) = frame_header_size + length (frame_payload f)"
  by (simp add: encode_frame_def)

lemma decode_frame_header_prefix:
  "frame_header_size \<le> length bs \<Longrightarrow>
     decode_frame_header bs = decode_frame_header (take frame_header_size bs)"
  by (simp add: decode_frame_header_def frame_header_size_def read_be16_def read_be32_def
      read_be64_unfold)

lemma decode_encode_header: "decode_frame_header (encode_frame_header h @ rest) = Some h"
proof -
  let ?e = "encode_frame_header h @ rest"
  let ?maj = "be16_bytes (version_major (header_version h))"
  let ?min = "be16_bytes (version_minor (header_version h))"
  let ?tf = "[frame_type_value (header_type h), flags_value (header_flags h)]"
  let ?sid = "be64_bytes (stream_value (header_stream h))"
  let ?sz = "be32_bytes (header_payload_size h)"
  have e: "?e = ?maj @ ?min @ ?tf @ ?sid @ ?sz @ rest"
    by (simp add: encode_header_layout)
  have "read_be16 ?e 0 = version_major (header_version h)"
    unfolding e using be16.rd_append [of "[]" 0] by simp
  moreover have "read_be16 ?e 2 = version_minor (header_version h)"
    unfolding e by (rule be16.rd_append) simp
  moreover have "read_be64 ?e 6 = stream_value (header_stream h)"
    unfolding e using be64.rd_append [of "?maj @ ?min @ ?tf" 6] by simp
  moreover have "read_be32 ?e 14 = header_payload_size h"
    unfolding e using be32.rd_append [of "?maj @ ?min @ ?tf @ ?sid" 14] by simp
  moreover have "?e ! 4 = frame_type_value (header_type h)" "?e ! 5 = flags_value (header_flags h)"
    unfolding e by (simp_all add: nth_append)
  ultimately show ?thesis
    by (simp add: decode_frame_header_def)
qed

text \<open>Decoding loses nothing either: re-encoding gives back the bytes that were decoded.\<close>

lemma encode_decode_header:
  assumes "decode_frame_header bs = Some h"
  shows "encode_frame_header h = take frame_header_size bs"
proof -
  have len: "18 \<le> length bs"
    using assms by (auto simp: decode_frame_header_def frame_header_size_def split: if_splits)
  have "take 18 bs = take (2 + (2 + (2 + (8 + 4)))) bs" by simp
  also have "\<dots> = take 2 bs @ take 2 (drop 2 bs) @ take 2 (drop 4 bs) @
      take 8 (drop 6 bs) @ take 4 (drop 14 bs)"
    by (simp only: take_add drop_drop) simp
  also have "take 2 (drop 4 bs) = [bs ! 4, bs ! 5]"
    using len by (simp add: list_eq_iff_nth_eq less_Suc_eq numeral_2_eq_2 nth_Cons')
  finally have "take 18 bs = take 2 bs @ take 2 (drop 2 bs) @ [bs ! 4, bs ! 5] @
      take 8 (drop 6 bs) @ take 4 (drop 14 bs)" .
  moreover have "encode_frame_header h = take 2 bs @ take 2 (drop 2 bs) @ [bs ! 4, bs ! 5] @
      take 8 (drop 6 bs) @ take 4 (drop 14 bs)"
    using assms len be16.ser_rd_at [of 0 bs] be16.ser_rd_at [of 2 bs] be64.ser_rd_at [of 6 bs]
      be32.ser_rd_at [of 14 bs]
    by (auto simp: decode_frame_header_def encode_header_layout split: if_splits)
  ultimately show ?thesis by (simp add: frame_header_size_def)
qed

section \<open>Properties of the component\<close>

text \<open>
  Property C23. The header codec is a bijection between headers and 18-byte strings: a byte
  string decodes to \<open>h\<close> exactly when it has at least 18 bytes and its first 18 are the encoding
  of \<open>h\<close>. So decoding inverts encoding, encoding inverts decoding, and only short input is
  refused.
\<close>

theorem header_wire_bijection:
  "decode_frame_header bs = Some h \<longleftrightarrow>
     frame_header_size \<le> length bs \<and> encode_frame_header h = take frame_header_size bs"
proof
  assume dec: "decode_frame_header bs = Some h"
  then have "frame_header_size \<le> length bs"
    by (auto simp: decode_frame_header_def split: if_splits)
  with encode_decode_header [OF dec]
  show "frame_header_size \<le> length bs \<and> encode_frame_header h = take frame_header_size bs" by simp
next
  assume "frame_header_size \<le> length bs \<and> encode_frame_header h = take frame_header_size bs"
  then have "bs = encode_frame_header h @ drop frame_header_size bs" by simp
  then show "decode_frame_header bs = Some h"
    using decode_encode_header [of h "drop frame_header_size bs"] by simp
qed

end
