(* ===== verification/Status.thy ===== *)
theory Status
  imports Prelude
begin

text \<open>
  Status codes and the error policy (\<open>status_code.hpp\<close>, \<open>error.hpp\<close>). \<open>StatusCode\<close> is a scoped
  enumeration with a fixed underlying type, so it holds any 16-bit value, named or not; it is
  a one-constructor datatype around that value and the enumerators are constants.
\<close>

section \<open>Codes and categories\<close>

datatype StatusCategory =
  Category_ok | Category_transport | Category_protocol | Category_serialization
| Category_operation | Category_timeout | Category_cancellation | Category_resource_limit

datatype StatusCode = StatusCode (status_value: u16)

abbreviation "Status_ok \<equiv> StatusCode 0"
abbreviation "Status_transport_error \<equiv> StatusCode 1000"
abbreviation "Status_connection_closed \<equiv> StatusCode 1001"
abbreviation "Status_connection_reset \<equiv> StatusCode 1002"
abbreviation "Status_connection_timed_out \<equiv> StatusCode 1003"
abbreviation "Status_protocol_error \<equiv> StatusCode 2000"
abbreviation "Status_unsupported_version \<equiv> StatusCode 2001"
abbreviation "Status_malformed_frame \<equiv> StatusCode 2002"
abbreviation "Status_unknown_stream \<equiv> StatusCode 2003"
abbreviation "Status_serialization_error \<equiv> StatusCode 3000"
abbreviation "Status_unknown_message_type \<equiv> StatusCode 3001"
abbreviation "Status_decode_error \<equiv> StatusCode 3002"
abbreviation "Status_operation_error \<equiv> StatusCode 4000"
abbreviation "Status_timeout_error \<equiv> StatusCode 5000"
abbreviation "Status_cancelled \<equiv> StatusCode 6000"
abbreviation "Status_resource_limit_exceeded \<equiv> StatusCode 7000"

text \<open>The enumerators, in the order of their declaration.\<close>

definition status_codes :: "StatusCode list" where
  "status_codes =
     [Status_ok, Status_transport_error, Status_connection_closed, Status_connection_reset,
      Status_connection_timed_out, Status_protocol_error, Status_unsupported_version,
      Status_malformed_frame, Status_unknown_stream, Status_serialization_error,
      Status_unknown_message_type, Status_decode_error, Status_operation_error,
      Status_timeout_error, Status_cancelled, Status_resource_limit_exceeded]"

definition status_category :: "StatusCode \<Rightarrow> StatusCategory" where
  "status_category code =
     (let v = status_value code in
      if v = 0 then Category_ok
      else if v div 1000 = 1 then Category_transport
      else if v div 1000 = 2 then Category_protocol
      else if v div 1000 = 3 then Category_serialization
      else if v div 1000 = 4 then Category_operation
      else if v div 1000 = 5 then Category_timeout
      else if v div 1000 = 6 then Category_cancellation
      else Category_resource_limit)"

definition is_error :: "StatusCode \<Rightarrow> bool" where
  "is_error code \<longleftrightarrow> code \<noteq> Status_ok"

definition to_string :: "StatusCode \<Rightarrow> string" where
  "to_string code =
     (if code = Status_ok then ''ok''
      else if code = Status_transport_error then ''transport_error''
      else if code = Status_connection_closed then ''connection_closed''
      else if code = Status_connection_reset then ''connection_reset''
      else if code = Status_connection_timed_out then ''connection_timed_out''
      else if code = Status_protocol_error then ''protocol_error''
      else if code = Status_unsupported_version then ''unsupported_version''
      else if code = Status_malformed_frame then ''malformed_frame''
      else if code = Status_unknown_stream then ''unknown_stream''
      else if code = Status_serialization_error then ''serialization_error''
      else if code = Status_unknown_message_type then ''unknown_message_type''
      else if code = Status_decode_error then ''decode_error''
      else if code = Status_operation_error then ''operation_error''
      else if code = Status_timeout_error then ''timeout_error''
      else if code = Status_cancelled then ''cancelled''
      else if code = Status_resource_limit_exceeded then ''resource_limit_exceeded''
      else ''unknown_status_code'')"

section \<open>Error disposition\<close>

datatype ErrorScope = Scope_none | Scope_operation | Scope_connection

record ErrorDisposition =
  scope :: ErrorScope
  send_to_peer :: bool
  local_only :: bool

definition error_disposition :: "StatusCode \<Rightarrow> ErrorDisposition" where
  "error_disposition code =
     (case status_category code of
        Category_ok \<Rightarrow> \<lparr>scope = Scope_none, send_to_peer = False, local_only = False\<rparr>
      | Category_transport \<Rightarrow> \<lparr>scope = Scope_connection, send_to_peer = False, local_only = True\<rparr>
      | Category_protocol \<Rightarrow> \<lparr>scope = Scope_connection, send_to_peer = False, local_only = True\<rparr>
      | _ \<Rightarrow> \<lparr>scope = Scope_operation, send_to_peer = True, local_only = False\<rparr>)"

definition terminates_connection :: "StatusCode \<Rightarrow> bool" where
  "terminates_connection code \<longleftrightarrow> scope (error_disposition code) = Scope_connection"

definition terminates_operation :: "StatusCode \<Rightarrow> bool" where
  "terminates_operation code \<longleftrightarrow> scope (error_disposition code) = Scope_operation"

section \<open>Properties\<close>

lemma unat_div_1000: "unat (v div 1000 :: u16) = unat v div 1000"
  by (simp add: unat_div)

lemma div_1000_eq_iff:
  "(v div 1000 = numeral k) = (unat v div 1000 = numeral k)"
  if "unat (numeral k :: u16) = numeral k" for v :: u16
  using that by (metis unat_div_1000 word_unat_eq_iff)

lemma div_1000_eq_1: "(v div 1000 = 1) = (unat v div 1000 = 1)" for v :: u16
  by (metis unat_div_1000 unsigned_1 word_unat_eq_iff)

text \<open>The category as a function of the number alone.\<close>

lemma status_category_bands:
  "status_category code =
     (let n = unat (status_value code) in
      if n = 0 then Category_ok
      else if n div 1000 = 1 then Category_transport
      else if n div 1000 = 2 then Category_protocol
      else if n div 1000 = 3 then Category_serialization
      else if n div 1000 = 4 then Category_operation
      else if n div 1000 = 5 then Category_timeout
      else if n div 1000 = 6 then Category_cancellation
      else Category_resource_limit)"
  by (simp add: status_category_def Let_def div_1000_eq_iff div_1000_eq_1 unat_eq_zero)

text \<open>
  A status terminates the connection exactly when its number lies in the transport or the
  protocol band; every other error terminates one operation.
\<close>

lemma terminates_connection_band:
  "terminates_connection code \<longleftrightarrow>
     1000 \<le> unat (status_value code) \<and> unat (status_value code) < 3000"
  by (auto simp: terminates_connection_def error_disposition_def status_category_bands Let_def
      split: if_splits)

lemma terminates_operation_iff:
  "terminates_operation code \<longleftrightarrow> is_error code \<and> \<not> terminates_connection code"
  by (cases code) (auto simp: terminates_operation_def terminates_connection_def is_error_def
      error_disposition_def status_category_bands Let_def unat_eq_zero split: if_splits)

lemma local_only_iff_terminates_connection:
  "local_only (error_disposition code) = terminates_connection code"
  "send_to_peer (error_disposition code) = terminates_operation code"
  by (auto simp: terminates_connection_def terminates_operation_def error_disposition_def
      split: StatusCategory.splits)

text \<open>Distinct enumerators have distinct names, and none of them the fallback name.\<close>

lemma to_string_distinct: "distinct (map to_string status_codes)"
  by (simp add: status_codes_def to_string_def)

lemma to_string_known:
  "to_string code = ''unknown_status_code'' \<longleftrightarrow> code \<notin> set status_codes"
  by (simp add: status_codes_def to_string_def)

end
