(* ===== verification/Write_Queue.thy ===== *)
theory Write_Queue
  imports Channel Frame_Codec Status
begin

text \<open>
  The write queue of a connection (\<open>write_queue.hpp\<close>). Sizes and limits are \<open>std::size_t\<close>, 64-bit
  words. The coroutines are cut at their suspension points: \<open>enqueue\<close> runs until it returns or
  waits for space and is resumed by the space channel; \<open>run\<close> alternates between waiting for a
  frame and waiting for the transport to write it. The transport writes the queue has started
  are recorded in order.
\<close>

section \<open>Data\<close>

record WriteResult =
  write_status :: StatusCode
  write_message :: string

definition WriteResult_success :: WriteResult where
  "WriteResult_success = \<lparr>write_status = Status_ok, write_message = []\<rparr>"

definition WriteResult_failure :: "StatusCode \<Rightarrow> string \<Rightarrow> WriteResult" where
  "WriteResult_failure status msg = \<lparr>write_status = status, write_message = msg\<rparr>"

definition write_ok :: "WriteResult \<Rightarrow> bool" where
  "write_ok r \<longleftrightarrow> write_status r = Status_ok"

definition unbounded_capacity :: u64 where
  "unbounded_capacity = - 1"

record WriteQueueLimits =
  max_frames :: u64
  max_bytes :: u64

definition default_limits :: WriteQueueLimits where
  "default_limits = \<lparr>max_frames = unbounded_capacity, max_bytes = unbounded_capacity\<rparr>"

text \<open>Where the \<open>run\<close> coroutine is: not started, at one of its suspension points, or returned.\<close>

datatype Writer =
  Writer_idle | Writer_receiving | Writer_writing Frame Buffer | Writer_returned WriteResult

record ('ch, 'sp) WriteQueue =
  wq_limits :: WriteQueueLimits
  wq_queued_bytes :: u64
  wq_closed :: bool
  wq_channel :: 'ch
  wq_space_channel :: 'sp
  wq_writer :: Writer
  wq_writes :: "Buffer list"

text \<open>The channels' operations, as one argument.\<close>

record ('ch, 'sp) QueueOps =
  frame_channel :: "('ch, Frame) ChannelOps"
  space_channel :: "('sp, unit) ChannelOps"

section \<open>Operations\<close>

definition queued_bytes :: "Frame \<Rightarrow> u64" where
  "queued_bytes f = word_of_nat (frame_header_size + length (frame_payload f))"

definition space_signal_capacity :: "WriteQueueLimits \<Rightarrow> u64" where
  "space_signal_capacity lim =
     (if max_frames lim = unbounded_capacity \<or> max_frames lim = 0 then 1 else max_frames lim)"

definition new_write_queue :: "('ch, 'sp) QueueOps \<Rightarrow> WriteQueueLimits \<Rightarrow> ('ch, 'sp) WriteQueue" where
  "new_write_queue Q lim =
     \<lparr>wq_limits = lim, wq_queued_bytes = 0, wq_closed = False,
      wq_channel = chan_new (frame_channel Q) (unat (max_frames lim)),
      wq_space_channel = chan_new (space_channel Q) (unat (space_signal_capacity lim)),
      wq_writer = Writer_idle, wq_writes = []\<rparr>"

definition can_fit :: "('ch, 'sp) WriteQueue \<Rightarrow> u64 \<Rightarrow> bool" where
  "can_fit q bytes \<longleftrightarrow>
     \<not> wq_closed q \<and> max_frames (wq_limits q) \<noteq> 0 \<and> bytes \<le> max_bytes (wq_limits q) \<and>
     wq_queued_bytes q \<le> max_bytes (wq_limits q) - bytes"

definition try_enqueue_frame ::
  "('ch, 'sp) QueueOps \<Rightarrow> ('ch, 'sp) WriteQueue \<Rightarrow> Frame \<Rightarrow> ('ch, 'sp) WriteQueue \<times> WriteResult" where
  "try_enqueue_frame Q q f =
     (let bytes = queued_bytes f in
      if \<not> can_fit q bytes then
        (q, WriteResult_failure Status_resource_limit_exceeded ''write queue capacity exceeded'')
      else
        (case chan_try_send (frame_channel Q) (wq_channel q) f of
           (ch, sent) \<Rightarrow>
             if \<not> sent then
               (q\<lparr>wq_channel := ch\<rparr>,
                WriteResult_failure Status_resource_limit_exceeded
                  ''write queue is closed or full'')
             else
               (q\<lparr>wq_channel := ch, wq_queued_bytes := wq_queued_bytes q + bytes\<rparr>,
                WriteResult_success)))"

definition try_enqueue ::
  "('ch, 'sp) QueueOps \<Rightarrow> ('ch, 'sp) WriteQueue \<Rightarrow> Frame \<Rightarrow> ('ch, 'sp) WriteQueue \<times> WriteResult" where
  "try_enqueue Q q f = try_enqueue_frame Q q f"

text \<open>
  \<open>enqueue\<close>: the result, or \<open>None\<close> when the coroutine is suspended in
  \<open>space_channel_.async_receive\<close>. \<open>enqueue_attempt\<close> is one iteration of its loop, up to that
  point; \<open>enqueue_resume\<close> continues after the receive has completed.
\<close>

definition enqueue_attempt ::
  "('ch, 'sp) QueueOps \<Rightarrow> ('ch, 'sp) WriteQueue \<Rightarrow> Frame \<Rightarrow>
     ('ch, 'sp) WriteQueue \<times> WriteResult option" where
  "enqueue_attempt Q q f =
     (case try_enqueue_frame Q q f of
        (q, result) \<Rightarrow>
          if write_ok result then (q, Some result)
          else if wq_closed q then (q, Some result)
          else
            (q\<lparr>wq_space_channel := chan_begin_receive (space_channel Q) (wq_space_channel q)\<rparr>,
             None))"

definition enqueue ::
  "('ch, 'sp) QueueOps \<Rightarrow> ('ch, 'sp) WriteQueue \<Rightarrow> Frame \<Rightarrow>
     ('ch, 'sp) WriteQueue \<times> WriteResult option" where
  "enqueue Q q f =
     (let bytes = queued_bytes f in
      if bytes > max_bytes (wq_limits q) \<or> max_frames (wq_limits q) = 0 then
        (q, Some (WriteResult_failure Status_resource_limit_exceeded
                    ''write queue capacity exceeded''))
      else enqueue_attempt Q q f)"

text \<open>\<open>closed_message\<close> is the text of the channel's error code.\<close>

definition enqueue_resume ::
  "('ch, 'sp) QueueOps \<Rightarrow> string \<Rightarrow> ('ch, 'sp) WriteQueue \<Rightarrow> Frame \<Rightarrow>
     ('ch, 'sp) WriteQueue \<times> WriteResult option" where
  "enqueue_resume Q closed_message q f =
     (case chan_end_receive (space_channel Q) (wq_space_channel q) of
        (sp, ev) \<Rightarrow>
          (let q = q\<lparr>wq_space_channel := sp\<rparr> in
           case ev of
             Channel_pending \<Rightarrow> (q, None)
           | Channel_closed \<Rightarrow>
               (q, Some (WriteResult_failure Status_resource_limit_exceeded closed_message))
           | Channel_message _ \<Rightarrow> enqueue_attempt Q q f))"

definition close_queue :: "('ch, 'sp) QueueOps \<Rightarrow> ('ch, 'sp) WriteQueue \<Rightarrow> ('ch, 'sp) WriteQueue" where
  "close_queue Q q =
     q\<lparr>wq_closed := True, wq_channel := chan_close (frame_channel Q) (wq_channel q),
       wq_space_channel := chan_close (space_channel Q) (wq_space_channel q)\<rparr>"

text \<open>
  \<open>run\<close>: entering the loop (also after each completed write), the completion of the receive,
  and the completion of the transport write, with the error text if the write threw. The last
  also says whether the transport is closed and which frame the observer is told about.
\<close>

definition writer_loop :: "('ch, 'sp) QueueOps \<Rightarrow> ('ch, 'sp) WriteQueue \<Rightarrow> ('ch, 'sp) WriteQueue" where
  "writer_loop Q q =
     q\<lparr>wq_channel := chan_begin_receive (frame_channel Q) (wq_channel q),
       wq_writer := Writer_receiving\<rparr>"

definition writer_received :: "('ch, 'sp) QueueOps \<Rightarrow> ('ch, 'sp) WriteQueue \<Rightarrow> ('ch, 'sp) WriteQueue" where
  "writer_received Q q =
     (case chan_end_receive (frame_channel Q) (wq_channel q) of
        (ch, ev) \<Rightarrow>
          (let q = q\<lparr>wq_channel := ch\<rparr> in
           case ev of
             Channel_pending \<Rightarrow> q
           | Channel_closed \<Rightarrow> q\<lparr>wq_writer := Writer_returned WriteResult_success\<rparr>
           | Channel_message f \<Rightarrow>
               (let q = q\<lparr>wq_queued_bytes := wq_queued_bytes q - queued_bytes f,
                          wq_space_channel :=
                            fst (chan_try_send (space_channel Q) (wq_space_channel q) ())\<rparr>;
                    encoded = encode_frame f in
                q\<lparr>wq_writes := wq_writes q @ [encoded], wq_writer := Writer_writing f encoded\<rparr>)))"

definition writer_wrote ::
  "('ch, 'sp) QueueOps \<Rightarrow> ('ch, 'sp) WriteQueue \<Rightarrow> string option \<Rightarrow>
     ('ch, 'sp) WriteQueue \<times> bool \<times> (Frame \<times> nat) option" where
  "writer_wrote Q q failure =
     (case wq_writer q of
        Writer_writing f encoded \<Rightarrow>
          (case failure of
             None \<Rightarrow> (writer_loop Q q, False, Some (f, length encoded))
           | Some what \<Rightarrow>
               ((close_queue Q q)
                  \<lparr>wq_writer :=
                     Writer_returned (WriteResult_failure Status_transport_error what)\<rparr>,
                True, None))
      | _ \<Rightarrow> (q, False, None))"

section \<open>Invariant\<close>

text \<open>
  The hypothesis on the environment, and the invariant: the byte counter is the total size of
  the frames in the channel, within the limit (so it never wraps), the closed flag agrees with
  the channel, and a receive is in progress exactly while the writer waits for a frame. Frame
  sizes are those of in-memory buffers, below \<open>2 ^ 64\<close>.
\<close>

definition queue_env ::
  "('ch, 'sp) QueueOps \<Rightarrow> ('ch \<Rightarrow> Frame ChannelView) \<Rightarrow> ('sp \<Rightarrow> unit ChannelView) \<Rightarrow> bool" where
  "queue_env Q vf vs \<longleftrightarrow>
     implements_channel (frame_channel Q) vf \<and> implements_channel (space_channel Q) vs"

definition frame_bytes :: "Frame \<Rightarrow> nat" where
  "frame_bytes f = frame_header_size + length (frame_payload f)"

definition representable :: "Frame \<Rightarrow> bool" where
  "representable f \<longleftrightarrow> frame_bytes f < 2 ^ 64"

definition wq_inv :: "('ch \<Rightarrow> Frame ChannelView) \<Rightarrow> ('ch, 'sp) WriteQueue \<Rightarrow> bool" where
  "wq_inv vf q \<longleftrightarrow>
     (let s = vf (wq_channel q) in
      list_all representable (view_buffer s) \<and>
      unat (wq_queued_bytes q) = sum_list (map frame_bytes (view_buffer s)) \<and>
      wq_queued_bytes q \<le> max_bytes (wq_limits q) \<and>
      view_open s = (\<not> wq_closed q) \<and>
      view_capacity s = unat (max_frames (wq_limits q)) \<and>
      length (view_buffer s) \<le> view_capacity s + 1 \<and>
      view_waiting s = (if wq_writer q = Writer_receiving then 1 else 0))"

abbreviation buffer_of :: "('ch \<Rightarrow> Frame ChannelView) \<Rightarrow> ('ch, 'sp) WriteQueue \<Rightarrow> Frame list" where
  "buffer_of vf q \<equiv> view_buffer (vf (wq_channel q))"

lemma unat_queued_bytes: "representable f \<Longrightarrow> unat (queued_bytes f) = frame_bytes f"
  unfolding queued_bytes_def representable_def frame_bytes_def
  by (rule unat_word_of_nat_less) simp

lemma new_write_queue_inv [inv_intros]:
  assumes "queue_env Q vf vs"
  shows "wq_inv vf (new_write_queue Q lim)" and "buffer_of vf (new_write_queue Q lim) = []"
proof -
  have "implements_channel (frame_channel Q) vf" using assms by (simp add: queue_env_def)
  note ch = implements_channelD(1) [OF this]
  show "wq_inv vf (new_write_queue Q lim)" "buffer_of vf (new_write_queue Q lim) = []"
    by (simp_all add: wq_inv_def new_write_queue_def ch view_new_def Let_def)
qed

text \<open>The byte counter does not wrap around when a frame that fits is added or a queued one removed.\<close>

lemma add_frame_inv:
  assumes inv: "wq_inv vf q" and rep: "representable f" and fit: "can_fit q (queued_bytes f)"
    and vch: "vf ch = (vf (wq_channel q))\<lparr>view_buffer := buffer_of vf q @ [f]\<rparr>"
    and room: "length (buffer_of vf q) < view_capacity (vf (wq_channel q)) + view_waiting (vf (wq_channel q))"
  shows "wq_inv vf (q\<lparr>wq_channel := ch, wq_queued_bytes := wq_queued_bytes q + queued_bytes f\<rparr>)"
    and "unat (wq_queued_bytes q) + frame_bytes f \<le> unat (max_bytes (wq_limits q))"
proof -
  have le: "wq_queued_bytes q \<le> max_bytes (wq_limits q) - queued_bytes f"
    "queued_bytes f \<le> max_bytes (wq_limits q)"
    using fit by (simp_all add: can_fit_def)
  have sum: "unat (queued_bytes f + wq_queued_bytes q) = frame_bytes f + unat (wq_queued_bytes q)"
    using unat_add_no_wrap [OF le(2,1)] unat_queued_bytes [OF rep] by simp
  show bound: "unat (wq_queued_bytes q) + frame_bytes f \<le> unat (max_bytes (wq_limits q))"
    using unat_diff_split [OF le(2)] le(1) unat_queued_bytes [OF rep] by (simp add: word_le_nat_alt)
  show "wq_inv vf (q\<lparr>wq_channel := ch, wq_queued_bytes := wq_queued_bytes q + queued_bytes f\<rparr>)"
    using inv rep room sum bound vch
    by (auto simp: wq_inv_def Let_def word_le_nat_alt add.commute split: if_splits)
qed

lemma remove_frame_bytes:
  assumes "wq_inv vf q" and "buffer_of vf q = f # fs"
  shows "unat (wq_queued_bytes q - queued_bytes f) = sum_list (map frame_bytes fs)"
    and "unat (wq_queued_bytes q) = frame_bytes f + sum_list (map frame_bytes fs)"
proof -
  have rep: "representable f" using assms by (simp add: wq_inv_def Let_def)
  show total: "unat (wq_queued_bytes q) = frame_bytes f + sum_list (map frame_bytes fs)"
    using assms by (simp add: wq_inv_def Let_def)
  then have "queued_bytes f \<le> wq_queued_bytes q"
    using unat_queued_bytes [OF rep] by (simp add: word_le_nat_alt)
  from unat_diff_split [OF this] show "unat (wq_queued_bytes q - queued_bytes f) = sum_list (map frame_bytes fs)"
    using total unat_queued_bytes [OF rep] by simp
qed

text \<open>The two outcomes of an attempt to enqueue.\<close>

lemma try_enqueue_cases:
  assumes env: "queue_env Q vf vs" and inv: "wq_inv vf q" and rep: "representable f"
  obtains
    (accepted) q' where "try_enqueue_frame Q q f = (q', WriteResult_success)" "wq_inv vf q'"
      "buffer_of vf q' = buffer_of vf q @ [f]" "wq_writes q' = wq_writes q"
      "wq_limits q' = wq_limits q" "wq_closed q' = wq_closed q" "wq_writer q' = wq_writer q"
      "\<not> wq_closed q" "unat (wq_queued_bytes q) + frame_bytes f \<le> unat (max_bytes (wq_limits q))"
  | (rejected) q' msg where
      "try_enqueue_frame Q q f =
         (q', WriteResult_failure Status_resource_limit_exceeded msg)" "wq_inv vf q'"
      "buffer_of vf q' = buffer_of vf q" "wq_writes q' = wq_writes q"
      "wq_limits q' = wq_limits q" "wq_closed q' = wq_closed q" "wq_writer q' = wq_writer q"
proof -
  have impl: "implements_channel (frame_channel Q) vf" using env by (simp add: queue_env_def)
  obtain ch sent where snd_eq: "chan_try_send (frame_channel Q) (wq_channel q) f = (ch, sent)"
    by fastforce
  note send = implements_channelD(2,3) [OF impl, of "wq_channel q" f, unfolded snd_eq]
  show thesis
  proof (cases "can_fit q (queued_bytes f)")
    case False
    then have "try_enqueue_frame Q q f = (q, WriteResult_failure Status_resource_limit_exceeded
        ''write queue capacity exceeded'')"
      by (simp add: try_enqueue_frame_def Let_def)
    then show thesis using rejected inv by blast
  next
    case fit: True
    show thesis
    proof (cases sent)
      case False
      let ?q = "q\<lparr>wq_channel := ch\<rparr>"
      have vch: "vf ch = vf (wq_channel q)"
        using send False by (auto simp: view_try_send_def split: if_splits)
      then have "try_enqueue_frame Q q f = (?q, WriteResult_failure
          Status_resource_limit_exceeded ''write queue is closed or full'')"
        and "wq_inv vf ?q"
        using fit False snd_eq inv by (simp_all add: try_enqueue_frame_def wq_inv_def Let_def)
      then show thesis using rejected [of ?q] vch by simp
    next
      case True
      let ?q = "q\<lparr>wq_channel := ch, wq_queued_bytes := wq_queued_bytes q + queued_bytes f\<rparr>"
      let ?s = "vf (wq_channel q)"
      have vch: "vf ch = ?s\<lparr>view_buffer := view_buffer ?s @ [f]\<rparr>"
        and room: "length (view_buffer ?s) < view_capacity ?s + view_waiting ?s"
        using send True by (auto simp: view_try_send_def view_accepts_def split: if_splits)
      note add = add_frame_inv [OF inv rep fit vch room]
      have "try_enqueue_frame Q q f = (?q, WriteResult_success)"
        using fit True snd_eq by (simp add: try_enqueue_frame_def Let_def)
      moreover have "\<not> wq_closed q" using fit by (simp add: can_fit_def)
      ultimately show thesis using accepted [of ?q] vch add by simp
    qed
  qed
qed

section \<open>The other operations\<close>

lemma close_queue_inv [inv_intros]:
  assumes "queue_env Q vf vs" and "wq_inv vf q"
  shows "wq_inv vf (close_queue Q q)" and "buffer_of vf (close_queue Q q) = buffer_of vf q"
    and "wq_writes (close_queue Q q) = wq_writes q"
    and "wq_writer (close_queue Q q) = wq_writer q"
proof -
  have "implements_channel (frame_channel Q) vf" using assms(1) by (simp add: queue_env_def)
  note ch = implements_channelD(7) [OF this]
  show "wq_inv vf (close_queue Q q)" "buffer_of vf (close_queue Q q) = buffer_of vf q"
    "wq_writes (close_queue Q q) = wq_writes q" "wq_writer (close_queue Q q) = wq_writer q"
    using assms(2) by (simp_all add: wq_inv_def close_queue_def ch view_close_def Let_def)
qed

lemma writer_loop_inv [inv_intros]:
  assumes "queue_env Q vf vs" and "wq_inv vf q" and "wq_writer q \<noteq> Writer_receiving"
  shows "wq_inv vf (writer_loop Q q)" and "buffer_of vf (writer_loop Q q) = buffer_of vf q"
    and "wq_writes (writer_loop Q q) = wq_writes q"
proof -
  have "implements_channel (frame_channel Q) vf" using assms(1) by (simp add: queue_env_def)
  note ch = implements_channelD(4) [OF this]
  show "wq_inv vf (writer_loop Q q)" "buffer_of vf (writer_loop Q q) = buffer_of vf q"
    "wq_writes (writer_loop Q q) = wq_writes q"
    using assms(2,3) by (simp_all add: wq_inv_def writer_loop_def ch view_begin_receive_def Let_def)
qed

text \<open>What the completion of the writer's receive does, by the contents of the channel.\<close>

lemma writer_received_cases:
  assumes env: "queue_env Q vf vs" and inv: "wq_inv vf q" and w: "wq_writer q = Writer_receiving"
  obtains
    (frame) f fs where "buffer_of vf q = f # fs" "wq_inv vf (writer_received Q q)"
      "buffer_of vf (writer_received Q q) = fs"
      "wq_writes (writer_received Q q) = wq_writes q @ [encode_frame f]"
      "wq_writer (writer_received Q q) = Writer_writing f (encode_frame f)"
      "unat (wq_queued_bytes (writer_received Q q)) =
         unat (wq_queued_bytes q) - frame_bytes f"
  | (finished) "buffer_of vf q = []" "wq_closed q" "wq_inv vf (writer_received Q q)"
      "buffer_of vf (writer_received Q q) = []" "wq_writes (writer_received Q q) = wq_writes q"
      "wq_writer (writer_received Q q) = Writer_returned WriteResult_success"
  | (waiting) "buffer_of vf q = []" "\<not> wq_closed q" "wq_inv vf (writer_received Q q)"
      "buffer_of vf (writer_received Q q) = []" "wq_writes (writer_received Q q) = wq_writes q"
      "wq_writer (writer_received Q q) = Writer_receiving"
proof -
  have impl: "implements_channel (frame_channel Q) vf" using env by (simp add: queue_env_def)
  let ?s = "vf (wq_channel q)"
  obtain ch ev where rcv: "chan_end_receive (frame_channel Q) (wq_channel q) = (ch, ev)"
    by fastforce
  note e = implements_channelD(5,6) [OF impl, of "wq_channel q", unfolded rcv view_end_receive_def]
  have open_iff: "view_open ?s = (\<not> wq_closed q)" using inv by (simp add: wq_inv_def Let_def)
  show thesis
  proof (cases "view_buffer ?s")
    case Nil
    show thesis
    proof (cases "wq_closed q")
      case True
      with e Nil open_iff have vch: "vf ch = ?s\<lparr>view_waiting := view_waiting ?s - 1\<rparr>"
        and ev: "ev = Channel_closed" by simp_all
      have rw: "writer_received Q q =
          q\<lparr>wq_channel := ch, wq_writer := Writer_returned WriteResult_success\<rparr>"
        by (simp add: writer_received_def rcv ev)
      show thesis
        using finished Nil True inv w by (simp add: rw vch wq_inv_def Let_def)
    next
      case False
      with e Nil open_iff have vch: "vf ch = ?s" and ev: "ev = Channel_pending" by simp_all
      have rw: "writer_received Q q = q\<lparr>wq_channel := ch\<rparr>"
        by (simp add: writer_received_def rcv ev)
      show thesis
        using waiting Nil False inv w by (simp add: rw vch wq_inv_def Let_def)
    qed
  next
    case (Cons f fs)
    with e have vch: "vf ch = ?s\<lparr>view_buffer := fs, view_waiting := view_waiting ?s - 1\<rparr>"
      and ev: "ev = Channel_message f" by simp_all
    have rw: "wq_channel (writer_received Q q) = ch"
      "wq_queued_bytes (writer_received Q q) = wq_queued_bytes q - queued_bytes f"
      "wq_limits (writer_received Q q) = wq_limits q" "wq_closed (writer_received Q q) = wq_closed q"
      "wq_writer (writer_received Q q) = Writer_writing f (encode_frame f)"
      "wq_writes (writer_received Q q) = wq_writes q @ [encode_frame f]"
      by (simp_all add: writer_received_def rcv ev Let_def)
    note sub = remove_frame_bytes [OF inv Cons]
    have "wq_inv vf (writer_received Q q)"
      using inv w Cons sub
      by (auto simp: wq_inv_def Let_def rw vch word_le_nat_alt)
    then show thesis
      using frame [of f fs] Cons rw vch sub by simp
  qed
qed

text \<open>One event at the queue, with the frames it accepts.\<close>

datatype QueueEvent =
  Queue_try_enqueue Frame | Queue_enqueue Frame | Queue_resume string Frame | Queue_close
| Queue_run | Queue_received | Queue_wrote "string option"

definition accepted_frame :: "WriteResult option \<Rightarrow> Frame \<Rightarrow> Frame list" where
  "accepted_frame r f = (case r of Some res \<Rightarrow> if write_ok res then [f] else [] | None \<Rightarrow> [])"

fun queue_event ::
  "('ch, 'sp) QueueOps \<Rightarrow> ('ch, 'sp) WriteQueue \<Rightarrow> QueueEvent \<Rightarrow> ('ch, 'sp) WriteQueue \<times> Frame list" where
  "queue_event Q q (Queue_try_enqueue f) =
     (case try_enqueue Q q f of (q', r) \<Rightarrow> (q', accepted_frame (Some r) f))"
| "queue_event Q q (Queue_enqueue f) =
     (case enqueue Q q f of (q', r) \<Rightarrow> (q', accepted_frame r f))"
| "queue_event Q q (Queue_resume msg f) =
     (case enqueue_resume Q msg q f of (q', r) \<Rightarrow> (q', accepted_frame r f))"
| "queue_event Q q Queue_close = (close_queue Q q, [])"
| "queue_event Q q Queue_run =
     (if wq_writer q = Writer_idle then (writer_loop Q q, []) else (q, []))"
| "queue_event Q q Queue_received =
     (if wq_writer q = Writer_receiving then (writer_received Q q, []) else (q, []))"
| "queue_event Q q (Queue_wrote failure) = (fst (writer_wrote Q q failure), [])"

fun queue_run ::
  "('ch, 'sp) QueueOps \<Rightarrow> ('ch, 'sp) WriteQueue \<Rightarrow> QueueEvent list \<Rightarrow>
     ('ch, 'sp) WriteQueue \<times> Frame list" where
  "queue_run Q q [] = (q, [])"
| "queue_run Q q (e # es) =
     (case queue_event Q q e of (q1, acc) \<Rightarrow>
        (case queue_run Q q1 es of (q2, acc') \<Rightarrow> (q2, acc @ acc')))"

fun event_representable :: "QueueEvent \<Rightarrow> bool" where
  "event_representable (Queue_try_enqueue f) = representable f"
| "event_representable (Queue_enqueue f) = representable f"
| "event_representable (Queue_resume _ f) = representable f"
| "event_representable _ = True"

text \<open>
  Everything handed to the transport and everything still buffered is, in order, what had been
  handed over and buffered before, followed by what the event accepted.
\<close>

definition queue_contents :: "('ch \<Rightarrow> Frame ChannelView) \<Rightarrow> ('ch, 'sp) WriteQueue \<Rightarrow> Buffer list" where
  "queue_contents vf q = wq_writes q @ map encode_frame (buffer_of vf q)"

lemma space_channel_irrelevant [simp]:
  "wq_inv vf (q\<lparr>wq_space_channel := sp\<rparr>) = wq_inv vf q"
  "queue_contents vf (q\<lparr>wq_space_channel := sp\<rparr>) = queue_contents vf q"
  by (simp_all add: wq_inv_def queue_contents_def)

lemma enqueue_attempt_step:
  assumes "queue_env Q vf vs" and "wq_inv vf q" and "representable f"
    and "enqueue_attempt Q q f = (q', r)"
  shows "wq_inv vf q' \<and> queue_contents vf q' =
     queue_contents vf q @ map encode_frame (accepted_frame r f)"
proof (cases rule: try_enqueue_cases [OF assms(1-3)])
  case (1 q1)
  then show ?thesis
    using assms(4)
    by (auto simp: enqueue_attempt_def write_ok_def WriteResult_success_def accepted_frame_def
        queue_contents_def)
next
  case (2 q1 msg)
  then show ?thesis
    using assms(4)
    by (auto simp: enqueue_attempt_def write_ok_def WriteResult_failure_def accepted_frame_def
        queue_contents_def wq_inv_def split: if_splits)
qed

lemma try_enqueue_step:
  assumes "queue_env Q vf vs" and "wq_inv vf q" and "representable f"
    and "try_enqueue Q q f = (q', r)"
  shows "wq_inv vf q' \<and> queue_contents vf q' =
     queue_contents vf q @ map encode_frame (accepted_frame (Some r) f)"
proof (cases rule: try_enqueue_cases [OF assms(1-3)])
  case (1 q1)
  then show ?thesis
    using assms(4) by (auto simp: try_enqueue_def write_ok_def WriteResult_success_def
        accepted_frame_def queue_contents_def)
next
  case (2 q1 msg)
  then show ?thesis
    using assms(4) by (auto simp: try_enqueue_def write_ok_def WriteResult_failure_def
        accepted_frame_def queue_contents_def)
qed

lemma enqueue_step:
  assumes "queue_env Q vf vs" and "wq_inv vf q" and "representable f"
    and "enqueue Q q f = (q', r)"
  shows "wq_inv vf q' \<and> queue_contents vf q' =
     queue_contents vf q @ map encode_frame (accepted_frame r f)"
  using assms enqueue_attempt_step [OF assms(1-3), of q' r]
  by (auto simp: enqueue_def Let_def accepted_frame_def write_ok_def WriteResult_failure_def
      split: if_splits)

lemma enqueue_resume_step:
  assumes "queue_env Q vf vs" and "wq_inv vf q" and "representable f"
    and "enqueue_resume Q msg q f = (q', r)"
  shows "wq_inv vf q' \<and> queue_contents vf q' =
     queue_contents vf q @ map encode_frame (accepted_frame r f)"
proof -
  obtain sp ev where rcv: "chan_end_receive (space_channel Q) (wq_space_channel q) = (sp, ev)"
    by fastforce
  have "wq_inv vf (q\<lparr>wq_space_channel := sp\<rparr>)" using assms(2) by simp
  note at = enqueue_attempt_step [OF assms(1) this assms(3), of q' r]
  show ?thesis
    using assms(2,4) at
    by (cases ev) (auto simp: enqueue_resume_def rcv accepted_frame_def write_ok_def
        WriteResult_failure_def Let_def)
qed

lemma writer_wrote_step:
  assumes "queue_env Q vf vs" and "wq_inv vf q"
  shows "wq_inv vf (fst (writer_wrote Q q failure)) \<and>
     queue_contents vf (fst (writer_wrote Q q failure)) = queue_contents vf q"
proof (cases "\<exists>f bs. wq_writer q = Writer_writing f bs")
  case True
  then have ready: "wq_writer q \<noteq> Writer_receiving" by auto
  have "wq_inv vf ((close_queue Q q)\<lparr>wq_writer := Writer_returned r\<rparr>)" for r
    using close_queue_inv(1,4) [OF assms] ready by (simp add: wq_inv_def Let_def)
  with True writer_loop_inv [OF assms ready] close_queue_inv [OF assms] show ?thesis
    by (auto simp: writer_wrote_def queue_contents_def split: option.splits)
next
  case False
  then show ?thesis using assms by (auto simp: writer_wrote_def split: Writer.splits)
qed

lemma writer_received_step:
  assumes "queue_env Q vf vs" and "wq_inv vf q" and "wq_writer q = Writer_receiving"
  shows "wq_inv vf (writer_received Q q) \<and>
     queue_contents vf (writer_received Q q) = queue_contents vf q"
  by (cases rule: writer_received_cases [OF assms]) (simp_all add: queue_contents_def)

lemma queue_event_step:
  assumes "queue_env Q vf vs" and "wq_inv vf q" and "event_representable e"
  shows "wq_inv vf (fst (queue_event Q q e)) \<and>
     queue_contents vf (fst (queue_event Q q e)) =
       queue_contents vf q @ map encode_frame (snd (queue_event Q q e))"
proof (cases e)
  case (Queue_try_enqueue f)
  with assms try_enqueue_step [OF assms(1,2), of f] show ?thesis by (auto split: prod.splits)
next
  case (Queue_enqueue f)
  with assms enqueue_step [OF assms(1,2), of f] show ?thesis by (auto split: prod.splits)
next
  case (Queue_resume msg f)
  with assms enqueue_resume_step [OF assms(1,2), of f msg] show ?thesis
    by (auto split: prod.splits)
next
  case Queue_close
  with close_queue_inv [OF assms(1,2)] show ?thesis by (simp add: queue_contents_def)
next
  case Queue_run
  with writer_loop_inv [OF assms(1,2)] assms(2) show ?thesis by (simp add: queue_contents_def)
next
  case Queue_received
  with writer_received_step [OF assms(1,2)] assms(2) show ?thesis by simp
next
  case (Queue_wrote failure)
  with writer_wrote_step [OF assms(1,2)] show ?thesis by simp
qed

lemma queue_run_step:
  assumes "queue_env Q vf vs" and "wq_inv vf q" and "list_all event_representable es"
  shows "wq_inv vf (fst (queue_run Q q es)) \<and>
     queue_contents vf (fst (queue_run Q q es)) =
       queue_contents vf q @ map encode_frame (snd (queue_run Q q es))"
  using assms(2,3)
proof (induction es arbitrary: q)
  case (Cons e es)
  with queue_event_step [OF assms(1) Cons.prems(1), of e] Cons.IH [of "fst (queue_event Q q e)"]
  show ?case by (simp add: case_prod_beta)
qed simp

lemma queue_event_limits: "wq_limits (fst (queue_event Q q e)) = wq_limits q"
  by (cases e)
    (auto simp: try_enqueue_def try_enqueue_frame_def enqueue_def enqueue_attempt_def
      enqueue_resume_def close_queue_def writer_loop_def writer_received_def writer_wrote_def Let_def
      split: prod.splits ChannelEvent.splits Writer.splits option.splits)

lemma queue_run_limits: "wq_limits (fst (queue_run Q q es)) = wq_limits q"
proof (induction es arbitrary: q)
  case (Cons e es)
  show ?case
    using Cons.IH [of "fst (queue_event Q q e)"] queue_event_limits [of Q q e]
    by (simp add: case_prod_beta)
qed simp

section \<open>Draining\<close>

text \<open>A writer whose transport keeps up: every write completes without error.\<close>

fun drain :: "nat \<Rightarrow> ('ch, 'sp) QueueOps \<Rightarrow> ('ch, 'sp) WriteQueue \<Rightarrow> ('ch, 'sp) WriteQueue" where
  "drain 0 Q q = q"
| "drain (Suc n) Q q =
     (let q = writer_received Q q in
      case wq_writer q of
        Writer_writing _ _ \<Rightarrow> drain n Q (fst (writer_wrote Q q None))
      | _ \<Rightarrow> q)"

lemma wrote_ok:
  "wq_writer q = Writer_writing f bs \<Longrightarrow> fst (writer_wrote Q q None) = writer_loop Q q"
  by (simp add: writer_wrote_def)

text \<open>
  A closed queue drains: after one round per buffered frame, and one to see the channel closed,
  everything has been handed to the transport in order and \<open>run\<close> has returned successfully.
\<close>

lemma drain_closed:
  assumes "queue_env Q vf vs" and "wq_inv vf q" and "wq_closed q"
    and "wq_writer q = Writer_receiving" and "length (buffer_of vf q) < n"
  shows "wq_writer (drain n Q q) = Writer_returned WriteResult_success \<and>
     wq_writes (drain n Q q) = wq_writes q @ map encode_frame (buffer_of vf q)"
  using assms(2-)
proof (induction n arbitrary: q)
  case (Suc n)
  show ?case
  proof (cases rule: writer_received_cases [OF assms(1) Suc.prems(1,3)])
    case (1 f fs)
    let ?q = "writer_received Q q"
    have closed: "wq_closed ?q"
      using Suc.prems(2) by (auto simp: writer_received_def Let_def split: prod.splits
          ChannelEvent.splits)
    have "wq_writer ?q \<noteq> Writer_receiving" by (simp add: 1)
    note loop = writer_loop_inv [OF assms(1) 1(2) this]
    have "wq_writer (drain n Q (writer_loop Q ?q)) = Writer_returned WriteResult_success \<and>
       wq_writes (drain n Q (writer_loop Q ?q)) =
         wq_writes (writer_loop Q ?q) @ map encode_frame (buffer_of vf (writer_loop Q ?q))"
      using Suc.prems(4) 1 loop closed by (intro Suc.IH) (simp_all add: writer_loop_def)
    then show ?thesis
      using 1 loop by (simp add: wrote_ok)
  next
    case 2
    then show ?thesis by simp
  next
    case 3
    then show ?thesis using Suc.prems(2) by simp
  qed
qed simp

text \<open>
  A writer on any transport: \<open>ws\<close> says how the writes it starts end, one after the other, each
  with success (\<open>None\<close>) or with the text of the error that was thrown.
\<close>

fun write_out ::
  "('ch, 'sp) QueueOps \<Rightarrow> ('ch, 'sp) WriteQueue \<Rightarrow> string option list \<Rightarrow> ('ch, 'sp) WriteQueue" where
  "write_out Q q [] = q"
| "write_out Q q (w # ws) =
     (if wq_writer q = Writer_receiving
      then write_out Q (fst (writer_wrote Q (writer_received Q q) w)) ws else q)"

fun first_failure :: "string option list \<Rightarrow> string option" where
  "first_failure [] = None"
| "first_failure (w # ws) = (case w of None \<Rightarrow> first_failure ws | Some what \<Rightarrow> Some what)"

definition writes_started :: "string option list \<Rightarrow> nat" where
  "writes_started ws = Suc (length (takeWhile (\<lambda>w. w = None) ws))"

lemma write_out_stopped: "wq_writer q \<noteq> Writer_receiving \<Longrightarrow> write_out Q q ws = q"
  by (cases ws) simp_all

text \<open>
  Once the queue is closed \<open>run\<close> returns whatever the transport does: with success when every
  queued frame has been written, and with \<open>transport_error\<close> at the first write that fails, after
  which nothing more is handed to the transport.
\<close>

lemma write_out_closed:
  assumes "queue_env Q vf vs" and "wq_inv vf q" and "wq_closed q"
    and "wq_writer q = Writer_receiving" and "length (buffer_of vf q) < length ws"
  shows "wq_writer (write_out Q q ws) = Writer_returned
       (case first_failure (take (length (buffer_of vf q)) ws) of
          None \<Rightarrow> WriteResult_success | Some what \<Rightarrow> WriteResult_failure Status_transport_error what) \<and>
     wq_writes (write_out Q q ws) =
       wq_writes q @ map encode_frame (take (writes_started ws) (buffer_of vf q))"
  using assms(2-)
proof (induction ws arbitrary: q)
  case (Cons w ws)
  let ?q = "writer_received Q q"
  show ?case
  proof (cases rule: writer_received_cases [OF assms(1) Cons.prems(1,3)])
    case (1 f fs)
    have closed: "wq_closed ?q"
      using Cons.prems(2) by (auto simp: writer_received_def Let_def split: prod.splits
          ChannelEvent.splits)
    show ?thesis
    proof (cases w)
      case None
      have "wq_writer ?q \<noteq> Writer_receiving" by (simp add: 1)
      note loop = writer_loop_inv [OF assms(1) 1(2) this]
      have wrote: "fst (writer_wrote Q ?q w) = writer_loop Q ?q" using None 1(5) by (simp add: wrote_ok)
      have "wq_closed (writer_loop Q ?q)" "wq_writer (writer_loop Q ?q) = Writer_receiving"
        using closed by (simp_all add: writer_loop_def)
      from Cons.IH [OF loop(1) this] show ?thesis
        using Cons.prems(3,4) 1 loop None by (simp add: wrote [unfolded None] writes_started_def)
    next
      case (Some what)
      then have wrote: "fst (writer_wrote Q ?q w) = (close_queue Q ?q)
          \<lparr>wq_writer := Writer_returned (WriteResult_failure Status_transport_error what)\<rparr>"
        using 1(5) by (simp add: writer_wrote_def)
      show ?thesis
        using Cons.prems(3) 1 Some by (simp add: wrote [unfolded Some] write_out_stopped writes_started_def)
          (simp add: close_queue_def)
    qed
  next
    case 2
    then show ?thesis
      using Cons.prems(3) by (simp add: write_out_stopped writer_wrote_def)
  next
    case 3
    then show ?thesis using Cons.prems(2) by simp
  qed
qed simp

section \<open>The interface a connection relies on\<close>

text \<open>
  For its owner the queue is a write path: a frame is either appended to what will reach the
  transport or refused with nothing changed, and after closing it is always refused.
\<close>

locale write_path =
  fixes send :: "'q \<Rightarrow> Frame \<Rightarrow> 'q \<times> WriteResult"
    and shut :: "'q \<Rightarrow> 'q"
    and contents :: "'q \<Rightarrow> Buffer list"
    and is_shut :: "'q \<Rightarrow> bool"
    and ok :: "'q \<Rightarrow> bool"
  assumes send_ok: "ok q \<Longrightarrow> representable f \<Longrightarrow> ok (fst (send q f))"
    and send_contents: "ok q \<Longrightarrow> representable f \<Longrightarrow>
      contents (fst (send q f)) =
        contents q @ (if write_ok (snd (send q f)) then [encode_frame f] else [])"
    and send_shut: "is_shut q \<Longrightarrow> \<not> write_ok (snd (send q f)) \<and> fst (send q f) = q"
    and shut_ok: "ok q \<Longrightarrow> ok (shut q)"
    and shut_contents: "ok q \<Longrightarrow> contents (shut q) = contents q"
    and shut_shut: "is_shut (shut q)"
begin

primrec send_all :: "'q \<Rightarrow> Frame list \<Rightarrow> 'q \<times> Frame list" where
  "send_all q [] = (q, [])"
| "send_all q (f # fs) =
     (let r = send q f; rest = send_all (fst r) fs in
      (fst rest, (if write_ok (snd r) then [f] else []) @ snd rest))"

lemma send_all_contents:
  "ok q \<Longrightarrow> list_all representable fs \<Longrightarrow>
     ok (fst (send_all q fs)) \<and>
     contents (fst (send_all q fs)) = contents q @ map encode_frame (snd (send_all q fs))"
proof (induction fs arbitrary: q)
  case (Cons f fs)
  then show ?case
    using Cons.IH [of "fst (send q f)"] send_ok [of q f] send_contents [of q f]
    by (simp add: Let_def)
qed simp

lemma shut_sends_nothing: "send_all (shut q) fs = (shut q, [])"
proof (induction fs)
  case (Cons f fs)
  then show ?case using send_shut [OF shut_shut, of q f] by (simp add: Let_def)
qed simp

end

lemma closed_try_enqueue:
  assumes "wq_closed q"
  shows "try_enqueue Q q f =
     (q, WriteResult_failure Status_resource_limit_exceeded ''write queue capacity exceeded'')"
  using assms by (simp add: try_enqueue_def try_enqueue_frame_def can_fit_def Let_def)

interpretation wq_path: write_path
  "try_enqueue Q" "close_queue Q" "queue_contents vf" wq_closed
  "\<lambda>q. queue_env Q vf vs \<and> wq_inv vf q"
  for Q :: "('ch, 'sp) QueueOps" and vf vs
proof
  fix q :: "('ch, 'sp) WriteQueue" and f
  assume ok: "queue_env Q vf vs \<and> wq_inv vf q" and "representable f"
  with try_enqueue_step [of Q vf vs q f]
  show "queue_env Q vf vs \<and> wq_inv vf (fst (try_enqueue Q q f))"
    and "queue_contents vf (fst (try_enqueue Q q f)) =
      queue_contents vf q @ (if write_ok (snd (try_enqueue Q q f)) then [encode_frame f] else [])"
    by (cases "try_enqueue Q q f"; auto simp: accepted_frame_def)+
next
  fix q :: "('ch, 'sp) WriteQueue" and f
  assume "wq_closed q"
  then show "\<not> write_ok (snd (try_enqueue Q q f)) \<and> fst (try_enqueue Q q f) = q"
    by (simp add: closed_try_enqueue write_ok_def WriteResult_failure_def)
next
  fix q :: "('ch, 'sp) WriteQueue"
  assume "queue_env Q vf vs \<and> wq_inv vf q"
  with close_queue_inv [of Q vf vs q]
  show "queue_env Q vf vs \<and> wq_inv vf (close_queue Q q)"
    and "queue_contents vf (close_queue Q q) = queue_contents vf q"
    by (simp_all add: queue_contents_def)
qed (simp add: close_queue_def)

section \<open>Properties of the component\<close>

text \<open>The channels of a queue instantiated with the documented behaviour, for examples.\<close>

definition reference_queue_ops :: "(Frame ChannelView, unit ChannelView) QueueOps" where
  "reference_queue_ops = \<lparr>frame_channel = reference_channel, space_channel = reference_channel\<rparr>"

lemma reference_queue_env: "queue_env reference_queue_ops id id"
  by (simp add: queue_env_def reference_queue_ops_def reference_channel_implements)

text \<open>
  Property C16. Under any interleaving of senders, resumptions, closing and the writer, the
  byte strings handed to the transport followed by those still queued are exactly the accepted
  frames, each encoded once, in the order in which they were accepted.
\<close>

theorem write_queue_fifo:
  assumes "queue_env Q vf vs" and "list_all event_representable es"
  shows "wq_writes (fst (queue_run Q (new_write_queue Q lim) es)) @
       map encode_frame (view_buffer (vf (wq_channel (fst (queue_run Q (new_write_queue Q lim) es))))) =
     map encode_frame (snd (queue_run Q (new_write_queue Q lim) es))"
  using queue_run_step [OF assms(1) new_write_queue_inv(1) [OF assms(1)] assms(2), of lim]
    new_write_queue_inv(2) [OF assms(1), of lim]
  by (simp add: queue_contents_def) (simp add: new_write_queue_def)

definition tiny_frame :: Frame where
  "tiny_frame = \<lparr>frame_header = default_header\<lparr>header_stream := StreamId 1\<rparr>, frame_payload = []\<rparr>"

lemma tiny_frame_representable: "representable tiny_frame"
  by (simp add: representable_def frame_bytes_def tiny_frame_def frame_header_size_def)

theorem write_queue_fifo_witness:
  "wq_writes (fst (queue_run reference_queue_ops (new_write_queue reference_queue_ops default_limits)
     [Queue_run, Queue_try_enqueue tiny_frame, Queue_received])) @
   map encode_frame (view_buffer (wq_channel (fst (queue_run reference_queue_ops
     (new_write_queue reference_queue_ops default_limits)
     [Queue_run, Queue_try_enqueue tiny_frame, Queue_received])))) =
   map encode_frame (snd (queue_run reference_queue_ops
     (new_write_queue reference_queue_ops default_limits)
     [Queue_run, Queue_try_enqueue tiny_frame, Queue_received]))"
  using write_queue_fifo [OF reference_queue_env, of "[Queue_run, Queue_try_enqueue tiny_frame,
      Queue_received]" default_limits]
  by (simp add: tiny_frame_representable)

text \<open>
  Property C25. The queue's limits hold at every moment of every such run: the byte count, kept
  in a 64-bit counter that never wraps around, is the total encoded size of the queued frames
  and at most \<open>max_bytes\<close>, and at most \<open>max_frames\<close> frames are queued beside the one that is handed
  to a waiting writer.
\<close>

theorem write_queue_bounded:
  assumes "queue_env Q vf vs" and "list_all event_representable es"
  shows "unat (wq_queued_bytes (fst (queue_run Q (new_write_queue Q lim) es))) =
       sum_list (map frame_bytes
         (view_buffer (vf (wq_channel (fst (queue_run Q (new_write_queue Q lim) es)))))) \<and>
     wq_queued_bytes (fst (queue_run Q (new_write_queue Q lim) es)) \<le> max_bytes lim \<and>
     length (view_buffer (vf (wq_channel (fst (queue_run Q (new_write_queue Q lim) es))))) \<le>
       unat (max_frames lim) + 1"
proof -
  let ?q = "fst (queue_run Q (new_write_queue Q lim) es)"
  have "wq_inv vf ?q"
    using queue_run_step [OF assms(1) new_write_queue_inv(1) [OF assms(1)] assms(2)] by blast
  moreover have "wq_limits ?q = lim"
    using queue_run_limits [of Q "new_write_queue Q lim" es] by (simp add: new_write_queue_def)
  ultimately show ?thesis by (simp add: wq_inv_def Let_def)
qed

theorem write_queue_bounded_witness:
  "wq_queued_bytes (fst (queue_run reference_queue_ops
       (new_write_queue reference_queue_ops \<lparr>max_frames = 1, max_bytes = 20\<rparr>)
       [Queue_try_enqueue tiny_frame, Queue_try_enqueue tiny_frame])) \<le> 20"
  using write_queue_bounded [OF reference_queue_env, of "[Queue_try_enqueue tiny_frame,
      Queue_try_enqueue tiny_frame]" "\<lparr>max_frames = 1, max_bytes = 20\<rparr>"]
  by (simp add: tiny_frame_representable)

text \<open>
  Closing the queue loses nothing: once a run has been followed by closing it and
  the writer waits for frames, a transport that keeps writing receives every frame that was
  accepted, in order, and then \<open>run\<close> returns with success.
\<close>

lemma closed_queue_drains:
  assumes "queue_env Q vf vs" and "list_all event_representable es"
    and "wq_writer (fst (queue_run Q (new_write_queue Q lim) es)) = Writer_receiving"
  shows "\<exists>n. wq_writer (drain n Q (close_queue Q (fst (queue_run Q (new_write_queue Q lim) es)))) =
         Writer_returned WriteResult_success \<and>
     wq_writes (drain n Q (close_queue Q (fst (queue_run Q (new_write_queue Q lim) es)))) =
       map encode_frame (snd (queue_run Q (new_write_queue Q lim) es))"
proof -
  let ?q = "fst (queue_run Q (new_write_queue Q lim) es)"
  note step = queue_run_step [OF assms(1) new_write_queue_inv(1) [OF assms(1)] assms(2), of lim]
  have inv: "wq_inv vf ?q" using step by blast
  note close = close_queue_inv [OF assms(1) inv]
  have "wq_closed (close_queue Q ?q)" by (simp add: close_queue_def)
  moreover obtain n where "length (buffer_of vf (close_queue Q ?q)) < n" by blast
  moreover have "wq_writer (close_queue Q ?q) = Writer_receiving" using close(4) assms(3) by simp
  ultimately have "wq_writer (drain n Q (close_queue Q ?q)) = Writer_returned WriteResult_success \<and>
    wq_writes (drain n Q (close_queue Q ?q)) = queue_contents vf ?q"
    using drain_closed [OF assms(1) close(1), of n] close by (simp add: queue_contents_def)
  moreover have "queue_contents vf (new_write_queue Q lim) = []"
    using new_write_queue_inv(2) [OF assms(1), of lim]
    by (simp add: queue_contents_def) (simp add: new_write_queue_def)
  ultimately show ?thesis using step by auto
qed

lemma closed_queue_drains_example:
  "\<exists>n. wq_writer (drain n reference_queue_ops (close_queue reference_queue_ops
       (fst (queue_run reference_queue_ops (new_write_queue reference_queue_ops default_limits)
          [Queue_try_enqueue tiny_frame, Queue_run])))) = Writer_returned WriteResult_success"
proof -
  let ?es = "[Queue_try_enqueue tiny_frame, Queue_run]"
  have "wq_writer (fst (queue_run reference_queue_ops
      (new_write_queue reference_queue_ops default_limits) ?es)) = Writer_receiving"
    by (auto simp: try_enqueue_def try_enqueue_frame_def new_write_queue_def writer_loop_def Let_def
        split: prod.splits)
  then show ?thesis
    using closed_queue_drains [OF reference_queue_env, of ?es default_limits]
    by (auto simp: tiny_frame_representable)
qed

end
