(* ===== verification/Codec_Model.thy ===== *)
theory Codec_Model
  imports Frame_Model Status
begin

text \<open>
  Codecs (\<open>codec.hpp\<close>). A codec is chosen by the application as a template argument and turns
  values of each of its message types into payloads and back; the model takes it as a record
  of its two operations, indexed by the message type (a \<open>std::type_index\<close>, of type \<open>'t\<close>). The
  built-in \<open>PodCodec\<close> copies the object representation of a trivially copyable value; a value of
  such a type is its object representation, a byte list of the size of the type.
\<close>

section \<open>Results\<close>

record EncodeResult =
  encode_payload :: "Buffer option"
  encode_status :: StatusCode
  encode_message_text :: string

definition EncodeResult_success :: "Buffer \<Rightarrow> EncodeResult" where
  "EncodeResult_success p =
     \<lparr>encode_payload = Some p, encode_status = Status_ok, encode_message_text = []\<rparr>"

definition EncodeResult_failure :: "StatusCode \<Rightarrow> string \<Rightarrow> EncodeResult" where
  "EncodeResult_failure status msg =
     \<lparr>encode_payload = None, encode_status = status, encode_message_text = msg\<rparr>"

definition encode_ok :: "EncodeResult \<Rightarrow> bool" where
  "encode_ok r \<longleftrightarrow> encode_status r = Status_ok"

record 'v DecodeResult =
  decode_value :: "'v option"
  decode_status :: StatusCode
  decode_message_text :: string

definition DecodeResult_success :: "'v \<Rightarrow> 'v DecodeResult" where
  "DecodeResult_success v =
     \<lparr>decode_value = Some v, decode_status = Status_ok, decode_message_text = []\<rparr>"

definition DecodeResult_failure :: "StatusCode \<Rightarrow> string \<Rightarrow> 'v DecodeResult" where
  "DecodeResult_failure status msg =
     \<lparr>decode_value = None, decode_status = status, decode_message_text = msg\<rparr>"

definition decode_ok :: "'v DecodeResult \<Rightarrow> bool" where
  "decode_ok r \<longleftrightarrow> decode_status r = Status_ok"

lemmas codec_result_defs =
  EncodeResult_success_def EncodeResult_failure_def encode_ok_def
  DecodeResult_success_def DecodeResult_failure_def decode_ok_def

section \<open>Codecs\<close>

record ('t, 'v) Codec =
  codec_encode :: "'t \<Rightarrow> 'v \<Rightarrow> EncodeResult"
  codec_decode :: "'t \<Rightarrow> Buffer \<Rightarrow> 'v DecodeResult"

definition pod_encode :: "Buffer \<Rightarrow> EncodeResult" where
  "pod_encode v = EncodeResult_success v"

definition pod_decode :: "nat \<Rightarrow> Buffer \<Rightarrow> Buffer DecodeResult" where
  "pod_decode size_of p =
     (if length p \<noteq> size_of then
        DecodeResult_failure Status_decode_error ''payload size does not match decoded type''
      else DecodeResult_success p)"

text \<open>The codec for a family of types, given their sizes.\<close>

definition PodCodec :: "('t \<Rightarrow> nat) \<Rightarrow> ('t, Buffer) Codec" where
  "PodCodec size_of =
     \<lparr>codec_encode = (\<lambda>_. pod_encode), codec_decode = (\<lambda>t. pod_decode (size_of t))\<rparr>"

section \<open>What typed messaging relies on\<close>

text \<open>
  A codec reports success exactly with a payload or a value, and decodes what it encoded, for
  the values \<open>dom t\<close> of type \<open>t\<close>.
\<close>

locale codec_contract =
  fixes C :: "('t, 'v) Codec"
    and dom :: "'t \<Rightarrow> 'v \<Rightarrow> bool"
  assumes encode_some:
      "encode_ok (codec_encode C t v) \<Longrightarrow> encode_payload (codec_encode C t v) \<noteq> None"
    and decode_encode:
      "dom t v \<Longrightarrow> encode_payload (codec_encode C t v) = Some p \<Longrightarrow>
         codec_decode C t p = DecodeResult_success v"
begin

lemma encode_injective:
  assumes "dom t u" and "dom t v"
    and "encode_payload (codec_encode C t u) = Some p"
    and "encode_payload (codec_encode C t v) = Some p"
  shows "u = v"
  using decode_encode [OF assms(1,3)] decode_encode [OF assms(2,4)]
  by (simp add: DecodeResult_success_def)

end

interpretation pod: codec_contract "PodCodec size_of" "\<lambda>t v. length v = size_of t"
  for size_of :: "'t \<Rightarrow> nat"
  by unfold_locales (auto simp: PodCodec_def pod_encode_def pod_decode_def codec_result_defs)

lemma pod_decode_ok_iff: "decode_ok (pod_decode n p) \<longleftrightarrow> length p = n"
  by (simp add: pod_decode_def codec_result_defs)

end
