(* ===== verification/Message_Registry.thy ===== *)
theory Message_Registry
  imports Codec_Model
begin

text \<open>
  The registry of application message types (\<open>message_registry.hpp\<close>). A C++ message type is
  its \<open>std::type_index\<close>, of type \<open>'t\<close>; whether the registry's codec can handle a type is a
  compile-time fact, the parameter \<open>supported\<close>. Both hash maps and the map over protocol
  versions are HOL maps; \<open>registrations_[version]\<close> inserts an empty entry, as in the source.
\<close>

section \<open>Data\<close>

datatype MessageRegistrationError =
  Registration_none | Registration_invalid_id | Registration_duplicate_id
| Registration_duplicate_type | Registration_unsupported_message_type

record MessageRegistrationResult =
  registration_error :: MessageRegistrationError
  registration_message :: string

definition registration_ok :: "MessageRegistrationResult \<Rightarrow> bool" where
  "registration_ok r \<longleftrightarrow> registration_error r = Registration_none"

definition registration_failure ::
  "MessageRegistrationError \<Rightarrow> string \<Rightarrow> MessageRegistrationResult" where
  "registration_failure err msg = \<lparr>registration_error = err, registration_message = msg\<rparr>"

record 't VersionRegistrations =
  by_id :: "MessageType \<rightharpoonup> 't"
  by_type :: "'t \<rightharpoonup> MessageType"

record 't MessageRegistry =
  registrations :: "ProtocolVersion \<rightharpoonup> 't VersionRegistrations"

definition empty_registrations :: "'t VersionRegistrations" where
  "empty_registrations = \<lparr>by_id = Map.empty, by_type = Map.empty\<rparr>"

definition new_registry :: "'t MessageRegistry" where
  "new_registry = \<lparr>registrations = Map.empty\<rparr>"

section \<open>Registration and lookup\<close>

definition register_message_at ::
  "('t \<Rightarrow> bool) \<Rightarrow> 't MessageRegistry \<Rightarrow> ProtocolVersion \<Rightarrow> 't \<Rightarrow> MessageType \<Rightarrow>
     't MessageRegistry \<times> MessageRegistrationResult" where
  "register_message_at supported reg version ty mt =
     (if \<not> message_type_is_valid mt then
        (reg, registration_failure Registration_invalid_id ''message id must be non-zero'')
      else
        (let entry = (case registrations reg version of
                        None \<Rightarrow> empty_registrations | Some en \<Rightarrow> en);
             reg = reg\<lparr>registrations := (registrations reg)(version \<mapsto> entry)\<rparr> in
         if by_id entry mt \<noteq> None then
           (reg, registration_failure Registration_duplicate_id
                   ''message id is already registered'')
         else if by_type entry ty \<noteq> None then
           (reg, registration_failure Registration_duplicate_type
                   ''message type is already registered'')
         else if \<not> supported ty then
           (reg, registration_failure Registration_unsupported_message_type
                   ''message type is not supported by the registry codec'')
         else
           (reg\<lparr>registrations := (registrations reg)(version \<mapsto>
                  entry\<lparr>by_id := (by_id entry)(mt \<mapsto> ty),
                        by_type := (by_type entry)(ty \<mapsto> mt)\<rparr>)\<rparr>,
            \<lparr>registration_error = Registration_none, registration_message = []\<rparr>)))"

definition register_message ::
  "('t \<Rightarrow> bool) \<Rightarrow> 't MessageRegistry \<Rightarrow> 't \<Rightarrow> MessageType \<Rightarrow>
     't MessageRegistry \<times> MessageRegistrationResult" where
  "register_message supported reg ty mt =
     register_message_at supported reg current_protocol_version ty mt"

definition register_message_u32 ::
  "('t \<Rightarrow> bool) \<Rightarrow> 't MessageRegistry \<Rightarrow> 't \<Rightarrow> u32 \<Rightarrow>
     't MessageRegistry \<times> MessageRegistrationResult" where
  "register_message_u32 supported reg ty n =
     register_message_at supported reg current_protocol_version ty (MessageType n)"

definition contains_type_at :: "'t MessageRegistry \<Rightarrow> ProtocolVersion \<Rightarrow> 't \<Rightarrow> bool" where
  "contains_type_at reg version ty \<longleftrightarrow>
     (case registrations reg version of None \<Rightarrow> False | Some en \<Rightarrow> by_type en ty \<noteq> None)"

definition contains_type :: "'t MessageRegistry \<Rightarrow> 't \<Rightarrow> bool" where
  "contains_type reg ty \<longleftrightarrow> contains_type_at reg current_protocol_version ty"

definition contains_id_at :: "'t MessageRegistry \<Rightarrow> ProtocolVersion \<Rightarrow> MessageType \<Rightarrow> bool" where
  "contains_id_at reg version mt \<longleftrightarrow>
     (case registrations reg version of None \<Rightarrow> False | Some en \<Rightarrow> by_id en mt \<noteq> None)"

definition contains_id :: "'t MessageRegistry \<Rightarrow> MessageType \<Rightarrow> bool" where
  "contains_id reg mt \<longleftrightarrow> contains_id_at reg current_protocol_version mt"

definition message_type_at ::
  "'t MessageRegistry \<Rightarrow> ProtocolVersion \<Rightarrow> 't \<Rightarrow> MessageType option" where
  "message_type_at reg version ty =
     (case registrations reg version of
        None \<Rightarrow> None
      | Some en \<Rightarrow> (case by_type en ty of None \<Rightarrow> None | Some mt \<Rightarrow> Some mt))"

definition message_type :: "'t MessageRegistry \<Rightarrow> 't \<Rightarrow> MessageType option" where
  "message_type reg ty = message_type_at reg current_protocol_version ty"

definition type_index_at ::
  "'t MessageRegistry \<Rightarrow> ProtocolVersion \<Rightarrow> MessageType \<Rightarrow> 't option" where
  "type_index_at reg version mt =
     (case registrations reg version of
        None \<Rightarrow> None
      | Some en \<Rightarrow> (case by_id en mt of None \<Rightarrow> None | Some ty \<Rightarrow> Some ty))"

definition type_index :: "'t MessageRegistry \<Rightarrow> MessageType \<Rightarrow> 't option" where
  "type_index reg mt = type_index_at reg current_protocol_version mt"

text \<open>
  A \<open>VersionRegistry\<close> holds a reference to a registry and a version and forwards to it; the
  registry it refers to is the one passed in.
\<close>

record VersionRegistry =
  registry_version :: ProtocolVersion

definition for_version :: "ProtocolVersion \<Rightarrow> VersionRegistry" where
  "for_version version = \<lparr>registry_version = version\<rparr>"

definition version_register_message ::
  "VersionRegistry \<Rightarrow> ('t \<Rightarrow> bool) \<Rightarrow> 't MessageRegistry \<Rightarrow> 't \<Rightarrow> MessageType \<Rightarrow>
     't MessageRegistry \<times> MessageRegistrationResult" where
  "version_register_message vr supported reg ty mt =
     register_message_at supported reg (registry_version vr) ty mt"

definition version_contains_type :: "VersionRegistry \<Rightarrow> 't MessageRegistry \<Rightarrow> 't \<Rightarrow> bool" where
  "version_contains_type vr reg ty \<longleftrightarrow> contains_type_at reg (registry_version vr) ty"

definition version_contains_id ::
  "VersionRegistry \<Rightarrow> 't MessageRegistry \<Rightarrow> MessageType \<Rightarrow> bool" where
  "version_contains_id vr reg mt \<longleftrightarrow> contains_id_at reg (registry_version vr) mt"

definition version_message_type ::
  "VersionRegistry \<Rightarrow> 't MessageRegistry \<Rightarrow> 't \<Rightarrow> MessageType option" where
  "version_message_type vr reg ty = message_type_at reg (registry_version vr) ty"

definition version_type_index ::
  "VersionRegistry \<Rightarrow> 't MessageRegistry \<Rightarrow> MessageType \<Rightarrow> 't option" where
  "version_type_index vr reg mt = type_index_at reg (registry_version vr) mt"

section \<open>Invariant: two inverse maps per version\<close>

definition registry_inv :: "'t MessageRegistry \<Rightarrow> bool" where
  "registry_inv reg \<longleftrightarrow>
     (\<forall>version en. registrations reg version = Some en \<longrightarrow>
        (\<forall>mt ty. by_id en mt = Some ty \<longleftrightarrow> by_type en ty = Some mt) \<and>
        (\<forall>ty mt. by_type en ty = Some mt \<longrightarrow> message_type_is_valid mt))"

lemma new_registry_inv [inv_intros]: "registry_inv new_registry"
  by (simp add: registry_inv_def new_registry_def)

lemma entry_facts:
  assumes "registry_inv reg"
    and "en = (case registrations reg version of None \<Rightarrow> empty_registrations | Some en \<Rightarrow> en)"
  shows "by_id en mt = Some ty \<longleftrightarrow> by_type en ty = Some mt"
    and "by_type en ty = Some mt \<Longrightarrow> message_type_is_valid mt"
  using assms
  by (auto simp: registry_inv_def empty_registrations_def split: option.splits)

lemma registry_inv_update:
  assumes "registry_inv reg"
    and "\<And>mt ty. by_id en mt = Some ty \<longleftrightarrow> by_type en ty = Some mt"
    and "\<And>mt ty. by_type en ty = Some mt \<Longrightarrow> message_type_is_valid mt"
  shows "registry_inv (reg\<lparr>registrations := (registrations reg)(version \<mapsto> en)\<rparr>)"
  using assms by (auto simp: registry_inv_def)

lemma register_message_inv [inv_intros]:
  assumes "registry_inv reg"
  shows "registry_inv (fst (register_message_at supported reg version ty mt))"
proof (cases "message_type_is_valid mt")
  case False
  then show ?thesis using assms by (simp add: register_message_at_def)
next
  case True
  define en where
    "en = (case registrations reg version of None \<Rightarrow> empty_registrations | Some en \<Rightarrow> en)"
  note en = entry_facts [OF assms en_def]
  let ?en' = "en\<lparr>by_id := (by_id en)(mt \<mapsto> ty), by_type := (by_type en)(ty \<mapsto> mt)\<rparr>"
  have same: "registry_inv (reg\<lparr>registrations := (registrations reg)(version \<mapsto> en)\<rparr>)"
    using en by (intro registry_inv_update [OF assms])
  have new: "registry_inv (reg\<lparr>registrations := (registrations reg)(version \<mapsto> ?en')\<rparr>)"
    if "by_id en mt = None" "by_type en ty = None"
  proof (rule registry_inv_update [OF assms])
    fix mt' ty'
    show "by_id ?en' mt' = Some ty' \<longleftrightarrow> by_type ?en' ty' = Some mt'"
      using that en(1) [of mt' ty'] en(1) [of mt ty'] en(1) [of mt' ty] by auto
    show "by_type ?en' ty' = Some mt' \<Longrightarrow> message_type_is_valid mt'"
      using en(2) [of ty' mt'] True by (auto split: if_splits)
  qed
  show ?thesis
    using same new True
    by (simp add: register_message_at_def Let_def en_def [symmetric])
qed

section \<open>The interface typed messaging relies on\<close>

locale message_directory =
  fixes id_of :: "'r \<Rightarrow> ProtocolVersion \<Rightarrow> 't \<Rightarrow> MessageType option"
    and type_of :: "'r \<Rightarrow> ProtocolVersion \<Rightarrow> MessageType \<Rightarrow> 't option"
    and ok :: "'r \<Rightarrow> bool"
  assumes inverse: "ok r \<Longrightarrow> id_of r v t = Some i \<longleftrightarrow> type_of r v i = Some t"
    and id_valid: "ok r \<Longrightarrow> id_of r v t = Some i \<Longrightarrow> message_type_is_valid i"
begin

lemma id_injective: "ok r \<Longrightarrow> id_of r v t = Some i \<Longrightarrow> id_of r v t' = Some i \<Longrightarrow> t = t'"
  by (metis inverse option.inject)

lemma type_injective: "ok r \<Longrightarrow> type_of r v i = Some t \<Longrightarrow> type_of r v j = Some t \<Longrightarrow> i = j"
  by (metis inverse option.inject)

end

lemma option_case_id [simp]: "(case x of None \<Rightarrow> None | Some y \<Rightarrow> Some y) = x"
  by (cases x) simp_all

interpretation reg_dir: message_directory message_type_at type_index_at registry_inv
proof
  fix r :: "'t MessageRegistry" and v t i
  assume inv: "registry_inv r"
  then show "message_type_at r v t = Some i \<longleftrightarrow> type_index_at r v i = Some t"
    by (auto simp: message_type_at_def type_index_at_def registry_inv_def split: option.splits)
  show "message_type_at r v t = Some i \<Longrightarrow> message_type_is_valid i"
    using inv by (auto simp: message_type_at_def registry_inv_def split: option.splits)
qed

section \<open>Functional behaviour of registration\<close>

text \<open>Which error is reported, decided in the order of the checks.\<close>

lemma register_message_error:
  "registration_error (snd (register_message_at supported reg version ty mt)) =
     (if \<not> message_type_is_valid mt then Registration_invalid_id
      else if contains_id_at reg version mt then Registration_duplicate_id
      else if contains_type_at reg version ty then Registration_duplicate_type
      else if \<not> supported ty then Registration_unsupported_message_type
      else Registration_none)"
  by (auto simp: register_message_at_def registration_failure_def Let_def contains_id_at_def
      contains_type_at_def empty_registrations_def split: option.splits)

text \<open>A successful registration adds one pair and changes no other; a failed one changes none.\<close>

lemma register_message_lookup:
  "message_type_at (fst (register_message_at supported reg version ty mt)) version' ty' =
     (if registration_ok (snd (register_message_at supported reg version ty mt)) \<and>
         version' = version \<and> ty' = ty
      then Some mt else message_type_at reg version' ty')"
  by (auto simp: register_message_at_def registration_failure_def registration_ok_def Let_def
      message_type_at_def empty_registrations_def split: option.splits)

lemma register_message_type_index:
  "type_index_at (fst (register_message_at supported reg version ty mt)) version' mt' =
     (if registration_ok (snd (register_message_at supported reg version ty mt)) \<and>
         version' = version \<and> mt' = mt
      then Some ty else type_index_at reg version' mt')"
  by (auto simp: register_message_at_def registration_failure_def registration_ok_def Let_def
      type_index_at_def empty_registrations_def split: option.splits)

section \<open>Properties of the component\<close>

text \<open>A sequence of registrations, each at its version, accepted or not.\<close>

primrec register_all ::
  "('t \<Rightarrow> bool) \<Rightarrow> 't MessageRegistry \<Rightarrow> (ProtocolVersion \<times> 't \<times> MessageType) list \<Rightarrow> 't MessageRegistry" where
  "register_all supported reg [] = reg"
| "register_all supported reg (r # rs) =
     (case r of (version, ty, mt) \<Rightarrow>
        register_all supported (fst (register_message_at supported reg version ty mt)) rs)"

lemma register_all_inv: "registry_inv reg \<Longrightarrow> registry_inv (register_all supported reg rs)"
  by (induction rs arbitrary: reg) (auto simp: register_message_inv)

text \<open>
  Property C30. After any sequence of registrations, refused ones included, the two tables of a
  registry are inverse to each other at every version, and every registered identifier is
  valid: a type and its identifier can be looked up in either direction.
\<close>

theorem registry_bijection:
  "(message_type_at (register_all supported new_registry rs) version ty = Some mt \<longleftrightarrow>
      type_index_at (register_all supported new_registry rs) version mt = Some ty) \<and>
   type_index_at (register_all supported new_registry rs) version (MessageType 0) = None"
proof -
  have inv: "registry_inv (register_all supported new_registry rs)"
    by (intro register_all_inv new_registry_inv)
  have "\<not> message_type_is_valid (MessageType 0)"
    by (simp add: message_type_is_valid_def)
  then have "type_index_at (register_all supported new_registry rs) version (MessageType 0) = None"
    using reg_dir.inverse [OF inv] reg_dir.id_valid [OF inv] by (metis not_Some_eq)
  then show ?thesis using reg_dir.inverse [OF inv] by blast
qed

text \<open>
  Registration at a version reports the first applicable error, in the order of
  the source (invalid identifier, duplicate identifier, duplicate type, unsupported type). It
  changes nothing when it reports one, and otherwise adds exactly the new pair.
\<close>

lemma registration_behaviour:
  "registration_error (snd (register_message_at supported reg version ty mt)) =
     (if \<not> message_type_is_valid mt then Registration_invalid_id
      else if contains_id_at reg version mt then Registration_duplicate_id
      else if contains_type_at reg version ty then Registration_duplicate_type
      else if \<not> supported ty then Registration_unsupported_message_type
      else Registration_none) \<and>
   message_type_at (fst (register_message_at supported reg version ty mt)) version' ty' =
     (if registration_ok (snd (register_message_at supported reg version ty mt)) \<and>
         version' = version \<and> ty' = ty
      then Some mt else message_type_at reg version' ty') \<and>
   type_index_at (fst (register_message_at supported reg version ty mt)) version' mt' =
     (if registration_ok (snd (register_message_at supported reg version ty mt)) \<and>
         version' = version \<and> mt' = mt
      then Some ty else type_index_at reg version' mt')"
  by (intro conjI register_message_error register_message_lookup register_message_type_index)

end
