(* ===== verification/Frame_Decoder.thy ===== *)
theory Frame_Decoder
  imports Frame_Codec
begin

text \<open>
  The incremental frame decoder (\<open>frame_decoder.hpp\<close>). The object's members are the fields of a
  record. The loop of \<open>push\<close> is a \<^theory_text>\<open>partial_function\<close> into \<open>option\<close>, where \<open>None\<close>
  would mean that it does not return; under the representation invariant \<open>dec_inv\<close>, which
  every operation keeps, it always returns. The specification is \<open>parse\<close>, which cuts a
  complete byte string into frames.
\<close>

section \<open>The decoder\<close>

record FrameDecoder =
  dec_max_payload_size :: u32
  dec_header_bytes :: Buffer
  dec_header_bytes_size :: nat
  dec_header :: "FrameHeader option"
  dec_payload :: Buffer
  dec_payload_bytes_size :: nat
  dec_error :: "FrameValidationError option"

definition new_decoder :: "u32 \<Rightarrow> FrameDecoder" where
  "new_decoder max_payload_size =
     \<lparr>dec_max_payload_size = max_payload_size,
      dec_header_bytes = replicate frame_header_size 0, dec_header_bytes_size = 0,
      dec_header = None, dec_payload = [], dec_payload_bytes_size = 0, dec_error = None\<rparr>"

text \<open>\<open>copy_bytes\<close> also returns the destination it has written.\<close>

definition copy_bytes :: "Buffer \<Rightarrow> Buffer \<Rightarrow> nat \<Rightarrow> Buffer \<times> nat" where
  "copy_bytes source destination destination_size =
     (let copied = min (length source) (length destination - destination_size) in
      (copy_at destination destination_size (take copied source), copied))"

text \<open>\<open>std::vector::resize\<close>: truncates, or appends value-initialised bytes.\<close>

definition resize :: "Buffer \<Rightarrow> nat \<Rightarrow> Buffer" where
  "resize xs n = take n xs @ replicate (n - length xs) 0"

definition start_frame :: "FrameDecoder \<Rightarrow> FrameDecoder" where
  "start_frame d =
     (case decode_frame_header (dec_header_bytes d) of
        None \<Rightarrow> d\<lparr>dec_error := Some Validation_payload_length_mismatch\<rparr>
      | Some h \<Rightarrow>
          (let candidate = \<lparr>frame_header = h, frame_payload = []\<rparr>;
               validation = validate_frame candidate (dec_max_payload_size d) in
           if validation \<noteq> Validation_none \<and> validation \<noteq> Validation_payload_length_mismatch
           then d\<lparr>dec_error := Some validation\<rparr>
           else d\<lparr>dec_header := Some h,
                  dec_payload := resize (dec_payload d) (unat (header_payload_size h))\<rparr>))"

text \<open>
  The part of the loop body that fills the header; the flag says that the loop is left (header
  still short, or malformed).
\<close>

definition header_phase :: "FrameDecoder \<Rightarrow> Buffer \<Rightarrow> FrameDecoder \<times> Buffer \<times> bool" where
  "header_phase d bytes =
     (if dec_header d = None then
        (case copy_bytes bytes (dec_header_bytes d) (dec_header_bytes_size d) of
           (hb, copied) \<Rightarrow>
             (let d = d\<lparr>dec_header_bytes := hb,
                        dec_header_bytes_size := dec_header_bytes_size d + copied\<rparr>;
                  bytes = drop copied bytes in
              if dec_header_bytes_size d < frame_header_size then (d, bytes, True)
              else (let d = start_frame d in (d, bytes, dec_error d \<noteq> None))))
      else (d, bytes, False))"

text \<open>The part of the loop body that fills the payload and emits the frame it completes.\<close>

definition payload_phase :: "FrameDecoder \<Rightarrow> Buffer \<Rightarrow> FrameDecoder \<times> Buffer \<times> Frame list" where
  "payload_phase d bytes =
     (case copy_bytes bytes (dec_payload d) (dec_payload_bytes_size d) of
        (p, copied) \<Rightarrow>
          (let d = d\<lparr>dec_payload := p,
                     dec_payload_bytes_size := dec_payload_bytes_size d + copied\<rparr>;
               bytes = drop copied bytes in
           if dec_payload_bytes_size d = length (dec_payload d) then
             (d\<lparr>dec_payload := [], dec_header := None, dec_header_bytes_size := 0,
                dec_payload_bytes_size := 0\<rparr>, bytes,
              [\<lparr>frame_header = the (dec_header d), frame_payload = dec_payload d\<rparr>])
           else (d, bytes, [])))"

partial_function (option) push_loop ::
  "FrameDecoder \<Rightarrow> Buffer \<Rightarrow> Frame list \<Rightarrow> (FrameDecoder \<times> Frame list) option" where
  "push_loop d bytes frames =
     (if bytes = [] \<or> dec_error d \<noteq> None then Some (d, frames)
      else
        (case header_phase d bytes of
           (d1, bytes1, stop) \<Rightarrow>
             if stop then Some (d1, frames)
             else
               (case payload_phase d1 bytes1 of
                  (d2, bytes2, out) \<Rightarrow> push_loop d2 bytes2 (frames @ out))))"

definition push :: "FrameDecoder \<Rightarrow> Buffer \<Rightarrow> (FrameDecoder \<times> Frame list) option" where
  "push d bytes = push_loop d bytes []"

definition has_incomplete_frame :: "FrameDecoder \<Rightarrow> bool" where
  "has_incomplete_frame d \<longleftrightarrow> dec_header d \<noteq> None \<or> dec_header_bytes_size d \<noteq> 0"

definition reset_decoder :: "FrameDecoder \<Rightarrow> FrameDecoder" where
  "reset_decoder d =
     d\<lparr>dec_header := None, dec_header_bytes_size := 0, dec_payload := [],
       dec_payload_bytes_size := 0, dec_error := None\<rparr>"

section \<open>Specification: cutting a byte string into frames\<close>

definition check_header :: "u32 \<Rightarrow> Buffer \<Rightarrow> FrameValidationError + FrameHeader" where
  "check_header mx hb =
     (case decode_frame_header hb of
        None \<Rightarrow> Inl Validation_payload_length_mismatch
      | Some h \<Rightarrow>
          (let v = validate_frame \<lparr>frame_header = h, frame_payload = []\<rparr> mx in
           if v \<in> {Validation_none, Validation_payload_length_mismatch} then Inr h else Inl v))"

text \<open>
  \<open>parse mx bs\<close> is the frames that \<open>bs\<close> starts with, the bytes that belong to the next frame,
  and the error that stopped it.
\<close>

function parse :: "u32 \<Rightarrow> Buffer \<Rightarrow> Frame list \<times> Buffer \<times> FrameValidationError option" where
  "parse mx bs =
     (if length bs < frame_header_size then ([], bs, None)
      else
        (case check_header mx (take frame_header_size bs) of
           Inl e \<Rightarrow> ([], take frame_header_size bs, Some e)
         | Inr h \<Rightarrow>
             (let n = unat (header_payload_size h); body = drop frame_header_size bs in
              if length body < n then ([], bs, None)
              else
                (case parse mx (drop n body) of
                   (fs, r, e) \<Rightarrow>
                     (\<lparr>frame_header = h, frame_payload = take n body\<rparr> # fs, r, e)))))"
  by pat_completeness auto
termination
  by (relation "measure (\<lambda>(_, bs). length bs)") (auto simp: frame_header_size_def)

declare parse.simps [simp del]

section \<open>Representation invariant\<close>

text \<open>
  Between calls: no header, and fewer than 18 of its bytes; or a header that passed validation
  and a payload buffer of the declared size that is not full; or the terminal error state.
  \<open>payload_ready\<close> is the middle case as it is in the loop, where the payload may be complete.
\<close>

definition payload_ready :: "FrameDecoder \<Rightarrow> FrameHeader \<Rightarrow> bool" where
  "payload_ready d h \<longleftrightarrow>
     dec_error d = None \<and> dec_header d = Some h \<and> length (dec_header_bytes d) = frame_header_size \<and>
     dec_header_bytes_size d = frame_header_size \<and>
     check_header (dec_max_payload_size d) (dec_header_bytes d) = Inr h \<and>
     length (dec_payload d) = unat (header_payload_size h) \<and>
     dec_payload_bytes_size d \<le> length (dec_payload d)"

definition header_ready :: "FrameDecoder \<Rightarrow> bool" where
  "header_ready d \<longleftrightarrow>
     dec_error d = None \<and> dec_header d = None \<and> length (dec_header_bytes d) = frame_header_size \<and>
     dec_header_bytes_size d < frame_header_size \<and> dec_payload d = [] \<and>
     dec_payload_bytes_size d = 0"

definition failed_state :: "FrameDecoder \<Rightarrow> bool" where
  "failed_state d \<longleftrightarrow>
     dec_header d = None \<and> length (dec_header_bytes d) = frame_header_size \<and>
     dec_header_bytes_size d = frame_header_size \<and> dec_payload d = [] \<and>
     dec_payload_bytes_size d = 0 \<and>
     (\<exists>e. dec_error d = Some e \<and>
          check_header (dec_max_payload_size d) (dec_header_bytes d) = Inl e)"

definition dec_inv :: "FrameDecoder \<Rightarrow> bool" where
  "dec_inv d \<longleftrightarrow>
     header_ready d \<or> failed_state d \<or>
     (\<exists>h. payload_ready d h \<and> dec_payload_bytes_size d < length (dec_payload d))"

text \<open>The bytes received for the frame in progress.\<close>

definition buffered :: "FrameDecoder \<Rightarrow> Buffer" where
  "buffered d =
     take (dec_header_bytes_size d) (dec_header_bytes d) @
     take (dec_payload_bytes_size d) (dec_payload d)"

lemma buffered_failed: "failed_state d \<Longrightarrow> buffered d = dec_header_bytes d"
  by (simp add: buffered_def failed_state_def)

lemma buffered_start:
  "payload_ready d h \<Longrightarrow> dec_payload_bytes_size d = 0 \<Longrightarrow> buffered d = dec_header_bytes d"
  by (simp add: buffered_def payload_ready_def)

lemma new_decoder_ready: "header_ready (new_decoder mx)"
  by (simp add: header_ready_def new_decoder_def frame_header_size_def)

lemma new_decoder_inv [inv_intros]: "dec_inv (new_decoder mx)"
  by (simp add: dec_inv_def new_decoder_ready)

lemma reset_decoder_inv [inv_intros]: "dec_inv d \<Longrightarrow> dec_inv (reset_decoder d)"
  by (auto simp: dec_inv_def header_ready_def failed_state_def payload_ready_def
      reset_decoder_def frame_header_size_def)

lemma reset_decoder_fresh:
  "buffered (reset_decoder d) = []" "dec_error (reset_decoder d) = None"
  "\<not> has_incomplete_frame (reset_decoder d)"
  by (simp_all add: buffered_def reset_decoder_def has_incomplete_frame_def)

section \<open>The specification, case by case\<close>

lemma parse_short: "length bs < frame_header_size \<Longrightarrow> parse mx bs = ([], bs, None)"
  by (simp add: parse.simps)

lemma parse_fail:
  assumes "length hb = frame_header_size" and "check_header mx hb = Inl e"
  shows "parse mx (hb @ rest) = ([], hb, Some e)"
  using assms by (simp add: parse.simps)

lemma parse_wait:
  assumes "length hb = frame_header_size" and "check_header mx hb = Inr h"
    and "length body < unat (header_payload_size h)"
  shows "parse mx (hb @ body) = ([], hb @ body, None)"
  using assms by (simp add: parse.simps)

lemma parse_frame:
  assumes "length hb = frame_header_size" and "check_header mx hb = Inr h"
    and "length body = unat (header_payload_size h)"
  shows "parse mx (hb @ body @ rest) =
     (case parse mx rest of
        (fs, r, e) \<Rightarrow> (\<lparr>frame_header = h, frame_payload = body\<rparr> # fs, r, e))"
  using assms by (subst parse.simps) simp

section \<open>The two phases of the loop body\<close>

lemma header_phase_short:
  assumes "header_ready d" and "dec_header_bytes_size d + length bs < frame_header_size"
  obtains d' where "header_phase d bs = (d', [], True)" "header_ready d'"
    "buffered d' = buffered d @ bs" "dec_max_payload_size d' = dec_max_payload_size d"
proof -
  let ?d = "d\<lparr>dec_header_bytes := copy_at (dec_header_bytes d) (dec_header_bytes_size d) bs,
              dec_header_bytes_size := dec_header_bytes_size d + length bs\<rparr>"
  have "header_phase d bs = (?d, [], True)"
    using assms by (simp add: header_phase_def header_ready_def copy_bytes_def Let_def)
  then show thesis
    using that [of ?d] assms by (simp add: header_ready_def buffered_def)
qed

lemma start_frame_check:
  assumes "dec_error d = None" and "dec_header d = None" and "dec_payload d = []"
    and "dec_payload_bytes_size d = 0" and "length (dec_header_bytes d) = frame_header_size"
    and "dec_header_bytes_size d = frame_header_size"
  shows "case check_header (dec_max_payload_size d) (dec_header_bytes d) of
       Inl e \<Rightarrow> failed_state (start_frame d) \<and> dec_error (start_frame d) = Some e
     | Inr h \<Rightarrow> payload_ready (start_frame d) h \<and> dec_payload_bytes_size (start_frame d) = 0"
  and "dec_header_bytes (start_frame d) = dec_header_bytes d"
  and "dec_max_payload_size (start_frame d) = dec_max_payload_size d"
  using assms
  by (auto simp: start_frame_def check_header_def failed_state_def payload_ready_def resize_def
      Let_def split: option.splits)

lemma header_phase_full:
  assumes "header_ready d" and "frame_header_size \<le> dec_header_bytes_size d + length bs"
  defines "m \<equiv> frame_header_size - dec_header_bytes_size d"
  defines "hb \<equiv> buffered d @ take m bs"
  obtains d' where "header_phase d bs = (d', drop m bs, dec_error d' \<noteq> None)"
    "length hb = frame_header_size" "dec_header_bytes d' = hb"
    "dec_max_payload_size d' = dec_max_payload_size d"
    "case check_header (dec_max_payload_size d) hb of
       Inl e \<Rightarrow> failed_state d' \<and> dec_error d' = Some e
     | Inr h \<Rightarrow> payload_ready d' h \<and> dec_payload_bytes_size d' = 0"
proof -
  let ?hb = "copy_at (dec_header_bytes d) (dec_header_bytes_size d) (take m bs)"
  let ?d = "d\<lparr>dec_header_bytes := ?hb, dec_header_bytes_size := frame_header_size\<rparr>"
  have m: "length (take m bs) = m" "dec_header_bytes_size d + m = frame_header_size"
    using assms(1,2) by (auto simp: m_def header_ready_def)
  have hb: "?hb = hb"
    using assms(1) m by (simp add: hb_def copy_at_def buffered_def header_ready_def)
  have len: "length hb = frame_header_size"
    using m assms(1) by (simp add: hb_def buffered_def header_ready_def)
  have "min (length bs) m = m" using m(1) by (simp add: min_def)
  then have "header_phase d bs = (start_frame ?d, drop m bs, dec_error (start_frame ?d) \<noteq> None)"
    using assms(1) m
    by (simp add: header_phase_def header_ready_def copy_bytes_def Let_def m_def [symmetric])
  moreover note start_frame_check [of ?d]
  ultimately show thesis
    using that [of "start_frame ?d"] assms(1) len by (simp add: header_ready_def hb)
qed

lemma payload_phase_wait:
  assumes "payload_ready d h" and "dec_payload_bytes_size d + length bs < length (dec_payload d)"
  obtains d' where "payload_phase d bs = (d', [], [])" "payload_ready d' h"
    "dec_payload_bytes_size d' < length (dec_payload d')" "buffered d' = buffered d @ bs"
    "dec_max_payload_size d' = dec_max_payload_size d"
proof -
  let ?d = "d\<lparr>dec_payload := copy_at (dec_payload d) (dec_payload_bytes_size d) bs,
              dec_payload_bytes_size := dec_payload_bytes_size d + length bs\<rparr>"
  have "payload_phase d bs = (?d, [], [])"
    using assms by (simp add: payload_phase_def copy_bytes_def Let_def)
  then show thesis
    using that [of ?d] assms by (simp add: payload_ready_def buffered_def)
qed

lemma payload_phase_done:
  assumes "payload_ready d h" and "length (dec_payload d) \<le> dec_payload_bytes_size d + length bs"
  defines "k \<equiv> length (dec_payload d) - dec_payload_bytes_size d"
  defines "body \<equiv> take (dec_payload_bytes_size d) (dec_payload d) @ take k bs"
  obtains d' where
    "payload_phase d bs = (d', drop k bs, [\<lparr>frame_header = h, frame_payload = body\<rparr>])"
    "header_ready d'" "buffered d' = []" "dec_max_payload_size d' = dec_max_payload_size d"
    "length body = unat (header_payload_size h)"
proof -
  let ?d = "d\<lparr>dec_payload := [], dec_header := None, dec_header_bytes_size := 0,
              dec_payload_bytes_size := 0\<rparr>"
  have k: "length (take k bs) = k" "dec_payload_bytes_size d + k = length (dec_payload d)"
    using assms(1,2) by (auto simp: k_def payload_ready_def)
  have "copy_at (dec_payload d) (dec_payload_bytes_size d) (take k bs) = body"
    using k by (simp add: copy_at_def body_def)
  moreover have "length body = length (dec_payload d)"
    using k by (simp add: body_def)
  moreover have "min (length bs) k = k" using k(1) by (simp add: min_def)
  ultimately have "payload_phase d bs =
      (?d, drop k bs, [\<lparr>frame_header = h, frame_payload = body\<rparr>])"
    using assms(1) k(2) by (simp add: payload_phase_def copy_bytes_def payload_ready_def k_def)
  then show thesis
    using that [of ?d] assms(1) \<open>length body = length (dec_payload d)\<close>
    by (simp add: header_ready_def payload_ready_def buffered_def frame_header_size_def)
qed

section \<open>The loop computes the specification\<close>

text \<open>The postcondition of \<open>push\<close>, for a loop that has already emitted \<open>acc\<close>.\<close>

definition feeds_to ::
  "(FrameDecoder \<times> Frame list) option \<Rightarrow> u32 \<Rightarrow> Buffer \<Rightarrow> Frame list \<Rightarrow> bool" where
  "feeds_to res mx bs acc \<longleftrightarrow>
     (\<exists>d'. res = Some (d', acc @ fst (parse mx bs)) \<and> dec_inv d' \<and>
        buffered d' = fst (snd (parse mx bs)) \<and> dec_error d' = snd (snd (parse mx bs)) \<and>
        dec_max_payload_size d' = mx)"

lemma push_loop_payload:
  assumes IH: "\<And>d2 bs2 acc2. length bs2 < N \<Longrightarrow> header_ready d2 \<Longrightarrow> buffered d2 = [] \<Longrightarrow>
      feeds_to (push_loop d2 bs2 acc2) (dec_max_payload_size d2) bs2 acc2"
    and ready: "payload_ready d h"
    and N: "length bs \<le> N" "dec_payload_bytes_size d = length (dec_payload d) \<longrightarrow> length bs < N"
  shows "feeds_to (case payload_phase d bs of (d2, bs2, out) \<Rightarrow> push_loop d2 bs2 (acc @ out))
     (dec_max_payload_size d) (buffered d @ bs) acc"
proof (cases "dec_payload_bytes_size d + length bs < length (dec_payload d)")
  case True
  then obtain d' where pp: "payload_phase d bs = (d', [], [])" and r: "payload_ready d' h"
      "dec_payload_bytes_size d' < length (dec_payload d')" and buf: "buffered d' = buffered d @ bs"
      and mx: "dec_max_payload_size d' = dec_max_payload_size d"
    using payload_phase_wait [OF ready] by metis
  have "parse (dec_max_payload_size d) (buffered d @ bs) = ([], buffered d @ bs, None)"
    using parse_wait [of "dec_header_bytes d" _ h
        "take (dec_payload_bytes_size d) (dec_payload d) @ bs"] ready True
    by (simp add: payload_ready_def buffered_def)
  then show ?thesis
    using pp r buf mx
    by (auto simp: feeds_to_def push_loop.simps dec_inv_def payload_ready_def)
next
  case False
  let ?k = "length (dec_payload d) - dec_payload_bytes_size d"
  let ?body = "take (dec_payload_bytes_size d) (dec_payload d) @ take ?k bs"
  let ?f = "\<lparr>frame_header = h, frame_payload = ?body\<rparr>"
  obtain d' where pp: "payload_phase d bs = (d', drop ?k bs, [?f])" and r: "header_ready d'"
      and buf: "buffered d' = []" and mx: "dec_max_payload_size d' = dec_max_payload_size d"
      and body: "length ?body = unat (header_payload_size h)"
    using payload_phase_done [OF ready] False by (metis not_less)
  have "length (drop ?k bs) < N"
    using N False ready by (cases bs) (auto simp: payload_ready_def)
  from IH [OF this r buf, of "acc @ [?f]"]
  have "feeds_to (push_loop d' (drop ?k bs) (acc @ [?f])) (dec_max_payload_size d)
      (drop ?k bs) (acc @ [?f])" by (simp add: mx)
  moreover have "buffered d @ bs = dec_header_bytes d @ ?body @ drop ?k bs"
    using ready by (simp add: buffered_def payload_ready_def)
  ultimately show ?thesis
    using ready parse_frame [of "dec_header_bytes d" "dec_max_payload_size d" h ?body "drop ?k bs"]
      body pp
    by (simp add: feeds_to_def payload_ready_def split: prod.splits)
qed

lemma push_loop_after_header:
  assumes IH: "\<And>d2 bs2 acc2. length bs2 < length bs \<Longrightarrow> header_ready d2 \<Longrightarrow> buffered d2 = [] \<Longrightarrow>
      feeds_to (push_loop d2 bs2 acc2) (dec_max_payload_size d2) bs2 acc2"
    and ready: "header_ready d" and full: "frame_header_size \<le> dec_header_bytes_size d + length bs"
    and bs: "bs \<noteq> []"
  shows "feeds_to
     (case header_phase d bs of (d1, bs1, stop) \<Rightarrow>
        if stop then Some (d1, acc)
        else (case payload_phase d1 bs1 of (d2, bs2, out) \<Rightarrow> push_loop d2 bs2 (acc @ out)))
     (dec_max_payload_size d) (buffered d @ bs) acc"
proof -
  let ?m = "frame_header_size - dec_header_bytes_size d"
  let ?hb = "buffered d @ take ?m bs"
  obtain d' where hp: "header_phase d bs = (d', drop ?m bs, dec_error d' \<noteq> None)"
    and len: "length ?hb = frame_header_size" and hb: "dec_header_bytes d' = ?hb"
    and mx: "dec_max_payload_size d' = dec_max_payload_size d"
    and chk: "case check_header (dec_max_payload_size d) ?hb of
        Inl e \<Rightarrow> failed_state d' \<and> dec_error d' = Some e
      | Inr h \<Rightarrow> payload_ready d' h \<and> dec_payload_bytes_size d' = 0"
    using header_phase_full [OF ready full] by metis
  have split: "buffered d @ bs = ?hb @ drop ?m bs" by simp
  show ?thesis
  proof (cases "check_header (dec_max_payload_size d) ?hb")
    case (Inl e)
    with chk have fs: "failed_state d'" "dec_error d' = Some e" by simp_all
    moreover have "parse (dec_max_payload_size d) (buffered d @ bs) = ([], ?hb, Some e)"
      unfolding split by (rule parse_fail [OF len Inl])
    moreover have "buffered d' = ?hb"
      using buffered_failed [OF fs(1)] hb by simp
    ultimately show ?thesis
      using hp mx by (auto simp: feeds_to_def dec_inv_def)
  next
    case (Inr h)
    with chk have pr: "payload_ready d' h" and z: "dec_payload_bytes_size d' = 0" by simp_all
    then have "buffered d' = ?hb" using buffered_start [OF pr z] hb by simp
    then have whole: "buffered d' @ drop ?m bs = buffered d @ bs" by simp
    have short: "length (drop ?m bs) < length bs"
      using bs ready by (cases bs) (auto simp: header_ready_def)
    have "dec_error d' = None" using pr by (simp add: payload_ready_def)
    moreover have "feeds_to (case payload_phase d' (drop ?m bs) of
         (d2, bs2, out) \<Rightarrow> push_loop d2 bs2 (acc @ out))
       (dec_max_payload_size d') (buffered d' @ drop ?m bs) acc"
      by (rule push_loop_payload [OF IH pr]) (use short in auto)
    ultimately show ?thesis
      unfolding hp whole mx by simp
  qed
qed

lemma push_loop_waits:
  assumes "header_ready d \<or> (\<exists>h. payload_ready d h \<and> dec_payload_bytes_size d < length (dec_payload d))"
  shows "feeds_to (push_loop d [] acc) (dec_max_payload_size d) (buffered d) acc"
proof -
  have "parse (dec_max_payload_size d) (buffered d) = ([], buffered d, None)"
    using assms parse_short [of "buffered d"]
      parse_wait [of "dec_header_bytes d" _ _ "take (dec_payload_bytes_size d) (dec_payload d)"]
    by (auto simp: header_ready_def payload_ready_def buffered_def)
  then show ?thesis
    using assms by (auto simp: feeds_to_def push_loop.simps dec_inv_def header_ready_def payload_ready_def)
qed

lemma push_loop_correct:
  assumes "header_ready d \<or> (\<exists>h. payload_ready d h \<and> dec_payload_bytes_size d < length (dec_payload d))"
  shows "feeds_to (push_loop d bs acc) (dec_max_payload_size d) (buffered d @ bs) acc"
  using assms
proof (induction "length bs" arbitrary: d bs acc rule: less_induct)
  case less
  have IH: "feeds_to (push_loop d2 bs2 acc2) (dec_max_payload_size d2) bs2 acc2"
    if "length bs2 < length bs" "header_ready d2" "buffered d2 = []" for d2 bs2 acc2
    using less.hyps [OF that(1), of d2] that by simp
  show ?case
  proof (cases "bs = []")
    case True
    then show ?thesis using push_loop_waits [OF less.prems] by simp
  next
    case nonempty: False
    have unf: "push_loop d bs acc =
        (case header_phase d bs of (d1, bs1, stop) \<Rightarrow>
           if stop then Some (d1, acc)
           else (case payload_phase d1 bs1 of (d2, bs2, out) \<Rightarrow> push_loop d2 bs2 (acc @ out)))"
      using less.prems nonempty
      by (subst push_loop.simps) (auto simp: header_ready_def payload_ready_def)
    show ?thesis
    proof (cases "dec_header d")
      case (Some h)
      then have "payload_ready d h" "dec_payload_bytes_size d < length (dec_payload d)"
        using less.prems by (auto simp: header_ready_def payload_ready_def)
      with push_loop_payload [OF IH, where d = d and h = h and bs = bs and acc = acc] Some unf show ?thesis
        by (simp add: header_phase_def)
    next
      case None
      then have hr: "header_ready d" using less.prems by (auto simp: payload_ready_def)
      show ?thesis
      proof (cases "dec_header_bytes_size d + length bs < frame_header_size")
        case True
        then obtain d' where "header_phase d bs = (d', [], True)" "header_ready d'"
            "buffered d' = buffered d @ bs" "dec_max_payload_size d' = dec_max_payload_size d"
          using header_phase_short [OF hr] by metis
        moreover have "parse (dec_max_payload_size d) (buffered d @ bs) = ([], buffered d @ bs, None)"
          using True hr by (intro parse_short) (simp add: buffered_def header_ready_def)
        ultimately show ?thesis
          using unf by (auto simp: feeds_to_def dec_inv_def header_ready_def)
      next
        case False
        then show ?thesis
          unfolding unf by (intro push_loop_after_header [OF IH hr _ nonempty]) simp_all
      qed
    qed
  qed
qed

lemma push_parse:
  assumes "dec_inv d" and "dec_error d = None"
  shows "feeds_to (push d bs) (dec_max_payload_size d) (buffered d @ bs) []"
  using assms push_loop_correct [of d bs "[]"]
  by (auto simp: push_def dec_inv_def failed_state_def)

lemma push_failed: "dec_error d \<noteq> None \<Longrightarrow> push d bs = Some (d, [])"
  by (simp add: push_def push_loop.simps)

section \<open>Facts about the specification\<close>

lemma check_header_size:
  assumes "check_header mx hb = Inr h"
  shows "header_payload_size h \<le> mx" and "decode_frame_header hb = Some h"
  using assms
  by (auto simp: check_header_def validate_frame_def Let_def not_less
      split: option.splits if_splits)

lemma check_header_valid:
  assumes "check_header mx hb = Inr h" and "length body = unat (header_payload_size h)"
  shows "validate_frame \<lparr>frame_header = h, frame_payload = body\<rparr> mx = Validation_none"
  using assms unsigned_less [of "header_payload_size h", where 'a = nat]
  by (auto simp: check_header_def validate_frame_def Let_def split: option.splits if_splits)

lemma valid_frame_facts:
  assumes "validate_frame f mx = Validation_none"
  shows "length (frame_payload f) = unat (header_payload_size (frame_header f))"
    and "check_header mx (encode_frame_header (frame_header f)) = Inr (frame_header f)"
proof -
  show "length (frame_payload f) = unat (header_payload_size (frame_header f))"
    using assms by (auto simp: validate_frame_def Let_def split: if_splits)
  have "validate_frame \<lparr>frame_header = frame_header f, frame_payload = []\<rparr> mx
      \<in> {Validation_none, Validation_payload_length_mismatch}"
    using assms by (auto simp: validate_frame_def Let_def split: if_splits)
  then show "check_header mx (encode_frame_header (frame_header f)) = Inr (frame_header f)"
    using decode_encode_header [of "frame_header f" "[]"]
    by (simp add: check_header_def Let_def)
qed

lemma parse_encode_frame:
  assumes "validate_frame f mx = Validation_none"
  shows "parse mx (encode_frame f @ rest) =
     (case parse mx rest of (fs, r, e) \<Rightarrow> (f # fs, r, e))"
  using parse_frame [OF _ valid_frame_facts(2) [OF assms], of "frame_payload f" rest]
    valid_frame_facts(1) [OF assms]
  by (cases f) (simp add: encode_frame_def)

lemma parse_encode_frames:
  assumes "list_all (\<lambda>f. validate_frame f mx = Validation_none) fs"
  shows "parse mx (concat (map encode_frame fs) @ rest) =
     (case parse mx rest of (gs, r, e) \<Rightarrow> (fs @ gs, r, e))"
  using assms
  by (induction fs) (auto simp: parse_encode_frame split: prod.splits)

text \<open>One unfolding of \<open>parse\<close>, as a case distinction.\<close>

lemma parse_cases [case_names short fail wait frame]:
  obtains "length bs < frame_header_size" "parse mx bs = ([], bs, None)"
  | hb rest e where "bs = hb @ rest" "length hb = frame_header_size" "check_header mx hb = Inl e"
      "parse mx bs = ([], hb, Some e)"
  | hb body h where "bs = hb @ body" "length hb = frame_header_size" "check_header mx hb = Inr h"
      "length body < unat (header_payload_size h)" "parse mx bs = ([], bs, None)"
  | hb body rest h where "bs = hb @ body @ rest" "length hb = frame_header_size"
      "check_header mx hb = Inr h" "length body = unat (header_payload_size h)"
      "length rest < length bs"
proof (cases "length bs < frame_header_size")
  case True
  then show thesis using that(1) parse_short by blast
next
  case False
  let ?hb = "take frame_header_size bs"
  let ?tl = "drop frame_header_size bs"
  have hb: "length ?hb = frame_header_size" using False by simp
  show thesis
  proof (cases "check_header mx ?hb")
    case (Inl e)
    then show thesis
      using that(2) [of ?hb ?tl e] hb parse_fail [OF hb Inl, of ?tl] by simp
  next
    case (Inr h)
    let ?n = "unat (header_payload_size h)"
    show thesis
    proof (cases "length ?tl < ?n")
      case True
      then show thesis
        using that(3) [of ?hb ?tl h] hb Inr parse_wait [OF hb Inr True] by simp
    next
      case False
      have "bs = ?hb @ take ?n ?tl @ drop ?n ?tl" by (simp only: append_take_drop_id)
      moreover have "length (drop ?n ?tl) < length bs"
        using hb by (auto simp: frame_header_size_def)
      ultimately show thesis
        using that(4) [of ?hb "take ?n ?tl" "drop ?n ?tl" h] hb Inr False by simp
    qed
  qed
qed

text \<open>Parsing in two instalments: what was left over is parsed with what follows.\<close>

lemma parse_append:
  "parse mx (xs @ ys) =
     (case parse mx xs of
        (fs, r, Some e) \<Rightarrow> (fs, r, Some e)
      | (fs, r, None) \<Rightarrow> (case parse mx (r @ ys) of (gs, r', e) \<Rightarrow> (fs @ gs, r', e)))"
proof (induction "length xs" arbitrary: xs rule: less_induct)
  case less
  show ?case
  proof (cases mx xs rule: parse_cases)
    case (fail hb rest e)
    then show ?thesis by (simp add: parse_fail)
  next
    case (frame hb body rest h)
    with less.hyps [OF frame(5)] show ?thesis
      by (simp add: parse_frame split: prod.splits option.splits)
  qed simp_all
qed

lemma parse_valid: "list_all (\<lambda>f. validate_frame f mx = Validation_none) (fst (parse mx bs))"
proof (induction "length bs" arbitrary: bs rule: less_induct)
  case less
  show ?case
  proof (cases mx bs rule: parse_cases)
    case (frame hb body rest h)
    with less.hyps [OF frame(5)] show ?thesis
      by (simp add: parse_frame check_header_valid case_prod_beta)
  qed simp_all
qed

text \<open>No byte is lost: the frames, re-encoded, and the rest are a prefix of the input.\<close>

lemma parse_lossless:
  "\<exists>rest. bs = concat (map encode_frame (fst (parse mx bs))) @ fst (snd (parse mx bs)) @ rest \<and>
     (snd (snd (parse mx bs)) = None \<longrightarrow> rest = [])"
proof (induction "length bs" arbitrary: bs rule: less_induct)
  case less
  show ?case
  proof (cases mx bs rule: parse_cases)
    case (frame hb body rest h)
    have "encode_frame \<lparr>frame_header = h, frame_payload = body\<rparr> = hb @ body"
      using encode_decode_header [OF check_header_size(2) [OF frame(3)]] frame(2)
      by (simp add: encode_frame_def)
    with frame less.hyps [OF frame(5)] show ?thesis
      by (simp add: parse_frame case_prod_beta)
  qed auto
qed

section \<open>The interface a read loop relies on\<close>

text \<open>
  A source of frames: feeding it bytes always returns, and what it returns depends only on the
  byte string received so far, as \<open>parse\<close> cuts it; after an error it consumes nothing.
\<close>

locale frame_source =
  fixes feed :: "'d \<Rightarrow> Buffer \<Rightarrow> ('d \<times> Frame list) option"
    and ok :: "'d \<Rightarrow> bool"
    and rest :: "'d \<Rightarrow> Buffer"
    and err :: "'d \<Rightarrow> FrameValidationError option"
    and limit :: "'d \<Rightarrow> u32"
  assumes feed_parse:
      "ok d \<Longrightarrow> err d = None \<Longrightarrow> parse (limit d) (rest d @ bs) = (fs, r, e) \<Longrightarrow>
         \<exists>d'. feed d bs = Some (d', fs) \<and> ok d' \<and> rest d' = r \<and> err d' = e \<and> limit d' = limit d"
    and feed_failed: "ok d \<Longrightarrow> err d \<noteq> None \<Longrightarrow> feed d bs = Some (d, [])"
begin

lemma feed_total: "ok d \<Longrightarrow> \<exists>d' fs. feed d bs = Some (d', fs) \<and> ok d' \<and> limit d' = limit d"
  by (metis feed_failed feed_parse prod_cases3)

text \<open>Feeding a sequence of reads, collecting all frames.\<close>

primrec feed_all :: "'d \<Rightarrow> Buffer list \<Rightarrow> ('d \<times> Frame list) option" where
  "feed_all d [] = Some (d, [])"
| "feed_all d (c # cs) =
     do { (d1, fs) \<leftarrow> feed d c; (d2, gs) \<leftarrow> feed_all d1 cs; Some (d2, fs @ gs) }"

lemma feed_all_failed: "ok d \<Longrightarrow> err d \<noteq> None \<Longrightarrow> feed_all d cs = Some (d, [])"
  by (induction cs) (simp_all add: feed_failed)

text \<open>How the stream is cut into reads is irrelevant.\<close>

lemma feed_all_parse:
  assumes "ok d" and "err d = None" and "parse (limit d) (rest d) = ([], rest d, None)"
    and "parse (limit d) (rest d @ concat cs) = (fs, r, e)"
  shows "\<exists>d'. feed_all d cs = Some (d', fs) \<and> ok d' \<and> rest d' = r \<and> err d' = e \<and> limit d' = limit d"
  using assms
proof (induction cs arbitrary: d fs r e)
  case Nil
  then show ?case by simp
next
  case (Cons c cs)
  obtain gs r1 e1 where p1: "parse (limit d) (rest d @ c) = (gs, r1, e1)" by (metis prod_cases3)
  obtain d1 where d1: "feed d c = Some (d1, gs)" "ok d1" "rest d1 = r1" "err d1 = e1"
      "limit d1 = limit d"
    using feed_parse [OF Cons.prems(1,2) p1] by blast
  show ?case
  proof (cases e1)
    case (Some x)
    then have "parse (limit d) (rest d @ concat (c # cs)) = (gs, r1, e1)"
      using parse_append [of "limit d" "rest d @ c" "concat cs"] p1 by simp
    moreover have "feed_all d1 cs = Some (d1, [])"
      by (rule feed_all_failed) (use d1 Some in simp_all)
    ultimately show ?thesis
      using Cons.prems(4) d1 by auto
  next
    case None
    obtain gs' r2 e2 where p2: "parse (limit d) (r1 @ concat cs) = (gs', r2, e2)"
      by (metis prod_cases3)
    have whole: "fs = gs @ gs' \<and> r = r2 \<and> e = e2"
      using parse_append [of "limit d" "rest d @ c" "concat cs"] p1 p2 None Cons.prems(4) by simp
    have "parse (limit d) r1 = ([], r1, None)"
      using parse_append [of "limit d" "rest d @ c" "[]"] p1 None
      by (auto split: prod.splits option.splits)
    then show ?thesis
      using Cons.IH [of d1 gs' r2 e2] d1 None p2 whole by auto
  qed
qed

text \<open>Valid frames, encoded and cut up in any way, come out again, in order.\<close>

lemma feed_all_encoded:
  assumes "ok d" and "err d = None" and "rest d = []"
    and "list_all (\<lambda>f. validate_frame f (limit d) = Validation_none) fs"
    and "concat cs = concat (map encode_frame fs)"
  shows "\<exists>d'. feed_all d cs = Some (d', fs) \<and> ok d' \<and> rest d' = [] \<and> err d' = None"
proof -
  have nil: "parse (limit d) [] = ([], [], None)"
    by (simp add: parse_short frame_header_size_def)
  then have "parse (limit d) (rest d @ concat cs) = (fs, [], None)"
    using parse_encode_frames [OF assms(4), of "[]"] assms(3,5) by simp
  from feed_all_parse [OF assms(1,2) _ this] nil assms(3) show ?thesis by auto
qed

end

interpretation decoder_source: frame_source
  push dec_inv buffered dec_error dec_max_payload_size
proof
  fix d bs fs r e
  assume "dec_inv d" "dec_error d = None"
    and "parse (dec_max_payload_size d) (buffered d @ bs) = (fs, r, e)"
  with push_parse [of d bs] show "\<exists>d'. push d bs = Some (d', fs) \<and> dec_inv d' \<and>
      buffered d' = r \<and> dec_error d' = e \<and> dec_max_payload_size d' = dec_max_payload_size d"
    by (simp add: feeds_to_def)
qed (simp add: push_failed)

lemma push_inv [inv_intros]: "dec_inv d \<Longrightarrow> push d bs = Some (d', fs) \<Longrightarrow> dec_inv d'"
  using decoder_source.feed_total [of d bs] by auto

lemma push_limit:
  "dec_inv d \<Longrightarrow> push d bs = Some (d', fs) \<Longrightarrow> dec_max_payload_size d' = dec_max_payload_size d"
  using decoder_source.feed_total [of d bs] by auto

text \<open>The payload buffer never exceeds the configured limit.\<close>

lemma dec_inv_payload_bound:
  "dec_inv d \<Longrightarrow> length (dec_payload d) \<le> unat (dec_max_payload_size d)"
  by (auto simp: dec_inv_def header_ready_def failed_state_def payload_ready_def
      word_le_nat_alt dest!: check_header_size(1))

lemma push_frames_valid:
  assumes "dec_inv d" and "push d bs = Some (d', fs)"
  shows "list_all (\<lambda>f. validate_frame f (dec_max_payload_size d) = Validation_none) fs"
proof (cases "dec_error d")
  case None
  then show ?thesis
    using push_parse [OF assms(1) None, of bs] assms(2)
      parse_valid [of "dec_max_payload_size d" "buffered d @ bs"] by (auto simp: feeds_to_def)
qed (use assms push_failed in auto)

section \<open>Properties of the component\<close>

text \<open>A frame to evaluate examples on.\<close>

definition sample_frame :: Frame where
  "sample_frame =
     \<lparr>frame_header = default_header\<lparr>header_type := FrameType_request,
        header_stream := StreamId 1, header_payload_size := 2\<rparr>,
      frame_payload = [7, 9]\<rparr>"

lemma sample_frame_valid: "validate_frame sample_frame 8 = Validation_none"
  by (simp add: sample_frame_def validate_frame_def default_header_def is_known_frame_type_def
      has_only_known_flags_iff stream_is_valid_def has_flag_def flags_and_def Let_def)

text \<open>A sequence of reads, as the read loops feed them to the decoder.\<close>

primrec push_all :: "FrameDecoder \<Rightarrow> Buffer list \<Rightarrow> (FrameDecoder \<times> Frame list) option" where
  "push_all d [] = Some (d, [])"
| "push_all d (c # cs) =
     do { (d1, fs) \<leftarrow> push d c; (d2, gs) \<leftarrow> push_all d1 cs; Some (d2, fs @ gs) }"

lemma push_all_feed: "push_all d cs = decoder_source.feed_all d cs"
  by (induction cs arbitrary: d) simp_all

lemma new_decoder_empty [simp]:
  "buffered (new_decoder mx) = []" "dec_error (new_decoder mx) = None"
  "dec_max_payload_size (new_decoder mx) = mx"
  by (simp_all add: buffered_def new_decoder_def)

lemma push_all_parse:
  obtains d' where "push_all (new_decoder mx) cs = Some (d', fst (parse mx (concat cs)))"
    "dec_inv d'" "buffered d' = fst (snd (parse mx (concat cs)))"
    "dec_error d' = snd (snd (parse mx (concat cs)))" "dec_max_payload_size d' = mx"
  using decoder_source.feed_all_parse [OF new_decoder_inv, of mx cs "fst (parse mx (concat cs))"
      "fst (snd (parse mx (concat cs)))" "snd (snd (parse mx (concat cs)))"]
  by (auto simp: push_all_feed parse_short frame_header_size_def)

text \<open>
  Property C3. However the incoming byte stream is cut into reads, the decoder returns from
  every call, and its frames, its error and the bytes it holds back are those of cutting the
  whole stream into frames: the state machine implements the specification \<open>parse\<close>.
\<close>

theorem decoder_refines_parse:
  "\<exists>d'. push_all (new_decoder mx) cs = Some (d', fst (parse mx (concat cs))) \<and>
     buffered d' = fst (snd (parse mx (concat cs))) \<and>
     dec_error d' = snd (snd (parse mx (concat cs)))"
  by (rule push_all_parse [of mx cs]) blast

text \<open>
  Frames that pass validation, encoded one after the other and cut into reads in
  any way, come out of the decoder in order, and nothing is left over.
\<close>

lemma decoder_roundtrip:
  assumes "list_all (\<lambda>f. validate_frame f mx = Validation_none) fs"
    and "concat cs = concat (map encode_frame fs)"
  shows "\<exists>d'. push_all (new_decoder mx) cs = Some (d', fs) \<and> dec_error d' = None \<and>
     \<not> has_incomplete_frame d'"
proof -
  obtain d' where d': "push_all (new_decoder mx) cs = Some (d', fs)" "dec_inv d'"
    "buffered d' = []" "dec_error d' = None"
    using decoder_source.feed_all_encoded [OF new_decoder_inv, of mx fs cs] assms
    by (auto simp: push_all_feed)
  moreover have "\<not> has_incomplete_frame d'"
    using d'(2-4)
    by (auto simp: dec_inv_def header_ready_def failed_state_def payload_ready_def buffered_def
        has_incomplete_frame_def frame_header_size_def)
  ultimately show ?thesis by blast
qed

lemma decoder_roundtrip_example:
  "\<exists>d'. push_all (new_decoder 8)
       [take 5 (encode_frame sample_frame), drop 5 (encode_frame sample_frame)] =
         Some (d', [sample_frame]) \<and>
     dec_error d' = None \<and> \<not> has_incomplete_frame d'"
  using decoder_roundtrip [of 8 "[sample_frame]"
      "[take 5 (encode_frame sample_frame), drop 5 (encode_frame sample_frame)]"]
  by (simp add: sample_frame_valid)

text \<open>
  Property C22. The decoder trusts nothing it has not checked: every frame it hands out passes
  validation, the frames re-encoded are a prefix of the bytes received, and the payload buffer
  never exceeds the configured limit, whatever the peer sends.
\<close>

theorem decoder_safe:
  assumes "push_all (new_decoder mx) cs = Some (d', fs)"
  shows "list_all (\<lambda>f. validate_frame f mx = Validation_none) fs \<and>
     (\<exists>rest. concat cs = concat (map encode_frame fs) @ rest) \<and>
     length (dec_payload d') \<le> unat mx"
proof (intro conjI)
  obtain d where d: "push_all (new_decoder mx) cs = Some (d, fst (parse mx (concat cs)))"
    "dec_inv d" "dec_max_payload_size d = mx"
    by (rule push_all_parse [of mx cs]) blast
  with assms have eq: "d' = d" "fs = fst (parse mx (concat cs))" by simp_all
  show "list_all (\<lambda>f. validate_frame f mx = Validation_none) fs"
    unfolding eq by (rule parse_valid)
  show "\<exists>rest. concat cs = concat (map encode_frame fs) @ rest"
    unfolding eq using parse_lossless by blast
  show "length (dec_payload d') \<le> unat mx"
    using dec_inv_payload_bound [OF d(2)] d(3) by (simp add: eq)
qed

theorem decoder_safe_witness:
  "\<exists>d'. push_all (new_decoder 8) [encode_frame sample_frame, [0, 1]] = Some (d', [sample_frame]) \<and>
     (\<exists>rest. encode_frame sample_frame @ [0, 1] = encode_frame sample_frame @ rest) \<and>
     length (dec_payload d') \<le> unat (8 :: u32)"
proof -
  let ?cs = "[encode_frame sample_frame, [0, 1]]"
  have "parse 8 (concat ?cs) = ([sample_frame], [0, 1], None)"
    using parse_encode_frames [of 8 "[sample_frame]" "[0, 1]"]
    by (simp add: sample_frame_valid parse_short frame_header_size_def)
  then obtain d' where d': "push_all (new_decoder 8) ?cs = Some (d', [sample_frame])"
    by (metis fst_conv push_all_parse)
  with decoder_safe [OF this] show ?thesis by simp
qed

end
