(* ===== verification/Message_Codec.thy ===== *)
theory Message_Codec
  imports Message_Registry Frame_Decoder
begin

text \<open>
  Typed messages as payloads and frames (\<open>message_codec.hpp\<close>): a payload is the registered wire
  type, four bytes big-endian, followed by the codec's body. Dereferencing the payload of a
  codec result that reports success without one is undefined behaviour in C++; it is \<open>the\<close>
  here, and the codec contract excludes it.
\<close>

section \<open>Definitions\<close>

definition message_type_size :: nat where
  "message_type_size = 4"

record FrameEncodeResult =
  frame_encode_frame :: "Frame option"
  frame_encode_status :: StatusCode
  frame_encode_message :: string

definition FrameEncodeResult_success :: "Frame \<Rightarrow> FrameEncodeResult" where
  "FrameEncodeResult_success f =
     \<lparr>frame_encode_frame = Some f, frame_encode_status = Status_ok, frame_encode_message = []\<rparr>"

definition FrameEncodeResult_failure :: "StatusCode \<Rightarrow> string \<Rightarrow> FrameEncodeResult" where
  "FrameEncodeResult_failure status msg =
     \<lparr>frame_encode_frame = None, frame_encode_status = status, frame_encode_message = msg\<rparr>"

definition frame_encode_ok :: "FrameEncodeResult \<Rightarrow> bool" where
  "frame_encode_ok r \<longleftrightarrow> frame_encode_status r = Status_ok"

definition encode_message_payload ::
  "('t, 'v) Codec \<Rightarrow> 't MessageRegistry \<Rightarrow> 't \<Rightarrow> 'v \<Rightarrow> ProtocolVersion \<Rightarrow> EncodeResult" where
  "encode_message_payload C reg ty v version =
     (case message_type_at reg version ty of
        None \<Rightarrow>
          EncodeResult_failure Status_unknown_message_type ''message type is not registered''
      | Some wire_type \<Rightarrow>
          (let encoded = codec_encode C ty v in
           if \<not> encode_ok encoded then encoded
           else
             (let body = the (encode_payload encoded);
                  p = replicate (message_type_size + length body) 0;
                  p = write_be32 p 0 (message_type_value wire_type) in
              EncodeResult_success (copy_at p message_type_size body))))"

definition peek_message_type :: "Buffer \<Rightarrow> MessageType option" where
  "peek_message_type p =
     (if length p < message_type_size then None else Some (MessageType (read_be32 p 0)))"

definition decode_message_payload ::
  "('t, 'v) Codec \<Rightarrow> 't MessageRegistry \<Rightarrow> 't \<Rightarrow> Buffer \<Rightarrow> ProtocolVersion \<Rightarrow> 'v DecodeResult" where
  "decode_message_payload C reg ty p version =
     (case peek_message_type p of
        None \<Rightarrow>
          DecodeResult_failure Status_decode_error
            ''payload is too small to contain a message type''
      | Some wire_type \<Rightarrow>
          (let expected_type = message_type_at reg version ty in
           if expected_type = None \<or> the expected_type \<noteq> wire_type then
             DecodeResult_failure Status_unknown_message_type
               ''payload message type does not match Message''
           else codec_decode C ty (drop message_type_size p)))"

definition encode_message ::
  "('t, 'v) Codec \<Rightarrow> 't MessageRegistry \<Rightarrow> 't \<Rightarrow> 'v \<Rightarrow> StreamId \<Rightarrow> FrameType \<Rightarrow> FrameFlags \<Rightarrow> u32 \<Rightarrow>
     ProtocolVersion \<Rightarrow> FrameEncodeResult" where
  "encode_message C reg ty v sid frame_type flags max_payload_size version =
     (let encoded = encode_message_payload C reg ty v version in
      if \<not> encode_ok encoded then
        FrameEncodeResult_failure (encode_status encoded) (encode_message_text encoded)
      else
        (let p = the (encode_payload encoded) in
         if length p > unat max_payload_size then
           FrameEncodeResult_failure Status_resource_limit_exceeded
             ''encoded message exceeds the maximum payload size''
         else
           FrameEncodeResult_success
             \<lparr>frame_header =
                \<lparr>header_version = version, header_type = frame_type, header_flags = flags,
                 header_stream = sid, header_payload_size = word_of_nat (length p)\<rparr>,
              frame_payload = p\<rparr>))"

definition decode_message ::
  "('t, 'v) Codec \<Rightarrow> 't MessageRegistry \<Rightarrow> 't \<Rightarrow> Frame \<Rightarrow> 'v DecodeResult" where
  "decode_message C reg ty f =
     decode_message_payload C reg ty (frame_payload f) (header_version (frame_header f))"

lemmas frame_encode_defs =
  FrameEncodeResult_success_def FrameEncodeResult_failure_def frame_encode_ok_def

section \<open>Payloads\<close>

text \<open>The layout of a payload that was encoded successfully.\<close>

lemma encode_payload_layout:
  assumes "message_type_at reg version ty = Some mt" and "encode_ok (codec_encode C ty v)"
  shows "encode_message_payload C reg ty v version =
     EncodeResult_success
       (be32_bytes (message_type_value mt) @ the (encode_payload (codec_encode C ty v)))"
  using assms
  by (simp add: encode_message_payload_def be32.wr_eq copy_at_def message_type_size_def Let_def)

lemma peek_layout: "peek_message_type (be32_bytes (message_type_value mt) @ body) = Some mt"
  using be32.rd_append [of "[]" 0 "message_type_value mt" body]
  by (simp add: peek_message_type_def message_type_size_def)

lemma encode_message_payload_ok:
  assumes "encode_ok (encode_message_payload C reg ty v version)"
  obtains mt where "message_type_at reg version ty = Some mt" "encode_ok (codec_encode C ty v)"
    "encode_message_payload C reg ty v version =
       EncodeResult_success
         (be32_bytes (message_type_value mt) @ the (encode_payload (codec_encode C ty v)))"
proof (cases "message_type_at reg version ty")
  case None
  then show thesis using assms by (simp add: encode_message_payload_def codec_result_defs)
next
  case (Some mt)
  then have enc: "encode_ok (codec_encode C ty v)"
    using assms by (auto simp: encode_message_payload_def Let_def split: if_splits)
  show thesis by (rule that [OF Some enc encode_payload_layout [OF Some enc]])
qed

text \<open>Decoding a payload of a given layout: the wire type decides before the codec runs.\<close>

lemma decode_payload_layout:
  "decode_message_payload C reg ty (be32_bytes (message_type_value mt) @ body) version =
     (if message_type_at reg version ty = Some mt then codec_decode C ty body
      else DecodeResult_failure Status_unknown_message_type
             ''payload message type does not match Message'')"
  by (auto simp: decode_message_payload_def peek_layout message_type_size_def Let_def)

section \<open>Round trips\<close>

lemma payload_roundtrip:
  assumes "codec_contract C ok_val" and "ok_val ty v"
    and "encode_message_payload C reg ty v version = EncodeResult_success p"
  shows "decode_message_payload C reg ty p version = DecodeResult_success v"
proof -
  have ok: "encode_ok (encode_message_payload C reg ty v version)"
    by (simp add: assms(3) codec_result_defs)
  then obtain mt where mt: "message_type_at reg version ty = Some mt"
    and enc: "encode_ok (codec_encode C ty v)"
    and p: "p = be32_bytes (message_type_value mt) @ the (encode_payload (codec_encode C ty v))"
    by (rule encode_message_payload_ok) (use assms(3) in \<open>auto simp: EncodeResult_success_def\<close>)
  obtain body where "encode_payload (codec_encode C ty v) = Some body"
    using codec_contract.encode_some [OF assms(1) enc] by blast
  then show ?thesis
    using codec_contract.decode_encode [OF assms(1,2)] mt by (simp add: p decode_payload_layout)
qed

lemma encode_message_ok:
  assumes "frame_encode_ok (encode_message C reg ty v sid ft fl mx version)"
  obtains p where "encode_message_payload C reg ty v version = EncodeResult_success p"
    "length p \<le> unat mx"
    "encode_message C reg ty v sid ft fl mx version =
       FrameEncodeResult_success
         \<lparr>frame_header =
            \<lparr>header_version = version, header_type = ft, header_flags = fl,
             header_stream = sid, header_payload_size = word_of_nat (length p)\<rparr>,
          frame_payload = p\<rparr>"
proof -
  have "encode_ok (encode_message_payload C reg ty v version)"
    using assms by (auto simp: encode_message_def frame_encode_defs encode_ok_def Let_def
        split: if_splits)
  then obtain p where p: "encode_message_payload C reg ty v version = EncodeResult_success p"
    by (metis encode_message_payload_ok)
  then show thesis
    using that [OF p] assms
    by (auto simp: encode_message_def frame_encode_defs codec_result_defs Let_def not_less
        split: if_splits)
qed

lemma encode_message_success:
  assumes "encode_message C reg ty v sid ft fl mx version = FrameEncodeResult_success f"
  obtains p where "encode_message_payload C reg ty v version = EncodeResult_success p"
    "length p \<le> unat mx"
    "f = \<lparr>frame_header =
            \<lparr>header_version = version, header_type = ft, header_flags = fl,
             header_stream = sid, header_payload_size = word_of_nat (length p)\<rparr>,
          frame_payload = p\<rparr>"
proof -
  have "frame_encode_ok (encode_message C reg ty v sid ft fl mx version)"
    by (simp add: assms frame_encode_defs)
  from encode_message_ok [OF this] show thesis
    using that by (simp add: assms FrameEncodeResult_success_def) metis
qed

text \<open>The type of an encoded message can be read off its payload, and decoding gives it back.\<close>

lemma encoded_message_type:
  assumes "encode_message C reg ty v sid ft fl mx version = FrameEncodeResult_success f"
  obtains mt where "message_type_at reg version ty = Some mt"
    and "peek_message_type (frame_payload f) = Some mt"
proof -
  obtain p where p: "encode_message_payload C reg ty v version = EncodeResult_success p"
    "frame_payload f = p"
    by (rule encode_message_success [OF assms]) simp
  then have "encode_ok (encode_message_payload C reg ty v version)" by (simp add: codec_result_defs)
  from encode_message_payload_ok [OF this] show thesis
    using that p peek_layout by (metis EncodeResult.select_convs(1) EncodeResult_success_def option.inject)
qed

lemma message_roundtrip:
  assumes "codec_contract C ok_val" and "ok_val ty v"
    and "encode_message C reg ty v sid ft fl mx version = FrameEncodeResult_success f"
  shows "decode_message C reg ty f = DecodeResult_success v"
    and "header_version h = version \<Longrightarrow>
      decode_message C reg ty (f\<lparr>frame_header := h\<rparr>) = DecodeResult_success v"
proof -
  obtain p where p: "encode_message_payload C reg ty v version = EncodeResult_success p"
    "frame_payload f = p" "header_version (frame_header f) = version"
    by (rule encode_message_success [OF assms(3)]) simp
  note decoded = payload_roundtrip [OF assms(1,2) p(1)]
  show "decode_message C reg ty f = DecodeResult_success v"
    using decoded p by (simp add: decode_message_def)
  show "decode_message C reg ty (f\<lparr>frame_header := h\<rparr>) = DecodeResult_success v"
    if "header_version h = version"
    using decoded p that by (simp add: decode_message_def)
qed

text \<open>A message is never taken for one of another type.\<close>

lemma other_type_fails:
  assumes reg: "registry_inv reg"
    and enc: "encode_message C reg tr w sid ft fl mx version = FrameEncodeResult_success f"
    and "header_version h = version" and "ty \<noteq> tr"
  shows "decode_message C reg ty (f\<lparr>frame_header := h\<rparr>) =
      DecodeResult_failure Status_unknown_message_type ''payload message type does not match Message''"
    and "decode_value (decode_message C reg ty (f\<lparr>frame_header := h\<rparr>)) = None"
    and "\<not> decode_ok (decode_message C reg ty (f\<lparr>frame_header := h\<rparr>))"
proof -
  obtain mt where mt: "message_type_at reg version tr = Some mt" "peek_message_type (frame_payload f) = Some mt"
    by (rule encoded_message_type [OF enc])
  have "message_type_at reg version ty \<noteq> Some mt"
    using reg_dir.id_injective [OF reg mt(1)] assms(4) by blast
  then show fails: "decode_message C reg ty (f\<lparr>frame_header := h\<rparr>) =
      DecodeResult_failure Status_unknown_message_type ''payload message type does not match Message''"
    using mt(2) assms(3) by (auto simp: decode_message_def decode_message_payload_def Let_def)
  show "decode_value (decode_message C reg ty (f\<lparr>frame_header := h\<rparr>)) = None"
    and "\<not> decode_ok (decode_message C reg ty (f\<lparr>frame_header := h\<rparr>))"
    unfolding fails by (simp_all add: codec_result_defs)
qed

lemma encode_message_valid:
  assumes "frame_encode_ok (encode_message C reg ty v sid ft fl mx current_protocol_version)"
    and "is_known_frame_type ft" and "has_only_known_flags fl"
    and "\<not> (has_flag fl Flags_cancel \<and> has_flag fl Flags_error)" and "stream_is_valid sid"
  shows "\<exists>f. encode_message C reg ty v sid ft fl mx current_protocol_version =
       FrameEncodeResult_success f \<and> validate_frame f mx = Validation_none"
proof -
  obtain p where p: "length p \<le> unat mx"
    "encode_message C reg ty v sid ft fl mx current_protocol_version =
       FrameEncodeResult_success
         \<lparr>frame_header =
            \<lparr>header_version = current_protocol_version, header_type = ft, header_flags = fl,
             header_stream = sid, header_payload_size = word_of_nat (length p)\<rparr>,
          frame_payload = p\<rparr>"
    using encode_message_ok [OF assms(1)] by metis
  then have "length p < 2 ^ 32"
    using unsigned_less [of mx, where 'a = nat] by simp
  then have "unat (word_of_nat (length p) :: u32) = length p"
    by (simp add: unat_of_nat take_bit_nat_eq_self)
  then have "validate_frame \<lparr>frame_header =
      \<lparr>header_version = current_protocol_version, header_type = ft, header_flags = fl,
       header_stream = sid, header_payload_size = word_of_nat (length p)\<rparr>,
      frame_payload = p\<rparr> mx = Validation_none"
    using p(1) assms(2-) \<open>length p < 2 ^ 32\<close>
    by (auto simp: validate_frame_def Let_def word_less_nat_alt)
  with p(2) show ?thesis by blast
qed

section \<open>Property: type safety\<close>

text \<open>
  Property C29. A message is decoded only as what it was encoded as. A frame encoded from a value of one
  registered type decodes to exactly that value at that type, and at every other type decoding
  fails with \<open>unknown_message_type\<close> before the codec sees the bytes.
\<close>

theorem message_type_safety:
  assumes "codec_contract C ok_val" and "ok_val ty v" and "registry_inv reg"
    and "encode_message C reg ty v sid ft fl mx version = FrameEncodeResult_success f"
  shows "decode_message C reg ty' f =
    (if ty' = ty then DecodeResult_success v
     else DecodeResult_failure Status_unknown_message_type
       ''payload message type does not match Message'')"
proof -
  have "header_version (frame_header f) = version" by (rule encode_message_success [OF assms(4)]) simp
  then show ?thesis
    using message_roundtrip(1) [OF assms(1,2,4)] other_type_fails(1) [OF assms(3,4), of "frame_header f" ty']
    by (cases "ty' = ty") simp_all
qed

text \<open>Two types of the same size, so that only the wire type tells them apart.\<close>

definition two_types :: "bool MessageRegistry" where
  "two_types = fst (register_message_at (\<lambda>_. True)
     (fst (register_message_at (\<lambda>_. True) new_registry current_protocol_version False (MessageType 7)))
     current_protocol_version True (MessageType 8))"

theorem message_type_safety_witness:
  "\<exists>f. encode_message (PodCodec (\<lambda>_. 1)) two_types True [5] (StreamId 1) FrameType_request Flags_none 10
       current_protocol_version = FrameEncodeResult_success f \<and>
     decode_message (PodCodec (\<lambda>_. 1)) two_types False f =
       DecodeResult_failure Status_unknown_message_type ''payload message type does not match Message''"
proof -
  have inv: "registry_inv two_types"
    unfolding two_types_def by (intro register_message_inv new_registry_inv)
  let ?f = "\<lparr>frame_header = \<lparr>header_version = current_protocol_version, header_type = FrameType_request,
      header_flags = Flags_none, header_stream = StreamId 1, header_payload_size = 5\<rparr>,
    frame_payload = [0, 0, 0, 8, 5]\<rparr>"
  have enc: "encode_message (PodCodec (\<lambda>_. 1)) two_types True [5] (StreamId 1) FrameType_request Flags_none 10
      current_protocol_version = FrameEncodeResult_success ?f"
    by (simp add: two_types_def encode_message_def encode_message_payload_def PodCodec_def pod_encode_def
        register_message_at_def new_registry_def message_type_at_def frame_encode_defs codec_result_defs
        message_type_is_valid_def empty_registrations_def contains_id_at_def contains_type_at_def
        message_type_size_def be32.wr_eq copy_at_def be32_bytes_def Let_def)
  show ?thesis
    using message_type_safety [OF pod.codec_contract_axioms _ inv enc, of False] enc
    by (intro exI [of _ ?f]) simp
qed

end
