(* ===== verification/Connection_Env.thy ===== *)
theory Connection_Env
  imports Write_Queue Message_Codec
begin

text \<open>
  What a connection is parameterised by: the operations of the channels it uses, the codec, and
  the message registry it refers to. The source has the first two as types and the last as a
  reference that outlives the connection.
\<close>

record ('ch, 'sp, 't, 'v) Env =
  env_queue :: "('ch, 'sp) QueueOps"
  env_codec :: "('t, 'v) Codec"
  env_registry :: "'t MessageRegistry"

text \<open>
  A call of a connection's \<open>shutdown\<close>: suspended in its polling loop, with the deadline of the drain
  and the time before which the timer it waits for does not fire, or returned. Times are
  integers; a timer that is set for one millisecond fires no earlier than that. The unit is the
  nanosecond, the resolution of \<open>steady_clock\<close> in the common standard libraries.
\<close>

datatype DrainCall = Drain_polling int int | Drain_returned

definition poll_interval :: int where
  "poll_interval = 1000000"

end
