(* ===== verification/Stream_Id_Allocator.thy ===== *)
theory Stream_Id_Allocator
  imports Identifiers Status
begin

text \<open>
  Allocation of connection-local stream identifiers (\<open>stream_id_allocator.hpp\<close>). The two
  \<open>std::set<std::uint64_t>\<close> members are sets of 64-bit words; \<open>*available_.begin()\<close> is their
  least element. All arithmetic is the wrapping 64-bit arithmetic of the source.
\<close>

section \<open>Data\<close>

datatype StreamInitiator = Initiator_client | Initiator_server

record StreamIdAllocation =
  allocation_stream :: "StreamId option"
  allocation_status :: StatusCode

definition allocation_success :: "StreamId \<Rightarrow> StreamIdAllocation" where
  "allocation_success sid = \<lparr>allocation_stream = Some sid, allocation_status = Status_ok\<rparr>"

definition allocation_exhausted :: StreamIdAllocation where
  "allocation_exhausted =
     \<lparr>allocation_stream = None, allocation_status = Status_resource_limit_exceeded\<rparr>"

definition allocation_ok :: "StreamIdAllocation \<Rightarrow> bool" where
  "allocation_ok a \<longleftrightarrow> allocation_stream a \<noteq> None"

record StreamIdAllocator =
  initiator :: StreamInitiator
  next_id :: u64
  maximum_id :: u64
  in_use :: "u64 set"
  available :: "u64 set"

section \<open>Operations\<close>

definition first_id :: "StreamInitiator \<Rightarrow> u64" where
  "first_id i = (if i = Initiator_client then 1 else 2)"

definition last_id :: "StreamInitiator \<Rightarrow> u64 \<Rightarrow> u64" where
  "last_id i mx =
     (if i = Initiator_client then (if mx mod 2 = 1 then mx else if mx = 0 then 0 else mx - 1)
      else (if mx mod 2 = 0 then mx else mx - 1))"

definition new_allocator :: "StreamInitiator \<Rightarrow> u64 \<Rightarrow> StreamIdAllocator" where
  "new_allocator i mx =
     \<lparr>initiator = i, next_id = first_id i, maximum_id = last_id i mx, in_use = {},
      available = {}\<rparr>"

definition allocator_exhausted :: "StreamIdAllocator \<Rightarrow> bool" where
  "allocator_exhausted al \<longleftrightarrow> next_id al = 0"

definition allocate :: "StreamIdAllocator \<Rightarrow> StreamIdAllocator \<times> StreamIdAllocation" where
  "allocate al =
     (if available al \<noteq> {} then
        (let value = Min (available al) in
         (al\<lparr>available := available al - {value}, in_use := insert value (in_use al)\<rparr>,
          allocation_success (StreamId value)))
      else if next_id al = 0 \<or> next_id al > maximum_id al then
        (al\<lparr>next_id := 0\<rparr>, allocation_exhausted)
      else
        (al\<lparr>in_use := insert (next_id al) (in_use al),
            next_id := (if maximum_id al - next_id al < 2 then 0 else next_id al + 2)\<rparr>,
         allocation_success (StreamId (next_id al))))"

definition release :: "StreamIdAllocator \<Rightarrow> StreamId \<Rightarrow> StreamIdAllocator" where
  "release al sid =
     (let value = stream_value sid in
      if value = 0 \<or> value > maximum_id al \<or> value mod 2 \<noteq> first_id (initiator al) mod 2 then al
      else if value \<in> in_use al then
        al\<lparr>in_use := in_use al - {value}, available := insert value (available al)\<rparr>
      else al)"

section \<open>Invariant\<close>

text \<open>
  The identifiers an allocator owns: non-zero, at most the maximum, of its parity. Those below
  the cursor have been handed out at least once, and each of them is either in use or
  available again; a cursor of zero means that all of them are below it.
\<close>

definition owned :: "StreamIdAllocator \<Rightarrow> u64 set" where
  "owned al = {v. v \<noteq> 0 \<and> v \<le> maximum_id al \<and> v mod 2 = first_id (initiator al) mod 2}"

definition issued :: "StreamIdAllocator \<Rightarrow> u64 set" where
  "issued al = {v \<in> owned al. next_id al = 0 \<or> v < next_id al}"

definition alloc_inv :: "StreamIdAllocator \<Rightarrow> bool" where
  "alloc_inv al \<longleftrightarrow>
     in_use al \<inter> available al = {} \<and> in_use al \<union> available al = issued al \<and>
     (next_id al \<noteq> 0 \<longrightarrow> next_id al mod 2 = first_id (initiator al) mod 2)"

lemma even_word_mod: "even (v :: u64) \<longleftrightarrow> v mod 2 = 0"
  by (simp add: even_iff_mod_2_eq_zero)

lemma first_id_nonzero: "first_id i \<noteq> 0"
  by (simp add: first_id_def)

lemma first_id_mod_2:
  "first_id i mod 2 = (if i = Initiator_client then 1 else 0)"
  by (simp add: first_id_def)

lemma finite_available [simp]: "finite (available al)"
  by simp

text \<open>Stepping the cursor by two skips no owned identifier.\<close>

lemma word_parity_unat: "(v :: u64) mod 2 = w mod 2 \<longleftrightarrow> unat v mod 2 = unat w mod 2"
proof -
  have "unat (x mod 2) = unat x mod 2" for x :: u64
    by (simp add: unat_mod_distrib)
  then show ?thesis by (metis word_unat_eq_iff)
qed

lemma same_parity_between:
  fixes v n :: u64
  assumes "v mod 2 = n mod 2" and "unat n \<le> unat v" and "unat v < unat n + 2"
  shows "v = n"
proof -
  have "unat v mod 2 = unat n mod 2" using assms(1) by (simp add: word_parity_unat)
  with assms(2,3) have "unat v = unat n" by presburger
  then show ?thesis by (simp add: word_unat_eq_iff)
qed

lemma step_cursor:
  fixes n m :: u64
  assumes "n \<le> m" and "\<not> m - n < 2"
  shows "unat (n + 2) = unat n + 2" and "n + 2 \<noteq> 0" and "(n + 2) mod 2 = n mod 2"
proof -
  show u: "unat (n + 2) = unat n + 2"
    using unat_add_no_wrap [OF assms(1), of 2] assms(2) by (simp add: not_less)
  then show "n + 2 \<noteq> 0" by (metis add_is_0 unsigned_0 zero_neq_numeral)
  show "(n + 2) mod 2 = n mod 2" by (simp add: word_parity_unat u)
qed

lemma last_step:
  fixes n m v :: u64
  assumes "n \<le> m" and "m - n < 2" and "v \<le> m" and "v mod 2 = n mod 2"
  shows "v < n \<or> v = n"
proof (cases "v < n")
  case False
  have "unat m < unat n + 2"
    using unat_diff_split [OF assms(1)] assms(2) by (simp add: word_less_nat_alt)
  moreover have "unat v \<le> unat m" using assms(3) by (simp add: word_le_nat_alt)
  moreover have "unat n \<le> unat v" using False by (simp add: not_less word_le_nat_alt)
  ultimately have "v = n"
    using same_parity_between [OF assms(4)] by linarith
  then show ?thesis ..
qed simp

lemma cursor_owned:
  assumes "alloc_inv al" and "next_id al \<noteq> 0" and "next_id al \<le> maximum_id al"
  shows "next_id al \<in> owned al" and "next_id al \<notin> issued al"
  using assms by (auto simp: owned_def issued_def alloc_inv_def)

lemma issued_step:
  assumes "alloc_inv al" and "next_id al \<noteq> 0" and "next_id al \<le> maximum_id al"
  defines "n' \<equiv> if maximum_id al - next_id al < 2 then 0 else next_id al + 2"
  shows "issued (al\<lparr>next_id := n'\<rparr>) = insert (next_id al) (issued al)"
proof -
  have par: "next_id al mod 2 = first_id (initiator al) mod 2"
    using assms(1,2) by (simp add: alloc_inv_def)
  have "v < n' \<longleftrightarrow> v < next_id al \<or> v = next_id al"
    if v: "v \<in> owned al" and big: "\<not> maximum_id al - next_id al < 2" for v
  proof -
    note st = step_cursor [OF assms(3) big]
    have "v mod 2 = next_id al mod 2" using v par by (simp add: owned_def)
    then show ?thesis
      using same_parity_between [of v "next_id al"] big st(1)
      by (auto simp: n'_def word_less_nat_alt not_less not_le [symmetric])
  qed
  moreover have "v < next_id al \<or> v = next_id al"
    if v: "v \<in> owned al" and small: "maximum_id al - next_id al < 2" for v
    using v par by (intro last_step [OF assms(3) small]) (simp_all add: owned_def)
  moreover have "n' = 0 \<longleftrightarrow> maximum_id al - next_id al < 2"
    using step_cursor(2) [OF assms(3)] by (simp add: n'_def)
  ultimately show ?thesis
    using cursor_owned(1) [OF assms(1-3)] assms(2)
    by (auto simp: issued_def owned_def)
qed

lemma owned_update [simp]:
  "owned (al\<lparr>next_id := n\<rparr>) = owned al"
  "owned (al\<lparr>in_use := xs\<rparr>) = owned al"
  "owned (al\<lparr>available := ys\<rparr>) = owned al"
  by (simp_all add: owned_def)

lemma issued_update [simp]:
  "issued (al\<lparr>in_use := xs\<rparr>) = issued al"
  "issued (al\<lparr>available := ys\<rparr>) = issued al"
  by (simp_all add: issued_def)

section \<open>Every operation keeps the invariant\<close>

lemma new_allocator_inv [inv_intros]: "alloc_inv (new_allocator i mx)"
proof -
  have "v < first_id i \<Longrightarrow> v mod 2 = first_id i mod 2 \<Longrightarrow> v = 0" for v :: u64
    using same_parity_between [of v 0]
    by (auto simp: first_id_def word_less_nat_alt unat_eq_zero split: if_splits)
  then have "issued (new_allocator i mx) = {}"
    using first_id_nonzero [of i] by (auto simp: issued_def owned_def new_allocator_def)
  then show ?thesis by (simp add: alloc_inv_def new_allocator_def)
qed

text \<open>The three ways \<open>allocate\<close> can go, with what holds in each.\<close>

lemma allocate_cases:
  assumes inv: "alloc_inv al"
  obtains
    (reuse) v where "available al \<noteq> {}" "v = Min (available al)" "v \<in> available al"
      "allocate al =
         (al\<lparr>available := available al - {v}, in_use := insert v (in_use al)\<rparr>,
          allocation_success (StreamId v))"
  | (exhausted) "available al = {}" "in_use al = owned al"
      "allocate al = (al\<lparr>next_id := 0\<rparr>, allocation_exhausted)"
  | (fresh) n' where "available al = {}" "next_id al \<in> owned al" "next_id al \<notin> in_use al"
      "issued (al\<lparr>next_id := n'\<rparr>) = insert (next_id al) (issued al)"
      "n' \<noteq> 0 \<longrightarrow> n' mod 2 = first_id (initiator al) mod 2"
      "\<forall>v \<in> owned al - in_use al. next_id al \<le> v"
      "allocate al =
         (al\<lparr>in_use := insert (next_id al) (in_use al), next_id := n'\<rparr>,
          allocation_success (StreamId (next_id al)))"
proof (cases "available al = {}")
  case False
  then show thesis
    using reuse [of "Min (available al)"] by (simp add: allocate_def Let_def)
next
  case av: True
  then have used: "in_use al = issued al" using inv by (auto simp: alloc_inv_def)
  show thesis
  proof (cases "next_id al = 0 \<or> next_id al > maximum_id al")
    case True
    then have "issued al = owned al"
      by (auto simp: issued_def owned_def not_less)
    with True av used show thesis by (intro exhausted) (simp_all add: allocate_def)
  next
    case False
    let ?n' = "if maximum_id al - next_id al < 2 then 0 else next_id al + 2"
    from False have nz: "next_id al \<noteq> 0" and le: "next_id al \<le> maximum_id al" by auto
    have "next_id al mod 2 = first_id (initiator al) mod 2"
      using inv nz by (simp add: alloc_inv_def)
    then have "?n' \<noteq> 0 \<longrightarrow> ?n' mod 2 = first_id (initiator al) mod 2"
      using step_cursor(3) [OF le] by simp
    moreover have "\<forall>v \<in> owned al - in_use al. next_id al \<le> v"
      by (auto simp: used issued_def)
    ultimately show thesis
      using fresh [OF av cursor_owned(1) [OF inv nz le] _ issued_step [OF inv nz le]]
        cursor_owned(2) [OF inv nz le] used av False
      by (simp add: allocate_def)
  qed
qed

lemma available_owned: "alloc_inv al \<Longrightarrow> available al \<subseteq> owned al"
  by (auto simp: alloc_inv_def issued_def)

lemma in_use_owned: "alloc_inv al \<Longrightarrow> in_use al \<subseteq> owned al"
  by (auto simp: alloc_inv_def issued_def)

lemma allocate_inv [inv_intros]:
  assumes "alloc_inv al"
  shows "alloc_inv (fst (allocate al))"
  using assms
proof (cases rule: allocate_cases)
  case (reuse v)
  have "insert v (in_use al) \<union> (available al - {v}) = in_use al \<union> available al"
    using reuse(3) by blast
  with reuse(3,4) show ?thesis using assms by (auto simp: alloc_inv_def simp del: Un_insert_left)
next
  case exhausted
  then show ?thesis using assms by (auto simp: alloc_inv_def issued_def)
next
  case (fresh n')
  have "issued (al\<lparr>in_use := insert (next_id al) (in_use al), next_id := n'\<rparr>) =
      insert (next_id al) (issued al)"
    using fresh(4) by (simp add: issued_def)
  with fresh show ?thesis using assms by (auto simp: alloc_inv_def)
qed

lemma release_inv [inv_intros]: "alloc_inv al \<Longrightarrow> alloc_inv (release al sid)"
  by (auto simp: alloc_inv_def release_def Let_def issued_def owned_def)

lemma allocate_owned [simp]: "owned (fst (allocate al)) = owned al"
  by (auto simp: allocate_def owned_def Let_def)

lemma release_owned [simp]: "owned (release al sid) = owned al"
  by (auto simp: release_def owned_def Let_def)

section \<open>Abstract specification: the least free identifier\<close>

text \<open>
  Abstractly an allocator is the set of identifiers in use within the pool it owns:
  allocation takes the least free one and fails exactly when none is free, release returns
  one.
\<close>

definition spec_allocate :: "'a::linorder set \<Rightarrow> 'a set \<Rightarrow> 'a set \<times> 'a option" where
  "spec_allocate pool used =
     (if pool \<subseteq> used then (used, None)
      else (insert (Min (pool - used)) used, Some (Min (pool - used))))"

definition spec_release :: "'a set \<Rightarrow> 'a \<Rightarrow> 'a set" where
  "spec_release used v = used - {v}"

lemma Min_available:
  assumes "alloc_inv al" and "available al \<noteq> {}"
  shows "Min (available al) = Min (owned al - in_use al)"
proof (rule Min_eqI [symmetric])
  show "Min (available al) \<in> owned al - in_use al"
    using assms(1) Min_in [OF finite_available assms(2)] available_owned [OF assms(1)]
    unfolding alloc_inv_def by blast
next
  fix y assume y: "y \<in> owned al - in_use al"
  show "Min (available al) \<le> y"
  proof (cases "y \<in> available al")
    case False
    obtain a where a: "a \<in> available al" using assms(2) by blast
    have "a < next_id al \<and> next_id al \<noteq> 0 \<and> next_id al \<le> y"
      using y False a assms(1) by (auto simp: alloc_inv_def issued_def)
    then show ?thesis using Min_le [OF finite_available a] by auto
  qed simp
qed simp

lemma allocate_refines:
  assumes "alloc_inv al"
  shows "(in_use (fst (allocate al)),
          map_option stream_value (allocation_stream (snd (allocate al)))) =
         spec_allocate (owned al) (in_use al)"
  using assms
proof (cases rule: allocate_cases)
  case (reuse v)
  then have "\<not> owned al \<subseteq> in_use al"
    using available_owned [OF assms] assms by (auto simp: alloc_inv_def)
  with reuse Min_available [OF assms] show ?thesis
    by (simp add: spec_allocate_def allocation_success_def)
next
  case exhausted
  then show ?thesis by (simp add: spec_allocate_def allocation_exhausted_def)
next
  case (fresh n')
  then have "Min (owned al - in_use al) = next_id al" by (intro Min_eqI) auto
  with fresh show ?thesis
    by (auto simp: spec_allocate_def allocation_success_def)
qed

lemma release_refines:
  assumes "alloc_inv al"
  shows "in_use (release al sid) = spec_release (in_use al) (stream_value sid)"
  using in_use_owned [OF assms]
  by (auto simp: release_def spec_release_def Let_def owned_def)

lemma allocate_status:
  "allocation_status (snd (allocate al)) =
     (if allocation_ok (snd (allocate al)) then Status_ok else Status_resource_limit_exceeded)"
  by (simp add: allocate_def allocation_ok_def allocation_success_def allocation_exhausted_def
      Let_def)

section \<open>The interface a connection relies on\<close>

text \<open>
  A connection needs an allocator to hand out identifiers of its pool that are not in use, to
  refuse only when the pool is used up, and to forget exactly the identifier it is given back.
\<close>

locale id_allocator =
  fixes alloc :: "'a \<Rightarrow> 'a \<times> StreamIdAllocation"
    and rel :: "'a \<Rightarrow> StreamId \<Rightarrow> 'a"
    and live :: "'a \<Rightarrow> StreamId set"
    and pool :: "'a \<Rightarrow> StreamId set"
    and ok :: "'a \<Rightarrow> bool"
  assumes alloc_ok: "ok al \<Longrightarrow> ok (fst (alloc al))"
    and rel_ok: "ok al \<Longrightarrow> ok (rel al sid)"
    and alloc_Some:
      "ok al \<Longrightarrow> allocation_stream (snd (alloc al)) = Some sid \<Longrightarrow>
         sid \<in> pool al - live al \<and> live (fst (alloc al)) = insert sid (live al)"
    and alloc_None:
      "ok al \<Longrightarrow> allocation_stream (snd (alloc al)) = None \<Longrightarrow>
         live al = pool al \<and> live (fst (alloc al)) = live al"
    and rel_live: "ok al \<Longrightarrow> live (rel al sid) = live al - {sid}"
    and alloc_pool: "pool (fst (alloc al)) = pool al"
    and rel_pool: "pool (rel al sid) = pool al"
    and live_pool: "ok al \<Longrightarrow> live al \<subseteq> pool al"
begin

text \<open>Allocating repeatedly, until \<open>n\<close> attempts have been made.\<close>

primrec alloc_n :: "nat \<Rightarrow> 'a \<Rightarrow> 'a \<times> StreamId list" where
  "alloc_n 0 al = (al, [])"
| "alloc_n (Suc n) al =
     (case alloc_n n al of (al', sids) \<Rightarrow>
        (case allocation_stream (snd (alloc al')) of
           None \<Rightarrow> (fst (alloc al'), sids) | Some sid \<Rightarrow> (fst (alloc al'), sids @ [sid])))"

lemma alloc_n_invariant:
  assumes "ok al"
  shows "ok (fst (alloc_n n al)) \<and> pool (fst (alloc_n n al)) = pool al \<and>
     live (fst (alloc_n n al)) = live al \<union> set (snd (alloc_n n al)) \<and>
     distinct (snd (alloc_n n al)) \<and> set (snd (alloc_n n al)) \<inter> live al = {}"
proof (induction n)
  case (Suc n)
  obtain al' sids where al': "alloc_n n al = (al', sids)" by fastforce
  with Suc have ok': "ok al'" by simp
  show ?case
  proof (cases "allocation_stream (snd (alloc al'))")
    case None
    then show ?thesis
      using Suc al' alloc_None [OF ok' None] alloc_ok [OF ok'] by (auto simp: alloc_pool)
  next
    case (Some sid)
    then show ?thesis
      using Suc al' alloc_Some [OF ok' Some] alloc_ok [OF ok'] by (auto simp: alloc_pool)
  qed
qed (simp add: assms)

text \<open>No identifier is handed out twice while it is live.\<close>

lemma alloc_n_distinct: "ok al \<Longrightarrow> distinct (snd (alloc_n n al))"
  using alloc_n_invariant by blast

lemma alloc_after_release:
  assumes "ok al" and "sid \<in> live al"
  shows "allocation_stream (snd (alloc (rel al sid))) \<noteq> None"
proof
  assume "allocation_stream (snd (alloc (rel al sid))) = None"
  from alloc_None [OF rel_ok [OF assms(1)] this] have "live al - {sid} = pool al"
    by (simp add: rel_live assms(1) rel_pool)
  then show False using assms live_pool by blast
qed

end

definition live_streams :: "StreamIdAllocator \<Rightarrow> StreamId set" where
  "live_streams al = StreamId ` in_use al"

definition stream_pool :: "StreamIdAllocator \<Rightarrow> StreamId set" where
  "stream_pool al = StreamId ` owned al"

interpretation sid_alloc: id_allocator allocate release live_streams stream_pool alloc_inv
proof
  fix al sid
  assume inv: "alloc_inv al"
  note ref = allocate_refines [OF inv, unfolded spec_allocate_def]
  show "live_streams al = stream_pool al \<and> live_streams (fst (allocate al)) = live_streams al"
    if "allocation_stream (snd (allocate al)) = None"
    using ref that in_use_owned [OF inv]
    by (auto simp: live_streams_def stream_pool_def split: if_splits)
  show "sid \<in> stream_pool al - live_streams al \<and>
      live_streams (fst (allocate al)) = insert sid (live_streams al)"
    if some: "allocation_stream (snd (allocate al)) = Some sid"
  proof -
    from ref some have free: "owned al - in_use al \<noteq> {}"
      and v: "stream_value sid = Min (owned al - in_use al)"
      and used: "in_use (fst (allocate al)) = insert (stream_value sid) (in_use al)"
      by (auto split: if_splits)
    have "stream_value sid \<in> owned al - in_use al"
      unfolding v by (rule Min_in [OF _ free]) simp
    then show ?thesis
      by (cases sid) (auto simp: live_streams_def stream_pool_def used)
  qed
  show "live_streams (release al sid) = live_streams al - {sid}"
    by (cases sid) (auto simp: live_streams_def release_refines [OF inv] spec_release_def)
  show "live_streams al \<subseteq> stream_pool al"
    using in_use_owned [OF inv] by (auto simp: live_streams_def stream_pool_def)
qed (auto simp: stream_pool_def intro: inv_intros)

lemma client_pool: "sid \<in> stream_pool al \<Longrightarrow> initiator al = Initiator_client \<Longrightarrow> is_client_stream sid"
  by (auto simp: stream_pool_def owned_def is_client_stream_def stream_is_valid_def
      first_id_def)

lemma server_pool: "sid \<in> stream_pool al \<Longrightarrow> initiator al = Initiator_server \<Longrightarrow> is_server_stream sid"
  by (auto simp: stream_pool_def owned_def is_server_stream_def stream_is_valid_def
      first_id_mod_2 even_word_mod)

lemma allocate_initiator [simp]:
  "initiator (fst (allocate al)) = initiator al" "initiator (release al sid) = initiator al"
  by (simp_all add: allocate_def release_def Let_def)

section \<open>Properties of the component\<close>

text \<open>Runs of an allocator and of its specification, with what each allocation returned.\<close>

datatype AllocatorCall = Do_allocate | Do_release StreamId

primrec allocator_run ::
  "StreamIdAllocator \<Rightarrow> AllocatorCall list \<Rightarrow> StreamIdAllocator \<times> u64 option list" where
  "allocator_run al [] = (al, [])"
| "allocator_run al (e # es) =
     (case e of
        Do_allocate \<Rightarrow>
          (case allocator_run (fst (allocate al)) es of (al', out) \<Rightarrow>
             (al', map_option stream_value (allocation_stream (snd (allocate al))) # out))
      | Do_release sid \<Rightarrow> allocator_run (release al sid) es)"

primrec spec_run :: "u64 set \<Rightarrow> u64 set \<Rightarrow> AllocatorCall list \<Rightarrow> u64 set \<times> u64 option list" where
  "spec_run pool used [] = (used, [])"
| "spec_run pool used (e # es) =
     (case e of
        Do_allocate \<Rightarrow>
          (case spec_run pool (fst (spec_allocate pool used)) es of (used', out) \<Rightarrow>
             (used', snd (spec_allocate pool used) # out))
      | Do_release sid \<Rightarrow> spec_run pool (spec_release used (stream_value sid)) es)"

lemma allocator_run_refines:
  "alloc_inv al \<Longrightarrow>
     (in_use (fst (allocator_run al es)), snd (allocator_run al es)) =
       spec_run (owned al) (in_use al) es \<and> alloc_inv (fst (allocator_run al es))"
proof (induction es arbitrary: al)
  case (Cons e es)
  show ?case
  proof (cases e)
    case Do_allocate
    note alloc = allocate_refines [OF Cons.prems]
    have "in_use (fst (allocate al)) = fst (spec_allocate (owned al) (in_use al))"
      "map_option stream_value (allocation_stream (snd (allocate al))) =
         snd (spec_allocate (owned al) (in_use al))"
      using alloc by (metis fst_conv snd_conv)+
    then show ?thesis
      using Cons.IH [OF allocate_inv [OF Cons.prems]] Do_allocate
      by (auto simp: case_prod_beta prod_eq_iff)
  next
    case (Do_release sid)
    then show ?thesis
      using Cons.IH [OF release_inv [OF Cons.prems]] release_refines [OF Cons.prems]
      by simp
  qed
qed simp

lemma owned_new: "owned (new_allocator i mx) =
    {v. v \<noteq> 0 \<and> v \<le> last_id i mx \<and> v mod 2 = first_id i mod 2}"
  by (simp add: owned_def new_allocator_def)

text \<open>
  Property C18. In any sequence of allocations and releases, valid or not, an allocator returns
  what its specification returns: the least free identifier of its parity up to its maximum,
  and nothing only when all of them are in use. The cursor, the wrap-around guard at the end of
  the 64-bit range and the set of recycled identifiers are invisible.
\<close>

theorem allocator_refines_least_free:
  "(in_use (fst (allocator_run (new_allocator i mx) es)),
    snd (allocator_run (new_allocator i mx) es)) =
     spec_run {v. v \<noteq> 0 \<and> v \<le> last_id i mx \<and> v mod 2 = first_id i mod 2} {} es"
  using allocator_run_refines [OF new_allocator_inv, of i mx es]
  by (simp add: owned_new) (simp add: new_allocator_def)

text \<open>
  Whatever has happened before, an identifier that is allocated, released and
  followed by another allocation is handed out again: identifiers are reused as soon as
  they are released.
\<close>

lemma released_stream_is_reused:
  "allocation_stream (snd (allocate (fst (allocator_run (new_allocator i mx) es)))) = Some sid \<Longrightarrow>
     allocation_stream (snd (allocate
       (release (fst (allocate (fst (allocator_run (new_allocator i mx) es)))) sid))) = Some sid"
proof -
  let ?al = "fst (allocator_run (new_allocator i mx) es)"
  assume some: "allocation_stream (snd (allocate ?al)) = Some sid"
  have inv: "alloc_inv ?al" using allocator_run_refines [OF new_allocator_inv] by blast
  note inv' = allocate_inv [OF inv]
  let ?pool = "owned ?al" and ?used = "in_use ?al"
  from allocate_refines [OF inv] some
  have least: "\<not> ?pool \<subseteq> ?used" "stream_value sid = Min (?pool - ?used)"
    "in_use (fst (allocate ?al)) = insert (stream_value sid) ?used"
    by (auto simp: spec_allocate_def split: if_splits)
  have "stream_value sid \<notin> ?used"
    using Min_in [of "?pool - ?used"] least(1,2) by auto
  then have "in_use (release (fst (allocate ?al)) sid) = ?used"
    using release_refines [OF inv'] least(3) by (simp add: spec_release_def)
  then have "map_option stream_value (allocation_stream (snd (allocate
      (release (fst (allocate ?al)) sid)))) = Some (stream_value sid)"
    using allocate_refines [OF release_inv [OF inv', of sid]] least
    by (simp add: spec_allocate_def)
  then show ?thesis by (auto simp: StreamId.expand)
qed

lemma released_stream_is_reused_example:
  "allocation_stream (snd (allocate
     (release (fst (allocate (fst (allocator_run (new_allocator Initiator_client 9) []))))
        (StreamId 1)))) = Some (StreamId 1)"
  using released_stream_is_reused [of Initiator_client 9 "[]" "StreamId 1"]
  by (simp add: allocate_def new_allocator_def first_id_def last_id_def allocation_success_def)

text \<open>
  \<open>exhausted()\<close> speaks about the cursor only: an allocator can report exhaustion and
  still allocate a released identifier.
\<close>

lemma exhausted_may_still_allocate:
  "allocator_exhausted (release (fst (allocate (new_allocator Initiator_client 1))) (StreamId 1)) \<and>
   allocation_stream (snd (allocate
     (release (fst (allocate (new_allocator Initiator_client 1))) (StreamId 1)))) = Some (StreamId 1)"
  by (simp add: allocator_exhausted_def allocate_def release_def new_allocator_def first_id_def
      last_id_def allocation_success_def Let_def)

end
