(* ===== verification/Lifecycle.thy ===== *)
theory Lifecycle
  imports Prelude
begin

text \<open>
  Connection and operation state machines (\<open>lifecycle.hpp\<close>). A lifecycle object is its state;
  \<open>transition\<close> returns the next object with the error the method returns. What both machines
  promise their owners (a rejected transition changes nothing, an accepted one makes
  irreversible progress) is the locale \<open>lifecycle_contract\<close>, interpreted for both.
\<close>

section \<open>States and transitions\<close>

datatype ConnectionState =
  Connection_created | Connection_connecting | Connection_accepting | Connection_active
| Connection_draining | Connection_closing | Connection_closed

datatype OperationState =
  Operation_created | Operation_active | Operation_completed | Operation_failed
| Operation_cancelled

datatype LifecycleTransitionError = Transition_none | Transition_invalid

fun can_transition_connection :: "ConnectionState \<Rightarrow> ConnectionState \<Rightarrow> bool" where
  "can_transition_connection Connection_created next \<longleftrightarrow>
     next = Connection_connecting \<or> next = Connection_accepting"
| "can_transition_connection Connection_connecting next \<longleftrightarrow> next = Connection_active"
| "can_transition_connection Connection_accepting next \<longleftrightarrow> next = Connection_active"
| "can_transition_connection Connection_active next \<longleftrightarrow>
     next = Connection_draining \<or> next = Connection_closing \<or> next = Connection_closed"
| "can_transition_connection Connection_draining next \<longleftrightarrow>
     next = Connection_closing \<or> next = Connection_closed"
| "can_transition_connection Connection_closing next \<longleftrightarrow> next = Connection_closed"
| "can_transition_connection Connection_closed next \<longleftrightarrow> False"

fun can_transition_operation :: "OperationState \<Rightarrow> OperationState \<Rightarrow> bool" where
  "can_transition_operation Operation_created next \<longleftrightarrow> next = Operation_active"
| "can_transition_operation Operation_active next \<longleftrightarrow>
     next = Operation_completed \<or> next = Operation_failed \<or> next = Operation_cancelled"
| "can_transition_operation Operation_completed next \<longleftrightarrow> False"
| "can_transition_operation Operation_failed next \<longleftrightarrow> False"
| "can_transition_operation Operation_cancelled next \<longleftrightarrow> False"

definition connection_transition ::
  "ConnectionState \<Rightarrow> ConnectionState \<Rightarrow> ConnectionState \<times> LifecycleTransitionError" where
  "connection_transition state next =
     (if \<not> can_transition_connection state next then (state, Transition_invalid)
      else (next, Transition_none))"

definition operation_transition ::
  "OperationState \<Rightarrow> OperationState \<Rightarrow> OperationState \<times> LifecycleTransitionError" where
  "operation_transition state next =
     (if \<not> can_transition_operation state next then (state, Transition_invalid)
      else (next, Transition_none))"

section \<open>The contract of a lifecycle object\<close>

locale lifecycle_contract =
  fixes can :: "'s \<Rightarrow> 's \<Rightarrow> bool"
    and trans :: "'s \<Rightarrow> 's \<Rightarrow> 's \<times> LifecycleTransitionError"
    and rank :: "'s \<Rightarrow> nat"
    and top :: nat
  assumes trans_accept: "can s t \<Longrightarrow> trans s t = (t, Transition_none)"
    and trans_reject: "\<not> can s t \<Longrightarrow> trans s t = (s, Transition_invalid)"
    and rank_less: "can s t \<Longrightarrow> rank s < rank t"
    and rank_bounded: "rank s \<le> top"
begin

text \<open>Requesting a sequence of transitions, with the requests that were accepted.\<close>

primrec request_all :: "'s \<Rightarrow> 's list \<Rightarrow> 's \<times> 's list" where
  "request_all s [] = (s, [])"
| "request_all s (t # ts) =
     (case trans s t of (s', err) \<Rightarrow>
        (case request_all s' ts of (s'', acc) \<Rightarrow>
           (s'', if err = Transition_none then t # acc else acc)))"

lemma trans_iff: "snd (trans s t) = Transition_none \<longleftrightarrow> can s t"
  by (cases "can s t") (simp_all add: trans_accept trans_reject)

lemma fst_trans: "fst (trans s t) = (if can s t then t else s)"
  by (simp add: trans_accept trans_reject)

lemma rank_mono: "rank s \<le> rank (fst (trans s t))"
  by (auto simp: fst_trans dest: rank_less)

lemma can_irrefl: "\<not> can s s"
  using rank_less by blast

lemma tranclp_rank: "can\<^sup>+\<^sup>+ s t \<Longrightarrow> rank s < rank t"
  by (induction rule: tranclp_induct) (auto dest: rank_less)

lemma never_revisited: "can\<^sup>+\<^sup>+ s t \<Longrightarrow> s \<noteq> t"
  using tranclp_rank by blast

lemma request_all_rank:
  "rank s + length (snd (request_all s ts)) \<le> rank (fst (request_all s ts))"
proof (induction ts arbitrary: s)
  case (Cons t ts)
  show ?case
  proof (cases "can s t")
    case True
    then show ?thesis
      using Cons [of t] rank_less [OF True] by (auto simp: trans_accept split: prod.splits)
  next
    case False
    then show ?thesis
      using Cons [of s] by (auto simp: trans_reject split: prod.splits)
  qed
qed simp

text \<open>However many transitions are requested, at most \<open>top\<close> are ever accepted.\<close>

lemma accepted_bound: "length (snd (request_all s ts)) \<le> top"
  using request_all_rank [of s ts] rank_bounded [of "fst (request_all s ts)"] by linarith

lemma request_all_stuck:
  assumes "\<And>t. \<not> can s t"
  shows "request_all s ts = (s, [])"
  by (induction ts) (simp_all add: trans_reject assms)

end

section \<open>Both machines meet it\<close>

fun connection_rank :: "ConnectionState \<Rightarrow> nat" where
  "connection_rank Connection_created = 0"
| "connection_rank Connection_connecting = 1"
| "connection_rank Connection_accepting = 1"
| "connection_rank Connection_active = 2"
| "connection_rank Connection_draining = 3"
| "connection_rank Connection_closing = 4"
| "connection_rank Connection_closed = 5"

fun operation_rank :: "OperationState \<Rightarrow> nat" where
  "operation_rank Operation_created = 0"
| "operation_rank Operation_active = 1"
| "operation_rank _ = 2"

interpretation conn_lc: lifecycle_contract
  can_transition_connection connection_transition connection_rank 5
proof
  show "connection_rank s < connection_rank t" if "can_transition_connection s t" for s t
    using that by (cases s) auto
  show "connection_rank s \<le> 5" for s
    by (cases s) simp_all
qed (simp_all add: connection_transition_def)

interpretation op_lc: lifecycle_contract
  can_transition_operation operation_transition operation_rank 2
proof
  show "operation_rank s < operation_rank t" if "can_transition_operation s t" for s t
    using that by (cases s) auto
  show "operation_rank s \<le> 2" for s
    by (cases s) simp_all
qed (simp_all add: operation_transition_def)

lemmas connection_transition_simps = conn_lc.fst_trans conn_lc.trans_iff
lemmas operation_transition_simps = op_lc.fst_trans op_lc.trans_iff

section \<open>Properties\<close>

text \<open>
  The closed state is the only connection state without a way out, and every state can still
  reach it.
\<close>

lemma connection_terminal_iff:
  "(\<forall>t. \<not> can_transition_connection s t) \<longleftrightarrow> s = Connection_closed"
  by (cases s) auto

lemma active_to_closed: "can_transition_connection\<^sup>*\<^sup>* Connection_active Connection_closed"
  by (rule r_into_rtranclp) simp

lemma connection_reaches_closed: "can_transition_connection\<^sup>*\<^sup>* s Connection_closed"
proof (cases s)
  case Connection_created
  have "can_transition_connection Connection_created Connection_connecting"
    and "can_transition_connection Connection_connecting Connection_active" by simp_all
  then show ?thesis
    using Connection_created active_to_closed by (meson converse_rtranclp_into_rtranclp)
qed (use active_to_closed in \<open>auto intro: converse_rtranclp_into_rtranclp r_into_rtranclp\<close>)

lemma operation_terminal_iff:
  "(\<forall>t. \<not> can_transition_operation s t) \<longleftrightarrow>
     s = Operation_completed \<or> s = Operation_failed \<or> s = Operation_cancelled"
  by (cases s) auto

text \<open>The two connecting states are passed through within one stretch only.\<close>

definition resting :: "ConnectionState \<Rightarrow> bool" where
  "resting st \<longleftrightarrow> st \<noteq> Connection_connecting \<and> st \<noteq> Connection_accepting"

lemma resting_closed [simp]:
  "resting st \<Longrightarrow> resting (fst (connection_transition st Connection_closed))"
  by (simp add: resting_def connection_transition_def)

lemma transition_closed:
  "fst (connection_transition st Connection_closed) = Connection_closed \<longleftrightarrow>
     st \<noteq> Connection_created \<and> st \<noteq> Connection_connecting \<and> st \<noteq> Connection_accepting"
  "fst (connection_transition Connection_closed st) = Connection_closed"
  by (cases st; simp add: connection_transition_def)+

end
