(* ===== verification/Operation_Model.thy ===== *)
theory Operation_Model
  imports Identifiers Status Lifecycle
begin

text \<open>
  A single request/response operation (\<open>operation.hpp\<close>). Time points of the steady clock are
  integers. A completion handler is a function from the result to the observable events it
  produces, so a method that may invoke it returns those events; its own return value is the
  method's. Methods are state passing: object in, object out.
\<close>

section \<open>Data\<close>

record OperationResult =
  result_status :: StatusCode
  result_message :: string

definition OperationResult_success :: "string \<Rightarrow> OperationResult" where
  "OperationResult_success msg = \<lparr>result_status = Status_ok, result_message = msg\<rparr>"

definition OperationResult_failure :: "StatusCode \<Rightarrow> string \<Rightarrow> OperationResult" where
  "OperationResult_failure status msg = \<lparr>result_status = status, result_message = msg\<rparr>"

definition result_ok :: "OperationResult \<Rightarrow> bool" where
  "result_ok r \<longleftrightarrow> result_status r = Status_ok"

type_synonym Deadline = int

record 'ev Operation =
  op_stream :: StreamId
  op_state :: OperationState
  op_result :: "OperationResult option"
  op_deadline :: "Deadline option"
  op_cancellation_requested :: bool
  op_timed_out :: bool
  op_completion_handler :: "(OperationResult \<Rightarrow> 'ev list) option"

definition new_operation :: "StreamId \<Rightarrow> (OperationResult \<Rightarrow> 'ev list) option \<Rightarrow> 'ev Operation" where
  "new_operation sid handler =
     \<lparr>op_stream = sid, op_state = Operation_created, op_result = None, op_deadline = None,
      op_cancellation_requested = False, op_timed_out = False, op_completion_handler = handler\<rparr>"

section \<open>Methods\<close>

definition op_is_terminal :: "'ev Operation \<Rightarrow> bool" where
  "op_is_terminal opn \<longleftrightarrow>
     op_state opn = Operation_completed \<or> op_state opn = Operation_failed \<or>
     op_state opn = Operation_cancelled"

definition op_activate :: "'ev Operation \<Rightarrow> 'ev Operation \<times> LifecycleTransitionError" where
  "op_activate opn =
     (case operation_transition (op_state opn) Operation_active of
        (st, err) \<Rightarrow> (opn\<lparr>op_state := st\<rparr>, err))"

definition op_set_deadline :: "'ev Operation \<Rightarrow> Deadline \<Rightarrow> 'ev Operation \<times> bool" where
  "op_set_deadline opn d =
     (if op_is_terminal opn then (opn, False) else (opn\<lparr>op_deadline := Some d\<rparr>, True))"

definition op_request_cancellation :: "'ev Operation \<Rightarrow> 'ev Operation \<times> bool" where
  "op_request_cancellation opn =
     (if op_is_terminal opn then (opn, False)
      else (opn\<lparr>op_cancellation_requested := True\<rparr>, True))"

definition op_set_completion_handler ::
  "'ev Operation \<Rightarrow> (OperationResult \<Rightarrow> 'ev list) option \<Rightarrow> 'ev Operation" where
  "op_set_completion_handler opn handler = opn\<lparr>op_completion_handler := handler\<rparr>"

definition op_finish ::
  "'ev Operation \<Rightarrow> OperationState \<Rightarrow> OperationResult \<Rightarrow> 'ev Operation \<times> bool \<times> 'ev list" where
  "op_finish opn terminal_state result =
     (case operation_transition (op_state opn) terminal_state of
        (st, err) \<Rightarrow>
          if err \<noteq> Transition_none then (opn, False, [])
          else (opn\<lparr>op_state := st, op_result := Some result\<rparr>, True,
                case op_completion_handler opn of None \<Rightarrow> [] | Some h \<Rightarrow> h result))"

definition op_complete :: "'ev Operation \<Rightarrow> string \<Rightarrow> 'ev Operation \<times> bool \<times> 'ev list" where
  "op_complete opn msg = op_finish opn Operation_completed (OperationResult_success msg)"

definition op_fail ::
  "'ev Operation \<Rightarrow> StatusCode \<Rightarrow> string \<Rightarrow> 'ev Operation \<times> bool \<times> 'ev list" where
  "op_fail opn status msg =
     (if status = Status_ok then (opn, False, [])
      else op_finish opn Operation_failed (OperationResult_failure status msg))"

definition op_cancel :: "'ev Operation \<Rightarrow> string \<Rightarrow> 'ev Operation \<times> bool \<times> 'ev list" where
  "op_cancel opn msg =
     (case op_request_cancellation opn of
        (opn', requested) \<Rightarrow>
          if \<not> requested then (opn', False, [])
          else op_finish opn' Operation_cancelled (OperationResult_failure Status_cancelled msg))"

definition op_timeout :: "'ev Operation \<Rightarrow> string \<Rightarrow> 'ev Operation \<times> bool \<times> 'ev list" where
  "op_timeout opn msg =
     (case op_finish opn Operation_failed (OperationResult_failure Status_timeout_error msg) of
        (opn', did, evs) \<Rightarrow>
          (opn'\<lparr>op_timed_out := op_timed_out opn' \<or> did\<rparr>, did, evs))"

section \<open>Call sequences\<close>

text \<open>Every call a holder of the object can make, and a run of such calls.\<close>

datatype 'ev OpCall =
  Call_activate
| Call_set_deadline Deadline
| Call_request_cancellation
| Call_set_completion_handler "(OperationResult \<Rightarrow> 'ev list) option"
| Call_complete string
| Call_fail StatusCode string
| Call_cancel string
| Call_timeout string

fun op_call :: "'ev OpCall \<Rightarrow> 'ev Operation \<Rightarrow> 'ev Operation \<times> bool \<times> 'ev list" where
  "op_call Call_activate opn = (case op_activate opn of (o', e) \<Rightarrow> (o', e = Transition_none, []))"
| "op_call (Call_set_deadline d) opn = (case op_set_deadline opn d of (o', b) \<Rightarrow> (o', b, []))"
| "op_call Call_request_cancellation opn =
     (case op_request_cancellation opn of (o', b) \<Rightarrow> (o', b, []))"
| "op_call (Call_set_completion_handler h) opn = (op_set_completion_handler opn h, True, [])"
| "op_call (Call_complete m) opn = op_complete opn m"
| "op_call (Call_fail s m) opn = op_fail opn s m"
| "op_call (Call_cancel m) opn = op_cancel opn m"
| "op_call (Call_timeout m) opn = op_timeout opn m"

fun op_run :: "'ev OpCall list \<Rightarrow> 'ev Operation \<Rightarrow> 'ev Operation \<times> 'ev list" where
  "op_run [] opn = (opn, [])"
| "op_run (c # cs) opn =
     (case op_call c opn of (o1, _, evs) \<Rightarrow>
        (case op_run cs o1 of (o2, evs') \<Rightarrow> (o2, evs @ evs')))"

section \<open>Invariant\<close>

text \<open>
  A result is present exactly in the terminal states, and it says which one: success for a
  completed operation, \<open>cancelled\<close> for a cancelled one, some error for a failed one.
\<close>

definition op_inv :: "'ev Operation \<Rightarrow> bool" where
  "op_inv opn \<longleftrightarrow>
     (case op_result opn of
        None \<Rightarrow> \<not> op_is_terminal opn \<and> \<not> op_timed_out opn
      | Some r \<Rightarrow>
          (case op_state opn of
             Operation_completed \<Rightarrow> result_status r = Status_ok \<and> \<not> op_timed_out opn
           | Operation_failed \<Rightarrow>
               is_error (result_status r) \<and>
               (op_timed_out opn \<longrightarrow> result_status r = Status_timeout_error)
           | Operation_cancelled \<Rightarrow>
               result_status r = Status_cancelled \<and> op_cancellation_requested opn \<and>
               \<not> op_timed_out opn
           | _ \<Rightarrow> False))"

lemmas op_method_defs =
  op_activate_def op_set_deadline_def op_request_cancellation_def op_set_completion_handler_def
  op_finish_def op_complete_def op_fail_def op_cancel_def op_timeout_def
  OperationResult_success_def OperationResult_failure_def

lemma new_operation_inv [inv_intros]: "op_inv (new_operation sid h)"
  by (simp add: op_inv_def new_operation_def op_is_terminal_def)

lemma op_call_inv [inv_intros]: "op_inv opn \<Longrightarrow> op_inv (fst (op_call c opn))"
  by (cases c; cases "op_state opn")
    (auto simp: op_inv_def op_method_defs operation_transition_def op_is_terminal_def
      is_error_def split: option.splits)

lemma op_inv_result: "op_inv opn \<Longrightarrow> op_result opn = None \<longleftrightarrow> \<not> op_is_terminal opn"
  by (auto simp: op_inv_def op_is_terminal_def split: option.splits OperationState.splits)

lemma op_run_Cons:
  "fst (op_run (c # cs) opn) = fst (op_run cs (fst (op_call c opn)))"
  "snd (op_run (c # cs) opn) = snd (snd (op_call c opn)) @ snd (op_run cs (fst (op_call c opn)))"
  by (simp_all add: case_prod_beta)

declare op_run.simps(2) [simp del]

lemma op_run_inv: "op_inv opn \<Longrightarrow> op_inv (fst (op_run cs opn))"
proof (induction cs arbitrary: opn)
  case (Cons c cs)
  then show ?case
    using op_call_inv [of opn c] by (simp add: op_run_Cons)
qed simp

lemma op_call_stream [simp]: "op_stream (fst (op_call c opn)) = op_stream opn"
  by (cases c) (auto simp: op_method_defs split: prod.splits)

section \<open>Terminal states are final\<close>

lemma op_call_terminal:
  assumes "op_is_terminal opn"
  shows "op_is_terminal (fst (op_call c opn)) \<and>
     op_state (fst (op_call c opn)) = op_state opn \<and>
     op_result (fst (op_call c opn)) = op_result opn \<and> snd (snd (op_call c opn)) = []"
  using assms
  by (cases c) (auto simp: op_is_terminal_def op_method_defs operation_transition_def)

lemma op_run_terminal:
  "op_is_terminal opn \<Longrightarrow>
     op_is_terminal (fst (op_run cs opn)) \<and> op_state (fst (op_run cs opn)) = op_state opn \<and>
     op_result (fst (op_run cs opn)) = op_result opn \<and> snd (op_run cs opn) = []"
proof (induction cs arbitrary: opn)
  case (Cons c cs)
  show ?case
    using Cons.IH [of "fst (op_call c opn)"] op_call_terminal [OF Cons.prems, of c]
    by (simp add: op_run_Cons)
qed simp

lemma op_call_nonterminal:
  assumes "\<not> op_is_terminal opn"
  shows "op_is_terminal (fst (op_call c opn)) \<and>
       (\<exists>r. op_result (fst (op_call c opn)) = Some r \<and>
            snd (snd (op_call c opn)) =
              (case op_completion_handler opn of None \<Rightarrow> [] | Some h \<Rightarrow> h r)) \<or>
     \<not> op_is_terminal (fst (op_call c opn)) \<and> snd (snd (op_call c opn)) = []"
  using assms
  by (cases c; cases "op_state opn")
    (auto simp: op_is_terminal_def op_method_defs operation_transition_def)

text \<open>
  The handler in force after a call, and after a run of calls: \<open>set_completion_handler\<close> replaces it,
  nothing else touches it.
\<close>

definition installs ::
  "(OperationResult \<Rightarrow> 'ev list) option \<Rightarrow> 'ev OpCall \<Rightarrow> (OperationResult \<Rightarrow> 'ev list) option" where
  "installs h c = (case c of Call_set_completion_handler h' \<Rightarrow> h' | _ \<Rightarrow> h)"

definition installed ::
  "(OperationResult \<Rightarrow> 'ev list) option \<Rightarrow> 'ev OpCall list \<Rightarrow> (OperationResult \<Rightarrow> 'ev list) option" where
  "installed h cs = foldl installs h cs"

lemma installed_simps [simp]: "installed h [] = h" "installed h (c # cs) = installed (installs h c) cs"
  by (simp_all add: installed_def)

lemma op_call_handler:
  "op_completion_handler (fst (op_call c opn)) = installs (op_completion_handler opn) c"
  by (cases c) (auto simp: installs_def op_method_defs split: prod.splits)

text \<open>
  A run either leaves the operation without a result and invokes no handler, or one call of it
  settles the operation; then the handler that was in force at that call is all that is invoked.
\<close>

lemma op_run_settles:
  assumes "op_inv opn" and "\<not> op_is_terminal opn"
  shows "case op_result (fst (op_run cs opn)) of
       None \<Rightarrow> snd (op_run cs opn) = []
     | Some r \<Rightarrow> \<exists>pre c post. cs = pre @ c # post \<and> op_result (fst (op_run pre opn)) = None \<and>
         op_result (fst (op_run (pre @ [c]) opn)) = Some r \<and>
         snd (op_run cs opn) =
           (case installed (op_completion_handler opn) pre of None \<Rightarrow> [] | Some h \<Rightarrow> h r)"
  using assms
proof (induction cs arbitrary: opn)
  case Nil
  then show ?case using op_inv_result [of opn] by simp
next
  case (Cons c cs)
  let ?o = "fst (op_call c opn)"
  have none: "op_result opn = None" using op_inv_result [OF Cons.prems(1)] Cons.prems(2) by simp
  show ?case
  proof (cases "op_is_terminal ?o")
    case True
    then obtain r where r: "op_result ?o = Some r" "snd (snd (op_call c opn)) =
        (case op_completion_handler opn of None \<Rightarrow> [] | Some h \<Rightarrow> h r)"
      using op_call_nonterminal [OF Cons.prems(2), of c] by auto
    have res: "op_result (fst (op_run (c # cs) opn)) = Some r" "snd (op_run (c # cs) opn) =
        (case op_completion_handler opn of None \<Rightarrow> [] | Some h \<Rightarrow> h r)"
      using op_run_terminal [OF True, of cs] r by (simp_all add: op_run_Cons)
    show ?thesis
      unfolding res(1) option.case(2)
      by (rule exI [of _ "[]"], rule exI [of _ c], rule exI [of _ cs])
        (use none r(1) res(2) in \<open>simp add: op_run_Cons\<close>)
  next
    case False
    then have quiet: "snd (snd (op_call c opn)) = []"
      using op_call_nonterminal [OF Cons.prems(2), of c] by auto
    note ih = Cons.IH [OF op_call_inv [OF Cons.prems(1)] False]
    show ?thesis
    proof (cases "op_result (fst (op_run cs ?o))")
      case None
      then show ?thesis using ih quiet by (simp add: op_run_Cons)
    next
      case (Some r)
      then obtain pre d post where "cs = pre @ d # post" "op_result (fst (op_run pre ?o)) = None"
        "op_result (fst (op_run (pre @ [d]) ?o)) = Some r" "snd (op_run cs ?o) =
          (case installed (op_completion_handler ?o) pre of None \<Rightarrow> [] | Some h \<Rightarrow> h r)"
        using ih by auto
      moreover have res: "op_result (fst (op_run (c # cs) opn)) = Some r"
        using Some by (simp add: op_run_Cons)
      ultimately show ?thesis
        unfolding res option.case(2) using quiet
        by (intro exI [of _ "c # pre"] exI [of _ d] exI [of _ post])
          (simp add: op_run_Cons op_call_handler)
    qed
  qed
qed

section \<open>Properties of the component\<close>

text \<open>
  Property C24. Whatever calls are made on an operation, in whatever order, replacing the
  completion handler included: as long as there is no result no handler is invoked; and when there
  is one, some call of the run has settled the operation, and all that is ever invoked is the
  handler in force at that call, once, with the very result the operation keeps.
\<close>

theorem handler_invoked_once:
  "case op_result (fst (op_run cs (new_operation sid h))) of
     None \<Rightarrow> snd (op_run cs (new_operation sid h)) = []
   | Some r \<Rightarrow> \<exists>pre c post. cs = pre @ c # post \<and>
       op_result (fst (op_run pre (new_operation sid h))) = None \<and>
       op_result (fst (op_run (pre @ [c]) (new_operation sid h))) = Some r \<and>
       snd (op_run cs (new_operation sid h)) =
         (case installed h pre of None \<Rightarrow> [] | Some g \<Rightarrow> g r)"
proof -
  have "\<not> op_is_terminal (new_operation sid h)" "op_completion_handler (new_operation sid h) = h"
    by (simp_all add: new_operation_def op_is_terminal_def)
  from op_run_settles [OF new_operation_inv this(1), of cs, unfolded this(2)] show ?thesis .
qed

text \<open>A handler that is replaced before the operation is settled, and one that comes too late.\<close>

lemma handler_invoked_once_example:
  "snd (op_run [Call_activate, Call_set_completion_handler (Some (\<lambda>r. [(2, r)])), Call_timeout ''late'',
        Call_set_completion_handler (Some (\<lambda>r. [(3, r)])), Call_complete ''done'', Call_cancel ''no'']
      (new_operation (StreamId 3) (Some (\<lambda>r. [(1 :: nat, r)])))) =
     [(2, \<lparr>result_status = Status_timeout_error, result_message = ''late''\<rparr>)]"
  by (simp add: op_run_Cons op_method_defs operation_transition_def new_operation_def op_is_terminal_def)

text \<open>
  A result is final and says how the operation ended: once a run of calls has
  produced one, later calls neither change state or result nor invoke the handler again, the
  state is terminal, and the status is \<open>ok\<close> exactly for a completed operation.
\<close>

lemma result_is_final:
  assumes "op_result (fst (op_run cs (new_operation sid h))) = Some r"
  shows "op_result (fst (op_run ds (fst (op_run cs (new_operation sid h))))) = Some r \<and>
     snd (op_run ds (fst (op_run cs (new_operation sid h)))) = [] \<and>
     op_state (fst (op_run ds (fst (op_run cs (new_operation sid h))))) =
       op_state (fst (op_run cs (new_operation sid h))) \<and>
     op_is_terminal (fst (op_run cs (new_operation sid h))) \<and>
     (result_ok r \<longleftrightarrow> op_state (fst (op_run cs (new_operation sid h))) = Operation_completed)"
proof -
  let ?o = "fst (op_run cs (new_operation sid h))"
  have inv: "op_inv ?o" by (intro op_run_inv new_operation_inv)
  then have "op_is_terminal ?o" using op_inv_result assms by fastforce
  moreover have "result_ok r \<longleftrightarrow> op_state ?o = Operation_completed"
    using inv assms by (auto simp: op_inv_def result_ok_def is_error_def split: OperationState.splits)
  ultimately show ?thesis using op_run_terminal [of ?o ds] assms by simp
qed

lemma result_is_final_witness:
  "op_result (fst (op_run [Call_cancel ''x'']
      (fst (op_run [Call_activate, Call_complete ''ok''] (new_operation (StreamId 1) None))))) =
     Some \<lparr>result_status = Status_ok, result_message = ''ok''\<rparr>"
  using result_is_final [of "[Call_activate, Call_complete ''ok'']" "StreamId 1" None
      "\<lparr>result_status = Status_ok, result_message = ''ok''\<rparr>" "[Call_cancel ''x'']"]
  by (simp add: op_run_Cons op_method_defs operation_transition_def new_operation_def
      op_is_terminal_def)

declare op_call.simps [simp del]

end
