(* ===== verification/Protocol_Violation.thy ===== *)
theory Protocol_Violation
  imports Frame_Decoder Status
begin

text \<open>
  Error frames and the classification of malformed input (\<open>protocol_violation.hpp\<close>).
\<close>

section \<open>Definitions\<close>

definition status_for_frame_validation :: "FrameValidationError \<Rightarrow> StatusCode" where
  "status_for_frame_validation err =
     (if err = Validation_unsupported_version then Status_unsupported_version
      else Status_malformed_frame)"

definition make_error_frame :: "StreamId \<Rightarrow> StatusCode \<Rightarrow> Frame" where
  "make_error_frame sid status =
     (let p = replicate 2 0;
          p = p[0 := ucast (drop_bit 8 (status_value status) AND 0xFF)];
          p = p[1 := ucast (status_value status AND 0xFF)] in
      \<lparr>frame_header = default_header\<lparr>
         header_type := FrameType_response,
         header_flags := flags_or Flags_error Flags_end_of_stream,
         header_stream := sid,
         header_payload_size := word_of_nat (length p)\<rparr>,
       frame_payload = p\<rparr>)"

text \<open>The statuses the switch of \<open>decode_error_status\<close> lets through.\<close>

definition wire_status_values :: "u16 list" where
  "wire_status_values =
     [2000, 2001, 2002, 2003, 3000, 3001, 3002, 4000, 5000, 6000, 7000]"

definition decode_error_status :: "Frame \<Rightarrow> StatusCode option" where
  "decode_error_status f =
     (if length (frame_payload f) \<noteq> 2 then None
      else
        (let value = push_bit 8 (ucast (frame_payload f ! 0)) OR ucast (frame_payload f ! 1) in
         if value \<in> set wire_status_values then Some (StatusCode value) else None))"

fun frame_validation_message :: "FrameValidationError \<Rightarrow> string" where
  "frame_validation_message Validation_unsupported_version = ''unsupported protocol version''"
| "frame_validation_message Validation_unknown_frame_type = ''unknown frame type''"
| "frame_validation_message Validation_unknown_flags = ''unknown frame flags''"
| "frame_validation_message Validation_invalid_flag_combination =
     ''invalid frame flag combination''"
| "frame_validation_message Validation_invalid_stream = ''invalid stream identifier''"
| "frame_validation_message Validation_payload_length_mismatch = ''payload length mismatch''"
| "frame_validation_message Validation_payload_too_large = ''payload exceeds configured limit''"
| "frame_validation_message Validation_none = ''no frame validation error''"

section \<open>Properties\<close>

lemma error_frame_payload: "frame_payload (make_error_frame sid st) = be16_bytes (status_value st)"
  by (simp add: make_error_frame_def Let_def be16_bytes_def numeral_2_eq_2)

lemma error_frame_header:
  "frame_header (make_error_frame sid st) =
     \<lparr>header_version = current_protocol_version, header_type = FrameType_response,
      header_flags = FrameFlags 5, header_stream = sid, header_payload_size = 2\<rparr>"
  by (simp add: make_error_frame_def Let_def default_header_def flags_or_def)

lemma error_frame_flags:
  "has_flag (FrameFlags 5) Flags_error" "has_flag (FrameFlags 5) Flags_end_of_stream"
  "\<not> has_flag (FrameFlags 5) Flags_cancel"
  by (simp_all add: has_flag_def flags_and_def)

text \<open>An error frame for a real stream passes the peer's validation.\<close>

lemma error_frame_valid:
  assumes "stream_is_valid sid" and "2 \<le> mx"
  shows "validate_frame (make_error_frame sid st) mx = Validation_none"
  using assms
  by (simp add: validate_frame_def error_frame_header error_frame_payload error_frame_flags
      is_known_frame_type_def has_only_known_flags_iff Let_def not_less)

text \<open>
  What the peer decodes from an error frame is the status that was put in, provided it is one
  of the listed statuses, and nothing otherwise.
\<close>

lemma decode_error_frame:
  "decode_error_status (make_error_frame sid st) =
     (if status_value st \<in> set wire_status_values then Some st else None)"
proof -
  have "push_bit 8 (ucast (be16_bytes v ! 0)) OR ucast (be16_bytes v ! 1) = v" for v
    using be16.rd_ser [of v] by (simp add: read_be16_def)
  then show ?thesis
    by (cases st) (simp add: decode_error_status_def error_frame_payload Let_def)
qed

lemma wire_status_category:
  "status_value st \<in> set wire_status_values \<Longrightarrow>
     is_error st \<and> status_category st \<noteq> Category_transport"
  by (cases st) (auto simp: wire_status_values_def is_error_def status_category_def)

lemma status_for_frame_validation_terminates:
  "terminates_connection (status_for_frame_validation e)"
  by (simp add: status_for_frame_validation_def terminates_connection_band)

section \<open>Properties of the component\<close>

text \<open>
  An error frame for a valid stream passes the peer's validation, and the peer
  reads back the status it was made from if that status is one of the wire statuses; for any
  other status, the transport statuses among them, it reads nothing.
\<close>

lemma error_frame_roundtrip:
  assumes "stream_is_valid sid"
  shows "validate_frame (make_error_frame sid st) default_max_payload_size = Validation_none \<and>
     header_stream (frame_header (make_error_frame sid st)) = sid \<and>
     decode_error_status (make_error_frame sid st) =
       (if status_value st \<in> set wire_status_values then Some st else None) \<and>
     (status_category st = Category_transport \<longrightarrow>
        decode_error_status (make_error_frame sid st) = None)"
  using assms wire_status_category [of st]
  by (auto simp: error_frame_valid decode_error_frame error_frame_header
      default_max_payload_size_def)

lemma error_frame_roundtrip_example:
  "validate_frame (make_error_frame (StreamId 5) Status_decode_error) default_max_payload_size =
     Validation_none \<and>
   decode_error_status (make_error_frame (StreamId 5) Status_decode_error) =
     Some Status_decode_error \<and>
   decode_error_status (make_error_frame (StreamId 5) Status_connection_closed) = None"
  using error_frame_roundtrip [of "StreamId 5" Status_decode_error]
    error_frame_roundtrip [of "StreamId 5" Status_connection_closed]
  by (simp add: stream_is_valid_def wire_status_values_def)

end
