(* ===== verification/Diagnostics.thy ===== *)
theory Diagnostics
  imports Identifiers Status
begin

text \<open>
  Diagnostics events (\<open>diagnostics.hpp\<close>). A hook is application code that observes events; an
  exception it throws is swallowed, so a call of the hook has no effect on the connection. The
  model records the events that are handed to an installed hook, in order.
\<close>

datatype DiagnosticsEventType =
  Event_connection_opened | Event_connection_closed | Event_request_started
| Event_request_completed | Event_cancellation | Event_timeout | Event_protocol_error
| Event_bytes_transferred | Event_message_transferred

record DiagnosticsEvent =
  event_type :: DiagnosticsEventType
  event_stream :: StreamId
  event_status :: StatusCode
  event_bytes :: nat
  event_inbound :: bool
  event_message :: string

definition diagnostics_event ::
  "DiagnosticsEventType \<Rightarrow> StreamId \<Rightarrow> StatusCode \<Rightarrow> nat \<Rightarrow> bool \<Rightarrow> string \<Rightarrow> DiagnosticsEvent" where
  "diagnostics_event ty sid status bytes inbound msg =
     \<lparr>event_type = ty, event_stream = sid, event_status = status, event_bytes = bytes,
      event_inbound = inbound, event_message = msg\<rparr>"

text \<open>Whether a hook is installed, and what it has been shown.\<close>

record Diagnostics =
  has_hook :: bool
  shown :: "DiagnosticsEvent list"

definition notify_diagnostics :: "Diagnostics \<Rightarrow> DiagnosticsEvent \<Rightarrow> Diagnostics" where
  "notify_diagnostics dg ev = (if \<not> has_hook dg then dg else dg\<lparr>shown := shown dg @ [ev]\<rparr>)"

text \<open>Events produced elsewhere on behalf of the same hook, such as by completion handlers.\<close>

definition notify_all :: "Diagnostics \<Rightarrow> DiagnosticsEvent list \<Rightarrow> Diagnostics" where
  "notify_all dg evs = fold (\<lambda>ev d. notify_diagnostics d ev) evs dg"

lemma notify_diagnostics_hook [simp]: "has_hook (notify_diagnostics dg ev) = has_hook dg"
  by (simp add: notify_diagnostics_def)

lemma notify_all_shown:
  "shown (notify_all dg evs) = shown dg @ (if has_hook dg then evs else [])"
  "has_hook (notify_all dg evs) = has_hook dg"
  by (induction evs arbitrary: dg) (simp_all add: notify_all_def notify_diagnostics_def)

end
