(* ===== verification/Client_Connection.thy ===== *)
theory Client_Connection
  imports Connection_Env Stream_Id_Allocator Operation_Model Protocol_Violation Diagnostics
begin

text \<open>
  The client side of a connection (\<open>client_connection.hpp\<close>). A \<open>std::shared_ptr<PendingRequest>\<close>
  is an address into the list \<open>cc_heap\<close> of all requests made so far, so sharing between the
  pending table, timers and operation handles, and the pointer comparison in
  \<open>cleanup_pending\<close>, are as in the source. The pending table, whose iteration order matters to
  \<open>fail_pending\<close>, is an association list. Coroutines are cut at their suspension points; every
  function below is one uninterrupted stretch of execution on the connection's executor. A
  function that contains a loop without a bound, directly or through a call, returns an
  option: \<open>None\<close> would mean that the loop does not end.

  The transport is known through its interface only, so its state is whether \<open>is_open()\<close>
  holds; reads and writes complete with results supplied by the environment.
\<close>

section \<open>Data\<close>

record 'ch PendingRequest =
  pr_channel :: 'ch
  pr_timer :: "Deadline option"
  pr_operation :: "DiagnosticsEvent Operation"
  pr_removed :: bool
  pr_stream_released :: bool

record ('ch, 'sp) ClientConnection =
  cc_transport_open :: bool
  cc_write_queue :: "('ch, 'sp) WriteQueue"
  cc_stream_ids :: StreamIdAllocator
  cc_decoder :: FrameDecoder
  cc_pending :: "(StreamId \<times> nat) list"
  cc_terminal_streams :: "StreamId set"
  cc_lifecycle :: ConnectionState
  cc_diagnostics :: Diagnostics
  cc_closed_notified :: bool
  cc_reading :: bool
  cc_heap :: "'ch PendingRequest list"

text \<open>A handle on a started request; a moved-from handle is empty.\<close>

record RequestOperation =
  ro_connected :: bool
  ro_pending :: "nat option"

definition empty_handle :: RequestOperation where
  "empty_handle = \<lparr>ro_connected = False, ro_pending = None\<rparr>"

text \<open>
  The outcome of \<open>start_request\<close>: a failure, a handle, or suspension inside \<open>enqueue\<close> with the
  request that was registered and the frame to be sent.
\<close>

datatype StartOutcome =
  Start_failed StatusCode string | Start_ok RequestOperation | Start_suspended nat Frame

definition new_client ::
  "('ch, 'sp, 't, 'v) Env \<Rightarrow> WriteQueueLimits \<Rightarrow> u64 \<Rightarrow> bool \<Rightarrow> ('ch, 'sp) ClientConnection" where
  "new_client E lim maximum_stream_id hook =
     \<lparr>cc_transport_open = True, cc_write_queue = new_write_queue (env_queue E) lim,
      cc_stream_ids = new_allocator Initiator_client maximum_stream_id,
      cc_decoder = new_decoder default_max_payload_size, cc_pending = [],
      cc_terminal_streams = {}, cc_lifecycle = Connection_created,
      cc_diagnostics = \<lparr>has_hook = hook, shown = []\<rparr>, cc_closed_notified = False,
      cc_reading = False, cc_heap = []\<rparr>"

section \<open>Notifications\<close>

definition notify :: "('ch, 'sp) ClientConnection \<Rightarrow> DiagnosticsEvent \<Rightarrow> ('ch, 'sp) ClientConnection" where
  "notify c ev = c\<lparr>cc_diagnostics := notify_diagnostics (cc_diagnostics c) ev\<rparr>"

definition notify_closed :: "('ch, 'sp) ClientConnection \<Rightarrow> ('ch, 'sp) ClientConnection" where
  "notify_closed c =
     (if cc_closed_notified c then c
      else notify (c\<lparr>cc_closed_notified := True\<rparr>)
             (diagnostics_event Event_connection_closed StreamId_default
                Status_connection_closed 0 False ''connection closed''))"

text \<open>The completion handler every request is created with.\<close>

definition request_completed :: "StreamId \<Rightarrow> OperationResult \<Rightarrow> DiagnosticsEvent list" where
  "request_completed sid result =
     [diagnostics_event
        (if result_status result = Status_cancelled then Event_cancellation
         else if result_status result = Status_timeout_error then Event_timeout
         else Event_request_completed)
        sid (result_status result) 0 False (result_message result)]"

text \<open>The write observer the connection installs in its queue.\<close>

definition observe_write ::
  "('ch, 'sp) ClientConnection \<Rightarrow> Frame \<Rightarrow> nat \<Rightarrow> ('ch, 'sp) ClientConnection" where
  "observe_write c f bytes =
     notify
       (notify c (diagnostics_event Event_bytes_transferred StreamId_default Status_ok bytes
                    False []))
       (diagnostics_event Event_message_transferred (header_stream (frame_header f)) Status_ok 0
          False [])"

section \<open>Pending requests\<close>

definition new_pending :: "('ch, 'sp, 't, 'v) Env \<Rightarrow> StreamId \<Rightarrow> 'ch PendingRequest" where
  "new_pending E sid =
     \<lparr>pr_channel = chan_new (frame_channel (env_queue E)) 1, pr_timer = None,
      pr_operation = fst (op_activate (new_operation sid (Some (request_completed sid)))),
      pr_removed = False, pr_stream_released = False\<rparr>"

definition update_pending ::
  "('ch, 'sp) ClientConnection \<Rightarrow> nat \<Rightarrow> ('ch PendingRequest \<Rightarrow> 'ch PendingRequest) \<Rightarrow>
     ('ch, 'sp) ClientConnection" where
  "update_pending c r g = c\<lparr>cc_heap := (cc_heap c)[r := g (cc_heap c ! r)]\<rparr>"

abbreviation pending_stream :: "('ch, 'sp) ClientConnection \<Rightarrow> nat \<Rightarrow> StreamId" where
  "pending_stream c r \<equiv> op_stream (pr_operation (cc_heap c ! r))"

text \<open>Calling a method of a request's operation, with what its completion handler reports.\<close>

definition call_operation ::
  "('ch, 'sp) ClientConnection \<Rightarrow> nat \<Rightarrow> DiagnosticsEvent OpCall \<Rightarrow>
     ('ch, 'sp) ClientConnection \<times> bool" where
  "call_operation c r m =
     (case op_call m (pr_operation (cc_heap c ! r)) of
        (opn, res, evs) \<Rightarrow>
          ((update_pending c r (\<lambda>p. p\<lparr>pr_operation := opn\<rparr>))
             \<lparr>cc_diagnostics := notify_all (cc_diagnostics c) evs\<rparr>, res))"

definition close_channel ::
  "('ch, 'sp, 't, 'v) Env \<Rightarrow> ('ch, 'sp) ClientConnection \<Rightarrow> nat \<Rightarrow> ('ch, 'sp) ClientConnection" where
  "close_channel E c r =
     update_pending c r
       (\<lambda>p. p\<lparr>pr_channel := chan_close (frame_channel (env_queue E)) (pr_channel p)\<rparr>)"

definition cleanup_pending ::
  "('ch, 'sp) ClientConnection \<Rightarrow> nat \<Rightarrow> bool \<Rightarrow> ('ch, 'sp) ClientConnection" where
  "cleanup_pending c r release_stream =
     (let c = (if \<not> pr_removed (cc_heap c ! r) then
                 (let c = update_pending c r (\<lambda>p. p\<lparr>pr_removed := True, pr_timer := None\<rparr>);
                      sid = pending_stream c r in
                  if map_of (cc_pending c) sid = Some r
                  then c\<lparr>cc_pending := AList.delete sid (cc_pending c)\<rparr> else c)
               else c) in
      if release_stream \<and> \<not> pr_stream_released (cc_heap c ! r) then
        (let c = update_pending c r (\<lambda>p. p\<lparr>pr_stream_released := True\<rparr>) in
         c\<lparr>cc_stream_ids := release (cc_stream_ids c) (pending_stream c r)\<rparr>)
      else c)"

definition cancellation_frame :: "StreamId \<Rightarrow> Frame" where
  "cancellation_frame sid =
     \<lparr>frame_header = default_header\<lparr>
        header_type := FrameType_request,
        header_flags := flags_or Flags_cancel Flags_end_of_stream,
        header_stream := sid, header_payload_size := 0\<rparr>,
      frame_payload = []\<rparr>"

definition send_cancellation ::
  "('ch, 'sp, 't, 'v) Env \<Rightarrow> ('ch, 'sp) ClientConnection \<Rightarrow> StreamId \<Rightarrow> ('ch, 'sp) ClientConnection" where
  "send_cancellation E c sid =
     c\<lparr>cc_write_queue :=
         fst (try_enqueue (env_queue E) (cc_write_queue c) (cancellation_frame sid))\<rparr>"

definition cancel_pending ::
  "('ch, 'sp, 't, 'v) Env \<Rightarrow> ('ch, 'sp) ClientConnection \<Rightarrow> nat \<Rightarrow> string \<Rightarrow>
     ('ch, 'sp) ClientConnection \<times> bool" where
  "cancel_pending E c r msg =
     (case call_operation c r (Call_cancel msg) of
        (c, done) \<Rightarrow>
          if \<not> done then (c, False)
          else
            (let c = send_cancellation E c (pending_stream c r);
                 c = close_channel E c r in
             (cleanup_pending c r False, True)))"

definition timeout_pending ::
  "('ch, 'sp, 't, 'v) Env \<Rightarrow> ('ch, 'sp) ClientConnection \<Rightarrow> nat \<Rightarrow> ('ch, 'sp) ClientConnection" where
  "timeout_pending E c r =
     (case call_operation c r (Call_timeout ''operation deadline exceeded'') of
        (c, done) \<Rightarrow>
          if \<not> done then c
          else
            (let c = send_cancellation E c (pending_stream c r);
                 c = close_channel E c r in
             cleanup_pending c r False))"

definition discard_pending ::
  "('ch, 'sp, 't, 'v) Env \<Rightarrow> ('ch, 'sp) ClientConnection \<Rightarrow> nat \<Rightarrow> ('ch, 'sp) ClientConnection" where
  "discard_pending E c r =
     (let c = (if \<not> op_is_terminal (pr_operation (cc_heap c ! r)) then
                 (let c = fst (call_operation c r (Call_cancel ''operation handle released''));
                      c = send_cancellation E c (pending_stream c r) in
                  close_channel E c r)
               else c) in
      cleanup_pending c r True)"

partial_function (option) fail_pending ::
  "('ch, 'sp, 't, 'v) Env \<Rightarrow> StatusCode \<Rightarrow> string \<Rightarrow> ('ch, 'sp) ClientConnection \<Rightarrow>
     ('ch, 'sp) ClientConnection option" where
  "fail_pending E status msg c =
     (case cc_pending c of
        [] \<Rightarrow> Some c
      | (_, r) # _ \<Rightarrow>
          (let c = fst (call_operation c r (Call_fail status msg));
               c = close_channel E c r in
           fail_pending E status msg (cleanup_pending c r False)))"

section \<open>Incoming frames\<close>

definition mark_terminal :: "('ch, 'sp) ClientConnection \<Rightarrow> Frame \<Rightarrow> ('ch, 'sp) ClientConnection" where
  "mark_terminal c f =
     (if has_flag (header_flags (frame_header f)) Flags_end_of_stream
      then c\<lparr>cc_terminal_streams :=
               insert (header_stream (frame_header f)) (cc_terminal_streams c)\<rparr>
      else c)"

definition fail_connection ::
  "('ch, 'sp, 't, 'v) Env \<Rightarrow> ('ch, 'sp) ClientConnection \<Rightarrow> StatusCode \<Rightarrow> string \<Rightarrow>
     ('ch, 'sp) ClientConnection option" where
  "fail_connection E c status msg =
     (let c = (if status_category status = Category_protocol
               then notify c (diagnostics_event Event_protocol_error StreamId_default status 0
                                True msg)
               else c) in
      do { c \<leftarrow> fail_pending E status msg c; Some (c\<lparr>cc_transport_open := False\<rparr>) })"

text \<open>
  A frame that is moved into the response channel keeps its header, which \<open>mark_terminal\<close> reads
  afterwards.
\<close>

definition dispatch ::
  "('ch, 'sp, 't, 'v) Env \<Rightarrow> ('ch, 'sp) ClientConnection \<Rightarrow> Frame \<Rightarrow>
     ('ch, 'sp) ClientConnection option" where
  "dispatch E c f =
     (let h = frame_header f in
      if header_type h \<noteq> FrameType_response then
        fail_connection E c Status_malformed_frame ''client received a non-response frame''
      else
        (case map_of (cc_pending c) (header_stream h) of
           None \<Rightarrow>
             fail_connection E c Status_unknown_stream
               ''response received for an unknown stream''
         | Some r \<Rightarrow>
             if header_stream h \<in> cc_terminal_streams c then
               fail_connection E c Status_malformed_frame ''duplicate terminal frame''
             else if has_flag (header_flags h) Flags_cancel then
               Some (mark_terminal (fst (cancel_pending E c r ''operation cancelled by peer'')) f)
             else if has_flag (header_flags h) Flags_error then
               (case decode_error_status f of
                  None \<Rightarrow>
                    fail_connection E c Status_malformed_frame
                      ''malformed protocol error payload''
                | Some status \<Rightarrow>
                    (let c = fst (call_operation c r
                               (Call_fail status ''peer rejected the operation''));
                         c = close_channel E c r;
                         c = cleanup_pending c r True in
                     Some (mark_terminal c f)))
             else
               (case call_operation c r (Call_complete ''response received'') of
                  (c', done) \<Rightarrow>
                    if \<not> done then
                      fail_connection E c' Status_malformed_frame ''duplicate terminal frame''
                    else
                      (let c = update_pending c' r (\<lambda>p. p\<lparr>pr_timer := None\<rparr>);
                           c = update_pending c r (\<lambda>p. p\<lparr>pr_channel :=
                                 fst (chan_try_send (frame_channel (env_queue E))
                                        (pr_channel p) f)\<rparr>);
                           c = cleanup_pending c r True in
                       Some (mark_terminal c f)))))"

text \<open>The loop over the frames of one read, left when the transport has been closed.\<close>

fun dispatch_all ::
  "('ch, 'sp, 't, 'v) Env \<Rightarrow> ('ch, 'sp) ClientConnection \<Rightarrow> Frame list \<Rightarrow>
     ('ch, 'sp) ClientConnection option" where
  "dispatch_all E c [] = Some c"
| "dispatch_all E c (f # fs) =
     do {
       c \<leftarrow> dispatch E (notify c (diagnostics_event Event_message_transferred
                                (header_stream (frame_header f)) Status_ok 0 True [])) f;
       if \<not> cc_transport_open c then Some c else dispatch_all E c fs
     }"

text \<open>The end of \<open>read_loop\<close>.\<close>

definition read_loop_exit ::
  "('ch, 'sp, 't, 'v) Env \<Rightarrow> ('ch, 'sp) ClientConnection \<Rightarrow> ('ch, 'sp) ClientConnection option" where
  "read_loop_exit E c =
     do {
       c \<leftarrow> fail_pending E Status_connection_closed
              ''connection closed while awaiting a response'' c;
       Some (notify_closed
         (c\<lparr>cc_write_queue := close_queue (env_queue E) (cc_write_queue c),
            cc_lifecycle := fst (connection_transition (cc_lifecycle c) Connection_closed),
            cc_reading := False\<rparr>))
     }"

text \<open>The head of the loop: read again, or leave.\<close>

definition read_loop_head ::
  "('ch, 'sp, 't, 'v) Env \<Rightarrow> ('ch, 'sp) ClientConnection \<Rightarrow> ('ch, 'sp) ClientConnection option" where
  "read_loop_head E c =
     (if cc_transport_open c then Some (c\<lparr>cc_reading := True\<rparr>) else read_loop_exit E c)"

text \<open>
  A read has completed: with an exception (\<open>None\<close>) or with bytes, of which there are none at the
  end of the stream. The transport may have closed itself in the course of it.
\<close>

definition read_completed ::
  "('ch, 'sp, 't, 'v) Env \<Rightarrow> ('ch, 'sp) ClientConnection \<Rightarrow> bool \<Rightarrow> Buffer option \<Rightarrow>
     ('ch, 'sp) ClientConnection option" where
  "read_completed E c still_open result =
     (let c = c\<lparr>cc_transport_open := cc_transport_open c \<and> still_open\<rparr> in
      case result of
        None \<Rightarrow> read_loop_exit E c
      | Some [] \<Rightarrow> read_loop_exit E c
      | Some bytes \<Rightarrow>
          do {
            let c = notify c (diagnostics_event Event_bytes_transferred StreamId_default
                                Status_ok (length bytes) True []);
            (d, frames) \<leftarrow> push (cc_decoder c) bytes;
            c \<leftarrow> dispatch_all E (c\<lparr>cc_decoder := d\<rparr>) frames;
            case dec_error d of
              None \<Rightarrow> read_loop_head E c
            | Some err \<Rightarrow>
                do {
                  c \<leftarrow> fail_connection E c (status_for_frame_validation err)
                         (frame_validation_message err);
                  read_loop_exit E c
                }
          })"

section \<open>Starting requests\<close>

definition rejects_requests :: "ConnectionState \<Rightarrow> bool" where
  "rejects_requests st \<longleftrightarrow>
     st = Connection_draining \<or> st = Connection_closing \<or> st = Connection_closed"

text \<open>What follows \<open>co_await write_queue_.enqueue(...)\<close>.\<close>

definition start_request_sent ::
  "('ch, 'sp, 't, 'v) Env \<Rightarrow> ('ch, 'sp) ClientConnection \<Rightarrow> nat \<Rightarrow> WriteResult \<Rightarrow>
     ('ch, 'sp) ClientConnection \<times> StartOutcome" where
  "start_request_sent E c r sent =
     (if \<not> write_ok sent then
        (let c = fst (call_operation c r (Call_fail (write_status sent) (write_message sent)));
             c = close_channel E c r;
             c = cleanup_pending c r True in
         (c, Start_failed (write_status sent) (write_message sent)))
      else (c, Start_ok \<lparr>ro_connected = True, ro_pending = Some r\<rparr>))"

definition start_request ::
  "('ch, 'sp, 't, 'v) Env \<Rightarrow> ('ch, 'sp) ClientConnection \<Rightarrow> 't \<Rightarrow> 'v \<Rightarrow>
     ('ch, 'sp) ClientConnection \<times> StartOutcome" where
  "start_request E c ty v =
     (if rejects_requests (cc_lifecycle c) then
        (c, Start_failed Status_connection_closed ''connection is shutting down'')
      else
        (case allocate (cc_stream_ids c) of
           (ids, allocation) \<Rightarrow>
             (let c = c\<lparr>cc_stream_ids := ids\<rparr> in
              case allocation_stream allocation of
                None \<Rightarrow>
                  (c, Start_failed (allocation_status allocation) ''stream identifiers exhausted'')
              | Some sid \<Rightarrow>
                  (let encoded = encode_message (env_codec E) (env_registry E) ty v sid
                         FrameType_request Flags_none default_max_payload_size
                         current_protocol_version in
                   if \<not> frame_encode_ok encoded then
                     (c, Start_failed (frame_encode_status encoded)
                           (frame_encode_message encoded))
                   else
                     (let r = length (cc_heap c);
                          c = c\<lparr>cc_heap := cc_heap c @ [new_pending E sid],
                                cc_pending := (if map_of (cc_pending c) sid = None
                                               then (sid, r) # cc_pending c
                                               else cc_pending c)\<rparr>;
                          c = notify c (diagnostics_event Event_request_started sid Status_ok 0
                                          False []);
                          f = the (frame_encode_frame encoded) in
                      case enqueue (env_queue E) (cc_write_queue c) f of
                        (q, sent) \<Rightarrow>
                          (let c = c\<lparr>cc_write_queue := q\<rparr> in
                           case sent of
                             None \<Rightarrow> (c, Start_suspended r f)
                           | Some res \<Rightarrow> start_request_sent E c r res))))))"

text \<open>The space channel has completed the receive a suspended request waits for.\<close>

definition start_request_resume ::
  "('ch, 'sp, 't, 'v) Env \<Rightarrow> string \<Rightarrow> ('ch, 'sp) ClientConnection \<Rightarrow> nat \<Rightarrow> Frame \<Rightarrow>
     ('ch, 'sp) ClientConnection \<times> StartOutcome" where
  "start_request_resume E closed_message c r f =
     (case enqueue_resume (env_queue E) closed_message (cc_write_queue c) f of
        (q, sent) \<Rightarrow>
          (let c = c\<lparr>cc_write_queue := q\<rparr> in
           case sent of
             None \<Rightarrow> (c, Start_suspended r f)
           | Some res \<Rightarrow> start_request_sent E c r res))"

text \<open>
  The overload with a deadline continues like this once the plain one has returned a handle: it
  arms the request's timer, whose completion is \<open>timer_completed\<close>. A relative timeout is the
  deadline \<open>now + timeout\<close>.
\<close>

definition start_request_deadline ::
  "('ch, 'sp) ClientConnection \<Rightarrow> StartOutcome \<Rightarrow> Deadline \<Rightarrow>
     ('ch, 'sp) ClientConnection \<times> StartOutcome" where
  "start_request_deadline c started deadline =
     (case started of
        Start_ok h \<Rightarrow>
          (let r = the (ro_pending h);
               c = fst (call_operation c r (Call_set_deadline deadline)) in
           (update_pending c r (\<lambda>p. p\<lparr>pr_timer := Some deadline\<rparr>), started))
      | _ \<Rightarrow> (c, started))"

definition start_request_timeout ::
  "('ch, 'sp) ClientConnection \<Rightarrow> StartOutcome \<Rightarrow> int \<Rightarrow> int \<Rightarrow>
     ('ch, 'sp) ClientConnection \<times> StartOutcome" where
  "start_request_timeout c started now timeout = start_request_deadline c started (now + timeout)"

definition timer_completed ::
  "('ch, 'sp, 't, 'v) Env \<Rightarrow> ('ch, 'sp) ClientConnection \<Rightarrow> nat \<Rightarrow> bool \<Rightarrow> ('ch, 'sp) ClientConnection" where
  "timer_completed E c r err = (if \<not> err then timeout_pending E c r else c)"

section \<open>Operation handles\<close>

definition handle_stream :: "('ch, 'sp) ClientConnection \<Rightarrow> RequestOperation \<Rightarrow> StreamId" where
  "handle_stream c h =
     (case ro_pending h of Some r \<Rightarrow> pending_stream c r | None \<Rightarrow> StreamId_default)"

definition handle_cancel ::
  "('ch, 'sp, 't, 'v) Env \<Rightarrow> ('ch, 'sp) ClientConnection \<Rightarrow> RequestOperation \<Rightarrow> string \<Rightarrow>
     ('ch, 'sp) ClientConnection \<times> bool" where
  "handle_cancel E c h msg =
     (if \<not> ro_connected h \<or> ro_pending h = None then (c, False)
      else cancel_pending E c (the (ro_pending h)) msg)"

definition handle_destroy ::
  "('ch, 'sp, 't, 'v) Env \<Rightarrow> ('ch, 'sp) ClientConnection \<Rightarrow> RequestOperation \<Rightarrow>
     ('ch, 'sp) ClientConnection" where
  "handle_destroy E c h =
     (if ro_connected h \<and> ro_pending h \<noteq> None then discard_pending E c (the (ro_pending h))
      else c)"

text \<open>Move construction: the new handle and what is left of the old one.\<close>

definition handle_move :: "RequestOperation \<Rightarrow> RequestOperation \<times> RequestOperation" where
  "handle_move other = (other, \<lparr>ro_connected = False, ro_pending = None\<rparr>)"

text \<open>Move assignment between distinct handles discards the request of the target first.\<close>

definition handle_assign ::
  "('ch, 'sp, 't, 'v) Env \<Rightarrow> ('ch, 'sp) ClientConnection \<Rightarrow> RequestOperation \<Rightarrow> RequestOperation \<Rightarrow>
     ('ch, 'sp) ClientConnection \<times> RequestOperation \<times> RequestOperation" where
  "handle_assign E c target other =
     (let c = handle_destroy E c target in (c, handle_move other))"

text \<open>
  \<open>async_wait\<close>: its start, with the result if it returns at once, and the completion of the
  receive, with \<open>None\<close> while there is nothing to receive.
\<close>

definition async_wait ::
  "('ch, 'sp, 't, 'v) Env \<Rightarrow> ('ch, 'sp) ClientConnection \<Rightarrow> RequestOperation \<Rightarrow>
     ('ch, 'sp) ClientConnection \<times> 'v DecodeResult option" where
  "async_wait E c h =
     (if \<not> ro_connected h \<or> ro_pending h = None then
        (c, Some (DecodeResult_failure Status_operation_error ''operation handle is empty''))
      else
        (update_pending c (the (ro_pending h))
           (\<lambda>p. p\<lparr>pr_channel :=
                  chan_begin_receive (frame_channel (env_queue E)) (pr_channel p)\<rparr>), None))"

definition async_wait_completed ::
  "('ch, 'sp, 't, 'v) Env \<Rightarrow> ('ch, 'sp) ClientConnection \<Rightarrow> RequestOperation \<Rightarrow> 't \<Rightarrow>
     ('ch, 'sp) ClientConnection \<times> 'v DecodeResult option" where
  "async_wait_completed E c h ty =
     (let r = the (ro_pending h) in
      case chan_end_receive (frame_channel (env_queue E)) (pr_channel (cc_heap c ! r)) of
        (ch, ev) \<Rightarrow>
          (let c = update_pending c r (\<lambda>p. p\<lparr>pr_channel := ch\<rparr>) in
           case ev of
             Channel_pending \<Rightarrow> (c, None)
           | Channel_closed \<Rightarrow>
               (let c = cleanup_pending c r True in
                (c, Some (case op_result (pr_operation (cc_heap c ! r)) of
                   Some result \<Rightarrow>
                     DecodeResult_failure (result_status result) (result_message result)
                 | None \<Rightarrow>
                     DecodeResult_failure Status_connection_closed
                       ''connection closed while awaiting a response'')))
           | Channel_message f \<Rightarrow>
               (cleanup_pending c r True,
                Some (decode_message (env_codec E) (env_registry E) ty f))))"

text \<open>
  \<open>request\<close>: the failure \<open>start_request\<close> reported, or the handle \<open>async_wait\<close> is called on.
\<close>

definition request_started :: "StartOutcome \<Rightarrow> ('v DecodeResult + RequestOperation) option" where
  "request_started started =
     (case started of
        Start_failed status msg \<Rightarrow> Some (Inl (DecodeResult_failure status msg))
      | Start_ok h \<Rightarrow> Some (Inr h)
      | Start_suspended _ _ \<Rightarrow> None)"

section \<open>Running and shutting down\<close>

definition client_run ::
  "('ch, 'sp, 't, 'v) Env \<Rightarrow> ('ch, 'sp) ClientConnection \<Rightarrow> ('ch, 'sp) ClientConnection option" where
  "client_run E c =
     (let c = (if cc_lifecycle c = Connection_created then
                 (let st = fst (connection_transition (cc_lifecycle c) Connection_connecting);
                      st = fst (connection_transition st Connection_active) in
                  notify (c\<lparr>cc_lifecycle := st\<rparr>)
                    (diagnostics_event Event_connection_opened StreamId_default Status_ok 0
                       False []))
               else c);
          c = c\<lparr>cc_write_queue := writer_loop (env_queue E) (cc_write_queue c)\<rparr> in
      read_loop_head E c)"

definition begin_shutdown :: "('ch, 'sp) ClientConnection \<Rightarrow> ('ch, 'sp) ClientConnection" where
  "begin_shutdown c =
     (let st = cc_lifecycle c;
          st = (if st = Connection_created
                then fst (connection_transition
                            (fst (connection_transition st Connection_connecting))
                            Connection_active)
                else st);
          st = (if st = Connection_active then fst (connection_transition st Connection_draining)
                else st) in
      c\<lparr>cc_lifecycle := st\<rparr>)"

text \<open>The guard of the polling loop of \<open>shutdown\<close>, and what follows the loop.\<close>

definition shutdown_waits :: "('ch, 'sp) ClientConnection \<Rightarrow> int \<Rightarrow> Deadline \<Rightarrow> bool" where
  "shutdown_waits c now deadline \<longleftrightarrow> cc_pending c \<noteq> [] \<and> now < deadline"

definition shutdown_finish ::
  "('ch, 'sp, 't, 'v) Env \<Rightarrow> ('ch, 'sp) ClientConnection \<Rightarrow> ('ch, 'sp) ClientConnection option" where
  "shutdown_finish E c =
     do {
       c \<leftarrow> (if cc_pending c \<noteq> []
             then fail_pending E Status_connection_closed ''connection drain period expired'' c
             else Some c);
       Some (notify_closed
         (c\<lparr>cc_transport_open := False,
            cc_lifecycle := fst (connection_transition (cc_lifecycle c) Connection_closed)\<rparr>))
     }"

text \<open>
  \<open>shutdown\<close> as a coroutine: the head of its loop, its start, and the completion of the timer, which
  leaves the loop when it reports an error. The clock is read once for the deadline and once more
  by every test of the loop.
\<close>

definition client_shutdown_end ::
  "('ch, 'sp, 't, 'v) Env \<Rightarrow> ('ch, 'sp) ClientConnection \<Rightarrow>
     (('ch, 'sp) ClientConnection \<times> DrainCall) option" where
  "client_shutdown_end E c = do { c \<leftarrow> shutdown_finish E c; Some (c, Drain_returned) }"

definition client_shutdown_head ::
  "('ch, 'sp, 't, 'v) Env \<Rightarrow> ('ch, 'sp) ClientConnection \<Rightarrow> int \<Rightarrow> Deadline \<Rightarrow>
     (('ch, 'sp) ClientConnection \<times> DrainCall) option" where
  "client_shutdown_head E c now deadline =
     (if shutdown_waits c now deadline
      then Some (c, Drain_polling deadline (now + poll_interval)) else client_shutdown_end E c)"

definition client_shutdown ::
  "('ch, 'sp, 't, 'v) Env \<Rightarrow> ('ch, 'sp) ClientConnection \<Rightarrow> int \<Rightarrow> int \<Rightarrow> int \<Rightarrow>
     (('ch, 'sp) ClientConnection \<times> DrainCall) option" where
  "client_shutdown E c now now' drain_period =
     client_shutdown_head E (begin_shutdown c) now' (now + drain_period)"

definition client_shutdown_poll ::
  "('ch, 'sp, 't, 'v) Env \<Rightarrow> ('ch, 'sp) ClientConnection \<Rightarrow> Deadline \<Rightarrow> int \<Rightarrow> bool \<Rightarrow>
     (('ch, 'sp) ClientConnection \<times> DrainCall) option" where
  "client_shutdown_poll E c deadline now err =
     (if err then client_shutdown_end E c else client_shutdown_head E c now deadline)"

text \<open>The write queue's coroutine, with the connection's observer and transport.\<close>

definition client_write_completed ::
  "('ch, 'sp, 't, 'v) Env \<Rightarrow> ('ch, 'sp) ClientConnection \<Rightarrow> string option \<Rightarrow>
     ('ch, 'sp) ClientConnection" where
  "client_write_completed E c failure =
     (case writer_wrote (env_queue E) (cc_write_queue c) failure of
        (q, close_transport, observed) \<Rightarrow>
          (let c = c\<lparr>cc_write_queue := q,
                     cc_transport_open := cc_transport_open c \<and> \<not> close_transport\<rparr> in
           case observed of None \<Rightarrow> c | Some (f, bytes) \<Rightarrow> observe_write c f bytes))"

definition client_frame_received ::
  "('ch, 'sp, 't, 'v) Env \<Rightarrow> ('ch, 'sp) ClientConnection \<Rightarrow> ('ch, 'sp) ClientConnection" where
  "client_frame_received E c =
     c\<lparr>cc_write_queue := writer_received (env_queue E) (cc_write_queue c)\<rparr>"

end
