(* ===== verification/Operation_Facts.thy ===== *)
theory Operation_Facts
  imports Operation_Model
begin

text \<open>
  Facts about operations that both sides of a connection use: which methods settle an
  operation and with what result, and the order on lists of operations along which every
  stretch of execution moves, where a settled operation keeps its state and result.
\<close>

section \<open>Methods of an operation that settle it\<close>

definition settling :: "'ev OpCall \<Rightarrow> bool" where
  "settling m \<longleftrightarrow>
     (case m of Call_complete _ \<Rightarrow> True | Call_fail st _ \<Rightarrow> st \<noteq> Status_ok | Call_cancel _ \<Rightarrow> True
      | Call_timeout _ \<Rightarrow> True | _ \<Rightarrow> False)"

lemma settling_simps [simp]:
  "settling (Call_complete msg)" "settling (Call_cancel msg)" "settling (Call_timeout msg)"
  "settling (Call_fail st msg) \<longleftrightarrow> st \<noteq> Status_ok"
  by (simp_all add: settling_def)

lemma op_call_not_created:
  "op_state opn \<noteq> Operation_created \<Longrightarrow> op_state (fst (op_call m opn)) \<noteq> Operation_created"
  by (cases m; cases "op_state opn")
    (auto simp: op_call.simps op_method_defs op_is_terminal_def operation_transition_def)

text \<open>A settling method settles an active operation and refuses a settled one.\<close>

lemma op_call_settling:
  assumes "settling m" and "op_state opn \<noteq> Operation_created"
  shows "op_is_terminal (fst (op_call m opn))"
    and "fst (snd (op_call m opn)) \<longleftrightarrow> \<not> op_is_terminal opn"
  using assms
  by (cases m; cases "op_state opn";
      auto simp: settling_def op_call.simps op_method_defs op_is_terminal_def operation_transition_def)+

lemma op_result_fail:
  "op_state opn = Operation_active \<Longrightarrow> st \<noteq> Status_ok \<Longrightarrow>
     op_result (fst (op_call (Call_fail st msg) opn)) = Some (OperationResult_failure st msg)"
  by (simp add: op_call.simps op_method_defs operation_transition_def)

lemma op_result_complete:
  "op_state opn = Operation_active \<Longrightarrow>
     op_result (fst (op_call (Call_complete msg) opn)) = Some (OperationResult_success msg)"
  by (simp add: op_call.simps op_method_defs operation_transition_def)

lemma op_result_cancel:
  "op_state opn = Operation_active \<Longrightarrow>
     op_result (fst (op_call (Call_cancel msg) opn)) =
       Some (OperationResult_failure Status_cancelled msg)"
  by (simp add: op_call.simps op_method_defs op_is_terminal_def operation_transition_def)

lemma op_result_timeout:
  "op_state opn = Operation_active \<Longrightarrow>
     op_result (fst (op_call (Call_timeout msg) opn)) =
       Some (OperationResult_failure Status_timeout_error msg)"
  by (simp add: op_call.simps op_method_defs operation_transition_def)

lemmas op_results = op_result_fail op_result_complete op_result_cancel op_result_timeout

lemma active_iff:
  "op_state opn \<noteq> Operation_created \<Longrightarrow> \<not> op_is_terminal opn \<longleftrightarrow> op_state opn = Operation_active"
  by (cases "op_state opn") (auto simp: op_is_terminal_def)

section \<open>How operations may change\<close>

definition op_step :: "'ev Operation \<Rightarrow> 'ev Operation \<Rightarrow> bool" where
  "op_step opn opn' \<longleftrightarrow>
     op_stream opn' = op_stream opn \<and>
     (op_is_terminal opn \<longrightarrow> op_state opn' = op_state opn \<and> op_result opn' = op_result opn)"

definition ops_le :: "'ev Operation list \<Rightarrow> 'ev Operation list \<Rightarrow> bool" where
  "ops_le os os' \<longleftrightarrow>
     length os \<le> length os' \<and> (\<forall>r < length os. op_step (os ! r) (os' ! r))"

lemma op_step_refl [simp]: "op_step opn opn"
  by (simp add: op_step_def)

lemma op_step_trans: "op_step a b \<Longrightarrow> op_step b d \<Longrightarrow> op_step a d"
  by (auto simp: op_step_def op_is_terminal_def)

lemma op_step_call [simp]: "op_step opn (fst (op_call m opn))"
  using op_call_terminal [of opn m] by (auto simp: op_step_def)

lemma ops_le_refl [simp]: "ops_le os os"
  by (simp add: ops_le_def)

lemma ops_le_trans: "ops_le a b \<Longrightarrow> ops_le b d \<Longrightarrow> ops_le a d"
  unfolding ops_le_def by (meson le_trans less_le_trans op_step_trans)

lemma ops_le_update:
  "op_step (os ! r) x \<Longrightarrow> ops_le os (os[r := x])"
  by (cases "r < length os") (auto simp: ops_le_def nth_list_update list_update_beyond)

lemma ops_le_append [simp]: "ops_le os (os @ xs)"
  by (simp add: ops_le_def nth_append)

lemma ops_le_map: "(\<And>opn. op_step opn (g opn)) \<Longrightarrow> ops_le os (map g os)"
  by (simp add: ops_le_def)

section \<open>Failing what is not settled\<close>

definition fail_unsettled :: "StatusCode \<Rightarrow> string \<Rightarrow> 'ev Operation \<Rightarrow> 'ev Operation" where
  "fail_unsettled st msg opn =
     (if op_is_terminal opn then opn else fst (op_call (Call_fail st msg) opn))"

lemma fail_unsettled_step [simp]: "op_step opn (fail_unsettled st msg opn)"
  using op_step_call [of opn "Call_fail st msg"] by (simp add: fail_unsettled_def)

lemma op_is_terminal_active [simp]: "op_state opn = Operation_active \<Longrightarrow> \<not> op_is_terminal opn"
  by (simp add: op_is_terminal_def)

lemma fail_unsettled_result:
  assumes "op_inv opn" and "op_state opn \<noteq> Operation_created" and "st \<noteq> Status_ok"
  shows "op_result (fail_unsettled st msg opn) =
     (case op_result opn of None \<Rightarrow> Some (OperationResult_failure st msg) | Some res \<Rightarrow> Some res)"
  using assms active_iff [OF assms(2)] op_inv_result [OF assms(1)]
  by (auto simp: fail_unsettled_def op_result_fail split: option.split)

end
