(* ===== verification/Client_Invariant.thy ===== *)
theory Client_Invariant
  imports Client_Connection Operation_Facts
begin

text \<open>
  The invariant of a client connection, and that every stretch of execution returns and keeps
  it. Its core \<open>pend_inv\<close> ties together the stream identifier allocator, the pending table and
  the request objects; the other components keep their own invariants.
\<close>

section \<open>What the helpers leave alone\<close>

lemma update_pending_frame [simp]:
  "cc_transport_open (update_pending c r g) = cc_transport_open c"
  "cc_write_queue (update_pending c r g) = cc_write_queue c"
  "cc_stream_ids (update_pending c r g) = cc_stream_ids c"
  "cc_decoder (update_pending c r g) = cc_decoder c"
  "cc_pending (update_pending c r g) = cc_pending c"
  "cc_terminal_streams (update_pending c r g) = cc_terminal_streams c"
  "cc_lifecycle (update_pending c r g) = cc_lifecycle c"
  "cc_diagnostics (update_pending c r g) = cc_diagnostics c"
  "cc_closed_notified (update_pending c r g) = cc_closed_notified c"
  "cc_reading (update_pending c r g) = cc_reading c"
  by (simp_all add: update_pending_def)

lemma call_operation_frame [simp]:
  "cc_transport_open (fst (call_operation c r m)) = cc_transport_open c"
  "cc_write_queue (fst (call_operation c r m)) = cc_write_queue c"
  "cc_stream_ids (fst (call_operation c r m)) = cc_stream_ids c"
  "cc_decoder (fst (call_operation c r m)) = cc_decoder c"
  "cc_pending (fst (call_operation c r m)) = cc_pending c"
  "cc_terminal_streams (fst (call_operation c r m)) = cc_terminal_streams c"
  "cc_lifecycle (fst (call_operation c r m)) = cc_lifecycle c"
  "cc_closed_notified (fst (call_operation c r m)) = cc_closed_notified c"
  "cc_reading (fst (call_operation c r m)) = cc_reading c"
  by (simp_all add: call_operation_def case_prod_beta)

lemma close_channel_frame [simp]:
  "cc_transport_open (close_channel E c r) = cc_transport_open c"
  "cc_write_queue (close_channel E c r) = cc_write_queue c"
  "cc_stream_ids (close_channel E c r) = cc_stream_ids c"
  "cc_decoder (close_channel E c r) = cc_decoder c"
  "cc_pending (close_channel E c r) = cc_pending c"
  "cc_terminal_streams (close_channel E c r) = cc_terminal_streams c"
  "cc_lifecycle (close_channel E c r) = cc_lifecycle c"
  "cc_diagnostics (close_channel E c r) = cc_diagnostics c"
  "cc_closed_notified (close_channel E c r) = cc_closed_notified c"
  "cc_reading (close_channel E c r) = cc_reading c"
  by (simp_all add: close_channel_def)

lemma send_cancellation_frame [simp]:
  "cc_transport_open (send_cancellation E c sid) = cc_transport_open c"
  "cc_stream_ids (send_cancellation E c sid) = cc_stream_ids c"
  "cc_decoder (send_cancellation E c sid) = cc_decoder c"
  "cc_pending (send_cancellation E c sid) = cc_pending c"
  "cc_terminal_streams (send_cancellation E c sid) = cc_terminal_streams c"
  "cc_lifecycle (send_cancellation E c sid) = cc_lifecycle c"
  "cc_diagnostics (send_cancellation E c sid) = cc_diagnostics c"
  "cc_closed_notified (send_cancellation E c sid) = cc_closed_notified c"
  "cc_reading (send_cancellation E c sid) = cc_reading c"
  "cc_heap (send_cancellation E c sid) = cc_heap c"
  by (simp_all add: send_cancellation_def)

lemma cleanup_pending_frame [simp]:
  "cc_transport_open (cleanup_pending c r b) = cc_transport_open c"
  "cc_write_queue (cleanup_pending c r b) = cc_write_queue c"
  "cc_decoder (cleanup_pending c r b) = cc_decoder c"
  "cc_terminal_streams (cleanup_pending c r b) = cc_terminal_streams c"
  "cc_lifecycle (cleanup_pending c r b) = cc_lifecycle c"
  "cc_diagnostics (cleanup_pending c r b) = cc_diagnostics c"
  "cc_closed_notified (cleanup_pending c r b) = cc_closed_notified c"
  "cc_reading (cleanup_pending c r b) = cc_reading c"
  by (simp_all add: cleanup_pending_def Let_def)

lemma notify_frame [simp]:
  "cc_transport_open (notify c ev) = cc_transport_open c"
  "cc_write_queue (notify c ev) = cc_write_queue c"
  "cc_stream_ids (notify c ev) = cc_stream_ids c"
  "cc_decoder (notify c ev) = cc_decoder c"
  "cc_pending (notify c ev) = cc_pending c"
  "cc_terminal_streams (notify c ev) = cc_terminal_streams c"
  "cc_lifecycle (notify c ev) = cc_lifecycle c"
  "cc_closed_notified (notify c ev) = cc_closed_notified c"
  "cc_reading (notify c ev) = cc_reading c"
  "cc_heap (notify c ev) = cc_heap c"
  by (simp_all add: notify_def)

lemma mark_terminal_frame [simp]:
  "cc_transport_open (mark_terminal c f) = cc_transport_open c"
  "cc_write_queue (mark_terminal c f) = cc_write_queue c"
  "cc_stream_ids (mark_terminal c f) = cc_stream_ids c"
  "cc_decoder (mark_terminal c f) = cc_decoder c"
  "cc_pending (mark_terminal c f) = cc_pending c"
  "cc_lifecycle (mark_terminal c f) = cc_lifecycle c"
  "cc_diagnostics (mark_terminal c f) = cc_diagnostics c"
  "cc_closed_notified (mark_terminal c f) = cc_closed_notified c"
  "cc_reading (mark_terminal c f) = cc_reading c"
  "cc_heap (mark_terminal c f) = cc_heap c"
  by (simp_all add: mark_terminal_def)

lemma notify_closed_frame [simp]:
  "cc_transport_open (notify_closed c) = cc_transport_open c"
  "cc_write_queue (notify_closed c) = cc_write_queue c"
  "cc_stream_ids (notify_closed c) = cc_stream_ids c"
  "cc_decoder (notify_closed c) = cc_decoder c"
  "cc_pending (notify_closed c) = cc_pending c"
  "cc_terminal_streams (notify_closed c) = cc_terminal_streams c"
  "cc_lifecycle (notify_closed c) = cc_lifecycle c"
  "cc_reading (notify_closed c) = cc_reading c"
  "cc_heap (notify_closed c) = cc_heap c"
  by (simp_all add: notify_closed_def)

lemma length_heap [simp]:
  "length (cc_heap (update_pending c r g)) = length (cc_heap c)"
  "length (cc_heap (fst (call_operation c r m))) = length (cc_heap c)"
  "length (cc_heap (close_channel E c r)) = length (cc_heap c)"
  "length (cc_heap (cleanup_pending c r b)) = length (cc_heap c)"
  by (simp_all add: update_pending_def call_operation_def close_channel_def cleanup_pending_def
      case_prod_beta Let_def)

lemma heap_update_pending:
  "r < length (cc_heap c) \<Longrightarrow>
     cc_heap (update_pending c r g) = (cc_heap c)[r := g (cc_heap c ! r)]"
  by (simp add: update_pending_def)

lemma heap_call_operation:
  "cc_heap (fst (call_operation c r m)) =
     (cc_heap c)[r := (cc_heap c ! r)
        \<lparr>pr_operation := fst (op_call m (pr_operation (cc_heap c ! r)))\<rparr>]"
  by (simp add: call_operation_def case_prod_beta update_pending_def)

lemma snd_call_operation:
  "snd (call_operation c r m) = fst (snd (op_call m (pr_operation (cc_heap c ! r))))"
  by (simp add: call_operation_def case_prod_beta)

lemma heap_close_channel:
  "cc_heap (close_channel E c r) =
     (cc_heap c)[r := (cc_heap c ! r)
        \<lparr>pr_channel := chan_close (frame_channel (env_queue E)) (pr_channel (cc_heap c ! r))\<rparr>]"
  by (simp add: close_channel_def update_pending_def)

section \<open>The invariant of the pending table\<close>

text \<open>
  Per request: whether it is settled, and what the tables know about it. \<open>X\<close> is the set of
  requests that are being settled, whose operation may already be terminal although they have
  not been removed yet; it is empty between stretches of execution.
\<close>

definition request_ok ::
  "nat set \<Rightarrow> StreamIdAllocator \<Rightarrow> (StreamId \<times> nat) list \<Rightarrow> nat \<Rightarrow> 'ch PendingRequest \<Rightarrow> bool" where
  "request_ok X ids pend r p \<longleftrightarrow>
     op_inv (pr_operation p) \<and> op_state (pr_operation p) \<noteq> Operation_created \<and>
     (\<not> pr_removed p \<longrightarrow>
        map_of pend (op_stream (pr_operation p)) = Some r \<and> \<not> pr_stream_released p) \<and>
     (pr_removed p \<longrightarrow> op_is_terminal (pr_operation p)) \<and>
     (op_is_terminal (pr_operation p) \<and> r \<notin> X \<longrightarrow> pr_removed p) \<and>
     (\<not> pr_stream_released p \<longrightarrow> op_stream (pr_operation p) \<in> live_streams ids)"

definition pend_inv ::
  "nat set \<Rightarrow> StreamIdAllocator \<Rightarrow> (StreamId \<times> nat) list \<Rightarrow> 'ch PendingRequest list \<Rightarrow> bool" where
  "pend_inv X ids pend heap \<longleftrightarrow>
     alloc_inv ids \<and> initiator ids = Initiator_client \<and> distinct_keys pend \<and>
     (\<forall>sid r. map_of pend sid = Some r \<longrightarrow>
        r < length heap \<and> \<not> pr_removed (heap ! r) \<and> op_stream (pr_operation (heap ! r)) = sid) \<and>
     (\<forall>r < length heap. request_ok X ids pend r (heap ! r)) \<and>
     (\<forall>r < length heap. \<forall>r' < length heap.
        \<not> pr_stream_released (heap ! r) \<and> \<not> pr_stream_released (heap ! r') \<and>
        op_stream (pr_operation (heap ! r)) = op_stream (pr_operation (heap ! r')) \<longrightarrow> r = r')"

abbreviation client_pend_inv :: "nat set \<Rightarrow> ('ch, 'sp) ClientConnection \<Rightarrow> bool" where
  "client_pend_inv X c \<equiv> pend_inv X (cc_stream_ids c) (cc_pending c) (cc_heap c)"

text \<open>
  Replacing a request object by one with the same stream and the same table status, whose
  operation has made progress.
\<close>

lemma pend_inv_update:
  assumes inv: "pend_inv X ids pend heap" and r: "r < length heap"
    and st: "op_stream (pr_operation p) = op_stream (pr_operation (heap ! r))"
    and rem: "pr_removed p = pr_removed (heap ! r)"
    and rel: "pr_stream_released p = pr_stream_released (heap ! r)"
    and op: "op_inv (pr_operation p)" "op_state (pr_operation p) \<noteq> Operation_created"
    and old: "op_is_terminal (pr_operation (heap ! r)) \<Longrightarrow> op_is_terminal (pr_operation p)"
    and XY: "X \<subseteq> Y"
    and new: "op_is_terminal (pr_operation p) \<Longrightarrow>
           r \<in> Y \<or> op_is_terminal (pr_operation (heap ! r))"
  shows "pend_inv Y ids pend (heap[r := p])"
proof -
  have st': "op_stream (pr_operation (heap[r := p] ! r')) = op_stream (pr_operation (heap ! r'))"
    and rem': "pr_removed (heap[r := p] ! r') = pr_removed (heap ! r')"
    and rel': "pr_stream_released (heap[r := p] ! r') = pr_stream_released (heap ! r')" for r'
    using st rem rel r by (cases "r' = r"; simp)+
  have ok: "request_ok Y ids pend r' (heap[r := p] ! r')" if "r' < length heap" for r'
  proof (cases "r' = r")
    case True
    have "request_ok X ids pend r (heap ! r)" using inv r by (simp add: pend_inv_def)
    then show ?thesis
      using True r st rem rel op old new XY by (auto simp: request_ok_def)
  next
    case False
    have "request_ok X ids pend r' (heap ! r')" using inv that by (simp add: pend_inv_def)
    then show ?thesis
      using False XY by (auto simp: request_ok_def)
  qed
  show ?thesis
    using inv ok unfolding pend_inv_def st' rem' rel' length_list_update by blast
qed

lemma pend_inv_remove:
  assumes inv: "pend_inv X ids pend heap" and r: "r < length heap"
    and rem: "\<not> pr_removed (heap ! r)" and trm: "op_is_terminal (pr_operation (heap ! r))"
  shows "map_of pend (op_stream (pr_operation (heap ! r))) = Some r"
    and "pend_inv (X - {r}) ids (AList.delete (op_stream (pr_operation (heap ! r))) pend)
           (heap[r := (heap ! r)\<lparr>pr_removed := True, pr_timer := None\<rparr>])"
proof -
  let ?sid = "op_stream (pr_operation (heap ! r))"
  let ?h = "heap[r := (heap ! r)\<lparr>pr_removed := True, pr_timer := None\<rparr>]"
  have okr: "request_ok X ids pend r' (heap ! r')" if "r' < length heap" for r'
    using inv that by (simp add: pend_inv_def)
  then show here: "map_of pend ?sid = Some r" using r rem by (simp add: request_ok_def)
  have st: "op_stream (pr_operation (?h ! r')) = op_stream (pr_operation (heap ! r'))"
    and rel: "pr_stream_released (?h ! r') = pr_stream_released (heap ! r')" for r'
    using r by (cases "r' = r"; simp)+
  have entries: "r' < length heap \<and> \<not> pr_removed (?h ! r') \<and> op_stream (pr_operation (?h ! r')) = sid"
    if "map_of (AList.delete ?sid pend) sid = Some r'" for sid r'
  proof -
    from that have ne: "sid \<noteq> ?sid" and "map_of pend sid = Some r'"
      by (auto simp: AList.delete_conv' split: if_splits)
    with inv have "r' < length heap" "\<not> pr_removed (heap ! r')"
      "op_stream (pr_operation (heap ! r')) = sid" by (simp_all add: pend_inv_def)
    with ne show ?thesis by (cases "r' = r") simp_all
  qed
  have ok: "request_ok (X - {r}) ids (AList.delete ?sid pend) r' (?h ! r')" if "r' < length heap" for r'
  proof (cases "r' = r")
    case True
    then show ?thesis using okr [OF r] r trm by (simp add: request_ok_def)
  next
    case False
    have "op_stream (pr_operation (heap ! r')) \<noteq> ?sid" if "\<not> pr_removed (heap ! r')"
      using okr [OF \<open>r' < length heap\<close>] here False that by (auto simp: request_ok_def)
    then show ?thesis
      using okr [OF that] False by (auto simp: request_ok_def AList.delete_conv')
  qed
  have "distinct_keys (AList.delete ?sid pend)"
    using inv by (simp add: pend_inv_def AList.distinct_delete)
  then show "pend_inv (X - {r}) ids (AList.delete ?sid pend) ?h"
    using inv entries ok unfolding pend_inv_def st rel length_list_update by blast
qed

lemma pend_inv_release:
  assumes inv: "pend_inv X ids pend heap" and r: "r < length heap"
    and rem: "pr_removed (heap ! r)" and unreleased: "\<not> pr_stream_released (heap ! r)"
  shows "pend_inv X (release ids (op_stream (pr_operation (heap ! r)))) pend
           (heap[r := (heap ! r)\<lparr>pr_stream_released := True\<rparr>])"
proof -
  let ?sid = "op_stream (pr_operation (heap ! r))"
  let ?h = "heap[r := (heap ! r)\<lparr>pr_stream_released := True\<rparr>]"
  have okr: "request_ok X ids pend r' (heap ! r')" if "r' < length heap" for r'
    using inv that by (simp add: pend_inv_def)
  have st: "op_stream (pr_operation (?h ! r')) = op_stream (pr_operation (heap ! r'))"
    and rm: "pr_removed (?h ! r') = pr_removed (heap ! r')" for r'
    using r by (cases "r' = r"; simp)+
  have uniq: "op_stream (pr_operation (heap ! r')) \<noteq> ?sid"
    if "r' < length heap" "r' \<noteq> r" "\<not> pr_stream_released (heap ! r')" for r'
    using inv r unreleased that by (auto simp: pend_inv_def)
  have ok: "request_ok X (release ids ?sid) pend r' (?h ! r')" if "r' < length heap" for r'
  proof (cases "r' = r")
    case True
    then show ?thesis using okr [OF r] r rem by (simp add: request_ok_def)
  next
    case False
    have "alloc_inv ids" using inv by (simp add: pend_inv_def)
    then have "live_streams (release ids ?sid) = live_streams ids - {?sid}"
      by (rule sid_alloc.rel_live)
    then show ?thesis
      using okr [OF that] False uniq [OF that False] by (auto simp: request_ok_def)
  qed
  have rel: "pr_stream_released (?h ! r') \<longleftrightarrow> r' = r \<or> pr_stream_released (heap ! r')" for r'
    using r by (cases "r' = r") simp_all
  have "alloc_inv (release ids ?sid) \<and> initiator (release ids ?sid) = Initiator_client"
    using inv by (simp add: pend_inv_def release_inv)
  then show ?thesis
    using inv ok unfolding pend_inv_def st rm rel length_list_update by blast
qed

text \<open>Cleaning up a settled request: it leaves the table, and it may give its stream back.\<close>

lemma cleanup_pending_inv:
  assumes inv: "client_pend_inv X c" and r: "r < length (cc_heap c)"
    and trm: "op_is_terminal (pr_operation (cc_heap c ! r))"
  shows "client_pend_inv (X - {r}) (cleanup_pending c r b)"
proof -
  define c1 where "c1 = cleanup_pending c r False"
  have c1: "client_pend_inv (X - {r}) c1 \<and> length (cc_heap c1) = length (cc_heap c) \<and>
    pr_removed (cc_heap c1 ! r) \<and>
    op_stream (pr_operation (cc_heap c1 ! r)) = op_stream (pr_operation (cc_heap c ! r))"
  proof (cases "pr_removed (cc_heap c ! r)")
    case True
    have "pend_inv (X - {r}) (cc_stream_ids c) (cc_pending c) (cc_heap c)"
      using inv True r by (auto simp: pend_inv_def request_ok_def)
    then show ?thesis using True by (simp add: c1_def cleanup_pending_def Let_def)
  next
    case False
    note * = pend_inv_remove [OF inv r False trm]
    show ?thesis
      using *(1) *(2) r False
      by (simp add: c1_def cleanup_pending_def Let_def update_pending_def)
  qed
  have "cleanup_pending c r b =
    (if b \<and> \<not> pr_stream_released (cc_heap c1 ! r)
     then (update_pending c1 r (\<lambda>p. p\<lparr>pr_stream_released := True\<rparr>))
        \<lparr>cc_stream_ids := release (cc_stream_ids c1) (pending_stream c1 r)\<rparr>
     else c1)"
    using r by (simp add: c1_def cleanup_pending_def Let_def update_pending_def)
  then show ?thesis
    using c1 r pend_inv_release [of "X - {r}" "cc_stream_ids c1" "cc_pending c1" "cc_heap c1" r]
    by (simp add: update_pending_def)
qed

section \<open>The operations of a connection\<close>

text \<open>The operations of all requests made so far, and how they may change.\<close>

definition operations :: "('ch, 'sp) ClientConnection \<Rightarrow> DiagnosticsEvent Operation list" where
  "operations c = map pr_operation (cc_heap c)"

lemma nth_operations [simp]:
  "r < length (cc_heap c) \<Longrightarrow> operations c ! r = pr_operation (cc_heap c ! r)"
  by (simp add: operations_def)

lemma length_operations [simp]: "length (operations c) = length (cc_heap c)"
  by (simp add: operations_def)

lemma operations_heap: "cc_heap c' = cc_heap c \<Longrightarrow> operations c' = operations c"
  by (simp add: operations_def)

lemma operations_update_pending:
  assumes "\<And>p. pr_operation (g p) = pr_operation p"
  shows "operations (update_pending c r g) = operations c"
  using assms by (cases "r < length (cc_heap c)")
    (simp_all add: operations_def update_pending_def map_update list_update_same_conv
      list_update_beyond)

lemma operations_close_channel [simp]: "operations (close_channel E c r) = operations c"
  by (simp add: close_channel_def operations_update_pending)

lemma operations_send_cancellation [simp]: "operations (send_cancellation E c sid) = operations c"
  by (rule operations_heap) simp

lemma operations_call:
  "operations (fst (call_operation c r m)) =
     (operations c)[r := fst (op_call m (pr_operation (cc_heap c ! r)))]"
  by (simp add: operations_def heap_call_operation map_update)

lemma operations_cleanup [simp]: "operations (cleanup_pending c r b) = operations c"
  by (cases "r < length (cc_heap c)")
    (simp_all add: operations_def cleanup_pending_def update_pending_def Let_def map_update
      list_update_same_conv list_update_beyond)

lemma operations_notify [simp]: "operations (notify c ev) = operations c"
  by (rule operations_heap) simp

lemma operations_mark_terminal [simp]: "operations (mark_terminal c f) = operations c"
  by (rule operations_heap) simp

lemma operations_notify_closed [simp]: "operations (notify_closed c) = operations c"
  by (rule operations_heap) simp

section \<open>Settling a request\<close>

lemma pend_inv_request:
  assumes "client_pend_inv X c" and "r < length (cc_heap c)"
  shows "op_inv (pr_operation (cc_heap c ! r))"
    and "op_state (pr_operation (cc_heap c ! r)) \<noteq> Operation_created"
  using assms by (simp_all add: pend_inv_def request_ok_def)

lemma pend_inv_entry:
  assumes "client_pend_inv X c" and "map_of (cc_pending c) sid = Some r"
  shows "r < length (cc_heap c)" and "pending_stream c r = sid"
    and "\<not> pr_removed (cc_heap c ! r)"
  using assms by (auto simp: pend_inv_def)

lemma pend_inv_unsettled:
  assumes inv: "client_pend_inv {} c" and r: "r < length (cc_heap c)"
  shows "\<not> op_is_terminal (pr_operation (cc_heap c ! r)) \<longleftrightarrow>
     map_of (cc_pending c) (pending_stream c r) = Some r"
proof -
  have "request_ok {} (cc_stream_ids c) (cc_pending c) r (cc_heap c ! r)"
    using inv r by (simp add: pend_inv_def)
  then show ?thesis
    using pend_inv_entry(3) [OF inv, of "pending_stream c r" r]
    unfolding request_ok_def by blast
qed

lemma pend_inv_entry_active:
  assumes "client_pend_inv {} c" and "map_of (cc_pending c) sid = Some r"
  shows "op_state (pr_operation (cc_heap c ! r)) = Operation_active"
  using pend_inv_entry [OF assms] pend_inv_unsettled [OF assms(1)]
    pend_inv_request(2) [OF assms(1)] active_iff assms(2) by blast

lemma update_pending_inv:
  assumes "client_pend_inv X c" and r: "r < length (cc_heap c)"
    and "\<And>p. pr_operation (g p) = pr_operation p" and "\<And>p. pr_removed (g p) = pr_removed p"
    and "\<And>p. pr_stream_released (g p) = pr_stream_released p"
  shows "client_pend_inv X (update_pending c r g)"
  using pend_inv_update [OF assms(1,2), of "g (cc_heap c ! r)" X] assms
    pend_inv_request [OF assms(1,2)]
  by (simp add: heap_update_pending)

lemma close_channel_inv:
  "client_pend_inv X c \<Longrightarrow> r < length (cc_heap c) \<Longrightarrow> client_pend_inv X (close_channel E c r)"
  unfolding close_channel_def by (rule update_pending_inv) simp_all

lemma call_operation_inv:
  assumes inv: "client_pend_inv X c" and r: "r < length (cc_heap c)"
  shows "client_pend_inv (insert r X) (fst (call_operation c r m))"
    and "op_is_terminal (pr_operation (cc_heap c ! r)) \<or> \<not> settling m \<and> m \<noteq> Call_activate \<Longrightarrow>
           client_pend_inv X (fst (call_operation c r m))"
proof -
  let ?o = "pr_operation (cc_heap c ! r)" and ?o' = "fst (op_call m (pr_operation (cc_heap c ! r)))"
  let ?p = "(cc_heap c ! r)\<lparr>pr_operation := ?o'\<rparr>"
  note req = pend_inv_request [OF inv r]
  have keep: "client_pend_inv Y (fst (call_operation c r m))"
    if "X \<subseteq> Y" "op_is_terminal ?o' \<Longrightarrow> r \<in> Y \<or> op_is_terminal ?o" for Y
    using pend_inv_update [OF inv r, of ?p Y] that req op_call_terminal [of ?o m]
    by (simp add: heap_call_operation op_call_inv op_call_not_created)
  show "client_pend_inv (insert r X) (fst (call_operation c r m))"
    by (rule keep) auto
  have "op_is_terminal ?o' \<Longrightarrow> op_is_terminal ?o" if "\<not> settling m" "m \<noteq> Call_activate"
    using that
    by (cases m) (auto simp: op_call.simps settling_def op_method_defs op_is_terminal_def split: if_splits)
  then show "client_pend_inv X (fst (call_operation c r m))"
    if "op_is_terminal ?o \<or> \<not> settling m \<and> m \<noteq> Call_activate"
    using that by (intro keep) auto
qed

lemma call_operation_settles:
  assumes "client_pend_inv X c" and "r < length (cc_heap c)" and "settling m"
  shows "op_is_terminal (pr_operation (cc_heap (fst (call_operation c r m)) ! r))"
    and "snd (call_operation c r m) \<longleftrightarrow> \<not> op_is_terminal (pr_operation (cc_heap c ! r))"
  using op_call_settling [OF assms(3) pend_inv_request(2) [OF assms(1,2)]] assms(2)
  by (simp_all add: heap_call_operation snd_call_operation)

text \<open>
  A request is settled by a method of its operation and then cleaned up, whatever is done to
  its channel and timer in between.
\<close>

lemma settle_inv:
  assumes inv: "client_pend_inv {} c" and r: "r < length (cc_heap c)" and m: "settling m"
    and ids: "cc_stream_ids c' = cc_stream_ids c" and pend: "cc_pending c' = cc_pending c"
    and heap: "cc_heap c' = cc_heap (update_pending (fst (call_operation c r m)) r g)"
    and g: "\<And>p. pr_operation (g p) = pr_operation p" "\<And>p. pr_removed (g p) = pr_removed p"
      "\<And>p. pr_stream_released (g p) = pr_stream_released p"
  shows "client_pend_inv {} (cleanup_pending c' r b)"
    and "operations (cleanup_pending c' r b) =
           (operations c)[r := fst (op_call m (pr_operation (cc_heap c ! r)))]"
proof -
  let ?c1 = "fst (call_operation c r m)"
  have c1: "client_pend_inv {r} ?c1" using call_operation_inv(1) [OF inv r] by simp
  have r1: "r < length (cc_heap ?c1)" using r by simp
  have "client_pend_inv {r} (update_pending ?c1 r g)"
    using c1 r1 g by (rule update_pending_inv)
  then have "client_pend_inv {r} c'" by (simp add: ids pend heap)
  moreover have "op_is_terminal (pr_operation (cc_heap c' ! r))"
    using call_operation_settles(1) [OF inv r m] r by (simp add: heap heap_update_pending g)
  moreover have "r < length (cc_heap c')" using r by (simp add: heap)
  ultimately show "client_pend_inv {} (cleanup_pending c' r b)"
    using cleanup_pending_inv [of "{r}" c' r b] by simp
  have "operations c' = operations (update_pending ?c1 r g)" by (rule operations_heap) (rule heap)
  then show "operations (cleanup_pending c' r b) =
    (operations c)[r := fst (op_call m (pr_operation (cc_heap c ! r)))]"
    by (simp add: operations_update_pending g operations_call)
qed

lemma pending_cleanup:
  "r < length (cc_heap c) \<Longrightarrow>
     cc_pending (cleanup_pending c r b) =
       (if \<not> pr_removed (cc_heap c ! r) \<and> map_of (cc_pending c) (pending_stream c r) = Some r
        then AList.delete (pending_stream c r) (cc_pending c) else cc_pending c)"
  by (simp add: cleanup_pending_def update_pending_def Let_def)

lemma stream_ids_cleanup_False [simp]:
  "cc_stream_ids (cleanup_pending c r False) = cc_stream_ids c"
  by (simp add: cleanup_pending_def Let_def)

text \<open>The parts of a connection that \<open>fail_pending\<close> does not touch.\<close>

definition same_wiring :: "('ch, 'sp) ClientConnection \<Rightarrow> ('ch, 'sp) ClientConnection \<Rightarrow> bool" where
  "same_wiring c c' \<longleftrightarrow>
     cc_transport_open c' = cc_transport_open c \<and> cc_write_queue c' = cc_write_queue c \<and>
     cc_stream_ids c' = cc_stream_ids c \<and> cc_decoder c' = cc_decoder c \<and>
     cc_terminal_streams c' = cc_terminal_streams c \<and> cc_lifecycle c' = cc_lifecycle c \<and>
     cc_closed_notified c' = cc_closed_notified c \<and> cc_reading c' = cc_reading c"

definition fail_head ::
  "('ch, 'sp, 't, 'v) Env \<Rightarrow> StatusCode \<Rightarrow> string \<Rightarrow> ('ch, 'sp) ClientConnection \<Rightarrow> nat \<Rightarrow>
     ('ch, 'sp) ClientConnection" where
  "fail_head E st msg c r =
     cleanup_pending (close_channel E (fst (call_operation c r (Call_fail st msg))) r) r False"

lemma fail_pending_unfold:
  "fail_pending E st msg c =
     (case cc_pending c of [] \<Rightarrow> Some c
      | (_, r) # _ \<Rightarrow> fail_pending E st msg (fail_head E st msg c r))"
  by (subst fail_pending.simps) (simp add: fail_head_def Let_def split: list.split)

text \<open>One iteration: the request at the head is failed and leaves the table.\<close>

lemma fail_head:
  assumes inv: "client_pend_inv {} c" and pend: "cc_pending c = (sid, r) # rest"
    and st: "st \<noteq> Status_ok"
  shows "client_pend_inv {} (fail_head E st msg c r)"
    and "length (cc_pending (fail_head E st msg c r)) < length (cc_pending c)"
    and "operations (fail_head E st msg c r) =
           (operations c)[r := fst (op_call (Call_fail st msg) (operations c ! r))]"
    and "same_wiring c (fail_head E st msg c r)"
    and "r < length (cc_heap c)" and "op_state (operations c ! r) = Operation_active"
proof -
  have here: "map_of (cc_pending c) sid = Some r" using pend by simp
  note entry = pend_inv_entry [OF inv here]
  let ?c' = "close_channel E (fst (call_operation c r (Call_fail st msg))) r"
  note settled = settle_inv [OF inv entry(1), of "Call_fail st msg" ?c'
      "\<lambda>p. p\<lparr>pr_channel := chan_close (frame_channel (env_queue E)) (pr_channel p)\<rparr>" False]
  show "client_pend_inv {} (fail_head E st msg c r)"
    unfolding fail_head_def by (rule settled(1)) (simp_all add: st close_channel_def)
  have "operations (cleanup_pending ?c' r False) =
    (operations c)[r := fst (op_call (Call_fail st msg) (pr_operation (cc_heap c ! r)))]"
    by (rule settled(2)) (simp_all add: st close_channel_def)
  then show "operations (fail_head E st msg c r) =
    (operations c)[r := fst (op_call (Call_fail st msg) (operations c ! r))]"
    using entry(1) by (simp add: fail_head_def)
  have "cc_pending (fail_head E st msg c r) = AList.delete sid (cc_pending c)"
    using entry here
    by (simp add: fail_head_def pending_cleanup heap_close_channel heap_call_operation)
  then show "length (cc_pending (fail_head E st msg c r)) < length (cc_pending c)"
    using length_delete_present [of sid "cc_pending c"] pend by simp
  show "same_wiring c (fail_head E st msg c r)"
    by (simp add: same_wiring_def fail_head_def)
  show "r < length (cc_heap c)" by (rule entry(1))
  show "op_state (operations c ! r) = Operation_active"
    using pend_inv_entry_active [OF inv here] entry(1) by simp
qed

lemma same_wiring_trans: "same_wiring a b \<Longrightarrow> same_wiring b d \<Longrightarrow> same_wiring a d"
  by (simp add: same_wiring_def)

text \<open>
  The whole loop: it ends, the table is empty afterwards, every unsettled request has failed
  with the given status, and the settled ones are as they were.
\<close>

lemma fail_pending_total:
  assumes "client_pend_inv {} c" and st: "st \<noteq> Status_ok"
  obtains c' where "fail_pending E st msg c = Some c'" "client_pend_inv {} c'"
    "cc_pending c' = []" "same_wiring c c'"
    "operations c' = map (fail_unsettled st msg) (operations c)"
  using assms(1)
proof (induction "length (cc_pending c)" arbitrary: c thesis rule: less_induct)
  case less
  show ?case
  proof (cases "cc_pending c")
    case Nil
    have "op_is_terminal (operations c ! r)" if "r < length (cc_heap c)" for r
      using pend_inv_unsettled [OF less.prems(2) that] Nil that by simp
    then have "operations c = map (fail_unsettled st msg) (operations c)"
      by (intro nth_equalityI) (simp_all add: fail_unsettled_def)
    with less.prems Nil show ?thesis
      by (simp add: fail_pending_unfold same_wiring_def)
  next
    case (Cons e rest)
    obtain sid r where "e = (sid, r)" by fastforce
    with Cons have pend: "cc_pending c = (sid, r) # rest" by simp
    let ?c1 = "fail_head E st msg c r"
    note head = fail_head(1-4) [OF less.prems(2) pend st, of E msg]
      fail_head(5,6) [OF less.prems(2) pend st]
    obtain c' where c': "fail_pending E st msg ?c1 = Some c'" "client_pend_inv {} c'"
      "cc_pending c' = []" "same_wiring ?c1 c'"
      "operations c' = map (fail_unsettled st msg) (operations ?c1)"
      using less.hyps [OF head(2) _ head(1)] by blast
    have "map (fail_unsettled st msg) (operations ?c1) = map (fail_unsettled st msg) (operations c)"
      using head(5,6) op_call_settling(1) [of "Call_fail st msg" "operations c ! r"] st
      by (simp add: head(3) map_update fail_unsettled_def list_update_same_conv)
    with c' pend same_wiring_trans [OF head(4)] less.prems(1) show ?thesis
      by (simp add: fail_pending_unfold [of E st msg c])
  qed
qed

end
