(* ===== verification/Client_Behaviour.thy ===== *)
theory Client_Behaviour
  imports Client_Invariant
begin

text \<open>
  Every stretch of execution of a client connection returns, keeps the connection's invariant
  and never changes the result of a settled request; runs of such stretches in any order; and
  what the individual operations do to the requests concerned.
\<close>

section \<open>The invariant of a connection\<close>

text \<open>The response channel of an unsettled request is open and empty, so it will take a response.\<close>

definition channel_fresh :: "Frame ChannelView \<Rightarrow> bool" where
  "channel_fresh s \<longleftrightarrow> view_open s \<and> view_buffer s = [] \<and> view_capacity s = 1"

definition chan_inv :: "('ch \<Rightarrow> Frame ChannelView) \<Rightarrow> 'ch PendingRequest list \<Rightarrow> bool" where
  "chan_inv vf heap \<longleftrightarrow>
     (\<forall>p \<in> set heap. \<not> op_is_terminal (pr_operation p) \<longrightarrow> channel_fresh (vf (pr_channel p)))"

lemma chan_inv_nth:
  "chan_inv vf heap \<Longrightarrow> r < length heap \<Longrightarrow>
     op_is_terminal (pr_operation (heap ! r)) \<or> channel_fresh (vf (pr_channel (heap ! r)))"
  by (auto simp: chan_inv_def)

lemma chan_inv_update:
  "chan_inv vf heap \<Longrightarrow>
     op_is_terminal (pr_operation p) \<or> channel_fresh (vf (pr_channel p)) \<Longrightarrow>
     chan_inv vf (heap[r := p])"
  using set_update_subset_insert [of heap r p] by (auto simp: chan_inv_def)

definition client_inv :: "('ch \<Rightarrow> Frame ChannelView) \<Rightarrow> ('ch, 'sp) ClientConnection \<Rightarrow> bool" where
  "client_inv vf c \<longleftrightarrow>
     client_pend_inv {} c \<and> wq_inv vf (cc_write_queue c) \<and> dec_inv (cc_decoder c) \<and>
     chan_inv vf (cc_heap c) \<and> resting (cc_lifecycle c) \<and>
     (cc_lifecycle c = Connection_closed \<longrightarrow> cc_pending c = [])"

definition client_advances ::
  "('ch \<Rightarrow> Frame ChannelView) \<Rightarrow> ('ch, 'sp) ClientConnection \<Rightarrow> ('ch, 'sp) ClientConnection \<Rightarrow> bool" where
  "client_advances vf c c' \<longleftrightarrow>
     client_inv vf c' \<and> ops_le (operations c) (operations c') \<and>
     (cc_lifecycle c = Connection_closed \<longrightarrow> cc_lifecycle c' = Connection_closed)"

lemma client_advances_refl: "client_inv vf c \<Longrightarrow> client_advances vf c c"
  by (simp add: client_advances_def)

lemma client_advances_trans:
  "client_advances vf a b \<Longrightarrow> client_advances vf b d \<Longrightarrow> client_advances vf a d"
  unfolding client_advances_def using ops_le_trans by blast

lemma client_advancesD: "client_advances vf c c' \<Longrightarrow> client_inv vf c'"
  by (simp add: client_advances_def)

lemma client_advances_length:
  "client_advances vf c c' \<Longrightarrow> length (cc_heap c) \<le> length (cc_heap c')"
  by (simp add: client_advances_def ops_le_def)

lemma new_client_inv:
  assumes "queue_env (env_queue E) vf vs"
  shows "client_inv vf (new_client E lim mx hook)"
  using assms implements_channelD(1) [of "frame_channel (env_queue E)" vf]
  by (simp add: client_inv_def new_client_def pend_inv_def new_allocator_inv new_write_queue_inv
      new_decoder_inv chan_inv_def resting_def) (simp add: new_allocator_def)

text \<open>Changes to components the invariant does not mention.\<close>

lemma client_inv_frame:
  assumes "client_inv vf c" and "cc_stream_ids c' = cc_stream_ids c"
    and "cc_pending c' = cc_pending c" and "cc_heap c' = cc_heap c"
    and "wq_inv vf (cc_write_queue c')" and "dec_inv (cc_decoder c')"
    and "cc_lifecycle c' = cc_lifecycle c"
  shows "client_advances vf c c'"
  using assms operations_heap [of c' c] by (simp add: client_advances_def client_inv_def)

lemma client_inv_parts:
  assumes "client_inv vf c"
  shows "client_pend_inv {} c" and "wq_inv vf (cc_write_queue c)" and "dec_inv (cc_decoder c)"
    and "chan_inv vf (cc_heap c)" and "cc_lifecycle c = Connection_closed \<Longrightarrow> cc_pending c = []"
    and "resting (cc_lifecycle c)"
  using assms by (simp_all add: client_inv_def)

lemma notify_advances: "client_inv vf c \<Longrightarrow> client_advances vf c (notify c ev)"
  by (rule client_inv_frame) (simp_all add: client_inv_parts)

lemma mark_terminal_advances: "client_inv vf c \<Longrightarrow> client_advances vf c (mark_terminal c f)"
  by (rule client_inv_frame) (simp_all add: client_inv_parts)

lemma notify_closed_advances: "client_inv vf c \<Longrightarrow> client_advances vf c (notify_closed c)"
  by (rule client_inv_frame) (simp_all add: client_inv_parts)

lemma send_cancellation_inv:
  assumes "queue_env (env_queue E) vf vs" and "wq_inv vf (cc_write_queue c)"
  shows "wq_inv vf (cc_write_queue (send_cancellation E c sid))"
proof -
  have "representable (cancellation_frame sid)"
    by (simp add: representable_def frame_bytes_def cancellation_frame_def frame_header_size_def)
  then show ?thesis
    using try_enqueue_step [OF assms]
    by (cases "try_enqueue (env_queue E) (cc_write_queue c) (cancellation_frame sid)")
      (simp add: send_cancellation_def)
qed

section \<open>Settling requests\<close>

lemma chan_inv_cleanup:
  assumes "chan_inv vf (cc_heap c)"
  shows "chan_inv vf (cc_heap (cleanup_pending c r b))"
proof (cases "r < length (cc_heap c)")
  case True
  note fresh = chan_inv_nth [OF assms True]
  show ?thesis
    using assms fresh True
    by (auto simp: cleanup_pending_def update_pending_def Let_def intro!: chan_inv_update)
next
  case False
  then show ?thesis
    using assms by (simp add: cleanup_pending_def update_pending_def Let_def list_update_beyond)
qed

lemma settle_advances:
  assumes inv: "client_inv vf c" and r: "r < length (cc_heap c)" and m: "settling m"
    and same: "cc_stream_ids c' = cc_stream_ids c" "cc_pending c' = cc_pending c"
      "cc_heap c' = cc_heap (update_pending (fst (call_operation c r m)) r g)"
    and g: "\<And>p. pr_operation (g p) = pr_operation p" "\<And>p. pr_removed (g p) = pr_removed p"
      "\<And>p. pr_stream_released (g p) = pr_stream_released p"
    and "wq_inv vf (cc_write_queue c')" and "dec_inv (cc_decoder c')"
    and "cc_lifecycle c' = cc_lifecycle c"
  shows "client_advances vf c (cleanup_pending c' r b)"
    and "operations (cleanup_pending c' r b) =
           (operations c)[r := fst (op_call m (operations c ! r))]"
proof -
  note settled = settle_inv [OF client_inv_parts(1) [OF inv] r m same g, of b]
  let ?p = "(cc_heap c ! r)\<lparr>pr_operation := fst (op_call m (pr_operation (cc_heap c ! r)))\<rparr>"
  have "op_is_terminal (pr_operation ?p)"
    using op_call_settling(1) [OF m pend_inv_request(2) [OF client_inv_parts(1) [OF inv] r]] by simp
  then have "chan_inv vf (cc_heap c')"
    unfolding same(3) using client_inv_parts(4) [OF inv] r g(1)
    by (simp add: heap_update_pending heap_call_operation chan_inv_update)
  then have chan: "chan_inv vf (cc_heap (cleanup_pending c' r b))" by (rule chan_inv_cleanup)
  have "r < length (cc_heap c')" using r same(3) by simp
  then have "cc_pending (cleanup_pending c' r b) = []" if "cc_pending c' = []"
    using that by (simp add: pending_cleanup)
  moreover have "ops_le (operations c) (operations (cleanup_pending c' r b))"
    unfolding settled(2) using r by (intro ops_le_update) simp
  ultimately show "client_advances vf c (cleanup_pending c' r b)"
    using settled(1) inv assms(10-12) same(2) chan
    by (simp add: client_advances_def client_inv_def)
  show "operations (cleanup_pending c' r b) =
    (operations c)[r := fst (op_call m (operations c ! r))]"
    using settled(2) r by simp
qed

text \<open>A method call that changes nothing the tables depend on.\<close>

lemma call_advances:
  assumes inv: "client_inv vf c" and r: "r < length (cc_heap c)"
    and "op_is_terminal (pr_operation (cc_heap c ! r)) \<or> \<not> settling m \<and> m \<noteq> Call_activate"
  shows "client_advances vf c (fst (call_operation c r m))"
proof -
  have "ops_le (operations c) (operations (fst (call_operation c r m)))"
    unfolding operations_call using r by (intro ops_le_update) simp
  then show ?thesis
    using call_operation_inv(2) [OF client_inv_parts(1) [OF inv] r assms(3)] inv
      chan_inv_update [OF client_inv_parts(4) [OF inv]] chan_inv_nth [OF client_inv_parts(4) [OF inv] r]
      op_call_terminal [of "pr_operation (cc_heap c ! r)" m]
    by (auto simp: client_advances_def client_inv_def heap_call_operation)
qed

lemma update_pending_advances:
  assumes inv: "client_inv vf c" and r: "r < length (cc_heap c)"
    and g: "\<And>p. pr_operation (g p) = pr_operation p" "\<And>p. pr_removed (g p) = pr_removed p"
      "\<And>p. pr_stream_released (g p) = pr_stream_released p"
      "\<And>p. channel_fresh (vf (pr_channel p)) \<Longrightarrow> channel_fresh (vf (pr_channel (g p)))"
  shows "client_advances vf c (update_pending c r g)"
proof -
  have "chan_inv vf (cc_heap (update_pending c r g))"
    using chan_inv_nth [OF client_inv_parts(4) [OF inv] r] client_inv_parts(4) [OF inv] r g
    by (auto simp: heap_update_pending intro!: chan_inv_update)
  then show ?thesis
    using update_pending_inv [OF client_inv_parts(1) [OF inv] r g(1-3)] inv
    by (simp add: client_advances_def client_inv_def operations_update_pending g)
qed

lemma cleanup_advances:
  assumes inv: "client_inv vf c" and r: "r < length (cc_heap c)"
    and "op_is_terminal (pr_operation (cc_heap c ! r))"
  shows "client_advances vf c (cleanup_pending c r b)"
  using cleanup_pending_inv [OF client_inv_parts(1) [OF inv] r assms(3), of b] inv r
  by (simp add: client_advances_def client_inv_def pending_cleanup chan_inv_cleanup)

text \<open>The two ways a request is settled without a response: telling the peer, or not.\<close>

lemma settle_closing:
  assumes inv: "client_inv vf c" and r: "r < length (cc_heap c)" and m: "settling m"
  shows "client_advances vf c
           (cleanup_pending (close_channel E (fst (call_operation c r m)) r) r b)"
    and "operations (cleanup_pending (close_channel E (fst (call_operation c r m)) r) r b) =
           (operations c)[r := fst (op_call m (operations c ! r))]"
proof -
  let ?c' = "close_channel E (fst (call_operation c r m)) r"
  let ?g = "\<lambda>p. p\<lparr>pr_channel := chan_close (frame_channel (env_queue E)) (pr_channel p)\<rparr>"
  have heap: "cc_heap ?c' = cc_heap (update_pending (fst (call_operation c r m)) r ?g)"
    by (simp add: close_channel_def)
  show "client_advances vf c (cleanup_pending ?c' r b)"
    and "operations (cleanup_pending ?c' r b) =
           (operations c)[r := fst (op_call m (operations c ! r))]"
    using inv by (intro settle_advances [OF inv r m _ _ heap]; simp add: client_inv_parts)+
qed

lemma settle_cancelling:
  assumes env: "queue_env (env_queue E) vf vs" and inv: "client_inv vf c"
    and r: "r < length (cc_heap c)" and m: "settling m"
  fixes sid
  defines "c' \<equiv> close_channel E (send_cancellation E (fst (call_operation c r m)) sid) r"
  shows "client_advances vf c (cleanup_pending c' r b)"
    and "operations (cleanup_pending c' r b) =
           (operations c)[r := fst (op_call m (operations c ! r))]"
proof -
  let ?g = "\<lambda>p. p\<lparr>pr_channel := chan_close (frame_channel (env_queue E)) (pr_channel p)\<rparr>"
  have heap: "cc_heap c' = cc_heap (update_pending (fst (call_operation c r m)) r ?g)"
    by (simp add: c'_def close_channel_def update_pending_def)
  have wq: "wq_inv vf (cc_write_queue c')"
    using env inv by (simp add: c'_def client_inv_parts send_cancellation_inv)
  show "client_advances vf c (cleanup_pending c' r b)"
    and "operations (cleanup_pending c' r b) =
           (operations c)[r := fst (op_call m (operations c ! r))]"
    using inv by (intro settle_advances [OF inv r m _ _ heap _ _ _ wq];
        simp add: c'_def client_inv_parts)+
qed

lemma call_returns:
  assumes "client_inv vf c" and "r < length (cc_heap c)" and "settling m"
  shows "snd (call_operation c r m) \<longleftrightarrow> \<not> op_is_terminal (operations c ! r)"
  using call_operation_settles(2) [OF client_inv_parts(1) [OF assms(1)] assms(2,3)] assms(2)
  by simp

lemma cancel_pending_eq:
  assumes "client_inv vf c" and "r < length (cc_heap c)"
  shows "cancel_pending E c r msg =
     (let c1 = fst (call_operation c r (Call_cancel msg)) in
      if op_is_terminal (operations c ! r) then (c1, False)
      else (cleanup_pending (close_channel E (send_cancellation E c1 (pending_stream c1 r)) r) r
              False, True))"
  using call_returns [OF assms, of "Call_cancel msg"]
  by (simp add: cancel_pending_def case_prod_beta Let_def)

lemma timeout_pending_eq:
  assumes "client_inv vf c" and "r < length (cc_heap c)"
  shows "timeout_pending E c r =
     (let c1 = fst (call_operation c r (Call_timeout ''operation deadline exceeded'')) in
      if op_is_terminal (operations c ! r) then c1
      else cleanup_pending (close_channel E (send_cancellation E c1 (pending_stream c1 r)) r) r
             False)"
  using call_returns [OF assms, of "Call_timeout ''operation deadline exceeded''"]
  by (simp add: timeout_pending_def case_prod_beta Let_def)

lemma cancel_pending_advances:
  assumes env: "queue_env (env_queue E) vf vs" and inv: "client_inv vf c"
    and r: "r < length (cc_heap c)"
  shows "client_advances vf c (fst (cancel_pending E c r msg))"
    and "snd (cancel_pending E c r msg) \<longleftrightarrow> \<not> op_is_terminal (operations c ! r)"
    and "operations (fst (cancel_pending E c r msg)) =
           (operations c)[r := fst (op_call (Call_cancel msg) (operations c ! r))]"
  using settle_cancelling [OF env inv r, of "Call_cancel msg"] call_advances [OF inv r] r
  by (simp_all add: cancel_pending_eq [OF inv r] Let_def operations_call)

lemma timeout_pending_advances:
  assumes env: "queue_env (env_queue E) vf vs" and inv: "client_inv vf c"
    and r: "r < length (cc_heap c)"
  shows "client_advances vf c (timeout_pending E c r)"
    and "operations (timeout_pending E c r) =
           (operations c)[r := fst (op_call (Call_timeout ''operation deadline exceeded'')
              (operations c ! r))]"
  using settle_cancelling [OF env inv r, of "Call_timeout ''operation deadline exceeded''"]
    call_advances [OF inv r] r
  by (simp_all add: timeout_pending_eq [OF inv r] Let_def operations_call)

lemma discard_pending_advances:
  assumes env: "queue_env (env_queue E) vf vs" and inv: "client_inv vf c"
    and r: "r < length (cc_heap c)"
  shows "client_advances vf c (discard_pending E c r)"
    and "operations (discard_pending E c r) =
           (operations c)[r := (if op_is_terminal (operations c ! r) then operations c ! r
              else fst (op_call (Call_cancel ''operation handle released'') (operations c ! r)))]"
  using settle_cancelling [OF env inv r, of "Call_cancel ''operation handle released''"]
    cleanup_advances [OF inv r] r
    list_update_id [of "operations c" r]
  by (simp_all add: discard_pending_def Let_def)

section \<open>Losing the connection\<close>

lemma no_pending_settled:
  assumes inv: "client_pend_inv {} c" and "cc_pending c = []"
  shows "p \<in> set (cc_heap c) \<Longrightarrow> op_is_terminal (pr_operation p)"
  using pend_inv_unsettled [OF inv] assms(2) by (auto simp: in_set_conv_nth)

lemma fail_pending_advances:
  assumes inv: "client_inv vf c" and "st \<noteq> Status_ok"
  obtains c' where "fail_pending E st msg c = Some c'" "client_advances vf c c'"
    "cc_pending c' = []" "same_wiring c c'"
    "operations c' = map (fail_unsettled st msg) (operations c)"
proof -
  obtain c' where c': "fail_pending E st msg c = Some c'" "client_pend_inv {} c'"
    "cc_pending c' = []" "same_wiring c c'"
    "operations c' = map (fail_unsettled st msg) (operations c)"
    using fail_pending_total [OF client_inv_parts(1) [OF inv] assms(2)] by blast
  moreover have "chan_inv vf (cc_heap c')"
    using no_pending_settled [OF c'(2,3)] by (simp add: chan_inv_def)
  then have "client_advances vf c c'"
    using c' inv
    by (simp add: client_advances_def client_inv_def same_wiring_def ops_le_map)
  ultimately show ?thesis by (intro that)
qed

lemma fail_connection_total:
  assumes inv: "client_inv vf c" and st: "st \<noteq> Status_ok"
  obtains c' where "fail_connection E c st msg = Some c'" "client_advances vf c c'"
    "cc_pending c' = []" "\<not> cc_transport_open c'" "cc_lifecycle c' = cc_lifecycle c"
    "operations c' = map (fail_unsettled st msg) (operations c)"
proof -
  define c0 where "c0 = (if status_category st = Category_protocol
    then notify c (diagnostics_event Event_protocol_error StreamId_default st 0 True msg) else c)"
  have c0: "client_advances vf c c0" "operations c0 = operations c" "cc_lifecycle c0 = cc_lifecycle c"
    using inv by (simp_all add: c0_def notify_advances client_advances_refl)
  obtain c1 where c1: "fail_pending E st msg c0 = Some c1" "client_advances vf c0 c1"
    "cc_pending c1 = []" "same_wiring c0 c1"
    "operations c1 = map (fail_unsettled st msg) (operations c0)"
    using fail_pending_advances [OF client_advancesD [OF c0(1)] st] by blast
  let ?c' = "c1\<lparr>cc_transport_open := False\<rparr>"
  have "client_advances vf c1 ?c'"
    using client_advancesD [OF c1(2)] by (intro client_inv_frame) (simp_all add: client_inv_parts)
  then have adv: "client_advances vf c ?c'"
    using client_advances_trans c0(1) c1(2) by blast
  have "fail_connection E c st msg = Some ?c'"
    using c1(1) by (simp add: fail_connection_def c0_def Let_def)
  then show ?thesis
    using c1 c0 operations_heap [of ?c' c1] by (intro that [OF _ adv]) (simp_all add: same_wiring_def)
qed

lemma fail_connection_returns:
  "client_inv vf c \<Longrightarrow> st \<noteq> Status_ok \<Longrightarrow>
     \<exists>c'. fail_connection E c st msg = Some c' \<and> client_advances vf c c'"
  by (erule (1) fail_connection_total) blast

lemma decode_error_status_error:
  "decode_error_status f = Some st \<Longrightarrow> st \<noteq> Status_ok"
  by (auto simp: decode_error_status_def wire_status_values_def Let_def split: if_splits)

section \<open>Incoming frames\<close>

text \<open>The response a request waits for.\<close>

definition is_response_to ::
  "('ch, 'sp) ClientConnection \<Rightarrow> Frame \<Rightarrow> nat \<Rightarrow> bool" where
  "is_response_to c f r \<longleftrightarrow>
     header_type (frame_header f) = FrameType_response \<and>
     map_of (cc_pending c) (header_stream (frame_header f)) = Some r \<and>
     header_stream (frame_header f) \<notin> cc_terminal_streams c"

definition completed_by ::
  "('ch, 'sp, 't, 'v) Env \<Rightarrow> ('ch, 'sp) ClientConnection \<Rightarrow> Frame \<Rightarrow> nat \<Rightarrow> ('ch, 'sp) ClientConnection" where
  "completed_by E c f r =
     (let c1 = fst (call_operation c r (Call_complete ''response received''));
          c2 = update_pending c1 r (\<lambda>p. p\<lparr>pr_timer := None,
                 pr_channel := fst (chan_try_send (frame_channel (env_queue E)) (pr_channel p) f)\<rparr>) in
      mark_terminal (cleanup_pending c2 r True) f)"

lemma update_pending_twice:
  "update_pending (update_pending c r g) r h = update_pending c r (h \<circ> g)"
  by (cases "r < length (cc_heap c)") (simp_all add: update_pending_def list_update_beyond)

lemma dispatch_response:
  assumes inv: "client_inv vf c" and resp: "is_response_to c f r"
    and "\<not> has_flag (header_flags (frame_header f)) Flags_cancel"
    and "\<not> has_flag (header_flags (frame_header f)) Flags_error"
  shows "dispatch E c f = Some (completed_by E c f r)"
proof -
  have "op_state (pr_operation (cc_heap c ! r)) = Operation_active" and "r < length (cc_heap c)"
    using resp pend_inv_entry_active [OF client_inv_parts(1) [OF inv]]
      pend_inv_entry(1) [OF client_inv_parts(1) [OF inv]] by (auto simp: is_response_to_def)
  then have "snd (call_operation c r (Call_complete ''response received''))"
    using call_returns [OF inv, of r "Call_complete ''response received''"] by simp
  then show ?thesis
    using assms(2-)
    by (simp add: dispatch_def is_response_to_def completed_by_def case_prod_beta Let_def
        update_pending_twice comp_def)
qed

lemma completed_by_advances:
  assumes inv: "client_inv vf c" and r: "r < length (cc_heap c)"
  shows "client_advances vf c (completed_by E c f r)"
    and "operations (completed_by E c f r) =
           (operations c)[r := fst (op_call (Call_complete ''response received'')
              (operations c ! r))]"
proof -
  let ?m = "Call_complete ''response received'' :: DiagnosticsEvent OpCall"
  let ?g = "\<lambda>p. p\<lparr>pr_timer := None,
    pr_channel := fst (chan_try_send (frame_channel (env_queue E)) (pr_channel p) f)\<rparr>"
  let ?c2 = "update_pending (fst (call_operation c r ?m)) r ?g"
  have eq: "completed_by E c f r = mark_terminal (cleanup_pending ?c2 r True) f"
    by (simp add: completed_by_def Let_def)
  have adv: "client_advances vf c (cleanup_pending ?c2 r True)"
    using inv by (intro settle_advances(1) [OF inv r _ _ _ refl]) (simp_all add: client_inv_parts)
  then show "client_advances vf c (completed_by E c f r)"
    unfolding eq using client_advances_trans mark_terminal_advances client_advancesD by blast
  have "operations (cleanup_pending ?c2 r True) =
    (operations c)[r := fst (op_call ?m (operations c ! r))]"
    using inv by (intro settle_advances(2) [OF inv r _ _ _ refl]) (simp_all add: client_inv_parts)
  then show "operations (completed_by E c f r) =
    (operations c)[r := fst (op_call ?m (operations c ! r))]"
    by (simp add: eq)
qed

text \<open>An error response with a status the client knows.\<close>

definition rejected_by ::
  "('ch, 'sp, 't, 'v) Env \<Rightarrow> ('ch, 'sp) ClientConnection \<Rightarrow> Frame \<Rightarrow> nat \<Rightarrow> StatusCode \<Rightarrow>
     ('ch, 'sp) ClientConnection" where
  "rejected_by E c f r st =
     mark_terminal (cleanup_pending (close_channel E (fst (call_operation c r
       (Call_fail st ''peer rejected the operation''))) r) r True) f"

lemma dispatch_error:
  assumes "is_response_to c f r"
    and "\<not> has_flag (header_flags (frame_header f)) Flags_cancel"
    and "has_flag (header_flags (frame_header f)) Flags_error"
    and "decode_error_status f = Some st"
  shows "dispatch E c f = Some (rejected_by E c f r st)"
  using assms by (simp add: dispatch_def is_response_to_def rejected_by_def Let_def)

lemma rejected_by_advances:
  assumes inv: "client_inv vf c" and r: "r < length (cc_heap c)" and st: "st \<noteq> Status_ok"
  shows "client_advances vf c (rejected_by E c f r st)"
    and "operations (rejected_by E c f r st) =
           (operations c)[r := fst (op_call (Call_fail st ''peer rejected the operation'')
              (operations c ! r))]"
proof -
  note settled = settle_closing [OF inv r, of "Call_fail st ''peer rejected the operation''" E True]
  show "client_advances vf c (rejected_by E c f r st)"
    unfolding rejected_by_def
    using client_advances_trans [OF settled(1) mark_terminal_advances]
      client_advancesD [OF settled(1)] st by simp
  show "operations (rejected_by E c f r st) =
    (operations c)[r := fst (op_call (Call_fail st ''peer rejected the operation'')
       (operations c ! r))]"
    using settled(2) st by (simp add: rejected_by_def)
qed

text \<open>Whatever arrives, \<open>dispatch\<close> returns and keeps the invariant.\<close>

lemma dispatch_not_response:
  assumes "\<nexists>r. is_response_to c f r"
  obtains st msg where "dispatch E c f = fail_connection E c st msg"
    "status_category st = Category_protocol" "st \<noteq> Status_ok"
  using assms
  by (cases "header_type (frame_header f) = FrameType_response";
      cases "map_of (cc_pending c) (header_stream (frame_header f))")
    (simp_all add: dispatch_def is_response_to_def status_category_def Let_def)

lemma dispatch_total:
  assumes env: "queue_env (env_queue E) vf vs" and inv: "client_inv vf c"
  shows "\<exists>c'. dispatch E c f = Some c' \<and> client_advances vf c c'"
proof (cases "\<exists>r. is_response_to c f r")
  case False
  then obtain st msg where "dispatch E c f = fail_connection E c st msg" "st \<noteq> Status_ok"
    using dispatch_not_response by blast
  then show ?thesis using fail_connection_returns [OF inv] by simp
next
  case True
  let ?fl = "header_flags (frame_header f)"
  from True obtain r where resp: "is_response_to c f r" ..
  then have r: "r < length (cc_heap c)"
    using pend_inv_entry(1) [OF client_inv_parts(1) [OF inv]] by (auto simp: is_response_to_def)
  consider "has_flag ?fl Flags_cancel"
    | st where "\<not> has_flag ?fl Flags_cancel" "has_flag ?fl Flags_error" "decode_error_status f = Some st"
    | "\<not> has_flag ?fl Flags_cancel" "has_flag ?fl Flags_error" "decode_error_status f = None"
    | "\<not> has_flag ?fl Flags_cancel" "\<not> has_flag ?fl Flags_error"
    by fastforce
  then show ?thesis
  proof cases
    case 1
    let ?c1 = "fst (cancel_pending E c r ''operation cancelled by peer'')"
    have "dispatch E c f = Some (mark_terminal ?c1 f)"
      using resp 1 by (simp add: dispatch_def is_response_to_def Let_def)
    moreover have adv: "client_advances vf c ?c1" by (rule cancel_pending_advances [OF env inv r])
    then have "client_advances vf c (mark_terminal ?c1 f)"
      using client_advances_trans mark_terminal_advances client_advancesD by blast
    ultimately show ?thesis by blast
  next
    case 2
    then show ?thesis
      using dispatch_error [OF resp, of st E] rejected_by_advances [OF inv r]
        decode_error_status_error by blast
  next
    case 3
    then have "dispatch E c f =
      fail_connection E c Status_malformed_frame ''malformed protocol error payload''"
      using resp by (simp add: dispatch_def is_response_to_def Let_def)
    then show ?thesis
      using fail_connection_returns [OF inv, of Status_malformed_frame] by simp
  next
    case 4
    then show ?thesis
      using dispatch_response [OF inv resp] completed_by_advances [OF inv r] by blast
  qed
qed

lemma dispatch_all_total:
  assumes env: "queue_env (env_queue E) vf vs" and "client_inv vf c"
  shows "\<exists>c'. dispatch_all E c fs = Some c' \<and> client_advances vf c c'"
  using assms(2)
proof (induction fs arbitrary: c)
  case Nil
  then show ?case by (simp add: client_advances_refl)
next
  case (Cons f fs)
  let ?c0 = "notify c (diagnostics_event Event_message_transferred
    (header_stream (frame_header f)) Status_ok 0 True [])"
  have c0: "client_advances vf c ?c0" by (rule notify_advances [OF Cons.prems])
  obtain c1 where c1: "dispatch E ?c0 f = Some c1" "client_advances vf ?c0 c1"
    using dispatch_total [OF env client_advancesD [OF c0]] by blast
  obtain c2 where "dispatch_all E c1 fs = Some c2" "client_advances vf c1 c2"
    using Cons.IH [OF client_advancesD [OF c1(2)]] by blast
  moreover have "client_advances vf c c1" by (rule client_advances_trans [OF c0 c1(2)])
  ultimately show ?case using c1(1) client_advances_trans by auto
qed

section \<open>The read loop\<close>

text \<open>
  Leaving the read loop: every unsettled request fails with \<open>connection_closed\<close>, and the queue
  is closed.
\<close>

lemma read_loop_exit_total:
  assumes env: "queue_env (env_queue E) vf vs" and inv: "client_inv vf c"
  obtains c' where "read_loop_exit E c = Some c'" "client_advances vf c c'" "cc_pending c' = []"
    "operations c' = map (fail_unsettled Status_connection_closed
       ''connection closed while awaiting a response'') (operations c)"
    "cc_lifecycle c' = fst (connection_transition (cc_lifecycle c) Connection_closed)"
    "wq_closed (cc_write_queue c')" "\<not> cc_reading c'" "cc_closed_notified c'"
proof -
  let ?st = Status_connection_closed and ?msg = "''connection closed while awaiting a response''"
  obtain c1 where c1: "fail_pending E ?st ?msg c = Some c1" "client_advances vf c c1"
    "cc_pending c1 = []" "same_wiring c c1"
    "operations c1 = map (fail_unsettled ?st ?msg) (operations c)"
    using fail_pending_advances [OF inv, of ?st E ?msg] by auto
  let ?c2 = "c1\<lparr>cc_write_queue := close_queue (env_queue E) (cc_write_queue c1),
    cc_lifecycle := fst (connection_transition (cc_lifecycle c1) Connection_closed),
    cc_reading := False\<rparr>"
  have ops: "operations ?c2 = operations c1" by (rule operations_heap) simp
  have inv1: "client_inv vf c1" by (rule client_advancesD [OF c1(2)])
  have "client_advances vf c1 ?c2"
    using inv1 close_queue_inv(1) [OF env client_inv_parts(2) [OF inv1]] c1(3) ops
    by (simp add: client_advances_def client_inv_def transition_closed)
  then have "client_advances vf c (notify_closed ?c2)"
    using client_advances_trans [OF c1(2) client_advances_trans [OF _ notify_closed_advances]]
      client_advancesD by blast
  moreover have "read_loop_exit E c = Some (notify_closed ?c2)"
    using c1(1) by (simp add: read_loop_exit_def)
  moreover have "cc_closed_notified (notify_closed ?c2)" by (simp add: notify_closed_def)
  ultimately show ?thesis
    using that c1 ops by (simp add: same_wiring_def close_queue_def)
qed

lemma read_loop_exit_returns:
  "queue_env (env_queue E) vf vs \<Longrightarrow> client_inv vf c \<Longrightarrow>
     \<exists>c'. read_loop_exit E c = Some c' \<and> client_advances vf c c'"
  by (erule (1) read_loop_exit_total) blast

lemma read_loop_head_total:
  assumes "queue_env (env_queue E) vf vs" and inv: "client_inv vf c"
  shows "\<exists>c'. read_loop_head E c = Some c' \<and> client_advances vf c c'"
proof (cases "cc_transport_open c")
  case True
  have "client_advances vf c (c\<lparr>cc_reading := True\<rparr>)"
    using inv by (intro client_inv_frame) (simp_all add: client_inv_parts)
  then show ?thesis using True by (simp add: read_loop_head_def)
next
  case False
  then show ?thesis
    using read_loop_exit_returns [OF assms] by (simp add: read_loop_head_def)
qed

lemma push_returns:
  assumes "dec_inv d"
  obtains d' fs where "push d bs = Some (d', fs)" "dec_inv d'"
  using decoder_source.feed_total [OF assms, of bs] by blast

lemma status_for_frame_validation_error: "status_for_frame_validation e \<noteq> Status_ok"
  by (simp add: status_for_frame_validation_def)

text \<open>What follows the dispatch of the frames of one read: the loop goes on, or the decoder has failed.\<close>

lemma after_frames_total:
  assumes env: "queue_env (env_queue E) vf vs" and inv: "client_inv vf c"
  shows "\<exists>c'. (case err of None \<Rightarrow> read_loop_head E c
       | Some err \<Rightarrow> do { c \<leftarrow> fail_connection E c (status_for_frame_validation err)
           (frame_validation_message err); read_loop_exit E c }) = Some c' \<and> client_advances vf c c'"
proof (cases err)
  case None
  then show ?thesis using read_loop_head_total [OF env inv] by simp
next
  case (Some err)
  obtain c1 where c1: "fail_connection E c (status_for_frame_validation err)
    (frame_validation_message err) = Some c1" "client_advances vf c c1"
    using fail_connection_returns [OF inv status_for_frame_validation_error] by blast
  obtain c2 where "read_loop_exit E c1 = Some c2" "client_advances vf c1 c2"
    using read_loop_exit_returns [OF env client_advancesD [OF c1(2)]] by blast
  then show ?thesis using Some c1(1) client_advances_trans [OF c1(2)] by simp
qed

lemma read_completed_total:
  assumes env: "queue_env (env_queue E) vf vs" and inv: "client_inv vf c"
  shows "\<exists>c'. read_completed E c still_open result = Some c' \<and> client_advances vf c c'"
proof -
  define c0 where "c0 = c\<lparr>cc_transport_open := cc_transport_open c \<and> still_open\<rparr>"
  have c0: "client_advances vf c c0"
    unfolding c0_def using inv by (intro client_inv_frame) (simp_all add: client_inv_parts)
  have exit: ?thesis if "read_completed E c still_open result = read_loop_exit E c0"
    using that read_loop_exit_returns [OF env client_advancesD [OF c0]] client_advances_trans [OF c0]
    by auto
  show ?thesis
  proof (cases "result = None \<or> result = Some []")
    case True
    then show ?thesis using exit by (auto simp: read_completed_def c0_def)
  next
    case False
    then obtain b bs where res: "result = Some (b # bs)" by (metis list.exhaust option.exhaust)
    define c1 where "c1 = notify c0 (diagnostics_event Event_bytes_transferred StreamId_default
      Status_ok (length (b # bs)) True [])"
    have c1: "client_advances vf c0 c1"
      unfolding c1_def by (rule notify_advances [OF client_advancesD [OF c0]])
    obtain d fs where d: "push (cc_decoder c1) (b # bs) = Some (d, fs)" "dec_inv d"
      using push_returns [OF client_inv_parts(3) [OF client_advancesD [OF c1]]] by blast
    have c2: "client_advances vf c1 (c1\<lparr>cc_decoder := d\<rparr>)"
      using client_advancesD [OF c1] d(2)
      by (intro client_inv_frame) (simp_all add: client_inv_parts)
    obtain c3 where c3: "dispatch_all E (c1\<lparr>cc_decoder := d\<rparr>) fs = Some c3"
      "client_advances vf (c1\<lparr>cc_decoder := d\<rparr>) c3"
      using dispatch_all_total [OF env client_advancesD [OF c2]] by blast
    have adv: "client_advances vf c c3"
      using c0 c1 c2 c3(2) client_advances_trans by blast
    note inv3 = client_advancesD [OF c3(2)]
    have eq: "read_completed E c still_open result =
      (case dec_error d of None \<Rightarrow> read_loop_head E c3
       | Some err \<Rightarrow> do { c \<leftarrow> fail_connection E c3 (status_for_frame_validation err)
           (frame_validation_message err); read_loop_exit E c })"
      using d(1) c3(1) by (simp add: read_completed_def res c0_def c1_def Let_def)
    show ?thesis
      using after_frames_total [OF env inv3, of "dec_error d"] client_advances_trans [OF adv] eq by metis
  qed
qed

section \<open>Starting requests\<close>

text \<open>Allocation alone keeps the invariant, and the identifier it returns is unknown to the table.\<close>

lemma pend_inv_allocate:
  assumes inv: "pend_inv {} ids pend heap"
  shows "pend_inv {} (fst (allocate ids)) pend heap"
proof -
  have "alloc_inv ids" using inv by (simp add: pend_inv_def)
  then have "live_streams ids \<subseteq> live_streams (fst (allocate ids))"
    using sid_alloc.alloc_None [of ids] sid_alloc.alloc_Some [of ids]
    by (cases "allocation_stream (snd (allocate ids))") auto
  moreover have "alloc_inv (fst (allocate ids))" using \<open>alloc_inv ids\<close> by (rule allocate_inv)
  ultimately show ?thesis
    using inv unfolding pend_inv_def request_ok_def allocate_initiator by blast
qed

lemma pend_inv_fresh:
  assumes inv: "pend_inv {} ids pend heap" and "allocation_stream (snd (allocate ids)) = Some sid"
  shows "map_of pend sid = None"
    and "r < length heap \<Longrightarrow> \<not> pr_stream_released (heap ! r) \<Longrightarrow>
           op_stream (pr_operation (heap ! r)) \<noteq> sid"
proof -
  have "alloc_inv ids" using inv by (simp add: pend_inv_def)
  then have fresh: "sid \<notin> live_streams ids" using sid_alloc.alloc_Some assms(2) by blast
  show free: "op_stream (pr_operation (heap ! r)) \<noteq> sid"
    if "r < length heap" "\<not> pr_stream_released (heap ! r)" for r
    using inv that fresh by (auto simp: pend_inv_def request_ok_def)
  show "map_of pend sid = None"
  proof (rule ccontr)
    assume "map_of pend sid \<noteq> None"
    then obtain r where "map_of pend sid = Some r" by blast
    with inv have r: "r < length heap" "\<not> pr_removed (heap ! r)"
      "op_stream (pr_operation (heap ! r)) = sid" by (simp_all add: pend_inv_def)
    moreover have "request_ok {} ids pend r (heap ! r)" using inv r(1) by (simp add: pend_inv_def)
    then have "\<not> pr_stream_released (heap ! r)" using r(2) by (simp add: request_ok_def)
    ultimately show False using free by blast
  qed
qed

lemma new_pending_operation [simp]:
  "op_state (pr_operation (new_pending E sid)) = Operation_active"
  "op_stream (pr_operation (new_pending E sid)) = sid"
  "op_inv (pr_operation (new_pending E sid))"
  "\<not> pr_removed (new_pending E sid)" "\<not> pr_stream_released (new_pending E sid)"
  by (simp_all add: new_pending_def op_activate_def new_operation_def operation_transition_def
      op_inv_def op_is_terminal_def)

lemma pend_inv_register:
  assumes inv: "pend_inv {} ids pend heap" and alloc: "allocation_stream (snd (allocate ids)) = Some sid"
  shows "pend_inv {} (fst (allocate ids)) ((sid, length heap) # pend) (heap @ [new_pending E sid])"
proof -
  let ?ids = "fst (allocate ids)" and ?pend = "(sid, length heap) # pend"
  let ?heap = "heap @ [new_pending E sid]"
  have inv': "pend_inv {} ?ids pend heap" by (rule pend_inv_allocate [OF inv])
  note fresh = pend_inv_fresh [OF inv alloc]
  have "alloc_inv ids" using inv by (simp add: pend_inv_def)
  then have live: "sid \<in> live_streams ?ids" using sid_alloc.alloc_Some alloc by blast
  have entries: "r < length ?heap \<and> \<not> pr_removed (?heap ! r) \<and>
    op_stream (pr_operation (?heap ! r)) = s" if "map_of ?pend s = Some r" for s r
    using that inv' by (auto simp: pend_inv_def nth_append split: if_splits)
  have ok: "request_ok {} ?ids ?pend r (?heap ! r)" if "r < length ?heap" for r
  proof (cases "r < length heap")
    case True
    have "request_ok {} ?ids pend r (heap ! r)" using inv' True by (simp add: pend_inv_def)
    then show ?thesis using True fresh by (auto simp: request_ok_def nth_append)
  next
    case False
    with that have "r = length heap" by simp
    then show ?thesis using live by (simp add: request_ok_def nth_append)
  qed
  have uniq: "r = r'" if "r < length ?heap" "r' < length ?heap"
    "\<not> pr_stream_released (?heap ! r)" "\<not> pr_stream_released (?heap ! r')"
    "op_stream (pr_operation (?heap ! r)) = op_stream (pr_operation (?heap ! r'))" for r r'
  proof -
    have "r = r'" if "r < length heap" "r' < length heap"
      using that inv' \<open>\<not> pr_stream_released (?heap ! r)\<close> \<open>\<not> pr_stream_released (?heap ! r')\<close>
        \<open>op_stream (pr_operation (?heap ! r)) = op_stream (pr_operation (?heap ! r'))\<close>
      by (auto simp: pend_inv_def nth_append)
    then show ?thesis
      using that fresh(2) [of r] fresh(2) [of r']
      by (cases "r < length heap"; cases "r' < length heap") (auto simp: nth_append)
  qed
  have "distinct_keys ?pend" using inv' fresh(1) by (simp add: pend_inv_def map_of_eq_None_iff)
  moreover have "alloc_inv ?ids" "initiator ?ids = Initiator_client"
    using inv' by (simp_all add: pend_inv_def)
  ultimately show ?thesis
    unfolding pend_inv_def using entries ok uniq by blast
qed

lemma start_request_sent_advances:
  assumes inv: "client_inv vf c" and r: "r < length (cc_heap c)"
  shows "client_advances vf c (fst (start_request_sent E c r sent))"
  using settle_closing(1) [OF inv r, of "Call_fail (write_status sent) (write_message sent)" E True]
    client_advances_refl [OF inv]
  by (simp add: start_request_sent_def Let_def write_ok_def)

text \<open>The encoded request of \<open>start_request\<close>, and the connection once it has been registered.\<close>

definition request_encoding ::
  "('ch, 'sp, 't, 'v) Env \<Rightarrow> 't \<Rightarrow> 'v \<Rightarrow> StreamId \<Rightarrow> FrameEncodeResult" where
  "request_encoding E ty v sid =
     encode_message (env_codec E) (env_registry E) ty v sid FrameType_request Flags_none
       default_max_payload_size current_protocol_version"

definition registered ::
  "('ch, 'sp, 't, 'v) Env \<Rightarrow> ('ch, 'sp) ClientConnection \<Rightarrow> StreamId \<Rightarrow> ('ch, 'sp) ClientConnection" where
  "registered E c sid =
     notify (c\<lparr>cc_stream_ids := fst (allocate (cc_stream_ids c)),
               cc_heap := cc_heap c @ [new_pending E sid],
               cc_pending := (sid, length (cc_heap c)) # cc_pending c\<rparr>)
       (diagnostics_event Event_request_started sid Status_ok 0 False [])"

lemma request_encoding_representable:
  assumes "frame_encode_ok (request_encoding E ty v sid)"
  shows "representable (the (frame_encode_frame (request_encoding E ty v sid)))"
proof -
  obtain p where p: "length p \<le> unat default_max_payload_size"
    "request_encoding E ty v sid = FrameEncodeResult_success
       \<lparr>frame_header = \<lparr>header_version = current_protocol_version, header_type = FrameType_request,
          header_flags = Flags_none, header_stream = sid,
          header_payload_size = word_of_nat (length p)\<rparr>, frame_payload = p\<rparr>"
    using assms encode_message_ok unfolding request_encoding_def by metis
  have "unat default_max_payload_size < 2 ^ 32"
    using unsigned_less [of default_max_payload_size] by simp
  with p show ?thesis
    by (simp add: representable_def frame_bytes_def frame_header_size_def
        FrameEncodeResult_success_def)
qed

lemma start_request_cases:
  assumes inv: "client_inv vf c" and "\<not> rejects_requests (cc_lifecycle c)"
  obtains
    (exhausted) "allocation_stream (snd (allocate (cc_stream_ids c))) = None"
      "start_request E c ty v =
         (c\<lparr>cc_stream_ids := fst (allocate (cc_stream_ids c))\<rparr>,
          Start_failed Status_resource_limit_exceeded ''stream identifiers exhausted'')"
  | (unencodable) sid where "allocation_stream (snd (allocate (cc_stream_ids c))) = Some sid"
      "\<not> frame_encode_ok (request_encoding E ty v sid)"
      "start_request E c ty v =
         (c\<lparr>cc_stream_ids := fst (allocate (cc_stream_ids c))\<rparr>,
          Start_failed (frame_encode_status (request_encoding E ty v sid))
            (frame_encode_message (request_encoding E ty v sid)))"
  | (started) sid f q sent where "allocation_stream (snd (allocate (cc_stream_ids c))) = Some sid"
      "frame_encode_ok (request_encoding E ty v sid)"
      "f = the (frame_encode_frame (request_encoding E ty v sid))" "representable f"
      "enqueue (env_queue E) (cc_write_queue c) f = (q, sent)"
      "start_request E c ty v =
         (let c' = (registered E c sid)\<lparr>cc_write_queue := q\<rparr>; r = length (cc_heap c) in
          case sent of None \<Rightarrow> (c', Start_suspended r f)
          | Some res \<Rightarrow> start_request_sent E c' r res)"
proof (cases "allocation_stream (snd (allocate (cc_stream_ids c)))")
  case None
  moreover have "allocation_status (snd (allocate (cc_stream_ids c))) = Status_resource_limit_exceeded"
    using None allocate_status [of "cc_stream_ids c"] by (simp add: allocation_ok_def)
  ultimately show thesis
    using assms(2) by (intro exhausted) (simp_all add: start_request_def case_prod_beta Let_def)
next
  case (Some sid)
  show thesis
  proof (cases "frame_encode_ok (request_encoding E ty v sid)")
    case False
    then show thesis
      using Some assms(2)
      by (intro unencodable [OF Some])
        (simp_all add: start_request_def request_encoding_def case_prod_beta Let_def)
  next
    case True
    let ?f = "the (frame_encode_frame (request_encoding E ty v sid))"
    obtain q sent where enq: "enqueue (env_queue E) (cc_write_queue c) ?f = (q, sent)" by fastforce
    have "map_of (cc_pending c) sid = None"
      using pend_inv_fresh(1) [OF client_inv_parts(1) [OF inv] Some] .
    then have "start_request E c ty v =
      (let c' = (registered E c sid)\<lparr>cc_write_queue := q\<rparr>; r = length (cc_heap c) in
       case sent of None \<Rightarrow> (c', Start_suspended r ?f)
       | Some res \<Rightarrow> start_request_sent E c' r res)"
      using Some True enq assms(2)
      by (simp add: start_request_def registered_def case_prod_beta Let_def
          flip: request_encoding_def split: option.split)
    then show thesis
      using started [OF Some True refl request_encoding_representable [OF True] enq] by blast
  qed
qed

lemma registered_advances:
  assumes env: "queue_env (env_queue E) vf vs" and inv: "client_inv vf c" and alloc: "allocation_stream (snd (allocate (cc_stream_ids c))) = Some sid"
    and "\<not> rejects_requests (cc_lifecycle c)" and "wq_inv vf q"
  shows "client_advances vf c ((registered E c sid)\<lparr>cc_write_queue := q\<rparr>)"
proof -
  have "client_pend_inv {} (registered E c sid)"
    using pend_inv_register [OF client_inv_parts(1) [OF inv] alloc] by (simp add: registered_def)
  moreover have "operations ((registered E c sid)\<lparr>cc_write_queue := q\<rparr>) =
    operations c @ [pr_operation (new_pending E sid)]"
    by (simp add: operations_def registered_def)
  moreover have "implements_channel (frame_channel (env_queue E)) vf"
    using env by (simp add: queue_env_def)
  then have "channel_fresh (vf (pr_channel (new_pending E sid)))"
    by (simp add: implements_channelD(1) new_pending_def channel_fresh_def view_new_def)
  then have "chan_inv vf (cc_heap (registered E c sid))"
    using client_inv_parts(4) [OF inv] by (simp add: chan_inv_def registered_def)
  ultimately show ?thesis
    using inv assms(4,5)
    by (simp add: client_advances_def client_inv_def rejects_requests_def)
      (simp add: registered_def)
qed

lemma start_request_advances:
  assumes env: "queue_env (env_queue E) vf vs" and inv: "client_inv vf c"
  shows "client_advances vf c (fst (start_request E c ty v))"
proof (cases "rejects_requests (cc_lifecycle c)")
  case True
  then show ?thesis using client_advances_refl [OF inv] by (simp add: start_request_def)
next
  case open_for_requests: False
  have ids: "client_advances vf c (c\<lparr>cc_stream_ids := fst (allocate (cc_stream_ids c))\<rparr>)"
    using pend_inv_allocate [OF client_inv_parts(1) [OF inv]] inv
    by (simp add: client_advances_def client_inv_def operations_def)
  show ?thesis
    using inv open_for_requests
  proof (cases rule: start_request_cases [where E = E and ty = ty and v = v])
    case exhausted
    then show ?thesis using ids by simp
  next
    case (unencodable sid)
    then show ?thesis using ids by simp
  next
    case (started sid f q sent)
    let ?c = "(registered E c sid)\<lparr>cc_write_queue := q\<rparr>"
    have "wq_inv vf q"
      using enqueue_step [OF env client_inv_parts(2) [OF inv] started(4,5)] by blast
    note adv = registered_advances [OF env inv started(1) open_for_requests this]
    have "length (cc_heap c) < length (cc_heap ?c)" by (simp add: registered_def)
    note sent = start_request_sent_advances [OF client_advancesD [OF adv] this, of E]
    show ?thesis
      using adv client_advances_trans [OF adv sent]
      by (simp add: started(6) Let_def split: option.split)
  qed
qed

lemma start_request_resume_advances:
  assumes env: "queue_env (env_queue E) vf vs" and inv: "client_inv vf c"
    and r: "r < length (cc_heap c)" and "representable f"
  shows "client_advances vf c (fst (start_request_resume E closed_message c r f))"
proof -
  obtain q sent where q: "enqueue_resume (env_queue E) closed_message (cc_write_queue c) f = (q, sent)"
    by fastforce
  have "wq_inv vf q"
    using enqueue_resume_step [OF env client_inv_parts(2) [OF inv] assms(4) q] by blast
  then have adv: "client_advances vf c (c\<lparr>cc_write_queue := q\<rparr>)"
    using inv by (intro client_inv_frame) (simp_all add: client_inv_parts)
  then show ?thesis
    using q client_advances_trans [OF adv start_request_sent_advances [OF client_advancesD [OF adv]],
      of r E] r
    by (simp add: start_request_resume_def Let_def split: option.split)
qed

section \<open>Handles, running and shutting down\<close>

lemma start_request_deadline_advances:
  assumes inv: "client_inv vf c" and "\<And>h. started = Start_ok h \<Longrightarrow> the (ro_pending h) < length (cc_heap c)"
  shows "client_advances vf c (fst (start_request_deadline c started deadline))"
proof (cases started)
  case (Start_ok h)
  let ?r = "the (ro_pending h)"
  let ?c1 = "fst (call_operation c ?r (Call_set_deadline deadline))"
  have r: "?r < length (cc_heap c)" using assms(2) Start_ok by blast
  have c1: "client_advances vf c ?c1"
    by (rule call_advances [OF inv r]) (simp add: settling_def)
  have "client_advances vf ?c1 (update_pending ?c1 ?r (\<lambda>p. p\<lparr>pr_timer := Some deadline\<rparr>))"
    using r by (intro update_pending_advances [OF client_advancesD [OF c1]]) simp_all
  with c1 Start_ok show ?thesis
    using client_advances_trans by (simp add: start_request_deadline_def Let_def) blast
qed (simp_all add: start_request_deadline_def client_advances_refl [OF inv])

lemma async_wait_advances:
  assumes env: "queue_env (env_queue E) vf vs" and "client_inv vf c"
    and "\<And>r. ro_pending h = Some r \<Longrightarrow> r < length (cc_heap c)"
  shows "client_advances vf c (fst (async_wait E c h))"
proof -
  have "implements_channel (frame_channel (env_queue E)) vf"
    using env by (simp add: queue_env_def)
  note [simp] = implements_channelD(4) [OF this]
  show ?thesis
    using assms(2,3) client_advances_refl [OF assms(2)]
    by (auto simp: async_wait_def channel_fresh_def view_begin_receive_def
        intro!: update_pending_advances)
qed

text \<open>
  The receive of \<open>async_wait\<close> completes only once the request is settled: the response channel
  of an unsettled request is open and empty.
\<close>

lemma unsettled_receive_pending:
  assumes env: "queue_env (env_queue E) vf vs" and inv: "client_inv vf c"
    and r: "r < length (cc_heap c)"
    and "\<not> op_is_terminal (pr_operation (cc_heap c ! r))"
  shows "snd (chan_end_receive (frame_channel (env_queue E)) (pr_channel (cc_heap c ! r))) =
    Channel_pending"
proof -
  have "implements_channel (frame_channel (env_queue E)) vf"
    using env by (simp add: queue_env_def)
  note [simp] = implements_channelD(6) [OF this]
  show ?thesis
    using chan_inv_nth [OF client_inv_parts(4) [OF inv] r] assms(4)
    by (simp add: channel_fresh_def view_end_receive_def)
qed

lemma async_wait_completed_advances:
  assumes env: "queue_env (env_queue E) vf vs" and inv: "client_inv vf c"
    and r: "ro_pending h = Some r" "r < length (cc_heap c)"
  shows "client_advances vf c (fst (async_wait_completed E c h ty))"
proof -
  let ?rcv = "chan_end_receive (frame_channel (env_queue E)) (pr_channel (cc_heap c ! r))"
  obtain ch ev where rcv: "?rcv = (ch, ev)" by fastforce
  have ch: "implements_channel (frame_channel (env_queue E)) vf"
    using env by (simp add: queue_env_def)
  let ?c1 = "update_pending c r (\<lambda>p. p\<lparr>pr_channel := ch\<rparr>)"
  have "op_is_terminal (pr_operation (cc_heap c ! r)) \<or> channel_fresh (vf ch)"
    using implements_channelD(5) [OF ch, of "pr_channel (cc_heap c ! r)"] rcv
      chan_inv_nth [OF client_inv_parts(4) [OF inv] r(2)]
    by (auto simp: channel_fresh_def view_end_receive_def)
  then have "chan_inv vf (cc_heap ?c1)"
    using client_inv_parts(4) [OF inv] r(2)
    by (simp add: heap_update_pending chan_inv_update)
  then have c1: "client_advances vf c ?c1"
    using update_pending_inv [OF client_inv_parts(1) [OF inv] r(2), of "\<lambda>p. p\<lparr>pr_channel := ch\<rparr>"] inv
    by (simp add: client_advances_def client_inv_def operations_update_pending)
  have "client_advances vf c (cleanup_pending ?c1 r True)" if "ev \<noteq> Channel_pending"
  proof -
    have "op_is_terminal (pr_operation (cc_heap ?c1 ! r))"
      using unsettled_receive_pending [OF env inv r(2)] rcv that r(2)
      by (auto simp: heap_update_pending)
    then show ?thesis
      using client_advances_trans [OF c1 cleanup_advances [OF client_advancesD [OF c1]]] r by simp
  qed
  then show ?thesis
    using c1 rcv r(1)
    by (simp add: async_wait_completed_def Let_def split: ChannelEvent.split)
qed

lemma client_run_total:
  assumes env: "queue_env (env_queue E) vf vs" and inv: "client_inv vf c"
    and "wq_writer (cc_write_queue c) \<noteq> Writer_receiving"
  shows "\<exists>c'. client_run E c = Some c' \<and> client_advances vf c c'"
proof -
  define c1 where "c1 = (if cc_lifecycle c = Connection_created
    then notify (c\<lparr>cc_lifecycle := Connection_active\<rparr>)
      (diagnostics_event Event_connection_opened StreamId_default Status_ok 0 False []) else c)"
  let ?c2 = "c1\<lparr>cc_write_queue := writer_loop (env_queue E) (cc_write_queue c1)\<rparr>"
  have c1: "client_advances vf c c1"
    using inv by (simp add: c1_def client_advances_def client_inv_def operations_def resting_def)
  have "wq_writer (cc_write_queue c1) \<noteq> Writer_receiving" using assms(3) by (simp add: c1_def)
  then have "client_advances vf c1 ?c2"
    using client_advancesD [OF c1] writer_loop_inv(1) [OF env client_inv_parts(2)]
    by (intro client_inv_frame) (simp_all add: client_inv_parts)
  then have c2: "client_advances vf c ?c2" by (rule client_advances_trans [OF c1])
  have "client_run E c = read_loop_head E ?c2"
    by (simp add: client_run_def c1_def connection_transition_def Let_def)
  then show ?thesis
    using read_loop_head_total [OF env client_advancesD [OF c2]] client_advances_trans [OF c2] by auto
qed

lemma begin_shutdown_lifecycle:
  "cc_lifecycle (begin_shutdown c) =
     (if cc_lifecycle c = Connection_created \<or> cc_lifecycle c = Connection_active
      then Connection_draining else cc_lifecycle c)"
  by (simp add: begin_shutdown_def Let_def connection_transition_def)

lemma begin_shutdown_frame:
  "\<exists>st. begin_shutdown c = c\<lparr>cc_lifecycle := st\<rparr>"
  unfolding begin_shutdown_def Let_def by blast

lemma begin_shutdown_advances:
  assumes "client_inv vf c"
  shows "client_advances vf c (begin_shutdown c)"
proof -
  obtain st where st: "begin_shutdown c = c\<lparr>cc_lifecycle := st\<rparr>" using begin_shutdown_frame by blast
  then have "st = Connection_closed \<longleftrightarrow> cc_lifecycle c = Connection_closed"
    and "resting st \<longleftrightarrow> resting (cc_lifecycle c)"
    using begin_shutdown_lifecycle [of c] by (auto simp: resting_def split: if_splits)
  then show ?thesis
    using assms by (simp add: st client_advances_def client_inv_def operations_def)
qed

text \<open>The end of \<open>shutdown\<close>: whatever is left fails, and the transport is closed.\<close>

lemma shutdown_finish_total:
  assumes inv: "client_inv vf c"
  obtains c' where "shutdown_finish E c = Some c'" "client_advances vf c c'" "cc_pending c' = []"
    "\<not> cc_transport_open c'"
    "operations c' = map (fail_unsettled Status_connection_closed
       ''connection drain period expired'') (operations c)"
    "cc_lifecycle c' = fst (connection_transition (cc_lifecycle c) Connection_closed)"
proof -
  let ?st = Status_connection_closed and ?msg = "''connection drain period expired''"
  obtain c1 where c1: "fail_pending E ?st ?msg c = Some c1" "client_advances vf c c1"
    "cc_pending c1 = []" "same_wiring c c1"
    "operations c1 = map (fail_unsettled ?st ?msg) (operations c)"
    using fail_pending_advances [OF inv, of ?st E ?msg] by auto
  have first: "(if cc_pending c \<noteq> [] then fail_pending E ?st ?msg c else Some c) = Some c1"
    using c1(1) fail_pending_unfold [of E ?st ?msg c] by (cases "cc_pending c = []") simp_all
  let ?c2 = "c1\<lparr>cc_transport_open := False,
    cc_lifecycle := fst (connection_transition (cc_lifecycle c1) Connection_closed)\<rparr>"
  have ops: "operations ?c2 = operations c1" by (rule operations_heap) simp
  have "client_advances vf c1 ?c2"
    using client_advancesD [OF c1(2)] c1(3) ops
    by (simp add: client_advances_def client_inv_def transition_closed)
  then have "client_advances vf c (notify_closed ?c2)"
    using client_advances_trans [OF c1(2) client_advances_trans [OF _ notify_closed_advances]]
      client_advancesD by blast
  moreover have "shutdown_finish E c = Some (notify_closed ?c2)"
    using first by (simp add: shutdown_finish_def)
  ultimately show ?thesis
    using that c1 ops by (simp add: same_wiring_def)
qed

lemma client_write_completed_advances:
  assumes env: "queue_env (env_queue E) vf vs" and inv: "client_inv vf c"
  shows "client_advances vf c (client_write_completed E c failure)"
proof -
  obtain q cl obs where w: "writer_wrote (env_queue E) (cc_write_queue c) failure = (q, cl, obs)"
    by (metis prod_cases3)
  have "wq_inv vf q"
    using writer_wrote_step [OF env client_inv_parts(2) [OF inv], of failure] w by simp
  then have adv: "client_advances vf c
    (c\<lparr>cc_write_queue := q, cc_transport_open := cc_transport_open c \<and> \<not> cl\<rparr>)" (is "client_advances vf c ?c1")
    using inv by (intro client_inv_frame) (simp_all add: client_inv_parts)
  moreover have "client_advances vf c (observe_write ?c1 f bytes)" for f bytes
    unfolding observe_write_def
    using client_advances_trans [OF client_advances_trans [OF adv notify_advances] notify_advances]
      notify_advances client_advancesD [OF adv] client_advancesD by blast
  ultimately show ?thesis
    using w by (simp add: client_write_completed_def Let_def split: option.split)
qed

lemma client_frame_received_advances:
  assumes env: "queue_env (env_queue E) vf vs" and inv: "client_inv vf c"
    and "wq_writer (cc_write_queue c) = Writer_receiving"
  shows "client_advances vf c (client_frame_received E c)"
  unfolding client_frame_received_def
  using inv writer_received_step [OF env client_inv_parts(2) [OF inv] assms(3)]
  by (intro client_inv_frame) (simp_all add: client_inv_parts)

section \<open>Runs\<close>

text \<open>
  Everything that can happen to a connection: calls of its methods, on handles of existing
  requests, and completions of reads, writes, receives and timers, in any order. \<open>client_enabled\<close>
  says when a completion can happen at all.
\<close>

datatype ('t, 'v) ClientEvent =
  Client_run
| Client_read bool "Buffer option"
| Client_start 't 'v
| Client_start_deadline 't 'v Deadline
| Client_resume string nat Frame
| Client_resume_deadline string nat Frame Deadline
| Client_timer nat bool
| Client_cancel RequestOperation string
| Client_destroy RequestOperation
| Client_wait RequestOperation
| Client_wait_completed RequestOperation 't
| Client_begin_shutdown
| Client_shutdown_finish
| Client_wrote "string option"
| Client_frame_received

fun client_event ::
  "('ch, 'sp, 't, 'v) Env \<Rightarrow> ('ch, 'sp) ClientConnection \<Rightarrow> ('t, 'v) ClientEvent \<Rightarrow>
     ('ch, 'sp) ClientConnection option" where
  "client_event E c Client_run = client_run E c"
| "client_event E c (Client_read still_open result) = read_completed E c still_open result"
| "client_event E c (Client_start ty v) = Some (fst (start_request E c ty v))"
| "client_event E c (Client_start_deadline ty v d) =
     (case start_request E c ty v of
        (c', started) \<Rightarrow> Some (fst (start_request_deadline c' started d)))"
| "client_event E c (Client_resume msg r f) = Some (fst (start_request_resume E msg c r f))"
| "client_event E c (Client_resume_deadline msg r f d) =
     (case start_request_resume E msg c r f of
        (c', started) \<Rightarrow> Some (fst (start_request_deadline c' started d)))"
| "client_event E c (Client_timer r err) = Some (timer_completed E c r err)"
| "client_event E c (Client_cancel h msg) = Some (fst (handle_cancel E c h msg))"
| "client_event E c (Client_destroy h) = Some (handle_destroy E c h)"
| "client_event E c (Client_wait h) = Some (fst (async_wait E c h))"
| "client_event E c (Client_wait_completed h ty) = Some (fst (async_wait_completed E c h ty))"
| "client_event E c Client_begin_shutdown = Some (begin_shutdown c)"
| "client_event E c Client_shutdown_finish = shutdown_finish E c"
| "client_event E c (Client_wrote failure) = Some (client_write_completed E c failure)"
| "client_event E c Client_frame_received = Some (client_frame_received E c)"

definition handle_valid :: "('ch, 'sp) ClientConnection \<Rightarrow> RequestOperation \<Rightarrow> bool" where
  "handle_valid c h \<longleftrightarrow> (case ro_pending h of None \<Rightarrow> True | Some r \<Rightarrow> r < length (cc_heap c))"

text \<open>
  A wait on the timer of a request is outstanding only when the request was started with a deadline.
  Cancelling the timer clears \<open>pr_timer\<close>, but a completion that is already queued still runs, with or
  without an error; \<open>op_deadline\<close> stays set and marks those. A deadline on a settled operation sets
  \<open>pr_timer\<close> alone.
\<close>

definition timer_armed :: "'ch PendingRequest \<Rightarrow> bool" where
  "timer_armed p \<longleftrightarrow> pr_timer p \<noteq> None \<or> op_deadline (pr_operation p) \<noteq> None"

fun client_enabled :: "('ch, 'sp) ClientConnection \<Rightarrow> ('t, 'v) ClientEvent \<Rightarrow> bool" where
  "client_enabled c Client_run \<longleftrightarrow> wq_writer (cc_write_queue c) = Writer_idle"
| "client_enabled c (Client_resume _ r f) \<longleftrightarrow> r < length (cc_heap c) \<and> representable f"
| "client_enabled c (Client_resume_deadline _ r f _) \<longleftrightarrow> r < length (cc_heap c) \<and> representable f"
| "client_enabled c (Client_timer r _) \<longleftrightarrow> r < length (cc_heap c) \<and> timer_armed (cc_heap c ! r)"
| "client_enabled c (Client_cancel h _) \<longleftrightarrow> handle_valid c h"
| "client_enabled c (Client_destroy h) \<longleftrightarrow> handle_valid c h"
| "client_enabled c (Client_wait h) \<longleftrightarrow> handle_valid c h"
| "client_enabled c (Client_wait_completed h _) \<longleftrightarrow> ro_pending h \<noteq> None \<and> handle_valid c h"
| "client_enabled c Client_frame_received \<longleftrightarrow> wq_writer (cc_write_queue c) = Writer_receiving"
| "client_enabled c _ \<longleftrightarrow> True"

text \<open>A handle returned by \<open>start_request\<close> names an existing request.\<close>

lemma start_request_handle:
  assumes env: "queue_env (env_queue E) vf vs" and inv: "client_inv vf c"
    and ok: "start_request E c ty v = (c', Start_ok h)"
  shows "ro_connected h" and "ro_pending h = Some (length (cc_heap c))"
    and "length (cc_heap c') = Suc (length (cc_heap c))"
proof -
  have open_for_requests: "\<not> rejects_requests (cc_lifecycle c)"
    using ok by (auto simp: start_request_def)
  have "ro_connected h \<and> ro_pending h = Some (length (cc_heap c)) \<and>
    length (cc_heap c') = Suc (length (cc_heap c))"
    using inv open_for_requests
  proof (cases rule: start_request_cases [where E = E and ty = ty and v = v])
    case (started sid f q sent)
    then show ?thesis
      using ok by (auto simp: start_request_sent_def registered_def Let_def split: option.splits if_splits)
  qed (use ok in simp_all)
  then show "ro_connected h" and "ro_pending h = Some (length (cc_heap c))"
    and "length (cc_heap c') = Suc (length (cc_heap c))" by simp_all
qed

lemma resumed_handle:
  assumes "start_request_resume E msg c r f = (c', Start_ok h)"
  shows "ro_pending h = Some r"
  using assms
  by (auto simp: start_request_resume_def start_request_sent_def case_prod_beta Let_def
      split: option.splits if_splits)

lemma client_event_total:
  assumes env: "queue_env (env_queue E) vf vs" and inv: "client_inv vf c"
    and en: "client_enabled c ev"
  shows "\<exists>c'. client_event E c ev = Some c' \<and> client_advances vf c c'"
proof (cases ev)
  case Client_run
  then show ?thesis using client_run_total [OF env inv] en by simp
next
  case (Client_start_deadline ty v d)
  obtain c' started where st: "start_request E c ty v = (c', started)" by fastforce
  have adv: "client_advances vf c c'" using start_request_advances [OF env inv, of ty v] st by simp
  have "client_advances vf c' (fst (start_request_deadline c' started d))"
    using start_request_handle [OF env inv] st
    by (intro start_request_deadline_advances client_advancesD [OF adv]) simp
  then show ?thesis using Client_start_deadline st client_advances_trans [OF adv] by simp
next
  case (Client_resume_deadline msg r f d)
  obtain c' started where st: "start_request_resume E msg c r f = (c', started)" by fastforce
  have adv: "client_advances vf c c'"
    using start_request_resume_advances [OF env inv, of r f msg] st en Client_resume_deadline by simp
  then have "length (cc_heap c) \<le> length (cc_heap c')" by (simp add: client_advances_def ops_le_def)
  then have "client_advances vf c' (fst (start_request_deadline c' started d))"
    using resumed_handle [of E msg c r f c'] st en Client_resume_deadline
    by (intro start_request_deadline_advances client_advancesD [OF adv]) auto
  then show ?thesis using Client_resume_deadline st client_advances_trans [OF adv] by simp
next
  case Client_shutdown_finish
  then show ?thesis using shutdown_finish_total [OF inv, of E] by auto
qed (use en in \<open>auto simp: timer_completed_def handle_cancel_def handle_destroy_def handle_valid_def
    client_advances_refl inv
    intro: read_completed_total [OF env inv] start_request_advances [OF env inv]
      start_request_resume_advances [OF env inv] timeout_pending_advances [OF env inv]
      cancel_pending_advances [OF env inv] discard_pending_advances [OF env inv]
      async_wait_advances [OF env inv] async_wait_completed_advances [OF env inv]
      begin_shutdown_advances [OF inv] client_write_completed_advances [OF env inv]
      client_frame_received_advances [OF env inv]\<close>)

end
