(* ===== verification/Sample_Env.thy ===== *)
theory Sample_Env
  imports Connection_Env
begin

text \<open>
  An environment to evaluate examples in: the reference channels, plain byte messages of one
  registered type of size one, a request and the response to it.
\<close>

definition sample_env :: "(Frame ChannelView, unit ChannelView, unit, Buffer) Env" where
  "sample_env =
     \<lparr>env_queue = reference_queue_ops, env_codec = PodCodec (\<lambda>_. 1),
      env_registry = fst (register_message_at (\<lambda>_. True) new_registry current_protocol_version ()
         (MessageType 7))\<rparr>"

lemma sample_queue_env: "queue_env (env_queue sample_env) id id"
  by (simp add: sample_env_def reference_queue_env)

abbreviation sample_limits :: WriteQueueLimits where
  "sample_limits \<equiv> \<lparr>max_frames = 4, max_bytes = 100\<rparr>"

definition sample_request :: Frame where
  "sample_request =
     \<lparr>frame_header = \<lparr>header_version = current_protocol_version, header_type = FrameType_request,
        header_flags = Flags_none, header_stream = StreamId 1, header_payload_size = 5\<rparr>,
      frame_payload = [0, 0, 0, 7, 5]\<rparr>"

definition sample_response :: Frame where
  "sample_response =
     \<lparr>frame_header = \<lparr>header_version = current_protocol_version, header_type = FrameType_response,
        header_flags = Flags_end_of_stream, header_stream = StreamId 1, header_payload_size = 5\<rparr>,
      frame_payload = [0, 0, 0, 7, 6]\<rparr>"

end
