(* ===== verification/Client_Properties.thy ===== *)
theory Client_Properties
  imports Client_Behaviour Sample_Env
begin

text \<open>
  What a client connection promises to its callers, over all runs from its construction:
  requests are correlated with their responses, settled at most once and always settled when
  the connection is closed; and where the connection falls short of what the documentation says.
\<close>

section \<open>Runs\<close>

inductive client_reachable ::
  "('ch, 'sp, 't, 'v) Env \<Rightarrow> ('ch, 'sp) ClientConnection \<Rightarrow> ('ch, 'sp) ClientConnection \<Rightarrow> bool"
  for E where
  start: "client_reachable E c c"
| step: "client_reachable E c c' \<Longrightarrow> client_enabled c' ev \<Longrightarrow> client_event E c' ev = Some c'' \<Longrightarrow>
           client_reachable E c c''"

lemma client_reachable_advances:
  assumes "client_reachable E c c'" and "queue_env (env_queue E) vf vs" and "client_inv vf c"
  shows "client_advances vf c c'"
  using assms
proof (induction rule: client_reachable.induct)
  case (start c)
  then show ?case by (simp add: client_advances_refl)
next
  case (step c c' ev c'')
  then have adv: "client_advances vf c c'" by simp
  then show ?case
    using client_event_total [OF step.prems(1) client_advancesD [OF adv] step.hyps(2)]
      step.hyps(3) client_advances_trans [OF adv] by auto
qed

lemma client_reachable_trans:
  assumes "client_reachable E a b" and "client_reachable E b c"
  shows "client_reachable E a c"
  using assms(2,1) by (induction rule: client_reachable.induct) (auto intro: client_reachable.step)

lemma reachable_inv:
  assumes "queue_env (env_queue E) vf vs" and "client_reachable E (new_client E lim mx hook) c"
  shows "client_inv vf c"
  using client_reachable_advances [OF assms(2,1) new_client_inv [OF assms(1)]]
  by (rule client_advancesD)

section \<open>An example run\<close>

text \<open>
  A run to evaluate examples on: a request on a fresh connection, and the response to it.
\<close>

abbreviation sample_client :: "(Frame ChannelView, unit ChannelView) ClientConnection" where
  "sample_client \<equiv> new_client sample_env sample_limits 9 False"

definition sample_started :: "(Frame ChannelView, unit ChannelView) ClientConnection" where
  "sample_started = fst (start_request sample_env sample_client () [5])"

lemma sample_encoding:
  "request_encoding sample_env () [5] (StreamId 1) = FrameEncodeResult_success sample_request"
  by (simp add: request_encoding_def sample_env_def encode_message_def encode_message_payload_def
      PodCodec_def pod_encode_def register_message_at_def new_registry_def message_type_at_def
      frame_encode_defs codec_result_defs message_type_is_valid_def empty_registrations_def
      Let_def message_type_size_def be32.wr_eq copy_at_def be32_bytes_def sample_request_def
      default_max_payload_size_def)

lemma sample_allocation:
  "allocation_stream (snd (allocate (cc_stream_ids sample_client))) = Some (StreamId 1)"
  by (simp add: new_client_def new_allocator_def allocate_def first_id_def last_id_def
      allocation_success_def)

lemma sample_enqueue:
  "snd (enqueue (env_queue sample_env) (cc_write_queue sample_client) sample_request) =
     Some WriteResult_success"
  by (simp add: sample_env_def new_client_def reference_queue_ops_def reference_channel_def
      view_op_defs enqueue_def enqueue_attempt_def try_enqueue_frame_def new_write_queue_def
      can_fit_def queued_bytes_def write_ok_def WriteResult_success_def WriteResult_failure_def
      frame_header_size_def sample_request_def Let_def)

lemma sample_start:
  "start_request sample_env sample_client () [5] =
     (sample_started, Start_ok \<lparr>ro_connected = True, ro_pending = Some 0\<rparr>)"
  "sample_started = (registered sample_env sample_client (StreamId 1))\<lparr>cc_write_queue :=
     fst (enqueue (env_queue sample_env) (cc_write_queue sample_client) sample_request)\<rparr>"
proof -
  let ?q = "fst (enqueue (env_queue sample_env) (cc_write_queue sample_client) sample_request)"
  have inv: "client_inv id sample_client" by (rule new_client_inv [OF sample_queue_env])
  have "\<not> rejects_requests (cc_lifecycle sample_client)"
    by (simp add: new_client_def rejects_requests_def)
  with inv have "start_request sample_env sample_client () [5] =
    ((registered sample_env sample_client (StreamId 1))\<lparr>cc_write_queue := ?q\<rparr>,
     Start_ok \<lparr>ro_connected = True, ro_pending = Some 0\<rparr>)"
  proof (cases rule: start_request_cases [where E = sample_env and ty = "()" and v = "[5]"])
    case (started sid f q sent)
    have sid: "sid = StreamId 1" using started(1) sample_allocation by simp
    with started(3) have f: "f = sample_request" by (simp add: sample_encoding frame_encode_defs)
    with started(5) have "q = ?q" "sent = Some WriteResult_success"
      using sample_enqueue by (metis fst_conv, metis snd_conv)
    then show ?thesis
      using started(6) sid
      by (simp add: start_request_sent_def write_ok_def WriteResult_success_def Let_def)
        (simp add: new_client_def)
  qed (use sample_allocation sample_encoding in \<open>simp_all add: frame_encode_defs\<close>)
  then show "start_request sample_env sample_client () [5] =
     (sample_started, Start_ok \<lparr>ro_connected = True, ro_pending = Some 0\<rparr>)"
    and "sample_started = (registered sample_env sample_client (StreamId 1))\<lparr>cc_write_queue := ?q\<rparr>"
    by (auto simp: sample_started_def)
qed

lemma sample_started_state:
  "length (cc_heap sample_started) = 1" "cc_pending sample_started = [(StreamId 1, 0)]"
  "cc_terminal_streams sample_started = {}" "cc_lifecycle sample_started = Connection_created"
  "cc_transport_open sample_started"
  "cc_heap sample_started ! 0 = new_pending sample_env (StreamId 1)"
  "cc_stream_ids sample_started = fst (allocate (new_allocator Initiator_client 9))"
  "cc_write_queue sample_started =
     fst (enqueue (env_queue sample_env) (cc_write_queue sample_client) sample_request)"
proof -
  show "length (cc_heap sample_started) = 1" "cc_pending sample_started = [(StreamId 1, 0)]"
    "cc_terminal_streams sample_started = {}" "cc_lifecycle sample_started = Connection_created"
    "cc_transport_open sample_started"
    "cc_heap sample_started ! 0 = new_pending sample_env (StreamId 1)"
    "cc_stream_ids sample_started = fst (allocate (new_allocator Initiator_client 9))"
    "cc_write_queue sample_started =
       fst (enqueue (env_queue sample_env) (cc_write_queue sample_client) sample_request)"
    unfolding sample_start(2) by (simp_all add: registered_def) (simp_all add: new_client_def)
qed

lemma sample_started_reachable: "client_reachable sample_env sample_client sample_started"
  using client_reachable.step [OF client_reachable.start, of sample_client "Client_start () [5]"
      sample_env sample_started]
  by (simp add: sample_start(1))

lemma sample_is_response: "is_response_to sample_started sample_response 0"
  by (simp add: is_response_to_def sample_response_def sample_started_state)

section \<open>Effects on individual requests\<close>

lemma heap_other:
  assumes "r' \<noteq> r"
  shows "cc_heap (update_pending c r g) ! r' = cc_heap c ! r'"
    and "cc_heap (fst (call_operation c r m)) ! r' = cc_heap c ! r'"
    and "cc_heap (close_channel E c r) ! r' = cc_heap c ! r'"
    and "cc_heap (cleanup_pending c r b) ! r' = cc_heap c ! r'"
  using assms
  by (simp_all add: update_pending_def heap_call_operation heap_close_channel cleanup_pending_def
      Let_def)

lemma cleanup_self:
  assumes "r < length (cc_heap c)"
  shows "pr_channel (cc_heap (cleanup_pending c r b) ! r) = pr_channel (cc_heap c ! r)"
    and "pr_operation (cc_heap (cleanup_pending c r b) ! r) = pr_operation (cc_heap c ! r)"
  using assms by (simp_all add: cleanup_pending_def update_pending_def Let_def)

lemma cleanup_keeps_owner:
  assumes "r < length (cc_heap c)"
  shows "pr_stream_released (cc_heap (cleanup_pending c r False) ! r) = pr_stream_released (cc_heap c ! r)"
  using assms by (simp add: cleanup_pending_def update_pending_def Let_def)

lemma cleanup_releases:
  assumes "client_pend_inv X c" and "r < length (cc_heap c)" and "\<not> pr_stream_released (cc_heap c ! r)"
  shows "live_streams (cc_stream_ids (cleanup_pending c r True)) =
     live_streams (cc_stream_ids c) - {pending_stream c r}"
proof -
  have "alloc_inv (cc_stream_ids c)" using assms(1) by (simp add: pend_inv_def)
  then show ?thesis
    using sid_alloc.rel_live assms(2,3)
    by (simp add: cleanup_pending_def update_pending_def Let_def)
qed

lemma is_response_to_facts:
  assumes inv: "client_inv vf c" and resp: "is_response_to c f r"
  shows "r < length (cc_heap c)" and "pending_stream c r = header_stream (frame_header f)"
    and "\<not> pr_removed (cc_heap c ! r)" and "\<not> pr_stream_released (cc_heap c ! r)"
    and "op_state (pr_operation (cc_heap c ! r)) = Operation_active"
    and "channel_fresh (vf (pr_channel (cc_heap c ! r)))"
proof -
  note pinv = client_inv_parts(1) [OF inv]
  have here: "map_of (cc_pending c) (header_stream (frame_header f)) = Some r"
    using resp by (simp add: is_response_to_def)
  note entry = pend_inv_entry [OF pinv here]
  show "r < length (cc_heap c)" "pending_stream c r = header_stream (frame_header f)"
    "\<not> pr_removed (cc_heap c ! r)" by (rule entry)+
  have "request_ok {} (cc_stream_ids c) (cc_pending c) r (cc_heap c ! r)"
    using pinv entry(1) by (simp add: pend_inv_def)
  then show "\<not> pr_stream_released (cc_heap c ! r)" using entry(3) by (simp add: request_ok_def)
  show active: "op_state (pr_operation (cc_heap c ! r)) = Operation_active"
    by (rule pend_inv_entry_active [OF pinv here])
  then show "channel_fresh (vf (pr_channel (cc_heap c ! r)))"
    using chan_inv_nth [OF client_inv_parts(4) [OF inv] entry(1)] by simp
qed

lemma start_request_ok_state:
  assumes env: "queue_env (env_queue E) vf vs" and inv: "client_inv vf c"
    and ok: "start_request E c ty v = (c', Start_ok h)"
  shows "cc_terminal_streams c' = cc_terminal_streams c \<and>
    map_of (cc_pending c') (pending_stream c' (length (cc_heap c))) = Some (length (cc_heap c)) \<and>
    op_result (operations c' ! length (cc_heap c)) = None"
proof -
  have open_for_requests: "\<not> rejects_requests (cc_lifecycle c)"
    using ok by (auto simp: start_request_def)
  show ?thesis
    using inv open_for_requests
  proof (cases rule: start_request_cases [where E = E and ty = ty and v = v])
    case (started sid f q sent)
    then have "c' = (registered E c sid)\<lparr>cc_write_queue := q\<rparr>"
      using ok by (auto simp: start_request_sent_def Let_def split: option.splits if_splits)
    then show ?thesis
      by (simp add: registered_def nth_append new_pending_def op_activate_def new_operation_def
          operation_transition_def)
  qed (use ok in simp_all)
qed

text \<open>What a matching response does to the connection.\<close>

lemma completed_by_effect:
  assumes env: "queue_env (env_queue E) vf vs" and inv: "client_inv vf c"
    and resp: "is_response_to c f r"
  shows "op_result (pr_operation (cc_heap (completed_by E c f r) ! r)) =
           Some (OperationResult_success ''response received'')"
    and "view_buffer (vf (pr_channel (cc_heap (completed_by E c f r) ! r))) = [f]"
    and "map_of (cc_pending (completed_by E c f r)) =
           (map_of (cc_pending c))(header_stream (frame_header f) := None)"
    and "live_streams (cc_stream_ids (completed_by E c f r)) =
           live_streams (cc_stream_ids c) - {header_stream (frame_header f)}"
    and "r' \<noteq> r \<Longrightarrow> cc_heap (completed_by E c f r) ! r' = cc_heap c ! r'"
    and "cc_transport_open (completed_by E c f r) = cc_transport_open c"
    and "cc_lifecycle (completed_by E c f r) = cc_lifecycle c"
    and "cc_terminal_streams (completed_by E c f r) =
           (if has_flag (header_flags (frame_header f)) Flags_end_of_stream
            then insert (header_stream (frame_header f)) (cc_terminal_streams c)
            else cc_terminal_streams c)"
proof -
  let ?m = "Call_complete ''response received'' :: DiagnosticsEvent OpCall"
  let ?g = "\<lambda>p. p\<lparr>pr_timer := None,
    pr_channel := fst (chan_try_send (frame_channel (env_queue E)) (pr_channel p) f)\<rparr>"
  let ?c1 = "fst (call_operation c r ?m)"
  let ?c2 = "update_pending ?c1 r ?g"
  note facts = is_response_to_facts [OF inv resp]
  have eq: "completed_by E c f r = mark_terminal (cleanup_pending ?c2 r True) f"
    by (simp add: completed_by_def Let_def)
  have self: "cc_heap ?c2 ! r = ?g (cc_heap ?c1 ! r)" "pr_channel (cc_heap ?c1 ! r) = pr_channel (cc_heap c ! r)"
    "pr_operation (cc_heap ?c1 ! r) = fst (op_call ?m (pr_operation (cc_heap c ! r)))"
    "pr_removed (cc_heap ?c1 ! r) = pr_removed (cc_heap c ! r)"
    "pr_stream_released (cc_heap ?c1 ! r) = pr_stream_released (cc_heap c ! r)"
    using facts(1) by (simp_all add: heap_update_pending heap_call_operation)
  have r2: "r < length (cc_heap ?c2)" using facts(1) by simp
  show "op_result (pr_operation (cc_heap (completed_by E c f r) ! r)) =
      Some (OperationResult_success ''response received'')"
    using r2 self facts(5) by (simp add: eq cleanup_self op_result_complete)
  have "implements_channel (frame_channel (env_queue E)) vf"
    using env by (simp add: queue_env_def)
  note send = implements_channelD(2) [OF this]
  show "view_buffer (vf (pr_channel (cc_heap (completed_by E c f r) ! r))) = [f]"
    using r2 self facts(6)
    by (simp add: eq cleanup_self send view_try_send_def view_accepts_def channel_fresh_def)
  have here: "map_of (cc_pending c) (header_stream (frame_header f)) = Some r"
    using resp by (simp add: is_response_to_def)
  show "map_of (cc_pending (completed_by E c f r)) =
      (map_of (cc_pending c))(header_stream (frame_header f) := None)"
    using r2 self facts(2,3) here by (simp add: eq pending_cleanup AList.delete_conv')
  have "client_pend_inv {r} ?c2"
    using call_operation_inv(1) [OF client_inv_parts(1) [OF inv] facts(1)] facts(1)
    by (intro update_pending_inv) simp_all
  from cleanup_releases [OF this r2]
  show "live_streams (cc_stream_ids (completed_by E c f r)) =
      live_streams (cc_stream_ids c) - {header_stream (frame_header f)}"
    using self facts(2,4) by (simp add: eq)
  show "cc_heap (completed_by E c f r) ! r' = cc_heap c ! r'" if "r' \<noteq> r"
    using that by (simp add: eq heap_other)
  show "cc_transport_open (completed_by E c f r) = cc_transport_open c"
    and "cc_lifecycle (completed_by E c f r) = cc_lifecycle c"
    by (simp_all add: eq)
  show "cc_terminal_streams (completed_by E c f r) =
      (if has_flag (header_flags (frame_header f)) Flags_end_of_stream
       then insert (header_stream (frame_header f)) (cc_terminal_streams c)
       else cc_terminal_streams c)"
    by (simp add: eq mark_terminal_def)
qed

text \<open>A pending request is on a client stream that is in use.\<close>

lemma pending_entry_stream:
  assumes inv: "client_inv vf c" and entry: "map_of (cc_pending c) sid = Some r"
  shows "is_client_stream sid" and "sid \<in> live_streams (cc_stream_ids c)"
proof -
  note pinv = client_inv_parts(1) [OF inv]
  note e = pend_inv_entry [OF pinv entry]
  have ids: "alloc_inv (cc_stream_ids c)" "initiator (cc_stream_ids c) = Initiator_client"
    and req: "request_ok {} (cc_stream_ids c) (cc_pending c) r (cc_heap c ! r)"
    using pinv e(1) by (simp_all add: pend_inv_def)
  show live: "sid \<in> live_streams (cc_stream_ids c)"
    using req e(2,3) by (simp add: request_ok_def)
  then show "is_client_stream sid" using client_pool ids sid_alloc.live_pool by blast
qed

section \<open>Properties\<close>

text \<open>
  Property C7. In every state a connection can reach, by any interleaving of calls and
  completions, every event that can happen next returns: no loop over the pending requests or
  over received bytes runs forever, and the state it leads to is again well formed.
\<close>

theorem client_never_stuck:
  assumes "queue_env (env_queue E) vf vs" and "client_reachable E (new_client E lim mx hook) c"
    and "client_enabled c ev"
  shows "\<exists>c'. client_event E c ev = Some c' \<and> client_inv vf c'"
  using client_event_total [OF assms(1) reachable_inv [OF assms(1,2)] assms(3)]
  by (auto dest: client_advancesD)

theorem client_never_stuck_witness:
  "\<exists>c'. client_event sample_env sample_client (Client_read True (Some [1, 2, 3])) = Some c' \<and>
     client_inv id c'"
  using client_never_stuck [OF sample_queue_env client_reachable.start,
      of sample_limits 9 False "Client_read True (Some [1, 2, 3])"] by simp

text \<open>
  A request's outcome is final: if an operation has a result in some reachable
  state, every state reachable from there has the same operation with the same result.
\<close>

lemma client_results_final:
  assumes "queue_env (env_queue E) vf vs" and "client_reachable E (new_client E lim mx hook) c"
    and "client_reachable E c c'" and "r < length (cc_heap c)"
    and "op_result (pr_operation (cc_heap c ! r)) = Some res"
  shows "r < length (cc_heap c') \<and> pending_stream c' r = pending_stream c r \<and>
     op_result (pr_operation (cc_heap c' ! r)) = Some res"
proof -
  have inv: "client_inv vf c" by (rule reachable_inv [OF assms(1,2)])
  have "op_is_terminal (pr_operation (cc_heap c ! r))"
    using op_inv_result [OF pend_inv_request(1) [OF client_inv_parts(1) [OF inv] assms(4)]] assms(5)
    by auto
  moreover have "ops_le (operations c) (operations c')"
    using client_reachable_advances [OF assms(3,1) inv] by (simp add: client_advances_def)
  ultimately show ?thesis
    using assms(4,5) by (auto simp: ops_le_def op_step_def)
qed

lemma sample_shutdown:
  obtains c where "client_event sample_env sample_started Client_begin_shutdown = Some c"
    "client_reachable sample_env sample_client c" "cc_lifecycle c = Connection_draining"
    "cc_heap c = cc_heap sample_started"
proof -
  let ?c = "begin_shutdown sample_started"
  have "client_reachable sample_env sample_client ?c"
    using client_reachable.step [OF sample_started_reachable, of Client_begin_shutdown] by simp
  moreover have "cc_heap ?c = cc_heap sample_started"
    using begin_shutdown_frame [of sample_started] by auto
  ultimately show thesis
    by (intro that [of ?c]) (simp_all add: begin_shutdown_lifecycle sample_started_state)
qed

lemma sample_closed:
  obtains c where "client_reachable sample_env sample_client c" "cc_lifecycle c = Connection_closed"
    "length (cc_heap c) = 1"
    "op_result (pr_operation (cc_heap c ! 0)) =
       Some (OperationResult_failure Status_connection_closed ''connection drain period expired'')"
proof -
  obtain c1 where c1: "client_reachable sample_env sample_client c1"
    "cc_lifecycle c1 = Connection_draining" "cc_heap c1 = cc_heap sample_started"
    by (rule sample_shutdown) blast
  note inv = reachable_inv [OF sample_queue_env c1(1)]
  obtain c2 where c2: "shutdown_finish sample_env c1 = Some c2" "client_advances id c1 c2"
    "operations c2 = map (fail_unsettled Status_connection_closed
       ''connection drain period expired'') (operations c1)"
    "cc_lifecycle c2 = fst (connection_transition (cc_lifecycle c1) Connection_closed)"
    by (rule shutdown_finish_total [OF inv, of sample_env]) blast
  have len: "length (cc_heap c2) = 1"
    using arg_cong [OF c2(3), of length] c1(3) by (simp add: sample_started_state)
  have "operations c2 ! 0 = fail_unsettled Status_connection_closed
      ''connection drain period expired'' (pr_operation (new_pending sample_env (StreamId 1)))"
    unfolding c2(3) using c1(3) by (simp add: sample_started_state)
  then have "op_result (pr_operation (cc_heap c2 ! 0)) =
      Some (OperationResult_failure Status_connection_closed ''connection drain period expired'')"
    using len op_result_fail [of "pr_operation (new_pending sample_env (StreamId 1))"]
    by (simp add: fail_unsettled_def)
  moreover have "client_reachable sample_env sample_client c2"
    using client_reachable.step [OF c1(1), of Client_shutdown_finish] c2(1) by simp
  ultimately show thesis
    using c1(2) c2(4) len by (intro that) (simp_all add: connection_transition_def)
qed

lemma client_results_final_example:
  "\<exists>c c'. client_reachable sample_env sample_client c \<and> client_reachable sample_env c c' \<and>
     op_result (pr_operation (cc_heap c' ! 0)) =
       Some (OperationResult_failure Status_connection_closed ''connection drain period expired'')"
proof -
  obtain c where c: "client_reachable sample_env sample_client c" "length (cc_heap c) = 1"
    "op_result (pr_operation (cc_heap c ! 0)) =
       Some (OperationResult_failure Status_connection_closed ''connection drain period expired'')"
    by (rule sample_closed) blast
  let ?c' = "begin_shutdown c"
  have "client_reachable sample_env c ?c'"
    using client_reachable.step [OF client_reachable.start, of c Client_begin_shutdown] by simp
  then show ?thesis
    using client_results_final [OF sample_queue_env c(1) \<open>client_reachable sample_env c ?c'\<close>, of 0] c
    by auto
qed

text \<open>
  Property C9. Closing settles everything: in every reachable state whose lifecycle is
  \<open>closed\<close>, no request is pending and every request ever made has a result.
\<close>

theorem closed_client_settled:
  assumes "queue_env (env_queue E) vf vs" and "client_reachable E (new_client E lim mx hook) c"
    and "cc_lifecycle c = Connection_closed"
  shows "cc_pending c = [] \<and> (\<forall>p \<in> set (cc_heap c). op_result (pr_operation p) \<noteq> None)"
proof -
  have inv: "client_inv vf c" by (rule reachable_inv [OF assms(1,2)])
  have empty: "cc_pending c = []" by (rule client_inv_parts(5) [OF inv assms(3)])
  have "op_result (pr_operation p) \<noteq> None" if p: "p \<in> set (cc_heap c)" for p
  proof -
    have "op_is_terminal (pr_operation p)"
      using no_pending_settled [OF client_inv_parts(1) [OF inv] empty p] .
    moreover obtain r where "r < length (cc_heap c)" "p = cc_heap c ! r"
      using p by (auto simp: in_set_conv_nth)
    ultimately show ?thesis
      using op_inv_result pend_inv_request(1) [OF client_inv_parts(1) [OF inv]] by blast
  qed
  with empty show ?thesis by blast
qed

theorem closed_client_settled_witness:
  "\<exists>c. client_reachable sample_env sample_client c \<and> length (cc_heap c) = 1 \<and>
     cc_pending c = [] \<and> (\<forall>p \<in> set (cc_heap c). op_result (pr_operation p) \<noteq> None)"
proof -
  obtain c where c: "client_reachable sample_env sample_client c"
    "cc_lifecycle c = Connection_closed" "length (cc_heap c) = 1"
    by (rule sample_closed) blast
  with closed_client_settled [OF sample_queue_env c(1,2)] show ?thesis by blast
qed

text \<open>
  Property C19. Stream identifiers identify requests: in every reachable state the requests
  that are not settled are exactly those in the pending table, each under its own identifier,
  which is odd and marked as in use; so no two of them share one.
\<close>

theorem pending_streams_unique:
  assumes "queue_env (env_queue E) vf vs" and "client_reachable E (new_client E lim mx hook) c"
    and "r < length (cc_heap c)"
  shows "(op_result (pr_operation (cc_heap c ! r)) = None \<longleftrightarrow>
      map_of (cc_pending c) (pending_stream c r) = Some r) \<and>
     (op_result (pr_operation (cc_heap c ! r)) = None \<longrightarrow>
        is_client_stream (pending_stream c r) \<and>
        pending_stream c r \<in> live_streams (cc_stream_ids c))"
proof -
  have inv: "client_pend_inv {} c" by (rule client_inv_parts(1) [OF reachable_inv [OF assms(1,2)]])
  have iff: "op_result (pr_operation (cc_heap c ! r)) = None \<longleftrightarrow>
      map_of (cc_pending c) (pending_stream c r) = Some r"
    using op_inv_result [OF pend_inv_request(1) [OF inv assms(3)]] pend_inv_unsettled [OF inv assms(3)]
    by simp
  moreover have "is_client_stream (pending_stream c r) \<and>
      pending_stream c r \<in> live_streams (cc_stream_ids c)"
    if "map_of (cc_pending c) (pending_stream c r) = Some r"
    using pending_entry_stream [OF reachable_inv [OF assms(1,2)] that] by simp
  ultimately show ?thesis by blast
qed

theorem pending_streams_unique_witness:
  "map_of (cc_pending sample_started) (pending_stream sample_started 0) = Some 0 \<and>
   is_client_stream (pending_stream sample_started 0) \<and>
   pending_stream sample_started 0 \<in> live_streams (cc_stream_ids sample_started)"
proof -
  have "op_result (pr_operation (cc_heap sample_started ! 0)) = None"
    by (simp add: sample_started_state new_pending_def op_activate_def new_operation_def
        operation_transition_def)
  then show ?thesis
    using pending_streams_unique [OF sample_queue_env sample_started_reachable, of 0]
    by (simp add: sample_started_state)
qed

text \<open>
  Property C5. Correlation: a response for a pending stream that has carried no final frame before
  (\<open>is_response_to\<close>), with no cancel or error flag, completes exactly the request that was started on
  that stream. (On a stream that has carried one, the connection fails:
  \<open>recycled_stream_ends_connection\<close>.) The response is put into the channel
  the request's owner waits on, the stream leaves the pending table and becomes free again, and
  every other request and the connection itself are left as they were.
\<close>

theorem response_correlation:
  assumes "queue_env (env_queue E) vf vs" and "client_reachable E (new_client E lim mx hook) c"
    and "is_response_to c f r"
    and "\<not> has_flag (header_flags (frame_header f)) Flags_cancel"
    and "\<not> has_flag (header_flags (frame_header f)) Flags_error"
  shows "\<exists>c'. dispatch E c f = Some c' \<and>
     op_result (pr_operation (cc_heap c' ! r)) =
       Some (OperationResult_success ''response received'') \<and>
     view_buffer (vf (pr_channel (cc_heap c' ! r))) = [f] \<and>
     map_of (cc_pending c') = (map_of (cc_pending c))(header_stream (frame_header f) := None) \<and>
     live_streams (cc_stream_ids c') =
       live_streams (cc_stream_ids c) - {header_stream (frame_header f)} \<and>
     (\<forall>r'. r' \<noteq> r \<longrightarrow> cc_heap c' ! r' = cc_heap c ! r') \<and>
     cc_transport_open c' = cc_transport_open c \<and> cc_lifecycle c' = cc_lifecycle c"
proof -
  have inv: "client_inv vf c" by (rule reachable_inv [OF assms(1,2)])
  show ?thesis
    using dispatch_response [OF inv assms(3-5), of E] completed_by_effect [OF assms(1) inv assms(3)]
    by blast
qed

theorem response_correlation_witness:
  "\<exists>c'. dispatch sample_env sample_started sample_response = Some c' \<and>
     op_result (pr_operation (cc_heap c' ! 0)) =
       Some (OperationResult_success ''response received'') \<and>
     view_buffer (pr_channel (cc_heap c' ! 0)) = [sample_response]"
proof -
  have "\<not> has_flag (header_flags (frame_header sample_response)) Flags_cancel"
    "\<not> has_flag (header_flags (frame_header sample_response)) Flags_error"
    by (simp_all add: sample_response_def has_flag_def flags_and_def)
  from response_correlation [OF sample_queue_env sample_started_reachable sample_is_response this]
  show ?thesis by auto
qed

text \<open>
  Property C27. A frame that is not the response to a pending request ends the connection: the
  transport is closed, nothing stays pending, every unsettled request fails with one and the
  same protocol status, and the settled ones keep their results. That is what the code does with any
  such frame, a response that crosses the cancellation or the timeout of its request included,
  although there the peer has done nothing wrong; the tests call that case a bug.
\<close>

theorem unexpected_frame_ends_connection:
  assumes "queue_env (env_queue E) vf vs" and "client_reachable E (new_client E lim mx hook) c"
    and "\<nexists>r. is_response_to c f r"
  shows "\<exists>c' st msg. dispatch E c f = Some c' \<and> status_category st = Category_protocol \<and>
     \<not> cc_transport_open c' \<and> cc_pending c' = [] \<and>
     (\<forall>r < length (cc_heap c). op_result (pr_operation (cc_heap c' ! r)) =
        (case op_result (pr_operation (cc_heap c ! r)) of
           None \<Rightarrow> Some (OperationResult_failure st msg) | Some res \<Rightarrow> Some res))"
proof -
  have inv: "client_inv vf c" by (rule reachable_inv [OF assms(1,2)])
  obtain st msg where d: "dispatch E c f = fail_connection E c st msg"
    "status_category st = Category_protocol" "st \<noteq> Status_ok"
    using dispatch_not_response [OF assms(3)] by blast
  obtain c' where c': "fail_connection E c st msg = Some c'" "cc_pending c' = []"
    "\<not> cc_transport_open c'" "operations c' = map (fail_unsettled st msg) (operations c)"
    by (rule fail_connection_total [OF inv d(3), of E msg]) blast
  have len: "length (cc_heap c') = length (cc_heap c)"
    using arg_cong [OF c'(4), of length] by simp
  have "op_result (pr_operation (cc_heap c' ! r)) =
      (case op_result (pr_operation (cc_heap c ! r)) of
         None \<Rightarrow> Some (OperationResult_failure st msg) | Some res \<Rightarrow> Some res)"
    if r: "r < length (cc_heap c)" for r
  proof -
    have "pr_operation (cc_heap c' ! r) = fail_unsettled st msg (pr_operation (cc_heap c ! r))"
      using arg_cong [OF c'(4), of "\<lambda>os. os ! r"] r len by simp
    then show ?thesis
      using fail_unsettled_result [OF pend_inv_request [OF client_inv_parts(1) [OF inv] r] d(3)]
      by simp
  qed
  with d c' show ?thesis by auto
qed

text \<open>A response that crosses the cancellation of its request.\<close>

definition sample_cancelled :: "(Frame ChannelView, unit ChannelView) ClientConnection" where
  "sample_cancelled =
     fst (handle_cancel sample_env sample_started \<lparr>ro_connected = True, ro_pending = Some 0\<rparr> ''not needed'')"

lemma sample_cancelled_reachable: "client_reachable sample_env sample_client sample_cancelled"
  by (rule client_reachable.step [OF sample_started_reachable,
        of "Client_cancel \<lparr>ro_connected = True, ro_pending = Some 0\<rparr> ''not needed''"])
    (simp_all add: sample_cancelled_def handle_valid_def sample_started_state)

lemma sample_cancelled_pending: "cc_pending sample_cancelled = []"
proof -
  have "snd (call_operation sample_started 0 (Call_cancel ''not needed''))"
    by (simp add: call_operation_def sample_started_state new_pending_def op_activate_def new_operation_def
        operation_transition_def op_call.simps op_method_defs op_is_terminal_def)
  then show ?thesis
    by (simp add: sample_cancelled_def handle_cancel_def cancel_pending_def case_prod_beta pending_cleanup
        heap_close_channel heap_call_operation send_cancellation_def sample_started_state Let_def)
qed

theorem unexpected_frame_ends_connection_witness:
  "\<exists>c' st msg. dispatch sample_env sample_cancelled sample_response = Some c' \<and>
     status_category st = Category_protocol \<and> \<not> cc_transport_open c' \<and> cc_pending c' = []"
proof -
  have "\<nexists>r. is_response_to sample_cancelled sample_response r"
    by (simp add: is_response_to_def sample_cancelled_pending)
  from unexpected_frame_ends_connection [OF sample_queue_env sample_cancelled_reachable this]
  show ?thesis by blast
qed

text \<open>An expired timer finds a settled operation as it was.\<close>

lemma timeout_settled:
  assumes "op_is_terminal (pr_operation (cc_heap c ! r))"
  shows "timeout_pending E c r = c"
proof -
  have "op_call (Call_timeout msg) opn = (opn, False, [])" if "op_is_terminal opn"
    for msg and opn :: "DiagnosticsEvent Operation"
    using that by (auto simp: op_is_terminal_def op_method_defs op_call.simps operation_transition_def)
  from this [OF assms] show ?thesis
    by (simp add: timeout_pending_def call_operation_def update_pending_def notify_all_def)
qed

lemma timeout_pending_others:
  assumes "r' \<noteq> r"
  shows "cc_heap (timeout_pending E c r) ! r' = cc_heap c ! r'"
  using assms
  by (simp add: timeout_pending_def case_prod_beta cleanup_pending_def close_channel_def update_pending_def
      send_cancellation_def call_operation_def Let_def)

text \<open>An expired timer settles a request that was not settled; its stream stays in use.\<close>

lemma timeout_effect:
  assumes env: "queue_env (env_queue E) vf vs" and inv: "client_inv vf c" and r: "r < length (cc_heap c)"
    and none: "op_result (pr_operation (cc_heap c ! r)) = None"
  defines "c' \<equiv> timeout_pending E c r"
  shows "op_result (pr_operation (cc_heap c' ! r)) =
      Some (OperationResult_failure Status_timeout_error ''operation deadline exceeded'')"
    and "map_of (cc_pending c') = (map_of (cc_pending c))(pending_stream c r := None)"
    and "cc_stream_ids c' = cc_stream_ids c"
    and "cc_write_queue c' =
      fst (try_enqueue (env_queue E) (cc_write_queue c) (cancellation_frame (pending_stream c r)))"
    and "cc_transport_open c' = cc_transport_open c" and "cc_lifecycle c' = cc_lifecycle c"
    and "cc_decoder c' = cc_decoder c" and "cc_terminal_streams c' = cc_terminal_streams c"
    and "pending_stream c' r = pending_stream c r"
    and "view_buffer (vf (pr_channel (cc_heap c' ! r))) = []"
    and "\<not> view_open (vf (pr_channel (cc_heap c' ! r)))"
    and "\<not> pr_stream_released (cc_heap c' ! r)" and "length (cc_heap c') = length (cc_heap c)"
proof -
  note pinv = client_inv_parts(1) [OF inv]
  note req = pend_inv_request [OF pinv r]
  have open_op: "\<not> op_is_terminal (pr_operation (cc_heap c ! r))" using op_inv_result [OF req(1)] none by simp
  then have active: "op_state (pr_operation (cc_heap c ! r)) = Operation_active"
    and here: "map_of (cc_pending c) (pending_stream c r) = Some r"
    using active_iff [OF req(2)] pend_inv_unsettled [OF pinv r] by simp_all
  have kept: "\<not> pr_removed (cc_heap c ! r)" using pend_inv_entry(3) [OF pinv here] .
  have owned: "\<not> pr_stream_released (cc_heap c ! r)"
    using pinv r kept by (simp add: pend_inv_def request_ok_def)
  have fresh: "channel_fresh (vf (pr_channel (cc_heap c ! r)))"
    using chan_inv_nth [OF client_inv_parts(4) [OF inv] r] open_op by simp
  have "implements_channel (frame_channel (env_queue E)) vf" using env by (simp add: queue_env_def)
  note closed = implements_channelD(7) [OF this]
  note facts = c'_def timeout_pending_eq [OF inv r, of E] Let_def cleanup_self heap_close_channel
    heap_call_operation op_result_timeout pending_cleanup AList.delete_conv' send_cancellation_def
  show "op_result (pr_operation (cc_heap c' ! r)) =
      Some (OperationResult_failure Status_timeout_error ''operation deadline exceeded'')"
    and "map_of (cc_pending c') = (map_of (cc_pending c))(pending_stream c r := None)"
    and "cc_stream_ids c' = cc_stream_ids c"
    and "cc_write_queue c' =
      fst (try_enqueue (env_queue E) (cc_write_queue c) (cancellation_frame (pending_stream c r)))"
    and "cc_transport_open c' = cc_transport_open c" and "cc_lifecycle c' = cc_lifecycle c"
    and "cc_decoder c' = cc_decoder c" and "cc_terminal_streams c' = cc_terminal_streams c"
    and "pending_stream c' r = pending_stream c r"
    and "view_buffer (vf (pr_channel (cc_heap c' ! r))) = []"
    and "\<not> view_open (vf (pr_channel (cc_heap c' ! r)))"
    and "\<not> pr_stream_released (cc_heap c' ! r)" and "length (cc_heap c') = length (cc_heap c)"
    using active here r kept fresh owned
    by (simp_all add: facts closed view_close_def channel_fresh_def cleanup_keeps_owner)
qed

text \<open>
  Property C28. Deadlines: when a request's timer expires before the request is settled, the
  request fails with \<open>timeout_error\<close>, it leaves the pending table but keeps its stream, and
  a cancellation for the stream is the only frame that can have been queued; no other request
  changes, and the connection stays as open as it was. When the timer of a settled request expires,
  the connection does not change at all.
\<close>

theorem deadline_expiry:
  assumes "queue_env (env_queue E) vf vs" and "client_reachable E (new_client E lim mx hook) c"
    and "r < length (cc_heap c)"
  shows "(op_result (pr_operation (cc_heap c ! r)) = None \<longrightarrow>
       op_result (pr_operation (cc_heap (timer_completed E c r False) ! r)) =
         Some (OperationResult_failure Status_timeout_error ''operation deadline exceeded'') \<and>
       map_of (cc_pending (timer_completed E c r False)) =
         (map_of (cc_pending c))(pending_stream c r := None) \<and>
       cc_stream_ids (timer_completed E c r False) = cc_stream_ids c \<and>
       cc_write_queue (timer_completed E c r False) =
         fst (try_enqueue (env_queue E) (cc_write_queue c) (cancellation_frame (pending_stream c r))) \<and>
       (\<forall>r'. r' \<noteq> r \<longrightarrow> cc_heap (timer_completed E c r False) ! r' = cc_heap c ! r') \<and>
       cc_transport_open (timer_completed E c r False) = cc_transport_open c \<and>
       cc_lifecycle (timer_completed E c r False) = cc_lifecycle c) \<and>
     (op_result (pr_operation (cc_heap c ! r)) \<noteq> None \<longrightarrow> timer_completed E c r False = c)"
proof -
  have inv: "client_inv vf c" by (rule reachable_inv [OF assms(1,2)])
  have "op_is_terminal (pr_operation (cc_heap c ! r))" if "op_result (pr_operation (cc_heap c ! r)) \<noteq> None"
    using that op_inv_result [OF pend_inv_request(1) [OF client_inv_parts(1) [OF inv] assms(3)]] by simp
  then show ?thesis
    using timeout_effect [OF assms(1) inv assms(3)] timeout_pending_others [of _ r E c]
    by (simp add: timer_completed_def timeout_settled)
qed

lemma sample_unsettled: "op_result (pr_operation (cc_heap sample_started ! 0)) = None"
  by (simp add: sample_started_state new_pending_def op_activate_def new_operation_def
      operation_transition_def)

text \<open>The sample request, started with a deadline.\<close>

definition sample_timed :: "(Frame ChannelView, unit ChannelView) ClientConnection" where
  "sample_timed =
     fst (start_request_deadline sample_started (Start_ok \<lparr>ro_connected = True, ro_pending = Some 0\<rparr>) 40)"

lemma sample_timed_state:
  "cc_heap sample_timed = [(new_pending sample_env (StreamId 1))\<lparr>pr_timer := Some 40,
     pr_operation := (pr_operation (new_pending sample_env (StreamId 1)))\<lparr>op_deadline := Some 40\<rparr>\<rparr>]"
  "cc_pending sample_timed = cc_pending sample_started" "cc_stream_ids sample_timed = cc_stream_ids sample_started"
  "cc_write_queue sample_timed = cc_write_queue sample_started"
  "cc_terminal_streams sample_timed = {}" "cc_lifecycle sample_timed = Connection_created"
proof -
  have "cc_heap sample_started = [new_pending sample_env (StreamId 1)]"
    using sample_started_state(1,6) by (cases "cc_heap sample_started") auto
  then show "cc_heap sample_timed = [(new_pending sample_env (StreamId 1))\<lparr>pr_timer := Some 40,
     pr_operation := (pr_operation (new_pending sample_env (StreamId 1)))\<lparr>op_deadline := Some 40\<rparr>\<rparr>]"
    by (simp add: sample_timed_def start_request_deadline_def call_operation_def update_pending_def
        new_pending_def op_activate_def new_operation_def operation_transition_def op_set_deadline_def
        op_is_terminal_def op_call.simps Let_def)
qed (simp_all add: sample_timed_def start_request_deadline_def sample_started_state(3,4) Let_def
    case_prod_beta call_operation_def update_pending_def)

lemma sample_timed_reachable: "client_reachable sample_env sample_client sample_timed"
  by (rule client_reachable.step [OF client_reachable.start, of _ "Client_start_deadline () [5] 40"])
    (simp_all add: sample_start(1) sample_timed_def)

lemma sample_timed_unsettled: "op_result (pr_operation (cc_heap sample_timed ! 0)) = None"
  by (simp add: sample_timed_state new_pending_def op_activate_def new_operation_def operation_transition_def)

theorem deadline_expiry_witness:
  "client_enabled sample_timed (Client_timer 0 False :: (unit, Buffer) ClientEvent) \<and>
   op_result (pr_operation (cc_heap (timer_completed sample_env sample_timed 0 False) ! 0)) =
     Some (OperationResult_failure Status_timeout_error ''operation deadline exceeded'') \<and>
   cc_stream_ids (timer_completed sample_env sample_timed 0 False) = cc_stream_ids sample_timed"
  using deadline_expiry [OF sample_queue_env sample_timed_reachable, of 0] sample_timed_unsettled
  by (simp add: sample_timed_state timer_armed_def)

text \<open>
  Draining refuses new work and nothing else: after \<open>begin_shutdown\<close> a request
  fails with \<open>connection_closed\<close> without touching the connection, while the pending requests,
  their operations and the queued frames are as before.
\<close>

lemma draining_refuses_requests:
  assumes "queue_env (env_queue E) vf vs" and "client_reachable E (new_client E lim mx hook) c"
  shows "start_request E (begin_shutdown c) ty v =
     (begin_shutdown c, Start_failed Status_connection_closed ''connection is shutting down'') \<and>
   cc_pending (begin_shutdown c) = cc_pending c \<and> operations (begin_shutdown c) = operations c \<and>
   cc_write_queue (begin_shutdown c) = cc_write_queue c"
proof -
  obtain st where st: "begin_shutdown c = c\<lparr>cc_lifecycle := st\<rparr>" using begin_shutdown_frame by blast
  have "resting (cc_lifecycle c)" by (rule client_inv_parts(6) [OF reachable_inv [OF assms]])
  then have "rejects_requests (cc_lifecycle (begin_shutdown c))"
    by (cases "cc_lifecycle c")
      (simp_all add: begin_shutdown_lifecycle rejects_requests_def resting_def)
  then show ?thesis by (simp add: start_request_def st operations_def)
qed

lemma draining_refuses_requests_witness:
  "start_request sample_env (begin_shutdown sample_started) () [5] =
     (begin_shutdown sample_started,
      Start_failed Status_connection_closed ''connection is shutting down'') \<and>
   cc_pending (begin_shutdown sample_started) = [(StreamId 1, 0)]"
  using draining_refuses_requests [OF sample_queue_env sample_started_reachable, of "()" "[5]"]
  by (simp add: sample_started_state)

text \<open>
  A request whose message cannot be encoded keeps its stream identifier for good:
  the request is not registered, so nothing ever gives the identifier back, and it stays in use.
\<close>

lemma unencodable_request_keeps_stream:
  assumes "queue_env (env_queue E) vf vs" and "client_reachable E (new_client E lim mx hook) c"
    and "\<not> rejects_requests (cc_lifecycle c)"
    and "allocation_stream (snd (allocate (cc_stream_ids c))) = Some sid"
    and "message_type_at (env_registry E) current_protocol_version ty = None"
  shows "\<exists>c' msg. start_request E c ty v = (c', Start_failed Status_unknown_message_type msg) \<and>
     live_streams (cc_stream_ids c') = insert sid (live_streams (cc_stream_ids c)) \<and>
     sid \<notin> live_streams (cc_stream_ids c) \<and>
     cc_pending c' = cc_pending c \<and> cc_heap c' = cc_heap c"
proof -
  have inv: "client_inv vf c" by (rule reachable_inv [OF assms(1,2)])
  have enc: "\<not> frame_encode_ok (request_encoding E ty v sid)"
    "frame_encode_status (request_encoding E ty v sid) = Status_unknown_message_type"
    using assms(5)
    by (simp_all add: request_encoding_def encode_message_def encode_message_payload_def
        codec_result_defs frame_encode_defs Let_def)
  have "alloc_inv (cc_stream_ids c)" using client_inv_parts(1) [OF inv] by (simp add: pend_inv_def)
  note alloc = sid_alloc.alloc_Some [OF this assms(4)]
  show ?thesis
    using inv assms(3)
  proof (cases rule: start_request_cases [where E = E and ty = ty and v = v])
    case exhausted
    then show ?thesis using assms(4) by simp
  next
    case (unencodable sid')
    then show ?thesis using assms(4) enc alloc by simp
  next
    case (started sid' f q sent)
    then show ?thesis using assms(4) enc by simp
  qed
qed

definition unregistered_env :: "(Frame ChannelView, unit ChannelView, unit, Buffer) Env" where
  "unregistered_env = sample_env\<lparr>env_registry := new_registry\<rparr>"

lemma unencodable_request_keeps_stream_witness:
  "\<exists>c' msg. start_request unregistered_env (new_client unregistered_env sample_limits 9 False) () [5] =
       (c', Start_failed Status_unknown_message_type msg) \<and>
     StreamId 1 \<in> live_streams (cc_stream_ids c') \<and> cc_pending c' = []"
proof -
  let ?c = "new_client unregistered_env sample_limits 9 False"
  have env: "queue_env (env_queue unregistered_env) id id"
    using sample_queue_env by (simp add: unregistered_env_def)
  have "\<not> rejects_requests (cc_lifecycle ?c)" "cc_pending ?c = []"
    "allocation_stream (snd (allocate (cc_stream_ids ?c))) = Some (StreamId 1)"
    "message_type_at (env_registry unregistered_env) current_protocol_version () = None"
    by (simp_all add: new_client_def rejects_requests_def new_allocator_def allocate_def first_id_def
        last_id_def allocation_success_def unregistered_env_def new_registry_def message_type_at_def)
  with unencodable_request_keeps_stream [OF env client_reachable.start, of sample_limits 9 False
      "StreamId 1" "()" "[5]"]
  show ?thesis by auto
qed

text \<open>
  Property C36. A recycled stream identifier is poisoned. When a final response (one flagged
  \<open>end_of_stream\<close>, as the server's responses are) has completed a request, its identifier is
  free again; but if the next request is given that identifier, the response to it closes
  the connection and the request fails with \<open>malformed_frame\<close>.
\<close>

theorem recycled_stream_ends_connection:
  assumes "queue_env (env_queue E) vf vs" and "client_reachable E (new_client E lim mx hook) c"
    and "is_response_to c f r" and "header_flags (frame_header f) = Flags_end_of_stream"
    and "dispatch E c f = Some c1" and "start_request E c1 ty v = (c2, Start_ok h)"
    and "handle_stream c2 h = header_stream (frame_header f)"
    and "header_type (frame_header g) = FrameType_response"
    and "header_stream (frame_header g) = header_stream (frame_header f)"
  shows "\<exists>c3. dispatch E c2 g = Some c3 \<and> \<not> cc_transport_open c3 \<and>
     op_result (pr_operation (cc_heap c3 ! the (ro_pending h))) =
       Some (OperationResult_failure Status_malformed_frame ''duplicate terminal frame'')"
proof -
  have inv: "client_inv vf c" by (rule reachable_inv [OF assms(1,2)])
  have plain: "\<not> has_flag (header_flags (frame_header f)) Flags_cancel"
    "\<not> has_flag (header_flags (frame_header f)) Flags_error"
    "has_flag (header_flags (frame_header f)) Flags_end_of_stream"
    using assms(4) by (simp_all add: has_flag_def flags_and_def)
  let ?sid = "header_stream (frame_header f)" and ?r = "length (cc_heap c1)"
  have c1: "c1 = completed_by E c f r"
    using dispatch_response [OF inv assms(3) plain(1,2), of E] assms(5) by simp
  have inv1: "client_inv vf c1"
    unfolding c1 using completed_by_advances(1) [OF inv is_response_to_facts(1) [OF inv assms(3)]]
    by (rule client_advancesD)
  have mark1: "?sid \<in> cc_terminal_streams c1"
    using completed_by_effect(8) [OF assms(1) inv assms(3)] plain(3) by (simp add: c1)
  have inv2: "client_inv vf c2"
    using start_request_advances [OF assms(1) inv1, of ty v] assms(6) by (simp add: client_advances_def)
  note handle = start_request_handle [OF assms(1) inv1 assms(6)]
  have "cc_terminal_streams c2 = cc_terminal_streams c1 \<and>
    map_of (cc_pending c2) (pending_stream c2 ?r) = Some ?r \<and> op_result (operations c2 ! ?r) = None"
    using start_request_ok_state [OF assms(1) inv1 assms(6)] by blast
  with mark1 handle assms(7) have mark2: "?sid \<in> cc_terminal_streams c2"
    and here: "map_of (cc_pending c2) ?sid = Some ?r" and fresh: "op_result (operations c2 ! ?r) = None"
    by (simp_all add: handle_stream_def)
  have "dispatch E c2 g = fail_connection E c2 Status_malformed_frame ''duplicate terminal frame''"
    using assms(8,9) mark2 here by (simp add: dispatch_def Let_def)
  moreover obtain c3 where c3: "fail_connection E c2 Status_malformed_frame ''duplicate terminal frame'' =
      Some c3" "\<not> cc_transport_open c3"
    "operations c3 = map (fail_unsettled Status_malformed_frame ''duplicate terminal frame'') (operations c2)"
    using fail_connection_total [OF inv2, of Status_malformed_frame E "''duplicate terminal frame''"]
    by auto
  moreover have r2: "?r < length (cc_heap c2)" using handle(3) by simp
  have "length (cc_heap c3) = length (cc_heap c2)" using arg_cong [OF c3(3), of length] by simp
  then have "pr_operation (cc_heap c3 ! ?r) =
      fail_unsettled Status_malformed_frame ''duplicate terminal frame'' (pr_operation (cc_heap c2 ! ?r))"
    using arg_cong [OF c3(3), of "\<lambda>os. os ! ?r"] r2 by simp
  then have "op_result (pr_operation (cc_heap c3 ! ?r)) =
      Some (OperationResult_failure Status_malformed_frame ''duplicate terminal frame'')"
    using fail_unsettled_result [OF pend_inv_request [OF client_inv_parts(1) [OF inv2] r2],
        of Status_malformed_frame "''duplicate terminal frame''"] fresh r2 by simp
  ultimately show ?thesis using handle(2) by simp
qed

lemma sample_restart:
  obtains c2 h where
    "start_request sample_env (completed_by sample_env sample_started sample_response 0) () [5] =
       (c2, Start_ok h)" "handle_stream c2 h = StreamId 1" "ro_pending h = Some 1"
proof -
  let ?c1 = "completed_by sample_env sample_started sample_response 0"
  have inv: "client_inv id sample_started" by (rule reachable_inv [OF sample_queue_env sample_started_reachable])
  note facts = is_response_to_facts [OF inv sample_is_response]
  have inv1: "client_inv id ?c1"
    using completed_by_advances(1) [OF inv facts(1)] by (rule client_advancesD)
  note eff = completed_by_effect [OF sample_queue_env inv sample_is_response]
  have len: "length (cc_heap ?c1) = 1"
    using arg_cong [OF completed_by_advances(2) [OF inv facts(1)], of length]
    by (simp add: sample_started_state)
  have ids: "cc_stream_ids ?c1 = release (cc_stream_ids sample_started) (StreamId 1)"
    by (simp add: completed_by_def Let_def cleanup_pending_def update_pending_def
        heap_call_operation sample_started_state)
  have alloc: "allocation_stream (snd (allocate (cc_stream_ids ?c1))) = Some (StreamId 1)"
    by (simp add: ids sample_started_state new_allocator_def allocate_def release_def first_id_def
        last_id_def allocation_success_def Let_def)
  have wq: "cc_write_queue ?c1 = cc_write_queue sample_started"
    by (simp add: completed_by_def Let_def)
  have "\<not> rejects_requests (cc_lifecycle ?c1)"
    by (simp add: eff(7) sample_started_state rejects_requests_def)
  with inv1 show thesis
  proof (cases rule: start_request_cases [where E = sample_env and ty = "()" and v = "[5]"])
    case (started sid f q sent)
    have sid: "sid = StreamId 1" using started(1) alloc by simp
    with started(3) have f: "f = sample_request" by (simp add: sample_encoding frame_encode_defs)
    have "snd (enqueue (env_queue sample_env) (cc_write_queue ?c1) sample_request) =
        Some WriteResult_success"
      by (simp add: wq sample_started_state)
        (simp add: sample_env_def new_client_def reference_queue_ops_def reference_channel_def
          view_op_defs enqueue_def enqueue_attempt_def try_enqueue_frame_def new_write_queue_def
          can_fit_def queued_bytes_def write_ok_def WriteResult_success_def
          WriteResult_failure_def frame_header_size_def sample_request_def Let_def)
    with started(5) f have "sent = Some WriteResult_success" by simp
    then have eq: "start_request sample_env ?c1 () [5] =
      ((registered sample_env ?c1 sid)\<lparr>cc_write_queue := q\<rparr>,
       Start_ok \<lparr>ro_connected = True, ro_pending = Some 1\<rparr>)"
      using started(6) len
      by (simp add: start_request_sent_def write_ok_def WriteResult_success_def Let_def)
    show thesis
      by (rule that [OF eq]) (simp_all add: handle_stream_def registered_def nth_append len sid)
  qed (use alloc sample_encoding in \<open>simp_all add: frame_encode_defs\<close>)
qed

theorem recycled_stream_ends_connection_witness:
  "\<exists>c1 c2 c3. dispatch sample_env sample_started sample_response = Some c1 \<and>
     c2 = fst (start_request sample_env c1 () [5]) \<and>
     dispatch sample_env c2 sample_response = Some c3 \<and> \<not> cc_transport_open c3 \<and>
     op_result (pr_operation (cc_heap c3 ! 1)) =
       Some (OperationResult_failure Status_malformed_frame ''duplicate terminal frame'')"
proof -
  let ?c1 = "completed_by sample_env sample_started sample_response 0"
  have inv: "client_inv id sample_started" by (rule reachable_inv [OF sample_queue_env sample_started_reachable])
  have fl: "header_flags (frame_header sample_response) = Flags_end_of_stream"
    "header_type (frame_header sample_response) = FrameType_response"
    "header_stream (frame_header sample_response) = StreamId 1"
    by (simp_all add: sample_response_def)
  then have d: "dispatch sample_env sample_started sample_response = Some ?c1"
    by (intro dispatch_response [OF inv sample_is_response]) (simp_all add: has_flag_def flags_and_def)
  obtain c2 h where h: "start_request sample_env ?c1 () [5] = (c2, Start_ok h)"
    "handle_stream c2 h = StreamId 1" "ro_pending h = Some 1"
    by (rule sample_restart)
  from recycled_stream_ends_connection [OF sample_queue_env sample_started_reachable
      sample_is_response fl(1) d h(1) _ fl(2)] h fl(3)
  have "\<exists>c3. dispatch sample_env c2 sample_response = Some c3 \<and> \<not> cc_transport_open c3 \<and>
     op_result (pr_operation (cc_heap c3 ! 1)) =
       Some (OperationResult_failure Status_malformed_frame ''duplicate terminal frame'')" by simp
  with d h(1) show ?thesis by (metis fst_conv)
qed

end
