(* ===== verification/Server_Connection.thy ===== *)
theory Server_Connection
  imports Connection_Env Operation_Model Frame_Decoder Protocol_Violation Diagnostics
begin

text \<open>
  The server side of a connection (\<open>server_connection.hpp\<close>). Every request that passes the checks
  of \<open>dispatch\<close> gets a coroutine of its own; such a coroutine and the operation it shares with the
  table \<open>operations_\<close> are one object in the list \<open>sc_tasks\<close>, and the table holds addresses into
  that list. Coroutines are cut at their suspension points. Starting a spawned coroutine is an
  event of its own, because \<open>co_spawn\<close> may run it at once or later; for the same reason the
  read loop is cut between two frames, where such a coroutine may run.

  Application handlers are code outside the library: what one returns, or that it throws, is
  supplied with the event that resumes its coroutine.
\<close>

section \<open>Data\<close>

text \<open>The types of a handler's request and response.\<close>

record 't HandlerTypes =
  handler_request :: 't
  handler_response :: 't

text \<open>
  Where a handler's coroutine is: spawned, inside the application's handler, inside \<open>enqueue\<close>
  with the response, or at its end.
\<close>

datatype 'v TaskPhase = Task_spawned | Task_running 'v | Task_sending Frame | Task_done

record ('t, 'v) HandlerTask =
  task_types :: "'t HandlerTypes"
  task_frame :: Frame
  task_operation :: "DiagnosticsEvent Operation"
  task_phase :: "'v TaskPhase"

text \<open>Where the read loop is; \<open>Reader_dispatching\<close> holds the frames of the current read still to come.\<close>

datatype Reader = Reader_idle | Reader_reading | Reader_dispatching "Frame list" | Reader_done

record ('ch, 'sp, 't, 'v) ServerConnection =
  sc_transport_open :: bool
  sc_write_queue :: "('ch, 'sp) WriteQueue"
  sc_decoder :: FrameDecoder
  sc_handlers :: "MessageType \<rightharpoonup> 't HandlerTypes"
  sc_operations :: "(StreamId \<times> nat) list"
  sc_terminal_streams :: "StreamId set"
  sc_active_handlers :: u64
  sc_reading :: bool
  sc_lifecycle :: ConnectionState
  sc_diagnostics :: Diagnostics
  sc_closed_notified :: bool
  sc_reader :: Reader
  sc_tasks :: "('t, 'v) HandlerTask list"

definition new_server ::
  "('ch, 'sp, 't, 'v) Env \<Rightarrow> WriteQueueLimits \<Rightarrow> bool \<Rightarrow> ('ch, 'sp, 't, 'v) ServerConnection" where
  "new_server E lim hook =
     \<lparr>sc_transport_open = True, sc_write_queue = new_write_queue (env_queue E) lim,
      sc_decoder = new_decoder default_max_payload_size, sc_handlers = Map.empty,
      sc_operations = [], sc_terminal_streams = {}, sc_active_handlers = 0, sc_reading = True,
      sc_lifecycle = Connection_created, sc_diagnostics = \<lparr>has_hook = hook, shown = []\<rparr>,
      sc_closed_notified = False, sc_reader = Reader_idle, sc_tasks = []\<rparr>"

section \<open>Notifications\<close>

definition server_notify ::
  "('ch, 'sp, 't, 'v) ServerConnection \<Rightarrow> DiagnosticsEvent \<Rightarrow> ('ch, 'sp, 't, 'v) ServerConnection" where
  "server_notify s ev = s\<lparr>sc_diagnostics := notify_diagnostics (sc_diagnostics s) ev\<rparr>"

definition server_notify_closed ::
  "('ch, 'sp, 't, 'v) ServerConnection \<Rightarrow> ('ch, 'sp, 't, 'v) ServerConnection" where
  "server_notify_closed s =
     (if sc_closed_notified s then s
      else server_notify (s\<lparr>sc_closed_notified := True\<rparr>)
             (diagnostics_event Event_connection_closed StreamId_default
                Status_connection_closed 0 False ''connection closed''))"

definition server_observe_write ::
  "('ch, 'sp, 't, 'v) ServerConnection \<Rightarrow> Frame \<Rightarrow> nat \<Rightarrow> ('ch, 'sp, 't, 'v) ServerConnection" where
  "server_observe_write s f bytes =
     server_notify
       (server_notify s (diagnostics_event Event_bytes_transferred StreamId_default Status_ok
                           bytes False []))
       (diagnostics_event Event_message_transferred (header_stream (frame_header f)) Status_ok 0
          False [])"

text \<open>The completion handler \<open>dispatch\<close> installs in an operation.\<close>

definition operation_reported :: "StreamId \<Rightarrow> OperationResult \<Rightarrow> DiagnosticsEvent list" where
  "operation_reported sid result =
     [diagnostics_event
        (if result_status result = Status_cancelled then Event_cancellation
         else if result_status result = Status_timeout_error then Event_timeout
         else Event_request_completed)
        sid (result_status result) 0 False (result_message result)]"

section \<open>Helpers\<close>

definition update_task ::
  "('ch, 'sp, 't, 'v) ServerConnection \<Rightarrow> nat \<Rightarrow> (('t, 'v) HandlerTask \<Rightarrow> ('t, 'v) HandlerTask) \<Rightarrow>
     ('ch, 'sp, 't, 'v) ServerConnection" where
  "update_task s i g = s\<lparr>sc_tasks := (sc_tasks s)[i := g (sc_tasks s ! i)]\<rparr>"

text \<open>Calling a method of a task's operation, with what its completion handler reports.\<close>

definition call_task_operation ::
  "('ch, 'sp, 't, 'v) ServerConnection \<Rightarrow> nat \<Rightarrow> DiagnosticsEvent OpCall \<Rightarrow>
     ('ch, 'sp, 't, 'v) ServerConnection \<times> bool" where
  "call_task_operation s i m =
     (case op_call m (task_operation (sc_tasks s ! i)) of
        (opn, res, evs) \<Rightarrow>
          ((update_task s i (\<lambda>t. t\<lparr>task_operation := opn\<rparr>))
             \<lparr>sc_diagnostics := notify_all (sc_diagnostics s) evs\<rparr>, res))"

definition send_operation_error ::
  "('ch, 'sp, 't, 'v) Env \<Rightarrow> ('ch, 'sp, 't, 'v) ServerConnection \<Rightarrow> StreamId \<Rightarrow> StatusCode \<Rightarrow>
     ('ch, 'sp, 't, 'v) ServerConnection" where
  "send_operation_error E s sid st =
     s\<lparr>sc_write_queue :=
         fst (try_enqueue (env_queue E) (sc_write_queue s) (make_error_frame sid st))\<rparr>"

definition server_mark_terminal ::
  "('ch, 'sp, 't, 'v) ServerConnection \<Rightarrow> Frame \<Rightarrow> ('ch, 'sp, 't, 'v) ServerConnection" where
  "server_mark_terminal s f =
     (if has_flag (header_flags (frame_header f)) Flags_end_of_stream
      then s\<lparr>sc_terminal_streams :=
               insert (header_stream (frame_header f)) (sc_terminal_streams s)\<rparr>
      else s)"

definition close_queue_when_idle ::
  "('ch, 'sp, 't, 'v) Env \<Rightarrow> ('ch, 'sp, 't, 'v) ServerConnection \<Rightarrow> ('ch, 'sp, 't, 'v) ServerConnection" where
  "close_queue_when_idle E s =
     (if \<not> sc_reading s \<and> sc_active_handlers s = 0
      then s\<lparr>sc_write_queue := close_queue (env_queue E) (sc_write_queue s)\<rparr> else s)"

definition server_fail_connection ::
  "('ch, 'sp, 't, 'v) ServerConnection \<Rightarrow> StatusCode \<Rightarrow> string \<Rightarrow> ('ch, 'sp, 't, 'v) ServerConnection" where
  "server_fail_connection s st msg =
     (let s = (if status_category st = Category_protocol
               then server_notify s (diagnostics_event Event_protocol_error StreamId_default st 0
                                       True msg)
               else s) in
      s\<lparr>sc_transport_open := False\<rparr>)"

text \<open>The loop over the table; its order is that of the association list.\<close>

definition fail_operation ::
  "('ch, 'sp, 't, 'v) ServerConnection \<Rightarrow> nat \<Rightarrow> ('ch, 'sp, 't, 'v) ServerConnection" where
  "fail_operation s i =
     (let s = fst (call_task_operation s i Call_request_cancellation) in
      fst (call_task_operation s i
             (Call_fail Status_connection_closed ''connection closed while processing a request'')))"

definition fail_operations_on_connection_close ::
  "('ch, 'sp, 't, 'v) ServerConnection \<Rightarrow> ('ch, 'sp, 't, 'v) ServerConnection" where
  "fail_operations_on_connection_close s =
     foldl (\<lambda>s (_, i). fail_operation s i) s (sc_operations s)"

section \<open>Dispatching a frame\<close>

definition draining_or_later :: "ConnectionState \<Rightarrow> bool" where
  "draining_or_later st \<longleftrightarrow>
     st = Connection_draining \<or> st = Connection_closing \<or> st = Connection_closed"

definition new_task :: "'t HandlerTypes \<Rightarrow> Frame \<Rightarrow> ('t, 'v) HandlerTask" where
  "new_task types f =
     (let sid = header_stream (frame_header f);
          opn = new_operation sid None;
          opn = op_set_completion_handler opn (Some (operation_reported sid));
          opn = fst (op_activate opn) in
      \<lparr>task_types = types, task_frame = f, task_operation = opn, task_phase = Task_spawned\<rparr>)"

definition server_dispatch ::
  "('ch, 'sp, 't, 'v) Env \<Rightarrow> ('ch, 'sp, 't, 'v) ServerConnection \<Rightarrow> Frame \<Rightarrow>
     ('ch, 'sp, 't, 'v) ServerConnection" where
  "server_dispatch E s f =
     (let h = frame_header f; sid = header_stream h in
      if draining_or_later (sc_lifecycle s) then
        server_mark_terminal (send_operation_error E s sid Status_connection_closed) f
      else if header_type h \<noteq> FrameType_request then
        server_fail_connection s Status_malformed_frame ''server received a non-request frame''
      else if sid \<in> sc_terminal_streams s then
        server_fail_connection s Status_malformed_frame ''duplicate terminal frame''
      else if has_flag (header_flags h) Flags_cancel then
        (case map_of (sc_operations s) sid of
           Some i \<Rightarrow>
             server_mark_terminal
               (fst (call_task_operation s i (Call_cancel ''operation cancelled by peer''))) f
         | None \<Rightarrow>
             server_fail_connection s Status_unknown_stream ''cancellation for an unknown stream'')
      else
        (case peek_message_type (frame_payload f) of
           None \<Rightarrow> server_mark_terminal (send_operation_error E s sid Status_decode_error) f
         | Some mt \<Rightarrow>
             (case sc_handlers s mt of
                None \<Rightarrow>
                  server_mark_terminal (send_operation_error E s sid Status_unknown_message_type) f
              | Some types \<Rightarrow>
                  if map_of (sc_operations s) sid \<noteq> None then s\<lparr>sc_transport_open := False\<rparr>
                  else
                    (let s = s\<lparr>sc_tasks := sc_tasks s @ [new_task types f],
                               sc_operations := (sid, length (sc_tasks s)) # sc_operations s\<rparr>;
                         s = server_notify s (diagnostics_event Event_request_started sid
                               Status_ok 0 False []) in
                     s\<lparr>sc_active_handlers := sc_active_handlers s + 1\<rparr>))))"

text \<open>\<open>handle\<close>: nothing happens for a type the registry does not know.\<close>

definition server_handle ::
  "('ch, 'sp, 't, 'v) Env \<Rightarrow> ('ch, 'sp, 't, 'v) ServerConnection \<Rightarrow> 't \<Rightarrow> 't \<Rightarrow>
     ('ch, 'sp, 't, 'v) ServerConnection" where
  "server_handle E s request response =
     (case message_type (env_registry E) request of
        None \<Rightarrow> s
      | Some mt \<Rightarrow>
          s\<lparr>sc_handlers := (sc_handlers s)
              (mt \<mapsto> \<lparr>handler_request = request, handler_response = response\<rparr>)\<rparr>)"

section \<open>Handler coroutines\<close>

text \<open>The end of \<open>run_handler\<close>, reached whether the handler returned or threw.\<close>

definition run_handler_end ::
  "('ch, 'sp, 't, 'v) Env \<Rightarrow> ('ch, 'sp, 't, 'v) ServerConnection \<Rightarrow> nat \<Rightarrow>
     ('ch, 'sp, 't, 'v) ServerConnection" where
  "run_handler_end E s i =
     (let s = s\<lparr>sc_operations :=
                  AList.delete (header_stream (frame_header (task_frame (sc_tasks s ! i))))
                    (sc_operations s),
                sc_active_handlers := sc_active_handlers s - 1\<rparr>;
          s = update_task s i (\<lambda>t. t\<lparr>task_phase := Task_done\<rparr>) in
      close_queue_when_idle E s)"

text \<open>The coroutine runs from its start to the application's handler.\<close>

definition handler_started ::
  "('ch, 'sp, 't, 'v) Env \<Rightarrow> ('ch, 'sp, 't, 'v) ServerConnection \<Rightarrow> nat \<Rightarrow>
     ('ch, 'sp, 't, 'v) ServerConnection" where
  "handler_started E s i =
     (let t = sc_tasks s ! i;
          request = decode_message (env_codec E) (env_registry E) (handler_request (task_types t))
                      (task_frame t) in
      if \<not> decode_ok request then
        (let s = fst (call_task_operation s i
                        (Call_fail (decode_status request) (decode_message_text request)));
             s = send_operation_error E s (header_stream (frame_header (task_frame t)))
                   (decode_status request) in
         run_handler_end E s i)
      else update_task s i (\<lambda>t. t\<lparr>task_phase := Task_running (the (decode_value request))\<rparr>))"

text \<open>\<open>co_await write_queue_.enqueue(...)\<close> and what follows it.\<close>

definition handler_sent ::
  "('ch, 'sp, 't, 'v) Env \<Rightarrow> ('ch, 'sp, 't, 'v) ServerConnection \<Rightarrow> nat \<Rightarrow> Frame \<Rightarrow>
     ('ch, 'sp) WriteQueue \<times> WriteResult option \<Rightarrow> ('ch, 'sp, 't, 'v) ServerConnection" where
  "handler_sent E s i f enqueued =
     (case enqueued of
        (q, res) \<Rightarrow>
          (let s = s\<lparr>sc_write_queue := q\<rparr> in
           case res of
             None \<Rightarrow> update_task s i (\<lambda>t. t\<lparr>task_phase := Task_sending f\<rparr>)
           | Some _ \<Rightarrow> run_handler_end E s i))"

text \<open>The application's handler has returned a response, or thrown (\<open>None\<close>).\<close>

definition handler_returned ::
  "('ch, 'sp, 't, 'v) Env \<Rightarrow> ('ch, 'sp, 't, 'v) ServerConnection \<Rightarrow> nat \<Rightarrow> 'v option \<Rightarrow>
     ('ch, 'sp, 't, 'v) ServerConnection" where
  "handler_returned E s i outcome =
     (case outcome of
        None \<Rightarrow> run_handler_end E s i
      | Some response \<Rightarrow>
          (let t = sc_tasks s ! i;
               encoded = encode_message (env_codec E) (env_registry E)
                           (handler_response (task_types t)) response
                           (header_stream (frame_header (task_frame t))) FrameType_response
                           Flags_none default_max_payload_size current_protocol_version in
           if \<not> frame_encode_ok encoded then run_handler_end E s i
           else
             (case call_task_operation s i (Call_complete ''response ready'') of
                (s, done) \<Rightarrow>
                  if \<not> done then run_handler_end E s i
                  else
                    (let f = the (frame_encode_frame encoded);
                         f = f\<lparr>frame_header := (frame_header f)
                                 \<lparr>header_flags := flags_or (header_flags (frame_header f))
                                    Flags_end_of_stream\<rparr>\<rparr> in
                     handler_sent E s i f (enqueue (env_queue E) (sc_write_queue s) f)))))"

text \<open>The space channel has completed the receive a suspended response waits for.\<close>

definition handler_resumed ::
  "('ch, 'sp, 't, 'v) Env \<Rightarrow> string \<Rightarrow> ('ch, 'sp, 't, 'v) ServerConnection \<Rightarrow> nat \<Rightarrow> Frame \<Rightarrow>
     ('ch, 'sp, 't, 'v) ServerConnection" where
  "handler_resumed E closed_message s i f =
     handler_sent E s i f (enqueue_resume (env_queue E) closed_message (sc_write_queue s) f)"

text \<open>\<open>SessionContext\<close>: what a running handler can ask about its operation.\<close>

definition context_stream_id :: "('ch, 'sp, 't, 'v) ServerConnection \<Rightarrow> nat \<Rightarrow> StreamId" where
  "context_stream_id s i = header_stream (frame_header (task_frame (sc_tasks s ! i)))"

definition context_is_cancelled :: "('ch, 'sp, 't, 'v) ServerConnection \<Rightarrow> nat \<Rightarrow> bool" where
  "context_is_cancelled s i \<longleftrightarrow> op_cancellation_requested (task_operation (sc_tasks s ! i))"

datatype CancellationError = CancellationError

definition throw_if_cancelled ::
  "('ch, 'sp, 't, 'v) ServerConnection \<Rightarrow> nat \<Rightarrow> CancellationError + unit" where
  "throw_if_cancelled s i = (if context_is_cancelled s i then Inl CancellationError else Inr ())"

section \<open>The read loop\<close>

definition server_read_exit ::
  "('ch, 'sp, 't, 'v) Env \<Rightarrow> ('ch, 'sp, 't, 'v) ServerConnection \<Rightarrow> bool \<Rightarrow>
     ('ch, 'sp, 't, 'v) ServerConnection" where
  "server_read_exit E s connection_lost =
     (let s = (if connection_lost then fail_operations_on_connection_close s else s);
          s = s\<lparr>sc_reading := False, sc_reader := Reader_done\<rparr>;
          s = close_queue_when_idle E s;
          s = s\<lparr>sc_lifecycle := fst (connection_transition (sc_lifecycle s) Connection_closed)\<rparr> in
      server_notify_closed s)"

definition server_read_head ::
  "('ch, 'sp, 't, 'v) Env \<Rightarrow> ('ch, 'sp, 't, 'v) ServerConnection \<Rightarrow> ('ch, 'sp, 't, 'v) ServerConnection" where
  "server_read_head E s =
     (if sc_transport_open s then s\<lparr>sc_reader := Reader_reading\<rparr> else server_read_exit E s False)"

text \<open>After the last frame of a read, or after the transport has been closed.\<close>

definition server_frames_done ::
  "('ch, 'sp, 't, 'v) Env \<Rightarrow> ('ch, 'sp, 't, 'v) ServerConnection \<Rightarrow> ('ch, 'sp, 't, 'v) ServerConnection" where
  "server_frames_done E s =
     (case dec_error (sc_decoder s) of
        None \<Rightarrow> server_read_head E s
      | Some err \<Rightarrow>
          (let s = server_notify s (diagnostics_event Event_protocol_error StreamId_default
                     (status_for_frame_validation err) 0 True (frame_validation_message err));
               s = s\<lparr>sc_transport_open := False\<rparr> in
           server_read_exit E s False))"

text \<open>
  A read has completed: with an exception (\<open>None\<close>) or with bytes, of which there are none at the
  end of the stream. The transport may have closed itself in the course of it.
\<close>

definition server_read_completed ::
  "('ch, 'sp, 't, 'v) Env \<Rightarrow> ('ch, 'sp, 't, 'v) ServerConnection \<Rightarrow> bool \<Rightarrow> Buffer option \<Rightarrow>
     ('ch, 'sp, 't, 'v) ServerConnection option" where
  "server_read_completed E s still_open result =
     (let s = s\<lparr>sc_transport_open := sc_transport_open s \<and> still_open\<rparr> in
      case result of
        None \<Rightarrow> Some (server_read_exit E s True)
      | Some [] \<Rightarrow> Some (server_read_exit E s (\<not> sc_transport_open s))
      | Some bytes \<Rightarrow>
          do {
            let s = server_notify s (diagnostics_event Event_bytes_transferred StreamId_default
                      Status_ok (length bytes) True []);
            (d, frames) \<leftarrow> push (sc_decoder s) bytes;
            Some (s\<lparr>sc_decoder := d, sc_reader := Reader_dispatching frames\<rparr>)
          })"

text \<open>One round of the loop over the frames of a read.\<close>

definition server_dispatch_next ::
  "('ch, 'sp, 't, 'v) Env \<Rightarrow> ('ch, 'sp, 't, 'v) ServerConnection \<Rightarrow> ('ch, 'sp, 't, 'v) ServerConnection" where
  "server_dispatch_next E s =
     (case sc_reader s of
        Reader_dispatching [] \<Rightarrow> server_frames_done E s
      | Reader_dispatching (f # fs) \<Rightarrow>
          (let s = server_notify s (diagnostics_event Event_message_transferred
                     (header_stream (frame_header f)) Status_ok 0 True []);
               s = server_dispatch E s f in
           if \<not> sc_transport_open s then server_frames_done E s
           else s\<lparr>sc_reader := Reader_dispatching fs\<rparr>)
      | _ \<Rightarrow> s)"

section \<open>Running and shutting down\<close>

definition server_run ::
  "('ch, 'sp, 't, 'v) Env \<Rightarrow> ('ch, 'sp, 't, 'v) ServerConnection \<Rightarrow> ('ch, 'sp, 't, 'v) ServerConnection" where
  "server_run E s =
     (let s = (if sc_lifecycle s = Connection_created then
                 (let st = fst (connection_transition (sc_lifecycle s) Connection_accepting);
                      st = fst (connection_transition st Connection_active) in
                  server_notify (s\<lparr>sc_lifecycle := st\<rparr>)
                    (diagnostics_event Event_connection_opened StreamId_default Status_ok 0
                       False []))
               else s);
          s = s\<lparr>sc_write_queue := writer_loop (env_queue E) (sc_write_queue s)\<rparr> in
      server_read_head E s)"

definition server_begin_shutdown ::
  "('ch, 'sp, 't, 'v) ServerConnection \<Rightarrow> ('ch, 'sp, 't, 'v) ServerConnection" where
  "server_begin_shutdown s =
     (let st = sc_lifecycle s;
          st = (if st = Connection_created
                then fst (connection_transition
                            (fst (connection_transition st Connection_accepting))
                            Connection_active)
                else st);
          st = (if st = Connection_active then fst (connection_transition st Connection_draining)
                else st) in
      s\<lparr>sc_lifecycle := st\<rparr>)"

definition server_shutdown_waits ::
  "('ch, 'sp, 't, 'v) ServerConnection \<Rightarrow> int \<Rightarrow> Deadline \<Rightarrow> bool" where
  "server_shutdown_waits s now deadline \<longleftrightarrow> sc_active_handlers s \<noteq> 0 \<and> now < deadline"

definition server_shutdown_finish ::
  "('ch, 'sp, 't, 'v) ServerConnection \<Rightarrow> ('ch, 'sp, 't, 'v) ServerConnection" where
  "server_shutdown_finish s =
     (let s = (if sc_active_handlers s \<noteq> 0 then fail_operations_on_connection_close s else s) in
      server_notify_closed
        (s\<lparr>sc_transport_open := False,
           sc_lifecycle := fst (connection_transition (sc_lifecycle s) Connection_closed)\<rparr>))"

text \<open>\<open>shutdown\<close> as a coroutine: the head of its loop, its start, and the completion of the timer.\<close>

definition server_shutdown_head ::
  "('ch, 'sp, 't, 'v) ServerConnection \<Rightarrow> int \<Rightarrow> Deadline \<Rightarrow>
     ('ch, 'sp, 't, 'v) ServerConnection \<times> DrainCall" where
  "server_shutdown_head s now deadline =
     (if server_shutdown_waits s now deadline
      then (s, Drain_polling deadline (now + poll_interval))
      else (server_shutdown_finish s, Drain_returned))"

definition server_shutdown ::
  "('ch, 'sp, 't, 'v) ServerConnection \<Rightarrow> int \<Rightarrow> int \<Rightarrow> int \<Rightarrow>
     ('ch, 'sp, 't, 'v) ServerConnection \<times> DrainCall" where
  "server_shutdown s now now' drain_period =
     server_shutdown_head (server_begin_shutdown s) now' (now + drain_period)"

definition server_shutdown_poll ::
  "('ch, 'sp, 't, 'v) ServerConnection \<Rightarrow> Deadline \<Rightarrow> int \<Rightarrow> bool \<Rightarrow>
     ('ch, 'sp, 't, 'v) ServerConnection \<times> DrainCall" where
  "server_shutdown_poll s deadline now err =
     (if err then (server_shutdown_finish s, Drain_returned) else server_shutdown_head s now deadline)"

definition server_write_completed ::
  "('ch, 'sp, 't, 'v) Env \<Rightarrow> ('ch, 'sp, 't, 'v) ServerConnection \<Rightarrow> string option \<Rightarrow>
     ('ch, 'sp, 't, 'v) ServerConnection" where
  "server_write_completed E s failure =
     (case writer_wrote (env_queue E) (sc_write_queue s) failure of
        (q, close_transport, observed) \<Rightarrow>
          (let s = s\<lparr>sc_write_queue := q,
                     sc_transport_open := sc_transport_open s \<and> \<not> close_transport\<rparr> in
           case observed of None \<Rightarrow> s | Some (f, bytes) \<Rightarrow> server_observe_write s f bytes))"

definition server_frame_received ::
  "('ch, 'sp, 't, 'v) Env \<Rightarrow> ('ch, 'sp, 't, 'v) ServerConnection \<Rightarrow> ('ch, 'sp, 't, 'v) ServerConnection" where
  "server_frame_received E s =
     s\<lparr>sc_write_queue := writer_received (env_queue E) (sc_write_queue s)\<rparr>"

end
