(* ===== verification/Server_Invariant.thy ===== *)
theory Server_Invariant
  imports Server_Connection Operation_Facts
begin

text \<open>
  The invariant of a server connection and the proof that every stretch of execution returns and
  keeps it. Its core \<open>table_inv\<close> says that the table of operations and the handler coroutines
  that have not ended correspond one to one, which makes the 64-bit counter of active handlers
  exact.
\<close>

section \<open>What the helpers leave alone\<close>

lemma update_task_frame [simp]:
  "sc_transport_open (update_task s i g) = sc_transport_open s"
  "sc_write_queue (update_task s i g) = sc_write_queue s"
  "sc_decoder (update_task s i g) = sc_decoder s"
  "sc_handlers (update_task s i g) = sc_handlers s"
  "sc_operations (update_task s i g) = sc_operations s"
  "sc_terminal_streams (update_task s i g) = sc_terminal_streams s"
  "sc_active_handlers (update_task s i g) = sc_active_handlers s"
  "sc_reading (update_task s i g) = sc_reading s"
  "sc_lifecycle (update_task s i g) = sc_lifecycle s"
  "sc_reader (update_task s i g) = sc_reader s"
  "sc_closed_notified (update_task s i g) = sc_closed_notified s"
  "length (sc_tasks (update_task s i g)) = length (sc_tasks s)"
  by (simp_all add: update_task_def)

lemma call_task_frame [simp]:
  "sc_transport_open (fst (call_task_operation s i m)) = sc_transport_open s"
  "sc_write_queue (fst (call_task_operation s i m)) = sc_write_queue s"
  "sc_decoder (fst (call_task_operation s i m)) = sc_decoder s"
  "sc_handlers (fst (call_task_operation s i m)) = sc_handlers s"
  "sc_operations (fst (call_task_operation s i m)) = sc_operations s"
  "sc_terminal_streams (fst (call_task_operation s i m)) = sc_terminal_streams s"
  "sc_active_handlers (fst (call_task_operation s i m)) = sc_active_handlers s"
  "sc_reading (fst (call_task_operation s i m)) = sc_reading s"
  "sc_lifecycle (fst (call_task_operation s i m)) = sc_lifecycle s"
  "sc_reader (fst (call_task_operation s i m)) = sc_reader s"
  "sc_closed_notified (fst (call_task_operation s i m)) = sc_closed_notified s"
  "length (sc_tasks (fst (call_task_operation s i m))) = length (sc_tasks s)"
  by (simp_all add: call_task_operation_def case_prod_beta)

lemma server_notify_frame [simp]:
  "sc_transport_open (server_notify s ev) = sc_transport_open s"
  "sc_write_queue (server_notify s ev) = sc_write_queue s"
  "sc_decoder (server_notify s ev) = sc_decoder s"
  "sc_handlers (server_notify s ev) = sc_handlers s"
  "sc_operations (server_notify s ev) = sc_operations s"
  "sc_terminal_streams (server_notify s ev) = sc_terminal_streams s"
  "sc_active_handlers (server_notify s ev) = sc_active_handlers s"
  "sc_reading (server_notify s ev) = sc_reading s"
  "sc_lifecycle (server_notify s ev) = sc_lifecycle s"
  "sc_reader (server_notify s ev) = sc_reader s"
  "sc_tasks (server_notify s ev) = sc_tasks s"
  by (simp_all add: server_notify_def)

lemma server_notify_closed_frame [simp]:
  "sc_transport_open (server_notify_closed s) = sc_transport_open s"
  "sc_write_queue (server_notify_closed s) = sc_write_queue s"
  "sc_decoder (server_notify_closed s) = sc_decoder s"
  "sc_handlers (server_notify_closed s) = sc_handlers s"
  "sc_operations (server_notify_closed s) = sc_operations s"
  "sc_terminal_streams (server_notify_closed s) = sc_terminal_streams s"
  "sc_active_handlers (server_notify_closed s) = sc_active_handlers s"
  "sc_reading (server_notify_closed s) = sc_reading s"
  "sc_lifecycle (server_notify_closed s) = sc_lifecycle s"
  "sc_reader (server_notify_closed s) = sc_reader s"
  "sc_tasks (server_notify_closed s) = sc_tasks s"
  by (simp_all add: server_notify_closed_def)

lemma server_mark_terminal_frame [simp]:
  "sc_transport_open (server_mark_terminal s f) = sc_transport_open s"
  "sc_write_queue (server_mark_terminal s f) = sc_write_queue s"
  "sc_decoder (server_mark_terminal s f) = sc_decoder s"
  "sc_handlers (server_mark_terminal s f) = sc_handlers s"
  "sc_operations (server_mark_terminal s f) = sc_operations s"
  "sc_active_handlers (server_mark_terminal s f) = sc_active_handlers s"
  "sc_reading (server_mark_terminal s f) = sc_reading s"
  "sc_lifecycle (server_mark_terminal s f) = sc_lifecycle s"
  "sc_reader (server_mark_terminal s f) = sc_reader s"
  "sc_tasks (server_mark_terminal s f) = sc_tasks s"
  by (simp_all add: server_mark_terminal_def)

lemma send_operation_error_frame [simp]:
  "sc_transport_open (send_operation_error E s sid st) = sc_transport_open s"
  "sc_decoder (send_operation_error E s sid st) = sc_decoder s"
  "sc_handlers (send_operation_error E s sid st) = sc_handlers s"
  "sc_operations (send_operation_error E s sid st) = sc_operations s"
  "sc_terminal_streams (send_operation_error E s sid st) = sc_terminal_streams s"
  "sc_active_handlers (send_operation_error E s sid st) = sc_active_handlers s"
  "sc_reading (send_operation_error E s sid st) = sc_reading s"
  "sc_lifecycle (send_operation_error E s sid st) = sc_lifecycle s"
  "sc_reader (send_operation_error E s sid st) = sc_reader s"
  "sc_tasks (send_operation_error E s sid st) = sc_tasks s"
  by (simp_all add: send_operation_error_def)

lemma close_when_idle_frame [simp]:
  "sc_transport_open (close_queue_when_idle E s) = sc_transport_open s"
  "sc_decoder (close_queue_when_idle E s) = sc_decoder s"
  "sc_handlers (close_queue_when_idle E s) = sc_handlers s"
  "sc_operations (close_queue_when_idle E s) = sc_operations s"
  "sc_terminal_streams (close_queue_when_idle E s) = sc_terminal_streams s"
  "sc_active_handlers (close_queue_when_idle E s) = sc_active_handlers s"
  "sc_reading (close_queue_when_idle E s) = sc_reading s"
  "sc_lifecycle (close_queue_when_idle E s) = sc_lifecycle s"
  "sc_reader (close_queue_when_idle E s) = sc_reader s"
  "sc_tasks (close_queue_when_idle E s) = sc_tasks s"
  by (simp_all add: close_queue_when_idle_def)

lemma server_fail_connection_frame [simp]:
  "\<not> sc_transport_open (server_fail_connection s st msg)"
  "sc_write_queue (server_fail_connection s st msg) = sc_write_queue s"
  "sc_decoder (server_fail_connection s st msg) = sc_decoder s"
  "sc_handlers (server_fail_connection s st msg) = sc_handlers s"
  "sc_operations (server_fail_connection s st msg) = sc_operations s"
  "sc_terminal_streams (server_fail_connection s st msg) = sc_terminal_streams s"
  "sc_active_handlers (server_fail_connection s st msg) = sc_active_handlers s"
  "sc_reading (server_fail_connection s st msg) = sc_reading s"
  "sc_lifecycle (server_fail_connection s st msg) = sc_lifecycle s"
  "sc_reader (server_fail_connection s st msg) = sc_reader s"
  "sc_tasks (server_fail_connection s st msg) = sc_tasks s"
  by (simp_all add: server_fail_connection_def Let_def)

lemma tasks_call:
  "sc_tasks (fst (call_task_operation s i m)) =
     (sc_tasks s)[i := (sc_tasks s ! i)
        \<lparr>task_operation := fst (op_call m (task_operation (sc_tasks s ! i)))\<rparr>]"
  by (simp add: call_task_operation_def case_prod_beta update_task_def)

lemma snd_call_task:
  "snd (call_task_operation s i m) = fst (snd (op_call m (task_operation (sc_tasks s ! i))))"
  by (simp add: call_task_operation_def case_prod_beta)

section \<open>The invariant of the table of operations\<close>

abbreviation task_stream :: "('t, 'v) HandlerTask \<Rightarrow> StreamId" where
  "task_stream t \<equiv> header_stream (frame_header (task_frame t))"

definition task_ok :: "(StreamId \<times> nat) list \<Rightarrow> nat \<Rightarrow> ('t, 'v) HandlerTask \<Rightarrow> bool" where
  "task_ok ops i t \<longleftrightarrow>
     op_inv (task_operation t) \<and> op_state (task_operation t) \<noteq> Operation_created \<and>
     op_stream (task_operation t) = task_stream t \<and> stream_is_valid (task_stream t) \<and>
     (task_phase t \<noteq> Task_done \<longrightarrow> map_of ops (task_stream t) = Some i) \<and>
     (\<forall>f. task_phase t = Task_sending f \<longrightarrow> representable f)"

definition table_inv :: "(StreamId \<times> nat) list \<Rightarrow> ('t, 'v) HandlerTask list \<Rightarrow> bool" where
  "table_inv ops tasks \<longleftrightarrow>
     distinct_keys ops \<and>
     (\<forall>sid i. map_of ops sid = Some i \<longrightarrow>
        i < length tasks \<and> task_phase (tasks ! i) \<noteq> Task_done \<and> task_stream (tasks ! i) = sid) \<and>
     (\<forall>i < length tasks. task_ok ops i (tasks ! i))"

lemma table_inv_task: "table_inv ops tasks \<Longrightarrow> i < length tasks \<Longrightarrow> task_ok ops i (tasks ! i)"
  by (simp add: table_inv_def)

lemma table_inv_entry:
  assumes "table_inv ops tasks" and "map_of ops sid = Some i"
  shows "i < length tasks" and "task_phase (tasks ! i) \<noteq> Task_done" and "task_stream (tasks ! i) = sid"
  using assms by (simp_all add: table_inv_def)

text \<open>A task changes while it goes on.\<close>

lemma table_inv_update:
  assumes inv: "table_inv ops tasks" and i: "i < length tasks" and "task_ok ops i t"
    and "task_frame t = task_frame (tasks ! i)"
    and "task_phase (tasks ! i) \<noteq> Task_done \<Longrightarrow> task_phase t \<noteq> Task_done"
  shows "table_inv ops (tasks[i := t])"
proof -
  have "task_stream (tasks[i := t] ! j) = task_stream (tasks ! j)" for j
    using assms(4) i by (cases "j = i") simp_all
  moreover have "task_phase (tasks[i := t] ! j) \<noteq> Task_done" if "task_phase (tasks ! j) \<noteq> Task_done" for j
    using assms(5) i that by (cases "j = i") simp_all
  moreover have "task_ok ops j (tasks[i := t] ! j)" if "j < length tasks" for j
    using table_inv_task [OF inv that] assms(3) i by (cases "j = i") simp_all
  ultimately show ?thesis
    using inv by (simp add: table_inv_def)
qed

text \<open>A task ends: it leaves the table.\<close>

lemma table_inv_finish:
  assumes inv: "table_inv ops tasks" and i: "i < length tasks" and "task_phase (tasks ! i) \<noteq> Task_done"
  shows "table_inv (AList.delete (task_stream (tasks ! i)) ops)
           (tasks[i := (tasks ! i)\<lparr>task_phase := Task_done\<rparr>])"
    and "length (AList.delete (task_stream (tasks ! i)) ops) + 1 = length ops"
proof -
  let ?sid = "task_stream (tasks ! i)" and ?ts = "tasks[i := (tasks ! i)\<lparr>task_phase := Task_done\<rparr>]"
  have here: "map_of ops ?sid = Some i"
    using table_inv_task [OF inv i] assms(3) by (simp add: task_ok_def)
  have "j < length ?ts \<and> task_phase (?ts ! j) \<noteq> Task_done \<and> task_stream (?ts ! j) = sid"
    if "map_of (AList.delete ?sid ops) sid = Some j" for sid j
  proof -
    from that have ne: "sid \<noteq> ?sid" and "map_of ops sid = Some j"
      by (auto simp: AList.delete_conv' split: if_splits)
    with table_inv_entry [OF inv this(2)] show ?thesis by (cases "j = i") simp_all
  qed
  moreover have "task_ok (AList.delete ?sid ops) j (?ts ! j)" if "j < length tasks" for j
  proof (cases "j = i")
    case True
    then show ?thesis using table_inv_task [OF inv i] i by (simp add: task_ok_def)
  next
    case False
    have "task_stream (tasks ! j) \<noteq> ?sid" if "task_phase (tasks ! j) \<noteq> Task_done"
      using table_inv_task [OF inv \<open>j < length tasks\<close>] here False that by (auto simp: task_ok_def)
    then show ?thesis
      using table_inv_task [OF inv that] False by (auto simp: task_ok_def AList.delete_conv')
  qed
  moreover have "distinct_keys (AList.delete ?sid ops)"
    using inv by (simp add: table_inv_def AList.distinct_delete)
  ultimately show "table_inv (AList.delete ?sid ops) ?ts" by (simp add: table_inv_def)
  show "length (AList.delete ?sid ops) + 1 = length ops"
    using inv unfolding table_inv_def by (intro length_delete_distinct [OF _ here]) blast
qed

text \<open>A request is accepted: its task is the newest.\<close>

lemma new_task_ok:
  "stream_is_valid (header_stream (frame_header f)) \<Longrightarrow>
     map_of ops (header_stream (frame_header f)) = Some i \<Longrightarrow> task_ok ops i (new_task types f)"
  by (simp add: task_ok_def new_task_def op_activate_def op_set_completion_handler_def
      new_operation_def operation_transition_def op_inv_def op_is_terminal_def Let_def)

lemma table_inv_register:
  assumes inv: "table_inv ops tasks" and free: "map_of ops (header_stream (frame_header f)) = None"
    and valid: "stream_is_valid (header_stream (frame_header f))"
  shows "table_inv ((header_stream (frame_header f), length tasks) # ops) (tasks @ [new_task types f])"
proof -
  let ?sid = "header_stream (frame_header f)" and ?ts = "tasks @ [new_task types f]"
  let ?ops = "(?sid, length tasks) # ops"
  have new: "task_stream (new_task types f) = ?sid" "task_phase (new_task types f) \<noteq> Task_done"
    by (simp_all add: new_task_def Let_def)
  have "i < length ?ts \<and> task_phase (?ts ! i) \<noteq> Task_done \<and> task_stream (?ts ! i) = sid"
    if "map_of ?ops sid = Some i" for sid i
    using that table_inv_entry [OF inv] new by (auto simp: nth_append split: if_splits)
  moreover have "task_ok ?ops i (?ts ! i)" if "i < length ?ts" for i
  proof (cases "i < length tasks")
    case True
    then show ?thesis
      using table_inv_task [OF inv True] free by (auto simp: task_ok_def nth_append)
  next
    case False
    with that have "i = length tasks" by simp
    moreover have "task_ok ?ops (length tasks) (new_task types f)"
      by (rule new_task_ok [OF valid]) simp
    ultimately show ?thesis by simp
  qed
  moreover have "distinct_keys ?ops"
    using inv free by (simp add: table_inv_def map_of_eq_None_iff)
  ultimately show ?thesis by (simp add: table_inv_def)
qed

text \<open>
  There are fewer than \<open>2^64\<close> entries, because the streams are valid identifiers and distinct: the
  counter of active handlers cannot wrap around.
\<close>

lemma table_inv_size:
  assumes inv: "table_inv ops tasks"
  shows "length ops < 2 ^ 64"
proof -
  let ?vs = "stream_value ` fst ` set ops"
  have "stream_is_valid sid" if sid: "sid \<in> fst ` set ops" for sid
  proof -
    obtain i where i: "map_of ops sid = Some i"
      using sid by (metis map_of_eq_None_iff not_Some_eq)
    note entry = table_inv_entry [OF inv i]
    show ?thesis using table_inv_task [OF inv entry(1)] entry(3) by (simp add: task_ok_def)
  qed
  then have "?vs \<subseteq> UNIV - {0}" by (auto simp: stream_is_valid_def)
  then have "card ?vs \<le> card (UNIV - {0 :: u64})" by (intro card_mono) simp_all
  also have "\<dots> < 2 ^ 64" by (simp add: card_Diff_subset card_word)
  also have "card ?vs = length ops"
  proof -
    have "card ?vs = card (fst ` set ops)"
      by (intro card_image) (auto simp: inj_on_def StreamId.expand)
    also have "\<dots> = length ops"
      using inv distinct_card [of "map fst ops"] by (simp add: table_inv_def)
    finally show ?thesis .
  qed
  finally show ?thesis .
qed

section \<open>The invariant of a connection\<close>

fun reader_ok :: "Reader \<Rightarrow> bool" where
  "reader_ok (Reader_dispatching fs) \<longleftrightarrow>
     list_all (\<lambda>f. stream_is_valid (header_stream (frame_header f))) fs"
| "reader_ok _ \<longleftrightarrow> True"

text \<open>
  \<open>server_core\<close> holds also between the end of the last handler, or of the read loop, and the
  closing of the queue that follows it.
\<close>

definition server_core ::
  "('ch \<Rightarrow> Frame ChannelView) \<Rightarrow> ('ch, 'sp, 't, 'v) ServerConnection \<Rightarrow> bool" where
  "server_core vf s \<longleftrightarrow>
     table_inv (sc_operations s) (sc_tasks s) \<and>
     sc_active_handlers s = word_of_nat (length (sc_operations s)) \<and>
     wq_inv vf (sc_write_queue s) \<and> dec_inv (sc_decoder s) \<and> resting (sc_lifecycle s) \<and>
     (sc_reading s \<longleftrightarrow> sc_reader s \<noteq> Reader_done) \<and> reader_ok (sc_reader s)"

definition server_inv ::
  "('ch \<Rightarrow> Frame ChannelView) \<Rightarrow> ('ch, 'sp, 't, 'v) ServerConnection \<Rightarrow> bool" where
  "server_inv vf s \<longleftrightarrow>
     server_core vf s \<and>
     (\<not> sc_reading s \<and> sc_operations s = [] \<longrightarrow> wq_closed (sc_write_queue s))"

text \<open>How far a handler's coroutine has come; it never goes back, and an ended one is not touched.\<close>

fun phase_rank :: "'v TaskPhase \<Rightarrow> nat" where
  "phase_rank Task_spawned = 0"
| "phase_rank (Task_running _) = 1"
| "phase_rank (Task_sending _) = 2"
| "phase_rank Task_done = 3"

lemma phase_rank_bounds [simp]:
  "phase_rank ph \<le> 3" "phase_rank ph \<le> 2 \<longleftrightarrow> ph \<noteq> Task_done"
  by (cases ph; simp)+

definition task_step :: "('t, 'v) HandlerTask \<Rightarrow> ('t, 'v) HandlerTask \<Rightarrow> bool" where
  "task_step t t' \<longleftrightarrow>
     task_frame t' = task_frame t \<and> task_types t' = task_types t \<and>
     op_step (task_operation t) (task_operation t') \<and>
     phase_rank (task_phase t) \<le> phase_rank (task_phase t') \<and>
     (task_phase t = Task_done \<longrightarrow> t' = t)"

definition tasks_le :: "('t, 'v) HandlerTask list \<Rightarrow> ('t, 'v) HandlerTask list \<Rightarrow> bool" where
  "tasks_le ts ts' \<longleftrightarrow> length ts \<le> length ts' \<and> (\<forall>i < length ts. task_step (ts ! i) (ts' ! i))"

definition server_advances ::
  "('ch \<Rightarrow> Frame ChannelView) \<Rightarrow> ('ch, 'sp, 't, 'v) ServerConnection \<Rightarrow>
     ('ch, 'sp, 't, 'v) ServerConnection \<Rightarrow> bool" where
  "server_advances vf s s' \<longleftrightarrow> server_inv vf s' \<and> tasks_le (sc_tasks s) (sc_tasks s')"

lemma task_step_refl [simp]: "task_step t t"
  by (simp add: task_step_def)

lemma task_step_trans: "task_step a b \<Longrightarrow> task_step b d \<Longrightarrow> task_step a d"
  using op_step_trans le_trans unfolding task_step_def by metis

lemma tasks_le_refl [simp]: "tasks_le ts ts"
  by (simp add: tasks_le_def)

lemma tasks_le_trans: "tasks_le a b \<Longrightarrow> tasks_le b d \<Longrightarrow> tasks_le a d"
  unfolding tasks_le_def by (meson le_trans less_le_trans task_step_trans)

lemma tasks_le_update: "task_step (ts ! i) t \<Longrightarrow> tasks_le ts (ts[i := t])"
  by (cases "i < length ts") (auto simp: tasks_le_def nth_list_update list_update_beyond)

lemma tasks_le_append [simp]: "tasks_le ts (ts @ xs)"
  by (simp add: tasks_le_def nth_append)

lemma server_advances_refl: "server_inv vf s \<Longrightarrow> server_advances vf s s"
  by (simp add: server_advances_def)

lemma server_advances_trans:
  "server_advances vf a b \<Longrightarrow> server_advances vf b d \<Longrightarrow> server_advances vf a d"
  unfolding server_advances_def using tasks_le_trans by blast

lemma server_advancesD: "server_advances vf s s' \<Longrightarrow> server_inv vf s'"
  by (simp add: server_advances_def)

lemma server_inv_core: "server_inv vf s \<Longrightarrow> server_core vf s"
  by (simp add: server_inv_def)

lemma server_core_parts:
  assumes "server_core vf s"
  shows "table_inv (sc_operations s) (sc_tasks s)"
    and "sc_active_handlers s = word_of_nat (length (sc_operations s))"
    and "wq_inv vf (sc_write_queue s)" and "dec_inv (sc_decoder s)"
    and "resting (sc_lifecycle s)" and "sc_reading s \<longleftrightarrow> sc_reader s \<noteq> Reader_done"
    and "reader_ok (sc_reader s)"
  using assms by (simp_all add: server_core_def)

text \<open>The counter is exact: it is zero only when no handler is active.\<close>

lemma active_handlers_zero:
  assumes "server_core vf s"
  shows "sc_active_handlers s = 0 \<longleftrightarrow> sc_operations s = []"
proof -
  have "length (sc_operations s) < 2 ^ 64"
    by (rule table_inv_size [OF server_core_parts(1) [OF assms]])
  then have "unat (sc_active_handlers s) = length (sc_operations s)"
    by (simp add: server_core_parts(2) [OF assms] unat_of_nat take_bit_nat_eq_self)
  then show ?thesis by (metis length_0_conv unat_eq_zero)
qed

lemma new_server_inv:
  "queue_env (env_queue E) vf vs \<Longrightarrow> server_inv vf (new_server E lim hook)"
  by (simp add: server_inv_def server_core_def new_server_def table_inv_def new_write_queue_inv
      new_decoder_inv resting_def)

text \<open>Changes to components the invariant does not mention.\<close>

lemma server_core_frame:
  assumes "server_core vf s" and "sc_operations s' = sc_operations s" and "sc_tasks s' = sc_tasks s"
    and "sc_active_handlers s' = sc_active_handlers s" and "wq_inv vf (sc_write_queue s')"
    and "dec_inv (sc_decoder s')" and "resting (sc_lifecycle s')" and "sc_reading s' = sc_reading s"
    and "sc_reader s' = sc_reader s"
  shows "server_core vf s'"
  using assms by (simp add: server_core_def)

lemma server_inv_frame:
  assumes "server_inv vf s" and "sc_operations s' = sc_operations s" and "sc_tasks s' = sc_tasks s"
    and "sc_active_handlers s' = sc_active_handlers s" and "wq_inv vf (sc_write_queue s')"
    and "dec_inv (sc_decoder s')" and "resting (sc_lifecycle s')" and "sc_reading s' = sc_reading s"
    and "sc_reader s' = sc_reader s"
    and "wq_closed (sc_write_queue s) \<Longrightarrow> wq_closed (sc_write_queue s')"
  shows "server_advances vf s s'"
  using assms server_core_frame [of vf s s'] by (auto simp: server_advances_def server_inv_def)

section \<open>The write queue of a connection\<close>

lemma closed_stays:
  assumes "wq_closed q"
  shows "wq_closed (fst (try_enqueue Q q f))" and "wq_closed (writer_received Q q)"
    and "wq_closed (fst (writer_wrote Q q failure))" and "wq_closed (writer_loop Q q)"
    and "wq_closed (close_queue Q q)"
  using assms
  by (simp_all add: closed_try_enqueue writer_received_def writer_wrote_def writer_loop_def
      close_queue_def case_prod_beta Let_def split: ChannelEvent.split Writer.split option.split)

lemma error_frame_representable: "representable (make_error_frame sid st)"
  by (simp add: representable_def frame_bytes_def error_frame_payload frame_header_size_def)

lemma send_operation_error_wq:
  assumes "queue_env (env_queue E) vf vs" and "wq_inv vf (sc_write_queue s)"
  shows "wq_inv vf (sc_write_queue (send_operation_error E s sid st))"
  using try_enqueue_step [OF assms error_frame_representable, of sid st]
  by (cases "try_enqueue (env_queue E) (sc_write_queue s) (make_error_frame sid st)")
    (simp add: send_operation_error_def)

lemma send_operation_error_closed:
  "wq_closed (sc_write_queue s) \<Longrightarrow> wq_closed (sc_write_queue (send_operation_error E s sid st))"
  by (simp add: send_operation_error_def closed_stays)

lemma send_operation_error_core:
  assumes "queue_env (env_queue E) vf vs" and "server_core vf s"
  shows "server_core vf (send_operation_error E s sid st)"
  using assms send_operation_error_wq [OF assms(1) server_core_parts(3) [OF assms(2)]]
  by (intro server_core_frame [OF assms(2)]) (simp_all add: server_core_parts)

lemma close_when_idle_inv:
  assumes env: "queue_env (env_queue E) vf vs" and core: "server_core vf s"
  shows "server_inv vf (close_queue_when_idle E s)"
proof -
  let ?s' = "close_queue_when_idle E s"
  have "wq_inv vf (sc_write_queue ?s')"
    using close_queue_inv(1) [OF env server_core_parts(3) [OF core]] server_core_parts(3) [OF core]
    by (simp add: close_queue_when_idle_def)
  then have "server_core vf ?s'"
    using core by (intro server_core_frame [OF core]) (simp_all add: server_core_parts)
  moreover have "wq_closed (sc_write_queue ?s')" if "\<not> sc_reading s" "sc_operations s = []"
    using that active_handlers_zero [OF core] by (simp add: close_queue_when_idle_def close_queue_def)
  ultimately show ?thesis by (simp add: server_inv_def)
qed

section \<open>Operations and handlers\<close>

lemma call_task_table:
  assumes inv: "table_inv ops (sc_tasks s)" and i: "i < length (sc_tasks s)"
    and live: "task_phase (sc_tasks s ! i) \<noteq> Task_done"
  shows "table_inv ops (sc_tasks (fst (call_task_operation s i m)))"
    and "tasks_le (sc_tasks s) (sc_tasks (fst (call_task_operation s i m)))"
proof -
  let ?t = "(sc_tasks s ! i)\<lparr>task_operation := fst (op_call m (task_operation (sc_tasks s ! i)))\<rparr>"
  have "task_ok ops i ?t"
    using table_inv_task [OF inv i] by (simp add: task_ok_def op_call_inv op_call_not_created)
  then show "table_inv ops (sc_tasks (fst (call_task_operation s i m)))"
    unfolding tasks_call by (intro table_inv_update [OF inv i]) simp_all
  show "tasks_le (sc_tasks s) (sc_tasks (fst (call_task_operation s i m)))"
    unfolding tasks_call using live by (intro tasks_le_update) (simp add: task_step_def)
qed

lemma call_task_core:
  assumes "server_core vf s" and "i < length (sc_tasks s)"
    and "task_phase (sc_tasks s ! i) \<noteq> Task_done"
  shows "server_core vf (fst (call_task_operation s i m))"
  using assms call_task_table(1) [OF server_core_parts(1) [OF assms(1)] assms(2,3)]
  by (simp add: server_core_def)

lemma call_task_advances:
  assumes "server_inv vf s" and "i < length (sc_tasks s)"
    and "task_phase (sc_tasks s ! i) \<noteq> Task_done"
  shows "server_advances vf s (fst (call_task_operation s i m))"
  using assms call_task_core [OF server_inv_core [OF assms(1)] assms(2,3)]
    call_task_table(2) [OF server_core_parts(1) [OF server_inv_core [OF assms(1)]] assms(2,3)]
  by (simp add: server_advances_def server_inv_def)

text \<open>A handler goes on to its next suspension point.\<close>

lemma phase_core:
  assumes core: "server_core vf s" and i: "i < length (sc_tasks s)"
    and "task_phase (sc_tasks s ! i) \<noteq> Task_done" and "ph \<noteq> Task_done"
    and "phase_rank (task_phase (sc_tasks s ! i)) \<le> phase_rank ph"
    and "\<And>f. ph = Task_sending f \<Longrightarrow> representable f"
  shows "server_core vf (update_task s i (\<lambda>t. t\<lparr>task_phase := ph\<rparr>))"
    and "tasks_le (sc_tasks s) (sc_tasks (update_task s i (\<lambda>t. t\<lparr>task_phase := ph\<rparr>)))"
proof -
  note table = server_core_parts(1) [OF core]
  have "task_ok (sc_operations s) i ((sc_tasks s ! i)\<lparr>task_phase := ph\<rparr>)"
    using table_inv_task [OF table i] assms(3-) by (simp add: task_ok_def)
  then have "table_inv (sc_operations s) ((sc_tasks s)[i := (sc_tasks s ! i)\<lparr>task_phase := ph\<rparr>])"
    using assms(4) by (intro table_inv_update [OF table i]) simp_all
  then show "server_core vf (update_task s i (\<lambda>t. t\<lparr>task_phase := ph\<rparr>))"
    using core by (simp add: server_core_def update_task_def)
  show "tasks_le (sc_tasks s) (sc_tasks (update_task s i (\<lambda>t. t\<lparr>task_phase := ph\<rparr>)))"
    using assms(3,5) by (simp add: update_task_def) (intro tasks_le_update, simp add: task_step_def)
qed

lemma run_handler_end_inv:
  assumes env: "queue_env (env_queue E) vf vs" and core: "server_core vf s"
    and i: "i < length (sc_tasks s)" and live: "task_phase (sc_tasks s ! i) \<noteq> Task_done"
  shows "server_inv vf (run_handler_end E s i)"
    and "tasks_le (sc_tasks s) (sc_tasks (run_handler_end E s i))"
proof -
  let ?ops = "AList.delete (task_stream (sc_tasks s ! i)) (sc_operations s)"
  let ?s1 = "update_task (s\<lparr>sc_operations := ?ops, sc_active_handlers := sc_active_handlers s - 1\<rparr>) i
    (\<lambda>t. t\<lparr>task_phase := Task_done\<rparr>)"
  note fin = table_inv_finish [OF server_core_parts(1) [OF core] i live]
  have "sc_active_handlers s - 1 = word_of_nat (length ?ops)"
    using server_core_parts(2) [OF core] fin(2) by (metis add_diff_cancel_right' of_nat_1 of_nat_add)
  then have "server_core vf ?s1"
    using core fin(1) by (simp add: server_core_def update_task_def)
  then show "server_inv vf (run_handler_end E s i)"
    using close_when_idle_inv [OF env] by (simp add: run_handler_end_def Let_def)
  show "tasks_le (sc_tasks s) (sc_tasks (run_handler_end E s i))"
    using live by (simp add: run_handler_end_def Let_def update_task_def)
      (intro tasks_le_update, simp add: task_step_def)
qed

lemma handler_started_advances:
  assumes env: "queue_env (env_queue E) vf vs" and inv: "server_inv vf s"
    and i: "i < length (sc_tasks s)" and phase: "task_phase (sc_tasks s ! i) = Task_spawned"
  shows "server_advances vf s (handler_started E s i)"
proof -
  define request where "request = decode_message (env_codec E) (env_registry E)
    (handler_request (task_types (sc_tasks s ! i))) (task_frame (sc_tasks s ! i))"
  note core = server_inv_core [OF inv]
  show ?thesis
  proof (cases "decode_ok request")
    case True
    let ?ph = "Task_running (the (decode_value request))"
    have "server_inv vf (update_task s i (\<lambda>t. t\<lparr>task_phase := ?ph\<rparr>))"
      using phase_core(1) [OF core i, of ?ph] phase inv by (simp add: server_inv_def)
    then show ?thesis
      using True phase_core(2) [OF core i, of ?ph] phase
      by (simp add: handler_started_def request_def server_advances_def Let_def)
  next
    case False
    let ?s1 = "fst (call_task_operation s i
      (Call_fail (decode_status request) (decode_message_text request)))"
    let ?s2 = "send_operation_error E ?s1 (task_stream (sc_tasks s ! i)) (decode_status request)"
    have "server_core vf ?s2"
      using phase by (intro send_operation_error_core [OF env] call_task_core core i) simp
    moreover have "task_phase (sc_tasks ?s2 ! i) \<noteq> Task_done" using phase i by (simp add: tasks_call)
    moreover have "i < length (sc_tasks ?s2)" using i by simp
    ultimately have "server_inv vf (run_handler_end E ?s2 i)"
      "tasks_le (sc_tasks ?s2) (sc_tasks (run_handler_end E ?s2 i))"
      using run_handler_end_inv [OF env, of ?s2 i] by blast+
    moreover have "tasks_le (sc_tasks s) (sc_tasks ?s2)"
      using call_task_table(2) [OF server_core_parts(1) [OF core] i] phase by simp
    moreover have "handler_started E s i = run_handler_end E ?s2 i"
      using False by (simp add: handler_started_def request_def Let_def)
    ultimately show ?thesis using tasks_le_trans by (simp add: server_advances_def) blast
  qed
qed

lemma handler_sent_advances:
  assumes env: "queue_env (env_queue E) vf vs" and core: "server_core vf s"
    and i: "i < length (sc_tasks s)" and live: "task_phase (sc_tasks s ! i) \<noteq> Task_done"
    and "wq_inv vf q" and "representable f"
  shows "server_inv vf (handler_sent E s i f (q, res))"
    and "tasks_le (sc_tasks s) (sc_tasks (handler_sent E s i f (q, res)))"
proof -
  let ?s1 = "s\<lparr>sc_write_queue := q\<rparr>"
  have core1: "server_core vf ?s1"
    using assms(5) by (intro server_core_frame [OF core]) (simp_all add: server_core_parts [OF core])
  have live1: "task_phase (sc_tasks ?s1 ! i) \<noteq> Task_done" and i1: "i < length (sc_tasks ?s1)"
    using live i by simp_all
  have "sc_operations s \<noteq> []"
    using table_inv_task [OF server_core_parts(1) [OF core] i] live by (auto simp: task_ok_def)
  then have sending: "server_inv vf (update_task ?s1 i (\<lambda>t. t\<lparr>task_phase := Task_sending f\<rparr>))"
    using phase_core(1) [OF core1 i1 live1, of "Task_sending f"] assms(6) live by (simp add: server_inv_def)
  show "server_inv vf (handler_sent E s i f (q, res))"
    using sending run_handler_end_inv(1) [OF env core1 i1 live1]
    by (simp add: handler_sent_def Let_def split: option.split)
  show "tasks_le (sc_tasks s) (sc_tasks (handler_sent E s i f (q, res)))"
    using phase_core(2) [OF core1 i1 live1, of "Task_sending f"] assms(6) live
      run_handler_end_inv(2) [OF env core1 i1 live1]
    by (simp add: handler_sent_def Let_def split: option.split)
qed

lemma response_representable:
  assumes "frame_encode_ok encoded"
    and "encoded = encode_message C reg ty v sid ft fl mx version"
  shows "representable ((the (frame_encode_frame encoded))\<lparr>frame_header := h\<rparr>)"
proof -
  obtain p where p: "length p \<le> unat mx" "encoded = FrameEncodeResult_success
      \<lparr>frame_header = \<lparr>header_version = version, header_type = ft, header_flags = fl,
         header_stream = sid, header_payload_size = word_of_nat (length p)\<rparr>, frame_payload = p\<rparr>"
    using encode_message_ok [OF assms(1) [unfolded assms(2)]] assms(2) by metis
  moreover have "unat mx < 2 ^ 32" using unsigned_less [of mx] by simp
  ultimately show ?thesis
    by (simp add: representable_def frame_bytes_def frame_header_size_def
        FrameEncodeResult_success_def)
qed

lemma handler_returned_advances:
  assumes env: "queue_env (env_queue E) vf vs" and inv: "server_inv vf s"
    and i: "i < length (sc_tasks s)" and live: "task_phase (sc_tasks s ! i) \<noteq> Task_done"
  shows "server_advances vf s (handler_returned E s i outcome)"
proof -
  note core = server_inv_core [OF inv]
  note fin = run_handler_end_inv [OF env core i live]
  show ?thesis
  proof (cases outcome)
    case None
    then show ?thesis using fin by (simp add: handler_returned_def server_advances_def)
  next
    case (Some response)
    let ?t = "sc_tasks s ! i"
    define encoded where "encoded = encode_message (env_codec E) (env_registry E)
      (handler_response (task_types ?t)) response (task_stream ?t) FrameType_response Flags_none
      default_max_payload_size current_protocol_version"
    let ?s1 = "fst (call_task_operation s i (Call_complete ''response ready''))"
    have core1: "server_core vf ?s1" by (rule call_task_core [OF core i live])
    have live1: "task_phase (sc_tasks ?s1 ! i) \<noteq> Task_done" and i1: "i < length (sc_tasks ?s1)"
      using live i by (simp_all add: tasks_call)
    note le1 = call_task_table(2) [OF server_core_parts(1) [OF core] i live, of "Call_complete ''response ready''"]
    note fin1 = run_handler_end_inv [OF env core1 i1 live1]
    let ?f = "the (frame_encode_frame encoded)"
    let ?g = "?f\<lparr>frame_header := (frame_header ?f)
      \<lparr>header_flags := flags_or (header_flags (frame_header ?f)) Flags_end_of_stream\<rparr>\<rparr>"
    obtain q res where q: "enqueue (env_queue E) (sc_write_queue ?s1) ?g = (q, res)" by fastforce
    have eq: "handler_returned E s i outcome =
      (if \<not> frame_encode_ok encoded then run_handler_end E s i
       else if \<not> snd (call_task_operation s i (Call_complete ''response ready''))
       then run_handler_end E ?s1 i else handler_sent E ?s1 i ?g (q, res))"
      using q by (simp add: handler_returned_def Some encoded_def case_prod_beta Let_def)
    have "server_inv vf (handler_sent E ?s1 i ?g (q, res))"
      and "tasks_le (sc_tasks ?s1) (sc_tasks (handler_sent E ?s1 i ?g (q, res)))"
      if "frame_encode_ok encoded"
    proof -
      have "representable ?g" by (rule response_representable [OF that encoded_def])
      moreover have "wq_inv vf q"
        using enqueue_step [OF env server_core_parts(3) [OF core1] \<open>representable ?g\<close> q] by blast
      ultimately show "server_inv vf (handler_sent E ?s1 i ?g (q, res))"
        and "tasks_le (sc_tasks ?s1) (sc_tasks (handler_sent E ?s1 i ?g (q, res)))"
        using handler_sent_advances [OF env core1 i1 live1] by blast+
    qed
    then show ?thesis
      using fin fin1 le1 tasks_le_trans [OF le1] unfolding eq server_advances_def by auto
  qed
qed

lemma handler_resumed_advances:
  assumes env: "queue_env (env_queue E) vf vs" and inv: "server_inv vf s"
    and i: "i < length (sc_tasks s)" and phase: "task_phase (sc_tasks s ! i) = Task_sending f"
  shows "server_advances vf s (handler_resumed E msg s i f)"
proof -
  note core = server_inv_core [OF inv]
  obtain q res where q: "enqueue_resume (env_queue E) msg (sc_write_queue s) f = (q, res)" by fastforce
  have "representable f"
    using table_inv_task [OF server_core_parts(1) [OF core] i] phase by (simp add: task_ok_def)
  moreover have "wq_inv vf q"
    using enqueue_resume_step [OF env server_core_parts(3) [OF core] \<open>representable f\<close> q] by blast
  ultimately show ?thesis
    using handler_sent_advances [OF env core i] phase q
    by (simp add: handler_resumed_def server_advances_def)
qed

section \<open>Dispatching\<close>

lemma server_dispatch_advances:
  assumes env: "queue_env (env_queue E) vf vs" and inv: "server_inv vf s"
    and valid: "stream_is_valid (header_stream (frame_header f))" and reading: "sc_reading s"
  shows "server_advances vf s (server_dispatch E s f)"
proof -
  let ?sid = "header_stream (frame_header f)"
  note core = server_inv_core [OF inv]
  note parts = server_core_parts [OF core]
  have err: "server_advances vf s (server_mark_terminal (send_operation_error E s ?sid st) f)" for st
    using send_operation_error_wq [OF env parts(3)] parts send_operation_error_closed
    by (intro server_inv_frame [OF inv]) simp_all
  have fail: "server_advances vf s (server_fail_connection s st msg)" for st msg
    using parts by (intro server_inv_frame [OF inv]) simp_all
  have cancel: "server_advances vf s (server_mark_terminal (fst (call_task_operation s i m)) f)"
    if "map_of (sc_operations s) ?sid = Some i" for i m
  proof -
    have adv: "server_advances vf s (fst (call_task_operation s i m))"
      by (rule call_task_advances [OF inv table_inv_entry(1,2) [OF parts(1) that]])
    have "server_advances vf (fst (call_task_operation s i m))
      (server_mark_terminal (fst (call_task_operation s i m)) f)"
      using server_core_parts [OF server_inv_core [OF server_advancesD [OF adv]]]
      by (intro server_inv_frame [OF server_advancesD [OF adv]]) simp_all
    then show ?thesis by (rule server_advances_trans [OF adv])
  qed
  have dup: "server_advances vf s (s\<lparr>sc_transport_open := False\<rparr>)"
    using parts by (intro server_inv_frame [OF inv]) simp_all
  have accept: "server_advances vf s (let s = s\<lparr>sc_tasks := sc_tasks s @ [new_task types f],
        sc_operations := (?sid, length (sc_tasks s)) # sc_operations s\<rparr>;
      s = server_notify s (diagnostics_event Event_request_started ?sid Status_ok 0 False []) in
    s\<lparr>sc_active_handlers := sc_active_handlers s + 1\<rparr>)"
    if "map_of (sc_operations s) ?sid = None" for types
    using table_inv_register [OF parts(1) that valid, of types] core reading
    by (simp add: server_advances_def server_inv_def server_core_def Let_def)
  show ?thesis
    unfolding server_dispatch_def Let_def
    using err fail cancel dup accept by (simp add: Let_def split: option.split)
qed

section \<open>Losing the connection\<close>

definition connection_lost_op :: "DiagnosticsEvent Operation \<Rightarrow> DiagnosticsEvent Operation" where
  "connection_lost_op opn =
     fst (op_call (Call_fail Status_connection_closed ''connection closed while processing a request'')
       (fst (op_call Call_request_cancellation opn)))"

lemma fail_operation_tasks:
  "i < length (sc_tasks s) \<Longrightarrow>
     sc_tasks (fail_operation s i) =
       (sc_tasks s)[i := (sc_tasks s ! i)
          \<lparr>task_operation := connection_lost_op (task_operation (sc_tasks s ! i))\<rparr>]"
  by (simp add: fail_operation_def tasks_call connection_lost_op_def Let_def)

definition same_server_wiring ::
  "('ch, 'sp, 't, 'v) ServerConnection \<Rightarrow> ('ch, 'sp, 't, 'v) ServerConnection \<Rightarrow> bool" where
  "same_server_wiring s s' \<longleftrightarrow>
     sc_transport_open s' = sc_transport_open s \<and> sc_write_queue s' = sc_write_queue s \<and>
     sc_decoder s' = sc_decoder s \<and> sc_operations s' = sc_operations s \<and>
     sc_terminal_streams s' = sc_terminal_streams s \<and>
     sc_active_handlers s' = sc_active_handlers s \<and> sc_reading s' = sc_reading s \<and>
     sc_lifecycle s' = sc_lifecycle s \<and> sc_reader s' = sc_reader s \<and>
     length (sc_tasks s') = length (sc_tasks s)"

lemma fail_operation_wiring: "same_server_wiring s (fail_operation s i)"
  by (simp add: same_server_wiring_def fail_operation_def Let_def)

lemma same_server_wiring_trans:
  "same_server_wiring a b \<Longrightarrow> same_server_wiring b d \<Longrightarrow> same_server_wiring a d"
  by (simp add: same_server_wiring_def)

text \<open>The loop over any list of distinct tasks.\<close>

lemma foldl_fail_operation:
  assumes "distinct (map snd ps)" and "\<forall>p \<in> set ps. snd p < length (sc_tasks s)"
  defines "s' \<equiv> foldl (\<lambda>s (_, i). fail_operation s i) s ps"
  shows "same_server_wiring s s' \<and> (\<forall>i < length (sc_tasks s). sc_tasks s' ! i =
     (if i \<in> snd ` set ps then (sc_tasks s ! i)
          \<lparr>task_operation := connection_lost_op (task_operation (sc_tasks s ! i))\<rparr>
      else sc_tasks s ! i))"
  unfolding s'_def using assms(1,2)
proof (induction ps arbitrary: s)
  case Nil
  then show ?case by (simp add: same_server_wiring_def)
next
  case (Cons p ps)
  obtain sid j where p: "p = (sid, j)" by fastforce
  let ?s1 = "fail_operation s j"
  have j: "j < length (sc_tasks s)" using Cons.prems(2) p by simp
  have w: "same_server_wiring s ?s1" by (rule fail_operation_wiring)
  then have len: "length (sc_tasks ?s1) = length (sc_tasks s)" by (simp add: same_server_wiring_def)
  have IH: "same_server_wiring ?s1 (foldl (\<lambda>s (_, i). fail_operation s i) ?s1 ps) \<and>
    (\<forall>i < length (sc_tasks ?s1). sc_tasks (foldl (\<lambda>s (_, i). fail_operation s i) ?s1 ps) ! i =
     (if i \<in> snd ` set ps then (sc_tasks ?s1 ! i)
          \<lparr>task_operation := connection_lost_op (task_operation (sc_tasks ?s1 ! i))\<rparr>
      else sc_tasks ?s1 ! i))"
    using Cons.prems len by (intro Cons.IH) simp_all
  have out: "j \<notin> snd ` set ps" using Cons.prems(1) p by simp
  have "sc_tasks (foldl (\<lambda>s (_, i). fail_operation s i) ?s1 ps) ! i =
    (if i = j \<or> i \<in> snd ` set ps then (sc_tasks s ! i)
       \<lparr>task_operation := connection_lost_op (task_operation (sc_tasks s ! i))\<rparr>
     else sc_tasks s ! i)" if i: "i < length (sc_tasks s)" for i
  proof (cases "i = j")
    case True
    then show ?thesis using IH i out len by (simp add: fail_operation_tasks [OF j])
  next
    case False
    then show ?thesis using IH i len by (simp add: fail_operation_tasks [OF j])
  qed
  moreover have "same_server_wiring s (foldl (\<lambda>s (_, i). fail_operation s i) ?s1 ps)"
    using IH same_server_wiring_trans [OF w] by blast
  ultimately show ?case by (simp add: p)
qed

lemma table_inv_distinct_tasks:
  assumes inv: "table_inv ops tasks"
  shows "distinct (map snd ops)"
proof -
  have keys: "distinct_keys ops" using inv unfolding table_inv_def by blast
  have "sid = sid'" if "(sid, i) \<in> set ops" "(sid', i) \<in> set ops" for sid sid' i
    using that table_inv_entry(3) [OF inv] map_of_distinct_mem [OF keys] by metis
  then have "inj_on snd (set ops)" by (auto simp: inj_on_def)
  moreover have "distinct ops" using keys unfolding distinct_map by blast
  ultimately show ?thesis by (simp add: distinct_map)
qed

text \<open>Every task in the table, and no other, is told that the connection is gone.\<close>

lemma fail_operations_effect:
  assumes inv: "table_inv (sc_operations s) (sc_tasks s)"
  shows "same_server_wiring s (fail_operations_on_connection_close s)"
    and "i < length (sc_tasks s) \<Longrightarrow> sc_tasks (fail_operations_on_connection_close s) ! i =
     (if task_phase (sc_tasks s ! i) \<noteq> Task_done then (sc_tasks s ! i)
          \<lparr>task_operation := connection_lost_op (task_operation (sc_tasks s ! i))\<rparr>
      else sc_tasks s ! i)"
proof -
  have keys: "distinct_keys (sc_operations s)" using inv unfolding table_inv_def by blast
  have mem: "(sid, i) \<in> set (sc_operations s) \<longleftrightarrow> map_of (sc_operations s) sid = Some i" for sid i
    using map_of_distinct_mem [OF keys] by blast
  have "\<forall>p \<in> set (sc_operations s). snd p < length (sc_tasks s)"
    using table_inv_entry(1) [OF inv] mem by (metis prod.collapse)
  note eff = foldl_fail_operation [OF table_inv_distinct_tasks [OF inv] this]
  show "same_server_wiring s (fail_operations_on_connection_close s)"
    unfolding fail_operations_on_connection_close_def using eff by blast
  show "sc_tasks (fail_operations_on_connection_close s) ! i =
     (if task_phase (sc_tasks s ! i) \<noteq> Task_done then (sc_tasks s ! i)
          \<lparr>task_operation := connection_lost_op (task_operation (sc_tasks s ! i))\<rparr>
      else sc_tasks s ! i)" if i: "i < length (sc_tasks s)"
  proof -
    have "i \<in> snd ` set (sc_operations s) \<longleftrightarrow> task_phase (sc_tasks s ! i) \<noteq> Task_done"
    proof
      assume "i \<in> snd ` set (sc_operations s)"
      then obtain sid where "(sid, i) \<in> set (sc_operations s)" by auto
      then show "task_phase (sc_tasks s ! i) \<noteq> Task_done" using table_inv_entry(2) [OF inv] mem by blast
    next
      assume "task_phase (sc_tasks s ! i) \<noteq> Task_done"
      then have "map_of (sc_operations s) (task_stream (sc_tasks s ! i)) = Some i"
        using table_inv_task [OF inv i] by (simp add: task_ok_def)
      then show "i \<in> snd ` set (sc_operations s)" using mem by force
    qed
    then show ?thesis
      unfolding fail_operations_on_connection_close_def using eff i by simp
  qed
qed

end
