(* ===== verification/Server_Behaviour.thy ===== *)
theory Server_Behaviour
  imports Server_Invariant
begin

text \<open>
  The rest of the stretches of execution of a server connection: losing the connection, the read
  loop, running and shutting down. The events that can happen to a connection, the states it can
  reach, and the theorem that every enabled event returns and keeps the invariant.
\<close>

section \<open>Failing the operations of a lost connection\<close>

lemma connection_lost_op_step [simp]: "op_step opn (connection_lost_op opn)"
  unfolding connection_lost_op_def by (rule op_step_trans [OF op_step_call op_step_call])

lemma connection_lost_op_inv [simp]:
  "op_inv opn \<Longrightarrow> op_inv (connection_lost_op opn)"
  "op_state opn \<noteq> Operation_created \<Longrightarrow> op_state (connection_lost_op opn) \<noteq> Operation_created"
  "op_stream (connection_lost_op opn) = op_stream opn"
  using connection_lost_op_step [of opn]
  by (simp_all add: connection_lost_op_def op_call_inv op_call_not_created op_step_def)

text \<open>An operation not yet settled gets the result \<open>connection_closed\<close> and its flag is raised.\<close>

lemma connection_lost_op_active:
  assumes "op_state opn = Operation_active"
  shows "op_result (connection_lost_op opn) =
      Some (OperationResult_failure Status_connection_closed
        ''connection closed while processing a request'')"
    and "op_cancellation_requested (connection_lost_op opn)"
  using assms
  by (simp_all add: connection_lost_op_def op_call.simps op_method_defs op_is_terminal_def
      operation_transition_def)

lemma fail_operations_core:
  assumes core: "server_core vf s"
  shows "server_core vf (fail_operations_on_connection_close s)"
    and "tasks_le (sc_tasks s) (sc_tasks (fail_operations_on_connection_close s))"
proof -
  let ?s' = "fail_operations_on_connection_close s"
  note table = server_core_parts(1) [OF core]
  note eff = fail_operations_effect [OF table]
  have len: "length (sc_tasks ?s') = length (sc_tasks s)"
    and ops: "sc_operations ?s' = sc_operations s"
    using eff(1) by (simp_all add: same_server_wiring_def)
  have same: "task_frame (sc_tasks ?s' ! i) = task_frame (sc_tasks s ! i)"
    "task_phase (sc_tasks ?s' ! i) = task_phase (sc_tasks s ! i)"
    "task_ok (sc_operations s) i (sc_tasks ?s' ! i)"
    if "i < length (sc_tasks s)" for i
    using eff(2) [OF that] table_inv_task [OF table that] by (simp_all add: task_ok_def)
  have "table_inv (sc_operations s) (sc_tasks ?s')"
    using table same len by (simp add: table_inv_def)
  then show "server_core vf ?s'"
    using core eff(1) by (simp add: server_core_def same_server_wiring_def)
  show "tasks_le (sc_tasks s) (sc_tasks ?s')"
    using eff(2) len by (simp add: tasks_le_def task_step_def)
qed

section \<open>The read loop\<close>

lemma server_notify_advances:
  "server_inv vf s \<Longrightarrow> server_advances vf s (server_notify s ev)"
  using server_core_parts [OF server_inv_core, of vf s]
  by (intro server_inv_frame [of vf s]) simp_all

lemma close_transport_advances:
  assumes "server_inv vf s"
  shows "server_advances vf s (s\<lparr>sc_transport_open := b\<rparr>)"
  using server_core_parts [OF server_inv_core [OF assms]]
  by (intro server_inv_frame [OF assms]) simp_all

lemma server_read_exit_advances:
  assumes env: "queue_env (env_queue E) vf vs" and inv: "server_inv vf s"
  shows "server_advances vf s (server_read_exit E s lost)"
proof -
  let ?s1 = "if lost then fail_operations_on_connection_close s else s"
  let ?s2 = "close_queue_when_idle E (?s1\<lparr>sc_reading := False, sc_reader := Reader_done\<rparr>)"
  note core = server_inv_core [OF inv]
  have core1: "server_core vf ?s1" using core fail_operations_core(1) [OF core] by simp
  have le1: "tasks_le (sc_tasks s) (sc_tasks ?s1)" using fail_operations_core(2) [OF core] by simp
  have "server_core vf (?s1\<lparr>sc_reading := False, sc_reader := Reader_done\<rparr>)"
    using core1 by (simp add: server_core_def)
  then have inv2: "server_inv vf ?s2" by (rule close_when_idle_inv [OF env])
  have "server_advances vf ?s2 (server_notify_closed
     (?s2\<lparr>sc_lifecycle := fst (connection_transition (sc_lifecycle ?s2) Connection_closed)\<rparr>))"
    using server_core_parts [OF server_inv_core [OF inv2]] transition_closed [of "sc_lifecycle s"]
    by (intro server_inv_frame [OF inv2]) (simp_all add: resting_closed)
  moreover have "server_advances vf s ?s2" using inv2 le1 by (simp add: server_advances_def)
  ultimately show ?thesis
    unfolding server_read_exit_def Let_def by (rule server_advances_trans [rotated])
qed

lemma server_read_head_advances:
  assumes env: "queue_env (env_queue E) vf vs" and inv: "server_inv vf s" and "sc_reading s"
  shows "server_advances vf s (server_read_head E s)"
proof -
  have "server_inv vf (s\<lparr>sc_reader := Reader_reading\<rparr>)"
    using inv assms(3) by (simp add: server_inv_def server_core_def)
  then show ?thesis
    using server_read_exit_advances [OF env inv]
    by (simp add: server_read_head_def server_advances_def)
qed

lemma server_frames_done_advances:
  assumes env: "queue_env (env_queue E) vf vs" and inv: "server_inv vf s" and "sc_reading s"
  shows "server_advances vf s (server_frames_done E s)"
proof (cases "dec_error (sc_decoder s)")
  case None
  then show ?thesis
    using server_read_head_advances [OF assms] by (simp add: server_frames_done_def)
next
  case (Some err)
  let ?ev = "diagnostics_event Event_protocol_error StreamId_default
    (status_for_frame_validation err) 0 True (frame_validation_message err)"
  let ?s1 = "(server_notify s ?ev)\<lparr>sc_transport_open := False\<rparr>"
  have adv: "server_advances vf s ?s1"
    using server_notify_advances [OF inv]
    by (rule server_advances_trans)
      (rule close_transport_advances [OF server_advancesD [OF server_notify_advances [OF inv]]])
  show ?thesis
    using server_advances_trans [OF adv server_read_exit_advances [OF env server_advancesD [OF adv]]]
    by (simp add: server_frames_done_def Some Let_def)
qed

text \<open>The decoder hands out only frames with a valid stream identifier.\<close>

lemma push_valid_streams:
  assumes "dec_inv d"
  obtains d' fs where "push d bs = Some (d', fs)" and "dec_inv d'"
    and "list_all (\<lambda>f. stream_is_valid (header_stream (frame_header f))) fs"
proof -
  obtain d' fs where push: "push d bs = Some (d', fs)" "dec_inv d'"
    using decoder_source.feed_total [OF assms, of bs] by blast
  moreover have "list_all (\<lambda>f. stream_is_valid (header_stream (frame_header f))) fs"
    using push_frames_valid [OF assms push(1)]
    by (rule list.pred_mono_strong) (simp add: validate_frame_def Let_def split: if_splits)
  ultimately show ?thesis by (rule that)
qed

lemma server_read_completed_advances:
  assumes env: "queue_env (env_queue E) vf vs" and inv: "server_inv vf s" and "sc_reading s"
  shows "\<exists>s'. server_read_completed E s still_open result = Some s' \<and> server_advances vf s s'"
proof -
  let ?s1 = "s\<lparr>sc_transport_open := sc_transport_open s \<and> still_open\<rparr>"
  have adv1: "server_advances vf s ?s1" by (rule close_transport_advances [OF inv])
  have lost: "server_advances vf s (server_read_exit E ?s1 b)" for b
    by (rule server_advances_trans [OF adv1
          server_read_exit_advances [OF env server_advancesD [OF adv1]]])
  show ?thesis
  proof (cases result)
    case None
    then show ?thesis using lost by (simp add: server_read_completed_def)
  next
    case (Some bytes)
    show ?thesis
    proof (cases bytes)
      case Nil
      then show ?thesis using Some lost by (simp add: server_read_completed_def)
    next
      case (Cons x xs)
      let ?s2 = "server_notify ?s1 (diagnostics_event Event_bytes_transferred StreamId_default
        Status_ok (length bytes) True [])"
      have adv2: "server_advances vf s ?s2"
        using server_notify_advances [OF server_advancesD [OF adv1]] by (rule server_advances_trans [OF adv1])
      note core2 = server_inv_core [OF server_advancesD [OF adv2]]
      obtain d fs where push: "push (sc_decoder s) bytes = Some (d, fs)" and d: "dec_inv d"
        and fs: "list_all (\<lambda>f. stream_is_valid (header_stream (frame_header f))) fs"
        using push_valid_streams [OF server_core_parts(4) [OF server_inv_core [OF inv]]] by blast
      have "server_inv vf (?s2\<lparr>sc_decoder := d, sc_reader := Reader_dispatching fs\<rparr>)"
        using server_advancesD [OF adv2] d fs assms(3) by (simp add: server_inv_def server_core_def)
      then show ?thesis
        using push Some Cons adv2
        by (simp add: server_read_completed_def server_advances_def Let_def)
    qed
  qed
qed

lemma server_dispatch_reader [simp]:
  "sc_reading (server_dispatch E s f) = sc_reading s"
  "sc_reader (server_dispatch E s f) = sc_reader s"
  by (simp_all add: server_dispatch_def Let_def split: option.split)

lemma server_dispatch_next_advances:
  assumes env: "queue_env (env_queue E) vf vs" and inv: "server_inv vf s"
  shows "server_advances vf s (server_dispatch_next E s)"
proof (cases "\<exists>fs. sc_reader s = Reader_dispatching fs")
  case False
  then show ?thesis
    using server_advances_refl [OF inv] by (simp add: server_dispatch_next_def split: Reader.split)
next
  case True
  then obtain fs where fs: "sc_reader s = Reader_dispatching fs" by blast
  note parts = server_core_parts [OF server_inv_core [OF inv]]
  have reading: "sc_reading s" using parts(6) fs by simp
  show ?thesis
  proof (cases fs)
    case Nil
    then show ?thesis
      using fs server_frames_done_advances [OF env inv reading] by (simp add: server_dispatch_next_def)
  next
    case (Cons f rest)
    let ?s1 = "server_notify s (diagnostics_event Event_message_transferred
      (header_stream (frame_header f)) Status_ok 0 True [])"
    let ?s2 = "server_dispatch E ?s1 f"
    have valid: "stream_is_valid (header_stream (frame_header f))"
      and rest: "reader_ok (Reader_dispatching rest)"
      using parts(7) fs Cons by simp_all
    have adv1: "server_advances vf s ?s1" by (rule server_notify_advances [OF inv])
    have adv2: "server_advances vf s ?s2"
      using server_dispatch_advances [OF env server_advancesD [OF adv1] valid] reading
      by (intro server_advances_trans [OF adv1]) simp
    note inv2 = server_advancesD [OF adv2]
    have "server_advances vf s (server_frames_done E ?s2)"
      using server_frames_done_advances [OF env inv2] reading
      by (intro server_advances_trans [OF adv2]) simp
    moreover have "server_inv vf (?s2\<lparr>sc_reader := Reader_dispatching rest\<rparr>)"
      using inv2 rest reading fs by (simp add: server_inv_def server_core_def)
    ultimately show ?thesis
      using fs Cons adv2 by (simp add: server_dispatch_next_def server_advances_def Let_def)
  qed
qed

section \<open>Running and shutting down\<close>

lemma server_run_advances:
  assumes env: "queue_env (env_queue E) vf vs" and inv: "server_inv vf s"
    and idle: "wq_writer (sc_write_queue s) = Writer_idle" and "sc_reading s"
  shows "server_advances vf s (server_run E s)"
proof -
  let ?active = "fst (connection_transition
    (fst (connection_transition (sc_lifecycle s) Connection_accepting)) Connection_active)"
  let ?s1 = "if sc_lifecycle s = Connection_created
    then server_notify (s\<lparr>sc_lifecycle := ?active\<rparr>)
      (diagnostics_event Event_connection_opened StreamId_default Status_ok 0 False []) else s"
  let ?s2 = "?s1\<lparr>sc_write_queue := writer_loop (env_queue E) (sc_write_queue ?s1)\<rparr>"
  note parts = server_core_parts [OF server_inv_core [OF inv]]
  have "wq_inv vf (sc_write_queue ?s2)"
    using writer_loop_inv(1) [OF env parts(3)] idle by simp
  moreover have "resting (sc_lifecycle ?s2)"
    using parts(5) by (simp add: resting_def connection_transition_def)
  ultimately have adv: "server_advances vf s ?s2"
    using parts closed_stays(4) by (intro server_inv_frame [OF inv]) simp_all
  have "server_advances vf ?s2 (server_read_head E ?s2)"
    using server_read_head_advances [OF env server_advancesD [OF adv]] assms(4) by simp
  then show ?thesis
    unfolding server_run_def Let_def by (rule server_advances_trans [OF adv])
qed

lemma server_begin_shutdown_advances:
  assumes "server_inv vf s"
  shows "server_advances vf s (server_begin_shutdown s)"
proof -
  note parts = server_core_parts [OF server_inv_core [OF assms]]
  have "resting (sc_lifecycle (server_begin_shutdown s))"
    using parts(5)
    by (simp add: server_begin_shutdown_def resting_def connection_transition_def Let_def)
  then show ?thesis
    using parts by (intro server_inv_frame [OF assms]) (simp_all add: server_begin_shutdown_def Let_def)
qed

lemma server_shutdown_finish_advances:
  assumes inv: "server_inv vf s"
  shows "server_advances vf s (server_shutdown_finish s)"
proof -
  let ?s1 = "if sc_active_handlers s \<noteq> 0 then fail_operations_on_connection_close s else s"
  note core = server_inv_core [OF inv]
  have wiring: "same_server_wiring s ?s1"
    using fail_operations_effect(1) [OF server_core_parts(1) [OF core]]
    by (simp add: same_server_wiring_def)
  then have inv1: "server_inv vf ?s1"
    using inv fail_operations_core(1) [OF core] by (simp add: server_inv_def same_server_wiring_def)
  have adv1: "server_advances vf s ?s1"
    using inv1 fail_operations_core(2) [OF core] by (simp add: server_advances_def)
  let ?s2 = "server_notify_closed (?s1\<lparr>sc_transport_open := False,
    sc_lifecycle := fst (connection_transition (sc_lifecycle ?s1) Connection_closed)\<rparr>)"
  have "server_advances vf ?s1 ?s2"
    using server_core_parts [OF server_inv_core [OF inv1]]
    by (intro server_inv_frame [OF inv1]) (simp_all only: server_notify_closed_frame, simp_all)
  then show ?thesis
    unfolding server_shutdown_finish_def Let_def by (rule server_advances_trans [OF adv1])
qed

lemma server_handle_advances:
  assumes "server_inv vf s"
  shows "server_advances vf s (server_handle E s request response)"
  using server_core_parts [OF server_inv_core [OF assms]]
  by (intro server_inv_frame [OF assms]) (simp_all add: server_handle_def split: option.split)

lemma server_write_completed_advances:
  assumes env: "queue_env (env_queue E) vf vs" and inv: "server_inv vf s"
  shows "server_advances vf s (server_write_completed E s failure)"
proof -
  note parts = server_core_parts [OF server_inv_core [OF inv]]
  obtain q cl obs where w: "writer_wrote (env_queue E) (sc_write_queue s) failure = (q, cl, obs)"
    by (metis prod.exhaust)
  have q: "wq_inv vf q" "wq_closed (sc_write_queue s) \<Longrightarrow> wq_closed q"
    using writer_wrote_step [OF env parts(3), of failure] closed_stays(3) [of "sc_write_queue s"] w
    by (simp, metis fst_conv)
  show ?thesis
    using parts q
    by (intro server_inv_frame [OF inv])
      (simp_all add: server_write_completed_def w server_observe_write_def Let_def split: option.split)
qed

lemma server_frame_received_advances:
  assumes env: "queue_env (env_queue E) vf vs" and inv: "server_inv vf s"
    and "wq_writer (sc_write_queue s) = Writer_receiving"
  shows "server_advances vf s (server_frame_received E s)"
  using server_core_parts [OF server_inv_core [OF inv]] closed_stays(2)
    writer_received_step [OF env server_core_parts(3) [OF server_inv_core [OF inv]] assms(3)]
  by (intro server_inv_frame [OF inv]) (simp_all add: server_frame_received_def)

section \<open>Events\<close>

text \<open>
  What can happen to a server connection: calls by its owner, completions of its reads, writes
  and channel operations, and the progress of its handlers' coroutines.
\<close>

datatype ('t, 'v) ServerEvent =
  Server_handle 't 't
| Server_run
| Server_read bool "Buffer option"
| Server_dispatch_next
| Server_handler_started nat
| Server_handler_returned nat "'v option"
| Server_handler_resumed string nat
| Server_begin_shutdown
| Server_shutdown_finish
| Server_wrote "string option"
| Server_frame_received

definition sending_frame :: "'v TaskPhase \<Rightarrow> Frame option" where
  "sending_frame ph = (case ph of Task_sending f \<Rightarrow> Some f | _ \<Rightarrow> None)"

definition in_handler :: "'v TaskPhase \<Rightarrow> bool" where
  "in_handler ph = (case ph of Task_running _ \<Rightarrow> True | _ \<Rightarrow> False)"

definition dispatching :: "Reader \<Rightarrow> bool" where
  "dispatching r = (case r of Reader_dispatching _ \<Rightarrow> True | _ \<Rightarrow> False)"

fun server_event ::
  "('ch, 'sp, 't, 'v) Env \<Rightarrow> ('ch, 'sp, 't, 'v) ServerConnection \<Rightarrow> ('t, 'v) ServerEvent \<Rightarrow>
     ('ch, 'sp, 't, 'v) ServerConnection option" where
  "server_event E s (Server_handle request response) = Some (server_handle E s request response)"
| "server_event E s Server_run = Some (server_run E s)"
| "server_event E s (Server_read still_open result) = server_read_completed E s still_open result"
| "server_event E s Server_dispatch_next = Some (server_dispatch_next E s)"
| "server_event E s (Server_handler_started i) = Some (handler_started E s i)"
| "server_event E s (Server_handler_returned i outcome) = Some (handler_returned E s i outcome)"
| "server_event E s (Server_handler_resumed msg i) =
     (case sending_frame (task_phase (sc_tasks s ! i)) of
        None \<Rightarrow> None | Some f \<Rightarrow> Some (handler_resumed E msg s i f))"
| "server_event E s Server_begin_shutdown = Some (server_begin_shutdown s)"
| "server_event E s Server_shutdown_finish = Some (server_shutdown_finish s)"
| "server_event E s (Server_wrote failure) = Some (server_write_completed E s failure)"
| "server_event E s Server_frame_received = Some (server_frame_received E s)"

fun server_enabled :: "('ch, 'sp, 't, 'v) ServerConnection \<Rightarrow> ('t, 'v) ServerEvent \<Rightarrow> bool" where
  "server_enabled s Server_run \<longleftrightarrow>
     wq_writer (sc_write_queue s) = Writer_idle \<and> sc_reader s = Reader_idle"
| "server_enabled s (Server_read _ _) \<longleftrightarrow> sc_reader s = Reader_reading"
| "server_enabled s Server_dispatch_next \<longleftrightarrow> dispatching (sc_reader s)"
| "server_enabled s (Server_handler_started i) \<longleftrightarrow>
     i < length (sc_tasks s) \<and> task_phase (sc_tasks s ! i) = Task_spawned"
| "server_enabled s (Server_handler_returned i _) \<longleftrightarrow>
     i < length (sc_tasks s) \<and> in_handler (task_phase (sc_tasks s ! i))"
| "server_enabled s (Server_handler_resumed _ i) \<longleftrightarrow>
     i < length (sc_tasks s) \<and> sending_frame (task_phase (sc_tasks s ! i)) \<noteq> None"
| "server_enabled s Server_frame_received \<longleftrightarrow> wq_writer (sc_write_queue s) = Writer_receiving"
| "server_enabled s _ \<longleftrightarrow> True"

lemma server_event_total:
  assumes env: "queue_env (env_queue E) vf vs" and inv: "server_inv vf s"
    and en: "server_enabled s ev"
  shows "\<exists>s'. server_event E s ev = Some s' \<and> server_advances vf s s'"
proof (cases ev)
  case Server_run
  then show ?thesis
    using en server_run_advances [OF env inv] server_core_parts(6) [OF server_inv_core [OF inv]] by simp
next
  case (Server_read still_open result)
  then show ?thesis
    using en server_read_completed_advances [OF env inv]
      server_core_parts(6) [OF server_inv_core [OF inv]] by simp
next
  case (Server_handler_returned i outcome)
  then show ?thesis
    using en handler_returned_advances [OF env inv] by (auto simp: in_handler_def split: TaskPhase.splits)
next
  case (Server_handler_resumed msg i)
  then show ?thesis
    using en handler_resumed_advances [OF env inv]
    by (auto simp: sending_frame_def split: TaskPhase.splits)
qed (use en in \<open>simp_all add: server_handle_advances [OF inv] server_dispatch_next_advances [OF env inv]
    handler_started_advances [OF env inv] server_begin_shutdown_advances [OF inv]
    server_shutdown_finish_advances [OF inv] server_write_completed_advances [OF env inv]
    server_frame_received_advances [OF env inv]\<close>)

inductive server_reachable ::
  "('ch, 'sp, 't, 'v) Env \<Rightarrow> ('ch, 'sp, 't, 'v) ServerConnection \<Rightarrow>
     ('ch, 'sp, 't, 'v) ServerConnection \<Rightarrow> bool"
  for E where
  start: "server_reachable E s s"
| step: "server_reachable E s s' \<Longrightarrow> server_enabled s' ev \<Longrightarrow> server_event E s' ev = Some s'' \<Longrightarrow>
           server_reachable E s s''"

lemma server_reachable_advances:
  assumes "server_reachable E s s'" and "queue_env (env_queue E) vf vs" and "server_inv vf s"
  shows "server_advances vf s s'"
  using assms
proof (induction rule: server_reachable.induct)
  case (start s)
  then show ?case by (simp add: server_advances_refl)
next
  case (step s s' ev s'')
  then have adv: "server_advances vf s s'" by simp
  then show ?case
    using server_event_total [OF step.prems(1) server_advancesD [OF adv] step.hyps(2)]
      step.hyps(3) server_advances_trans [OF adv] by auto
qed

lemma server_reachable_inv:
  assumes "queue_env (env_queue E) vf vs" and "server_reachable E (new_server E lim hook) s"
  shows "server_inv vf s"
  using server_reachable_advances [OF assms(2,1) new_server_inv [OF assms(1)]]
  by (rule server_advancesD)

lemma server_reachable_trans:
  assumes "server_reachable E a b" and "server_reachable E b c"
  shows "server_reachable E a c"
  using assms(2,1) by (induction rule: server_reachable.induct) (auto intro: server_reachable.step)

text \<open>A run given by its events.\<close>

fun server_events ::
  "('ch, 'sp, 't, 'v) Env \<Rightarrow> ('ch, 'sp, 't, 'v) ServerConnection \<Rightarrow> ('t, 'v) ServerEvent list \<Rightarrow>
     ('ch, 'sp, 't, 'v) ServerConnection option" where
  "server_events E s [] = Some s"
| "server_events E s (ev # evs) =
     (if server_enabled s ev
      then (case server_event E s ev of None \<Rightarrow> None | Some s' \<Rightarrow> server_events E s' evs)
      else None)"

lemma server_events_reachable:
  "server_events E s evs = Some s' \<Longrightarrow> server_reachable E s s'"
proof (induction evs arbitrary: s)
  case Nil
  then show ?case by (simp add: server_reachable.start)
next
  case (Cons ev evs)
  then obtain s1 where s1: "server_enabled s ev" "server_event E s ev = Some s1"
    "server_events E s1 evs = Some s'" by (auto split: if_splits option.splits)
  have "server_reachable E s s1" using server_reachable.step [OF server_reachable.start s1(1,2)] .
  then show ?case using Cons.IH [OF s1(3)] by (rule server_reachable_trans)
qed

end
