(* ===== verification/Server_Properties.thy ===== *)
theory Server_Properties
  imports Server_Behaviour Sample_Env
begin

text \<open>
  What a server connection promises, over all runs from its construction: one handler per
  stream, an exact count of active handlers, at most one response per request, cancellation and
  loss of the connection reaching the handlers, and a write queue that is closed when the
  connection is idle; and where the connection falls short of what the documentation says.
\<close>

section \<open>Arrival of a frame\<close>

text \<open>A decoder between two frames.\<close>

definition dec_clean :: "FrameDecoder \<Rightarrow> bool" where
  "dec_clean d \<longleftrightarrow>
     dec_inv d \<and> dec_error d = None \<and> buffered d = [] \<and>
     dec_max_payload_size d = default_max_payload_size"

lemma new_decoder_clean: "dec_clean (new_decoder default_max_payload_size)"
  by (simp add: dec_clean_def new_decoder_inv)

lemma push_one_frame:
  assumes "dec_clean d" and "validate_frame f default_max_payload_size = Validation_none"
  obtains d' where "push d (encode_frame f) = Some (d', [f])" and "dec_clean d'"
proof -
  have "parse default_max_payload_size (encode_frame f) = ([f], [], None)"
    using parse_encode_frames [of default_max_payload_size "[f]" "[]"] assms(2)
    by (simp add: parse_short frame_header_size_def)
  then show ?thesis
    using push_parse [of d "encode_frame f"] assms(1) that
    by (auto simp: dec_clean_def feeds_to_def)
qed

lemma encode_frame_nonempty: "encode_frame f \<noteq> []"
  by (metis add_is_0 frame_header_size_def length_encode_frame list.size(3) zero_neq_numeral)

text \<open>The bytes of a frame arrive in one read, at a connection that waits for them.\<close>

lemma frame_arrives:
  assumes "sc_reader s = Reader_reading" and "sc_transport_open s" and "dec_clean (sc_decoder s)"
    and "validate_frame f default_max_payload_size = Validation_none"
  obtains D d where "server_event E s (Server_read True (Some (encode_frame f))) =
      Some (s\<lparr>sc_diagnostics := D, sc_decoder := d, sc_reader := Reader_dispatching [f]\<rparr>)"
    and "dec_clean d"
proof -
  obtain d where d: "push (sc_decoder s) (encode_frame f) = Some (d, [f])" "dec_clean d"
    using push_one_frame [OF assms(3,4)] .
  obtain b bs where bs: "encode_frame f = b # bs"
    using encode_frame_nonempty [of f] by (cases "encode_frame f") auto
  let ?D = "notify_diagnostics (sc_diagnostics s) (diagnostics_event Event_bytes_transferred
    StreamId_default Status_ok (length (encode_frame f)) True [])"
  have "s\<lparr>sc_transport_open := True\<rparr> = s" using assms(2) by (cases s) simp
  then show thesis
    using d(1) assms(2) bs
    by (intro that [of d ?D, OF _ d(2)]) (simp add: server_read_completed_def server_notify_def Let_def)
qed

section \<open>An example run\<close>

text \<open>A server with a handler for the type of the sample messages, running.\<close>

abbreviation sample_server ::
  "(Frame ChannelView, unit ChannelView, unit, Buffer) ServerConnection" where
  "sample_server \<equiv> new_server sample_env sample_limits False"

definition sample_listening ::
  "(Frame ChannelView, unit ChannelView, unit, Buffer) ServerConnection" where
  "sample_listening = server_run sample_env (server_handle sample_env sample_server () ())"

lemma sample_listening_reachable: "server_reachable sample_env sample_server sample_listening"
  by (rule server_events_reachable [where evs = "[Server_handle () (), Server_run]"])
    (simp add: sample_listening_def server_handle_def new_server_def new_write_queue_def
      split: option.split)

lemma sample_message_type: "message_type (env_registry sample_env) () = Some (MessageType 7)"
  by (simp add: sample_env_def message_type_def message_type_at_def register_message_at_def
      new_registry_def empty_registrations_def message_type_is_valid_def Let_def)

lemma sample_listening_state:
  "sc_reader sample_listening = Reader_reading" "sc_transport_open sample_listening"
  "sc_decoder sample_listening = new_decoder default_max_payload_size"
  "sc_tasks sample_listening = []" "sc_operations sample_listening = []"
  "sc_terminal_streams sample_listening = {}" "sc_lifecycle sample_listening = Connection_active"
  "sc_handlers sample_listening = [MessageType 7 \<mapsto> \<lparr>handler_request = (), handler_response = ()\<rparr>]"
  "sc_reading sample_listening" "sc_active_handlers sample_listening = 0"
  "sc_write_queue sample_listening =
     writer_loop (env_queue sample_env) (new_write_queue (env_queue sample_env) sample_limits)"
  by (simp_all add: sample_listening_def server_run_def server_handle_def sample_message_type
      new_server_def server_read_head_def connection_transition_def Let_def)

lemma sample_request_valid:
  "validate_frame sample_request default_max_payload_size = Validation_none"
  by (simp add: sample_request_def validate_frame_def is_known_frame_type_def
      has_only_known_flags_iff stream_is_valid_def has_flag_def flags_and_def
      default_max_payload_size_def Let_def)

text \<open>The request has been dispatched and its handler runs.\<close>

abbreviation sample_types :: "unit HandlerTypes" where
  "sample_types \<equiv> \<lparr>handler_request = (), handler_response = ()\<rparr>"

abbreviation sample_task :: "(unit, Buffer) HandlerTask" where
  "sample_task \<equiv> (new_task sample_types sample_request)\<lparr>task_phase := Task_running [5]\<rparr>"

lemma sample_decoding:
  "decode_message (env_codec sample_env) (env_registry sample_env) () sample_request =
     DecodeResult_success [5]"
proof -
  have p: "frame_payload sample_request = be32_bytes (message_type_value (MessageType 7)) @ [5]"
    by (simp add: sample_request_def be32_bytes_def)
  have "message_type_at (env_registry sample_env) current_protocol_version () = Some (MessageType 7)"
    using sample_message_type by (simp add: message_type_def)
  then show ?thesis
    unfolding decode_message_def p decode_payload_layout
    by (simp add: sample_request_def decode_payload_layout [where body = "[5]" and mt = "MessageType 7", simplified]
        sample_env_def PodCodec_def pod_decode_def)
qed

lemma sample_peek: "peek_message_type (frame_payload sample_request) = Some (MessageType 7)"
  using peek_layout [of "MessageType 7" "[5]"] by (simp add: sample_request_def be32_bytes_def)

lemma sample_busy:
  obtains s where "server_reachable sample_env sample_server s"
    and "sc_tasks s = [sample_task]" and "sc_operations s = [(StreamId 1, 0)]"
    and "sc_terminal_streams s = {}" and "sc_lifecycle s = Connection_active"
    and "sc_transport_open s" and "sc_reader s = Reader_dispatching []" and "sc_reading s"
    and "dec_clean (sc_decoder s)" and "sc_active_handlers s = 1"
    and "sc_handlers s = [MessageType 7 \<mapsto> sample_types]"
    and "sc_write_queue s = sc_write_queue sample_listening"
proof -
  obtain D d where arr: "server_event sample_env sample_listening
      (Server_read True (Some (encode_frame sample_request))) = Some (sample_listening
        \<lparr>sc_diagnostics := D, sc_decoder := d, sc_reader := Reader_dispatching [sample_request]\<rparr>)"
    (is "_ = Some ?s1") and d: "dec_clean d"
    using frame_arrives [of sample_listening sample_request sample_env] sample_listening_state
      new_decoder_clean sample_request_valid by metis
  let ?s2 = "server_dispatch_next sample_env ?s1" and ?s3 = "handler_started sample_env (server_dispatch_next sample_env ?s1) 0"
  have facts: "sc_tasks ?s2 = [new_task sample_types sample_request]"
    "sc_operations ?s2 = [(StreamId 1, 0)]" "sc_terminal_streams ?s2 = {}"
    "sc_lifecycle ?s2 = Connection_active" "sc_transport_open ?s2"
    "sc_reader ?s2 = Reader_dispatching []" "sc_reading ?s2" "sc_decoder ?s2 = d"
    "sc_active_handlers ?s2 = 1" "sc_handlers ?s2 = [MessageType 7 \<mapsto> sample_types]"
    "sc_write_queue ?s2 = sc_write_queue sample_listening"
    using sample_listening_state sample_peek
    by (simp_all add: server_dispatch_next_def server_dispatch_def draining_or_later_def
        sample_request_def has_flag_def flags_and_def Let_def)
  have "server_events sample_env sample_listening
      [Server_read True (Some (encode_frame sample_request)), Server_dispatch_next,
       Server_handler_started 0] = Some ?s3"
    using arr facts sample_listening_state(1)
    by (simp add: dispatching_def) (simp add: new_task_def Let_def)
  then have "server_reachable sample_env sample_server ?s3"
    by (rule server_reachable_trans [OF sample_listening_reachable server_events_reachable])
  moreover have "?s3 = update_task ?s2 0 (\<lambda>t. t\<lparr>task_phase := Task_running [5]\<rparr>)"
    using facts(1) sample_decoding
    by (simp add: handler_started_def new_task_def codec_result_defs Let_def)
  ultimately show thesis
    using facts d by (intro that [of ?s3]) (simp_all add: update_task_def)
qed

lemma new_task_simps [simp]:
  "op_state (task_operation (new_task types f)) = Operation_active"
  "op_result (task_operation (new_task types f)) = None"
  "op_cancellation_requested (task_operation (new_task types f)) = False"
  "task_frame (new_task types f) = f" "task_types (new_task types f) = types"
  "task_phase (new_task types f) = Task_spawned"
  by (simp_all add: new_task_def op_activate_def op_set_completion_handler_def new_operation_def
      operation_transition_def Let_def)

section \<open>Properties: handlers\<close>

text \<open>
  Property C8. In every state a server connection can reach, by any interleaving of reads,
  writes, handlers and calls of its owner, every event that can happen next returns, and the
  state it leads to is again well formed.
\<close>

theorem server_never_stuck:
  assumes "queue_env (env_queue E) vf vs" and "server_reachable E (new_server E lim hook) s"
    and "server_enabled s ev"
  shows "\<exists>s'. server_event E s ev = Some s' \<and> server_inv vf s'"
  using server_event_total [OF assms(1) server_reachable_inv [OF assms(1,2)] assms(3)]
  by (auto dest: server_advancesD)

theorem server_never_stuck_witness:
  "\<exists>s'. server_event sample_env sample_listening (Server_read True (Some [1, 2, 3])) = Some s' \<and>
     server_inv id s'"
  using server_never_stuck [OF sample_queue_env sample_listening_reachable,
      of "Server_read True (Some [1, 2, 3])"] sample_listening_state(1) by simp

definition live_handlers :: "('ch, 'sp, 't, 'v) ServerConnection \<Rightarrow> nat set" where
  "live_handlers s = {i. i < length (sc_tasks s) \<and> task_phase (sc_tasks s ! i) \<noteq> Task_done}"

lemma live_handlers_table:
  assumes "table_inv (sc_operations s) (sc_tasks s)"
  shows "live_handlers s = snd ` set (sc_operations s)" and "inj_on (\<lambda>i. task_stream (sc_tasks s ! i)) (live_handlers s)"
proof -
  have keys: "distinct_keys (sc_operations s)" using assms unfolding table_inv_def by blast
  have here: "map_of (sc_operations s) (task_stream (sc_tasks s ! i)) = Some i"
    if "i \<in> live_handlers s" for i
    using table_inv_task [OF assms] that by (auto simp: live_handlers_def task_ok_def)
  show "inj_on (\<lambda>i. task_stream (sc_tasks s ! i)) (live_handlers s)"
    using here by (intro inj_onI) (metis option.inject)
  show "live_handlers s = snd ` set (sc_operations s)"
  proof (intro set_eqI iffI)
    fix i assume "i \<in> snd ` set (sc_operations s)"
    then obtain sid where "map_of (sc_operations s) sid = Some i"
      using map_of_distinct_mem [OF keys] by force
    then show "i \<in> live_handlers s"
      using table_inv_entry [OF assms] by (auto simp: live_handlers_def)
  next
    fix i assume "i \<in> live_handlers s"
    then show "i \<in> snd ` set (sc_operations s)" using map_of_SomeD [OF here] by force
  qed
qed

text \<open>
  Property C15. At any time the handlers that have been spawned and have not ended work on
  pairwise different streams, the table of operations holds exactly them, and the 64-bit counter
  \<open>active_handlers_\<close> is their number: it never wraps around.
\<close>

theorem active_handlers_exact:
  assumes "queue_env (env_queue E) vf vs" and "server_reachable E (new_server E lim hook) s"
  shows "inj_on (\<lambda>i. header_stream (frame_header (task_frame (sc_tasks s ! i)))) (live_handlers s) \<and>
     live_handlers s = snd ` set (sc_operations s) \<and>
     unat (sc_active_handlers s) = card (live_handlers s)"
proof -
  note core = server_inv_core [OF server_reachable_inv [OF assms]]
  note table = server_core_parts(1) [OF core]
  have "unat (sc_active_handlers s) = length (sc_operations s)"
    using server_core_parts(2) [OF core] table_inv_size [OF table]
    by (simp add: unat_of_nat take_bit_nat_eq_self)
  moreover have "card (snd ` set (sc_operations s)) = length (sc_operations s)"
    using distinct_card [OF table_inv_distinct_tasks [OF table]] by simp
  ultimately show ?thesis using live_handlers_table [OF table] by simp
qed

theorem active_handlers_exact_witness:
  "\<exists>s. server_reachable sample_env sample_server s \<and> live_handlers s = {0} \<and>
     unat (sc_active_handlers s) = 1"
proof -
  obtain s where s: "server_reachable sample_env sample_server s" "sc_operations s = [(StreamId 1, 0)]"
    by (rule sample_busy)
  then show ?thesis using active_handlers_exact [OF sample_queue_env s(1)] by auto
qed

section \<open>Properties: responses\<close>

text \<open>The frame a handler's response is encoded into, and the one that is sent.\<close>

definition response_encoding ::
  "('ch, 'sp, 't, 'v) Env \<Rightarrow> ('t, 'v) HandlerTask \<Rightarrow> 'v \<Rightarrow> FrameEncodeResult" where
  "response_encoding E t v =
     encode_message (env_codec E) (env_registry E) (handler_response (task_types t)) v
       (task_stream t) FrameType_response Flags_none default_max_payload_size
       current_protocol_version"

definition final_frame :: "Frame \<Rightarrow> Frame" where
  "final_frame f =
     f\<lparr>frame_header := (frame_header f)
         \<lparr>header_flags := flags_or (header_flags (frame_header f)) Flags_end_of_stream\<rparr>\<rparr>"

lemma response_encoding_ok:
  assumes "frame_encode_ok (response_encoding E t v)"
  obtains f where "response_encoding E t v = FrameEncodeResult_success f"
    and "header_stream (frame_header f) = task_stream t"
    and "header_type (frame_header f) = FrameType_response"
    and "header_flags (frame_header f) = Flags_none"
    and "representable (final_frame f)"
proof -
  obtain p where p: "response_encoding E t v = FrameEncodeResult_success
      \<lparr>frame_header = \<lparr>header_version = current_protocol_version, header_type = FrameType_response,
         header_flags = Flags_none, header_stream = task_stream t,
         header_payload_size = word_of_nat (length p)\<rparr>, frame_payload = p\<rparr>"
    using encode_message_ok [OF assms [unfolded response_encoding_def]] response_encoding_def by metis
  with response_representable [OF assms response_encoding_def] show thesis
    by (intro that [OF p]) (auto simp: final_frame_def frame_encode_defs)
qed

lemma run_handler_end_queue:
  assumes "queue_env (env_queue E) vf vs" and "wq_inv vf (sc_write_queue s)"
  shows "queue_contents vf (sc_write_queue (run_handler_end E s i)) = queue_contents vf (sc_write_queue s)"
  using close_queue_inv [OF assms]
  by (simp add: run_handler_end_def close_queue_when_idle_def queue_contents_def Let_def)

lemma run_handler_end_task:
  "i < length (sc_tasks s) \<Longrightarrow>
     sc_tasks (run_handler_end E s i) ! i = (sc_tasks s ! i)\<lparr>task_phase := Task_done\<rparr>"
  by (simp add: run_handler_end_def update_task_def Let_def)

lemma complete_settled: "op_is_terminal opn \<Longrightarrow> fst (op_call (Call_complete msg) opn) = opn"
  by (cases "op_state opn")
    (simp_all add: op_call.simps op_method_defs op_is_terminal_def operation_transition_def)

text \<open>The two ways \<open>handler_returned\<close> can go.\<close>

lemma handler_returned_eq:
  fixes E :: "('ch, 'sp, 't, 'v) Env"
  assumes inv: "server_inv vf s" and i: "i < length (sc_tasks s)"
  defines "s1 \<equiv> fst (call_task_operation s i (Call_complete ''response ready''))"
    and "encoded \<equiv> response_encoding E (sc_tasks s ! i)"
  shows "handler_returned E s i (Some v) =
    (if \<not> frame_encode_ok (encoded v) then run_handler_end E s i
     else if op_result (task_operation (sc_tasks s ! i)) \<noteq> None then run_handler_end E s1 i
     else handler_sent E s1 i (final_frame (the (frame_encode_frame (encoded v))))
       (enqueue (env_queue E) (sc_write_queue s) (final_frame (the (frame_encode_frame (encoded v))))))"
proof -
  let ?t = "sc_tasks s ! i" and ?m = "Call_complete ''response ready'' :: DiagnosticsEvent OpCall"
  have ok: "op_inv (task_operation ?t)" "op_state (task_operation ?t) \<noteq> Operation_created"
    using table_inv_task [OF server_core_parts(1) [OF server_inv_core [OF inv]] i] by (simp_all add: task_ok_def)
  have "snd (call_task_operation s i ?m) \<longleftrightarrow> op_result (task_operation ?t) = None"
    using op_call_settling(2) [of ?m, OF _ ok(2)] op_inv_result [OF ok(1)] by (simp add: snd_call_task)
  then show ?thesis
    by (simp add: handler_returned_def s1_def encoded_def response_encoding_def final_frame_def
        case_prod_beta Let_def)
qed

lemma handler_returned_cases:
  assumes env: "queue_env (env_queue E) vf vs" and inv: "server_inv vf s"
    and i: "i < length (sc_tasks s)"
  obtains
    (sent) f q res where "response_encoding E (sc_tasks s ! i) v = FrameEncodeResult_success f"
      "op_result (task_operation (sc_tasks s ! i)) = None"
      "header_stream (frame_header f) = task_stream (sc_tasks s ! i)"
      "header_type (frame_header f) = FrameType_response"
      "header_flags (frame_header f) = Flags_none" "representable (final_frame f)"
      "enqueue (env_queue E) (sc_write_queue s) (final_frame f) = (q, res)" "wq_inv vf q"
      "queue_contents vf q = queue_contents vf (sc_write_queue s) @
         map encode_frame (accepted_frame res (final_frame f))"
      "handler_returned E s i (Some v) =
         handler_sent E (fst (call_task_operation s i (Call_complete ''response ready''))) i
           (final_frame f) (q, res)"
  | (dropped) "\<not> frame_encode_ok (response_encoding E (sc_tasks s ! i) v) \<or>
         op_result (task_operation (sc_tasks s ! i)) \<noteq> None"
      "sc_tasks (handler_returned E s i (Some v)) ! i = (sc_tasks s ! i)\<lparr>task_phase := Task_done\<rparr>"
      "queue_contents vf (sc_write_queue (handler_returned E s i (Some v))) =
         queue_contents vf (sc_write_queue s)"
proof -
  let ?t = "sc_tasks s ! i" and ?m = "Call_complete ''response ready'' :: DiagnosticsEvent OpCall"
  let ?s1 = "fst (call_task_operation s i ?m)"
  note core = server_inv_core [OF inv]
  have ok: "op_inv (task_operation ?t)" "op_state (task_operation ?t) \<noteq> Operation_created"
    using table_inv_task [OF server_core_parts(1) [OF core] i] by (simp_all add: task_ok_def)
  note eq = handler_returned_eq [OF inv i, of E v]
  show thesis
  proof (cases "frame_encode_ok (response_encoding E ?t v) \<and> op_result (task_operation ?t) = None")
    case True
    obtain f where f: "response_encoding E ?t v = FrameEncodeResult_success f"
      "header_stream (frame_header f) = task_stream ?t" "header_type (frame_header f) = FrameType_response"
      "header_flags (frame_header f) = Flags_none" "representable (final_frame f)"
      using response_encoding_ok [of E ?t v] True by metis
    obtain q res where q: "enqueue (env_queue E) (sc_write_queue s) (final_frame f) = (q, res)"
      by fastforce
    note step = enqueue_step [OF env server_core_parts(3) [OF core] f(5) q]
    have "handler_returned E s i (Some v) = handler_sent E ?s1 i (final_frame f) (q, res)"
      using True q unfolding eq f(1) by (simp add: frame_encode_defs)
    with step show thesis using True by (intro sent [OF f(1) _ f(2-) q]) simp_all
  next
    case False
    have unchanged: "fst (op_call ?m (task_operation ?t)) = task_operation ?t"
      if "op_result (task_operation ?t) \<noteq> None"
      using that op_inv_result [OF ok(1)] by (intro complete_settled) simp
    note queue = run_handler_end_queue [OF env]
    have wq: "wq_inv vf (sc_write_queue s)" by (rule server_core_parts(3) [OF core])
    have "sc_tasks (handler_returned E s i (Some v)) ! i = ?t\<lparr>task_phase := Task_done\<rparr>"
      using False i unchanged unfolding eq by (simp add: run_handler_end_task tasks_call)
    moreover have "queue_contents vf (sc_write_queue (handler_returned E s i (Some v))) =
        queue_contents vf (sc_write_queue s)"
      using False queue [of s] queue [of ?s1] wq unfolding eq by simp
    moreover have "\<not> frame_encode_ok (response_encoding E ?t v) \<or> op_result (task_operation ?t) \<noteq> None"
      using False by simp
    ultimately show thesis by (intro dropped)
  qed
qed

lemma handler_sent_effect:
  assumes env: "queue_env (env_queue E) vf vs" and q: "wq_inv vf q" and i: "i < length (sc_tasks s)"
  shows "queue_contents vf (sc_write_queue (handler_sent E s i f (q, res))) = queue_contents vf q"
    and "sc_tasks (handler_sent E s i f (q, res)) ! i =
      (sc_tasks s ! i)\<lparr>task_phase := (case res of None \<Rightarrow> Task_sending f | Some _ \<Rightarrow> Task_done)\<rparr>"
  using run_handler_end_queue [OF env, of "s\<lparr>sc_write_queue := q\<rparr>" i] q i
    run_handler_end_task [of i "s\<lparr>sc_write_queue := q\<rparr>" E]
  by (auto simp: handler_sent_def update_task_def Let_def split: option.split)

lemma handler_sends:
  assumes env: "queue_env (env_queue E) vf vs" and inv: "server_inv vf s"
    and i: "i < length (sc_tasks s)"
    and enc: "response_encoding E (sc_tasks s ! i) v = FrameEncodeResult_success f"
    and "op_result (task_operation (sc_tasks s ! i)) = None"
  shows "queue_contents vf (sc_write_queue (handler_returned E s i (Some v))) =
     queue_contents vf (sc_write_queue s) @ map encode_frame (accepted_frame
       (snd (enqueue (env_queue E) (sc_write_queue s) (final_frame f))) (final_frame f))"
proof (cases rule: handler_returned_cases [OF env inv i, of v])
  case (1 f' q res)
  have "f' = f" using 1(1) enc by (simp add: FrameEncodeResult_success_def)
  then show ?thesis
    using 1(7,9,10) handler_sent_effect(1) [OF env 1(8), of i "fst (call_task_operation s i
        (Call_complete ''response ready''))" "final_frame f'" res] i by simp
next
  case 2
  then show ?thesis using assms(5) by (simp add: enc frame_encode_defs)
qed

text \<open>
  Property C6. When a handler returns a response that can be encoded and its operation has not
  been settled, the operation completes, and one frame is handed to the write queue: a final
  response frame on the stream of the request. If the operation has been settled before, or the
  response cannot be encoded, nothing is sent and the operation keeps its state.
\<close>

theorem handler_response:
  assumes "queue_env (env_queue E) vf vs" and "server_reachable E (new_server E lim hook) s"
    and "i < length (sc_tasks s)" and "in_handler (task_phase (sc_tasks s ! i))"
    and s': "s' = handler_returned E s i (Some v)"
  shows "(\<forall>f. response_encoding E (sc_tasks s ! i) v = FrameEncodeResult_success f \<and>
        op_result (task_operation (sc_tasks s ! i)) = None \<longrightarrow>
        op_result (task_operation (sc_tasks s' ! i)) =
          Some (OperationResult_success ''response ready'') \<and>
        queue_contents vf (sc_write_queue s') = queue_contents vf (sc_write_queue s) @
          map encode_frame (accepted_frame
            (snd (enqueue (env_queue E) (sc_write_queue s) (final_frame f))) (final_frame f)) \<and>
        header_stream (frame_header (final_frame f)) = context_stream_id s i \<and>
        header_type (frame_header (final_frame f)) = FrameType_response \<and>
        has_flag (header_flags (frame_header (final_frame f))) Flags_end_of_stream) \<and>
     (\<not> frame_encode_ok (response_encoding E (sc_tasks s ! i) v) \<or>
        op_result (task_operation (sc_tasks s ! i)) \<noteq> None \<longrightarrow>
        sc_tasks s' ! i = (sc_tasks s ! i)\<lparr>task_phase := Task_done\<rparr> \<and>
        queue_contents vf (sc_write_queue s') = queue_contents vf (sc_write_queue s))"
proof -
  note inv = server_reachable_inv [OF assms(1,2)]
  let ?t = "sc_tasks s ! i"
  have ok: "op_inv (task_operation ?t)" "op_state (task_operation ?t) \<noteq> Operation_created"
    using table_inv_task [OF server_core_parts(1) [OF server_inv_core [OF inv]] assms(3)]
    by (simp_all add: task_ok_def)
  show ?thesis
  proof (cases rule: handler_returned_cases [OF assms(1) inv assms(3), of v])
    case (1 f q res)
    let ?s1 = "fst (call_task_operation s i (Call_complete ''response ready''))"
    have "op_state (task_operation ?t) = Operation_active"
      using 1(2) active_iff [OF ok(2)] op_inv_result [OF ok(1)] by simp
    then have "op_result (task_operation (sc_tasks s' ! i)) =
        Some (OperationResult_success ''response ready'')"
      using handler_sent_effect(2) [OF assms(1) 1(8), of i ?s1] assms(3)
      by (simp add: s' 1(10) tasks_call op_result_complete)
    moreover have "queue_contents vf (sc_write_queue s') = queue_contents vf q"
      using handler_sent_effect(1) [OF assms(1) 1(8), of i ?s1] assms(3) by (simp add: s' 1(10))
    moreover have "has_flag (header_flags (frame_header (final_frame f))) Flags_end_of_stream"
      using 1(5) by (simp add: final_frame_def has_flag_def flags_and_def flags_or_def)
    ultimately show ?thesis
      using 1(1-5,7,9)
      by (auto simp: frame_encode_defs final_frame_def context_stream_id_def)
  next
    case 2
    then show ?thesis by (auto simp: s' frame_encode_defs)
  qed
qed

text \<open>The example's response.\<close>

lemma sample_response_encoding:
  "\<exists>f. response_encoding sample_env sample_task [6] = FrameEncodeResult_success f \<and>
     final_frame f = sample_response"
  by (simp add: response_encoding_def final_frame_def sample_env_def encode_message_def
      encode_message_payload_def PodCodec_def pod_encode_def register_message_at_def
      new_registry_def message_type_at_def frame_encode_defs codec_result_defs
      message_type_is_valid_def empty_registrations_def Let_def message_type_size_def be32.wr_eq
      copy_at_def be32_bytes_def sample_request_def sample_response_def default_max_payload_size_def
      new_task_def flags_or_def)

theorem handler_response_witness:
  "\<exists>s. server_reachable sample_env sample_server s \<and>
     op_result (task_operation (sc_tasks (handler_returned sample_env s 0 (Some [6])) ! 0)) =
       Some (OperationResult_success ''response ready'')"
proof -
  obtain s where s: "server_reachable sample_env sample_server s" "sc_tasks s = [sample_task]"
    by (rule sample_busy)
  obtain f where "response_encoding sample_env sample_task [6] = FrameEncodeResult_success f"
    using sample_response_encoding by blast
  moreover have "in_handler (task_phase (sc_tasks s ! 0))" using s(2) by (simp add: in_handler_def)
  ultimately have "op_result (task_operation (sc_tasks (handler_returned sample_env s 0 (Some [6])) ! 0)) =
      Some (OperationResult_success ''response ready'')"
    using handler_response [OF sample_queue_env s(1) _ _ refl, of 0 "[6]"] s(2) by simp
  then show ?thesis using s(1) by blast
qed

text \<open>
  Property C38. A handler that throws, or whose response cannot be encoded, is silent: no frame
  is sent for its request, and its operation is never settled, whatever happens afterwards. The
  peer learns nothing before its own deadline.
\<close>

theorem failed_handler_is_silent:
  assumes "queue_env (env_queue E) vf vs" and "server_reachable E (new_server E lim hook) s"
    and "i < length (sc_tasks s)" and "in_handler (task_phase (sc_tasks s ! i))"
    and "op_result (task_operation (sc_tasks s ! i)) = None"
    and "\<forall>v. outcome = Some v \<longrightarrow> \<not> frame_encode_ok (response_encoding E (sc_tasks s ! i) v)"
    and "server_reachable E (handler_returned E s i outcome) s''"
  shows "queue_contents vf (sc_write_queue (handler_returned E s i outcome)) =
       queue_contents vf (sc_write_queue s) \<and>
     task_phase (sc_tasks s'' ! i) = Task_done \<and>
     op_result (task_operation (sc_tasks s'' ! i)) = None"
proof -
  note inv = server_reachable_inv [OF assms(1,2)]
  let ?s' = "handler_returned E s i outcome"
  have live: "task_phase (sc_tasks s ! i) \<noteq> Task_done"
    using assms(4) by (auto simp: in_handler_def)
  have adv: "server_advances vf s ?s'" by (rule handler_returned_advances [OF assms(1) inv assms(3) live])
  have now: "sc_tasks ?s' ! i = (sc_tasks s ! i)\<lparr>task_phase := Task_done\<rparr> \<and>
    queue_contents vf (sc_write_queue ?s') = queue_contents vf (sc_write_queue s)"
  proof (cases outcome)
    case None
    then show ?thesis
      using run_handler_end_queue [OF assms(1) server_core_parts(3) [OF server_inv_core [OF inv]]]
        run_handler_end_task [OF assms(3)] by (simp add: handler_returned_def)
  next
    case (Some v)
    then show ?thesis
      using assms(5,6)
      by (cases rule: handler_returned_cases [OF assms(1) inv assms(3), of v])
        (simp_all add: frame_encode_defs)
  qed
  have "tasks_le (sc_tasks ?s') (sc_tasks s'')"
    using server_reachable_advances [OF assms(7,1) server_advancesD [OF adv]]
    by (simp add: server_advances_def)
  moreover have "i < length (sc_tasks ?s')"
    using adv assms(3) by (simp add: server_advances_def tasks_le_def)
  ultimately have "sc_tasks s'' ! i = sc_tasks ?s' ! i"
    using now by (simp add: tasks_le_def task_step_def)
  then show ?thesis using now assms(5) by simp
qed

theorem failed_handler_is_silent_witness:
  "\<exists>s s'. server_reachable sample_env sample_server s \<and> s' = handler_returned sample_env s 0 None \<and>
     queue_contents id (sc_write_queue s') = queue_contents id (sc_write_queue s) \<and>
     op_result (task_operation (sc_tasks s' ! 0)) = None"
proof -
  obtain s where s: "server_reachable sample_env sample_server s" "sc_tasks s = [sample_task]"
    by (rule sample_busy)
  moreover have "in_handler (task_phase (sc_tasks s ! 0))" using s(2) by (simp add: in_handler_def)
  ultimately have "queue_contents id (sc_write_queue (handler_returned sample_env s 0 None)) =
      queue_contents id (sc_write_queue s) \<and>
    op_result (task_operation (sc_tasks (handler_returned sample_env s 0 None) ! 0)) = None"
    using failed_handler_is_silent [OF sample_queue_env s(1) _ _ _ _ server_reachable.start, of 0 None]
    by simp
  then show ?thesis using s(1) by blast
qed

section \<open>Properties: dispatching\<close>

text \<open>What the connection looks like when the read loop has taken the next frame.\<close>

abbreviation frame_seen ::
  "('ch, 'sp, 't, 'v) ServerConnection \<Rightarrow> Frame \<Rightarrow> ('ch, 'sp, 't, 'v) ServerConnection" where
  "frame_seen s f \<equiv> server_notify s (diagnostics_event Event_message_transferred
     (header_stream (frame_header f)) Status_ok 0 True [])"

lemma dispatch_next_open:
  assumes "sc_reader s = Reader_dispatching (f # fs)"
    and "sc_transport_open (server_dispatch E (frame_seen s f) f)"
  shows "server_dispatch_next E s =
     (server_dispatch E (frame_seen s f) f)\<lparr>sc_reader := Reader_dispatching fs\<rparr>"
  using assms by (simp add: server_dispatch_next_def Let_def)

text \<open>An ordinary request: a frame of type request without the cancel flag, on a usable stream.\<close>

definition ordinary_request :: "('ch, 'sp, 't, 'v) ServerConnection \<Rightarrow> Frame \<Rightarrow> bool" where
  "ordinary_request s f \<longleftrightarrow>
     \<not> draining_or_later (sc_lifecycle s) \<and> header_type (frame_header f) = FrameType_request \<and>
     header_stream (frame_header f) \<notin> sc_terminal_streams s \<and>
     \<not> has_flag (header_flags (frame_header f)) Flags_cancel"

lemma dispatch_request:
  assumes "ordinary_request s f" and "peek_message_type (frame_payload f) = Some mt"
    and "sc_handlers s mt = Some types"
    and "map_of (sc_operations s) (header_stream (frame_header f)) = None"
  shows "sc_tasks (server_dispatch E s f) = sc_tasks s @ [new_task types f]"
    and "sc_transport_open (server_dispatch E s f) = sc_transport_open s"
    and "sc_write_queue (server_dispatch E s f) = sc_write_queue s"
    and "sc_operations (server_dispatch E s f) =
      (header_stream (frame_header f), length (sc_tasks s)) # sc_operations s"
  using assms by (simp_all add: server_dispatch_def ordinary_request_def Let_def)

lemma ordinary_request_notify [simp]:
  "ordinary_request (server_notify s ev) f = ordinary_request s f"
  by (simp add: ordinary_request_def)

text \<open>
  A typed request reaches its handler unchanged: when the read loop dispatches the frame a value
  was encoded into, on a stream without an active operation, a new handler task is spawned behind
  the existing ones, no other task changes, the connection stays open, and when that task is
  started the application's handler is entered with exactly that value.
\<close>

lemma request_reaches_handler:
  assumes "codec_contract (env_codec E) good" and "good ty v"
    and "encode_message (env_codec E) (env_registry E) ty v sid FrameType_request Flags_none
      default_max_payload_size current_protocol_version = FrameEncodeResult_success f"
    and "message_type (env_registry E) ty = Some mt"
    and "sc_handlers s mt = Some types" and "handler_request types = ty"
    and "sc_reader s = Reader_dispatching (f # fs)" and "sc_transport_open s"
    and "ordinary_request s f" and "map_of (sc_operations s) sid = None"
    and s1: "s1 = server_dispatch_next E s"
  shows "sc_tasks s1 = sc_tasks s @ [new_task types f] \<and>
     sc_transport_open s1 \<and> sc_reader s1 = Reader_dispatching fs \<and>
     sc_write_queue s1 = sc_write_queue s \<and>
     sc_tasks (handler_started E s1 (length (sc_tasks s))) =
       sc_tasks s @ [(new_task types f)\<lparr>task_phase := Task_running v\<rparr>]"
proof -
  let ?reg = "env_registry E" and ?C = "env_codec E"
  obtain mt' where "message_type_at ?reg current_protocol_version ty = Some mt'"
    and "peek_message_type (frame_payload f) = Some mt'"
    by (rule encoded_message_type [OF assms(3)])
  with assms(4) have peek: "peek_message_type (frame_payload f) = Some mt"
    by (simp add: message_type_def)
  have dec: "decode_message ?C ?reg ty f = DecodeResult_success v"
    by (rule message_roundtrip(1) [OF assms(1,2,3)])
  have header: "header_stream (frame_header f) = sid"
    by (rule encode_message_success [OF assms(3)]) simp
  note disp = dispatch_request [of "frame_seen s f" f mt types E]
  have d: "sc_tasks (server_dispatch E (frame_seen s f) f) = sc_tasks s @ [new_task types f]"
    "sc_transport_open (server_dispatch E (frame_seen s f) f)"
    "sc_write_queue (server_dispatch E (frame_seen s f) f) = sc_write_queue s"
    using disp assms(5,8,9,10) peek header by simp_all
  have eq: "s1 = (server_dispatch E (frame_seen s f) f)\<lparr>sc_reader := Reader_dispatching fs\<rparr>"
    unfolding s1 by (rule dispatch_next_open [OF assms(7) d(2)])
  have tasks: "sc_tasks s1 = sc_tasks s @ [new_task types f]" by (simp add: eq d)
  then have "handler_started E s1 (length (sc_tasks s)) =
    update_task s1 (length (sc_tasks s)) (\<lambda>t. t\<lparr>task_phase := Task_running v\<rparr>)"
    using dec assms(6) by (simp add: handler_started_def codec_result_defs Let_def)
  then show ?thesis using tasks d by (simp add: update_task_def eq)
qed

lemma sample_request_encoding:
  "encode_message (env_codec sample_env) (env_registry sample_env) () [5] (StreamId 1)
     FrameType_request Flags_none default_max_payload_size current_protocol_version =
     FrameEncodeResult_success sample_request"
  by (simp add: sample_env_def encode_message_def encode_message_payload_def
      PodCodec_def pod_encode_def register_message_at_def new_registry_def message_type_at_def
      frame_encode_defs codec_result_defs message_type_is_valid_def empty_registrations_def
      Let_def message_type_size_def be32.wr_eq copy_at_def be32_bytes_def sample_request_def
      default_max_payload_size_def)

lemma sample_codec: "codec_contract (env_codec sample_env) (\<lambda>_ v. length v = 1)"
  using pod.codec_contract_axioms [of "\<lambda>_. 1"] by (simp add: sample_env_def)

text \<open>A frame has been read and is to be dispatched next.\<close>

lemma sample_arrival:
  assumes "validate_frame f default_max_payload_size = Validation_none"
  obtains s where "server_reachable sample_env sample_server s"
    and "sc_reader s = Reader_dispatching [f]" and "sc_transport_open s"
    and "sc_lifecycle s = Connection_active" and "sc_terminal_streams s = {}"
    and "sc_operations s = []" and "sc_tasks s = []" and "dec_clean (sc_decoder s)"
    and "sc_handlers s = [MessageType 7 \<mapsto> sample_types]"
proof -
  obtain D d where arr: "server_event sample_env sample_listening
      (Server_read True (Some (encode_frame f))) = Some (sample_listening
        \<lparr>sc_diagnostics := D, sc_decoder := d, sc_reader := Reader_dispatching [f]\<rparr>)"
    (is "_ = Some ?s") and d: "dec_clean d"
    using frame_arrives [of sample_listening f sample_env] sample_listening_state
      new_decoder_clean assms by metis
  have "server_reachable sample_env sample_listening ?s"
    by (rule server_reachable.step [OF server_reachable.start _ arr])
      (simp add: sample_listening_state)
  with sample_listening_reachable have "server_reachable sample_env sample_server ?s"
    by (rule server_reachable_trans)
  then show thesis using d by (intro that [of ?s]) (simp_all add: sample_listening_state)
qed

lemma sample_ordinary:
  assumes "sc_lifecycle s = Connection_active" and "sc_terminal_streams s = {}"
  shows "ordinary_request s sample_request"
  using assms by (simp add: ordinary_request_def draining_or_later_def sample_request_def
      has_flag_def flags_and_def)

text \<open>
  A request the server cannot route does not disturb the connection: if its payload
  is too short to carry a message type, or no handler is registered for the type, an error frame
  with the status for it is offered to the write queue, no task is spawned or changed, and the
  read loop goes on with the next frame.
\<close>

lemma unroutable_request_answered:
  assumes "sc_reader s = Reader_dispatching (f # fs)" and "sc_transport_open s"
    and "ordinary_request s f"
    and "case peek_message_type (frame_payload f) of None \<Rightarrow> st = Status_decode_error
         | Some mt \<Rightarrow> sc_handlers s mt = None \<and> st = Status_unknown_message_type"
    and s1: "s1 = server_dispatch_next E s"
  shows "sc_write_queue s1 = fst (try_enqueue (env_queue E) (sc_write_queue s)
       (make_error_frame (header_stream (frame_header f)) st)) \<and>
     sc_tasks s1 = sc_tasks s \<and> sc_operations s1 = sc_operations s \<and> sc_transport_open s1 \<and>
     sc_reader s1 = Reader_dispatching fs"
proof -
  let ?s = "frame_seen s f"
  have disp: "server_dispatch E ?s f =
    server_mark_terminal (send_operation_error E ?s (header_stream (frame_header f)) st) f"
    using assms(3,4) by (auto simp: server_dispatch_def ordinary_request_def Let_def split: option.splits)
  have "sc_transport_open (server_dispatch E ?s f)" using assms(2) by (simp add: disp)
  then show ?thesis
    unfolding s1 using assms(2)
    by (simp add: dispatch_next_open [OF assms(1)] disp) (simp add: send_operation_error_def)
qed

text \<open>A valid request frame with an empty payload.\<close>

definition empty_request :: Frame where
  "empty_request = sample_request
     \<lparr>frame_header := (frame_header sample_request)\<lparr>header_payload_size := 0\<rparr>, frame_payload := []\<rparr>"

lemma empty_request_valid:
  "validate_frame empty_request default_max_payload_size = Validation_none"
  by (simp add: empty_request_def sample_request_def validate_frame_def is_known_frame_type_def
      has_only_known_flags_iff stream_is_valid_def has_flag_def flags_and_def
      default_max_payload_size_def Let_def)

lemma unroutable_request_answered_example:
  "\<exists>s. server_reachable sample_env sample_server s \<and>
     sc_write_queue (server_dispatch_next sample_env s) = fst (try_enqueue (env_queue sample_env)
       (sc_write_queue s) (make_error_frame (StreamId 1) Status_decode_error)) \<and>
     sc_transport_open (server_dispatch_next sample_env s)"
proof -
  obtain s where s: "server_reachable sample_env sample_server s"
    "sc_reader s = Reader_dispatching [empty_request]" "sc_transport_open s"
    "sc_lifecycle s = Connection_active" "sc_terminal_streams s = {}"
    by (rule sample_arrival [OF empty_request_valid]) simp
  have "ordinary_request s empty_request"
    using sample_ordinary [OF s(4,5)] by (simp add: ordinary_request_def empty_request_def)
  moreover have "peek_message_type (frame_payload empty_request) = None"
    by (simp add: empty_request_def peek_message_type_def message_type_size_def)
  ultimately show ?thesis
    using unroutable_request_answered [OF s(2,3), of Status_decode_error _ sample_env] s(1)
    by (intro exI [of _ s]) (simp add: empty_request_def sample_request_def)
qed

section \<open>Properties: cancellation and the end of the connection\<close>

lemma live_operation:
  assumes "server_inv vf s" and "i < length (sc_tasks s)"
  shows "op_inv (task_operation (sc_tasks s ! i))"
    and "op_state (task_operation (sc_tasks s ! i)) \<noteq> Operation_created"
    and "op_result (task_operation (sc_tasks s ! i)) = None \<longleftrightarrow>
      op_state (task_operation (sc_tasks s ! i)) = Operation_active"
proof -
  show inv: "op_inv (task_operation (sc_tasks s ! i))"
    and created: "op_state (task_operation (sc_tasks s ! i)) \<noteq> Operation_created"
    using table_inv_task [OF server_core_parts(1) [OF server_inv_core [OF assms(1)]] assms(2)]
    by (simp_all add: task_ok_def)
  show "op_result (task_operation (sc_tasks s ! i)) = None \<longleftrightarrow>
      op_state (task_operation (sc_tasks s ! i)) = Operation_active"
    using op_inv_result [OF inv] active_iff [OF created] by simp
qed

text \<open>A settled operation stays settled, with the same result.\<close>

lemma server_result_kept:
  assumes "queue_env (env_queue E) vf vs" and "server_inv vf s" and "server_reachable E s s'"
    and "i < length (sc_tasks s)" and "op_result (task_operation (sc_tasks s ! i)) = Some res"
  shows "i < length (sc_tasks s') \<and> op_result (task_operation (sc_tasks s' ! i)) = Some res"
proof -
  have "op_is_terminal (task_operation (sc_tasks s ! i))"
    using op_inv_result [OF live_operation(1) [OF assms(2,4)]] assms(5) by simp
  moreover have "tasks_le (sc_tasks s) (sc_tasks s')"
    using server_reachable_advances [OF assms(3,1,2)] by (simp add: server_advances_def)
  ultimately show ?thesis using assms(4,5) by (auto simp: tasks_le_def task_step_def op_step_def)
qed

definition cancels :: "('ch, 'sp, 't, 'v) ServerConnection \<Rightarrow> Frame \<Rightarrow> nat \<Rightarrow> bool" where
  "cancels s f i \<longleftrightarrow>
     \<not> draining_or_later (sc_lifecycle s) \<and> header_type (frame_header f) = FrameType_request \<and>
     header_stream (frame_header f) \<notin> sc_terminal_streams s \<and>
     has_flag (header_flags (frame_header f)) Flags_cancel \<and>
     map_of (sc_operations s) (header_stream (frame_header f)) = Some i"

text \<open>
  Property C21. A cancellation from the peer, for a stream with an active operation, on a connection
  that is not draining and a stream that has seen no final frame yet (\<open>cancels\<close>): it settles exactly the
  operation of its stream as cancelled and raises the flag its handler can ask for; the other tasks
  and the connection are not affected, and whatever the handler returns at any later time, nothing is
  sent for it. While the connection drains a cancellation has no effect
  (\<open>draining_server_refuses\<close>), and without an operation it ends the connection
  (\<open>violating_frame\<close>).
\<close>

theorem peer_cancellation:
  assumes "queue_env (env_queue E) vf vs" and "server_reachable E (new_server E lim hook) s"
    and "sc_reader s = Reader_dispatching (f # fs)" and "sc_transport_open s" and "cancels s f i"
    and "op_result (task_operation (sc_tasks s ! i)) = None"
    and s1: "s1 = server_dispatch_next E s"
  shows "op_result (task_operation (sc_tasks s1 ! i)) =
       Some (OperationResult_failure Status_cancelled ''operation cancelled by peer'') \<and>
     context_is_cancelled s1 i \<and> (\<forall>j. j \<noteq> i \<longrightarrow> sc_tasks s1 ! j = sc_tasks s ! j) \<and>
     sc_transport_open s1 \<and> sc_write_queue s1 = sc_write_queue s \<and>
     (\<forall>s2 v. server_reachable E s1 s2 \<and> in_handler (task_phase (sc_tasks s2 ! i)) \<longrightarrow>
        queue_contents vf (sc_write_queue (handler_returned E s2 i (Some v))) =
          queue_contents vf (sc_write_queue s2))"
proof -
  let ?m = "Call_cancel ''operation cancelled by peer'' :: DiagnosticsEvent OpCall"
  note inv = server_reachable_inv [OF assms(1,2)]
  have entry: "map_of (sc_operations s) (header_stream (frame_header f)) = Some i"
    using assms(5) by (simp add: cancels_def)
  have i: "i < length (sc_tasks s)"
    by (rule table_inv_entry(1) [OF server_core_parts(1) [OF server_inv_core [OF inv]] entry])
  have disp: "server_dispatch E (frame_seen s f) f =
    server_mark_terminal (fst (call_task_operation (frame_seen s f) i ?m)) f"
    using assms(5) by (simp add: server_dispatch_def cancels_def Let_def)
  then have open1: "sc_transport_open (server_dispatch E (frame_seen s f) f)"
    using assms(4) by simp
  have eq: "s1 = (server_dispatch E (frame_seen s f) f)\<lparr>sc_reader := Reader_dispatching fs\<rparr>"
    unfolding s1 by (rule dispatch_next_open [OF assms(3) open1])
  have tasks: "sc_tasks s1 = (sc_tasks s)[i := (sc_tasks s ! i)
      \<lparr>task_operation := fst (op_call ?m (task_operation (sc_tasks s ! i)))\<rparr>]"
    by (simp add: eq disp tasks_call)
  have active: "op_state (task_operation (sc_tasks s ! i)) = Operation_active"
    using live_operation(3) [OF inv i] assms(6) by simp
  have res: "op_result (task_operation (sc_tasks s1 ! i)) =
      Some (OperationResult_failure Status_cancelled ''operation cancelled by peer'')"
    using i by (simp add: tasks op_result_cancel [OF active])
  have "context_is_cancelled s1 i"
    using i active by (simp add: context_is_cancelled_def tasks op_call.simps op_method_defs
        op_is_terminal_def operation_transition_def)
  moreover have "sc_write_queue s1 = sc_write_queue s" by (simp add: eq disp)
  moreover have "queue_contents vf (sc_write_queue (handler_returned E s2 i (Some v))) =
      queue_contents vf (sc_write_queue s2)" if "server_reachable E s1 s2" for s2 v
  proof -
    have reach1: "server_reachable E (new_server E lim hook) s1"
      using server_reachable.step [OF assms(2), of Server_dispatch_next s1] assms(3) s1
      by (simp add: dispatching_def)
    note inv1 = server_reachable_inv [OF assms(1) reach1]
    note inv2 = server_advancesD [OF server_reachable_advances [OF that assms(1) inv1]]
    have "i < length (sc_tasks s1)" using i by (simp add: tasks)
    from server_result_kept [OF assms(1) inv1 that this res] show ?thesis
      by (cases rule: handler_returned_cases [OF assms(1) inv2, of i v]) simp_all
  qed
  ultimately show ?thesis using res open1 by (simp add: eq tasks) (simp add: disp tasks_call)
qed

text \<open>A further frame arrives while the example's handler runs.\<close>

lemma sample_busy_arrival:
  assumes "validate_frame f default_max_payload_size = Validation_none"
  obtains s where "server_reachable sample_env sample_server s"
    and "sc_reader s = Reader_dispatching [f]" and "sc_transport_open s"
    and "sc_lifecycle s = Connection_active" and "sc_terminal_streams s = {}"
    and "sc_operations s = [(StreamId 1, 0)]" and "sc_tasks s = [sample_task]"
    and "sc_handlers s = [MessageType 7 \<mapsto> sample_types]" and "sc_active_handlers s = 1"
    and "dec_clean (sc_decoder s)"
proof -
  obtain s where s: "server_reachable sample_env sample_server s" "sc_tasks s = [sample_task]"
    "sc_operations s = [(StreamId 1, 0)]" "sc_terminal_streams s = {}"
    "sc_lifecycle s = Connection_active" "sc_transport_open s"
    "sc_reader s = Reader_dispatching []" "dec_clean (sc_decoder s)"
    "sc_handlers s = [MessageType 7 \<mapsto> sample_types]" "sc_active_handlers s = 1"
    by (rule sample_busy) simp
  let ?s1 = "s\<lparr>sc_reader := Reader_reading\<rparr>"
  have idle: "server_dispatch_next sample_env s = ?s1"
    using s(6,7,8)
    by (simp add: server_dispatch_next_def server_frames_done_def server_read_head_def dec_clean_def)
  have r1: "server_reachable sample_env s ?s1"
    by (rule server_reachable.step [OF server_reachable.start, of _ Server_dispatch_next])
      (simp_all add: s(7) dispatching_def idle)
  obtain D d where arr: "server_event sample_env ?s1 (Server_read True (Some (encode_frame f))) =
      Some (?s1\<lparr>sc_diagnostics := D, sc_decoder := d, sc_reader := Reader_dispatching [f]\<rparr>)"
    (is "_ = Some ?s2") and d: "dec_clean d"
    by (rule frame_arrives [of ?s1 f sample_env]) (use s assms in simp_all)
  have "server_reachable sample_env ?s1 ?s2"
    by (rule server_reachable.step [OF server_reachable.start _ arr]) simp
  then have "server_reachable sample_env sample_server ?s2"
    by (rule server_reachable_trans [OF server_reachable_trans [OF s(1) r1]])
  then show thesis using s d by (intro that [of ?s2]) simp_all
qed

definition sample_cancel :: Frame where
  "sample_cancel =
     \<lparr>frame_header = \<lparr>header_version = current_protocol_version, header_type = FrameType_request,
        header_flags = flags_or Flags_cancel Flags_end_of_stream, header_stream = StreamId 1,
        header_payload_size = 0\<rparr>,
      frame_payload = []\<rparr>"

lemma sample_cancel_valid:
  "validate_frame sample_cancel default_max_payload_size = Validation_none"
  by (simp add: sample_cancel_def validate_frame_def is_known_frame_type_def
      has_only_known_flags_iff stream_is_valid_def has_flag_def flags_and_def flags_or_def
      default_max_payload_size_def Let_def)

lemma sample_cancels:
  assumes "sc_lifecycle s = Connection_active" and "sc_terminal_streams s = {}"
    and "sc_operations s = [(StreamId 1, 0)]"
  shows "cancels s sample_cancel 0"
  using assms by (simp add: cancels_def sample_cancel_def draining_or_later_def has_flag_def
      flags_and_def flags_or_def)

theorem peer_cancellation_witness:
  "\<exists>s. server_reachable sample_env sample_server s \<and> context_is_cancelled s 0 \<and>
     op_result (task_operation (sc_tasks s ! 0)) =
       Some (OperationResult_failure Status_cancelled ''operation cancelled by peer'')"
proof -
  obtain s where s: "server_reachable sample_env sample_server s"
    "sc_reader s = Reader_dispatching [sample_cancel]" "sc_transport_open s"
    "sc_lifecycle s = Connection_active" "sc_terminal_streams s = {}"
    "sc_operations s = [(StreamId 1, 0)]" "sc_tasks s = [sample_task]"
    by (rule sample_busy_arrival [OF sample_cancel_valid]) simp
  let ?s1 = "server_dispatch_next sample_env s"
  have "server_reachable sample_env sample_server ?s1"
    using server_reachable.step [OF s(1), of Server_dispatch_next ?s1] s(2) by (simp add: dispatching_def)
  moreover have "context_is_cancelled ?s1 0 \<and> op_result (task_operation (sc_tasks ?s1 ! 0)) =
       Some (OperationResult_failure Status_cancelled ''operation cancelled by peer'')"
    using peer_cancellation [OF sample_queue_env s(1-3) sample_cancels [OF s(4-6)] _ refl] s(7) by simp
  ultimately show ?thesis by blast
qed

text \<open>The loss of the connection settles an operation that has no result, and tells its handler.\<close>

lemma connection_lost_result:
  assumes "op_inv opn" and "op_state opn \<noteq> Operation_created"
  shows "op_result (connection_lost_op opn) =
      (case op_result opn of
         None \<Rightarrow> Some (OperationResult_failure Status_connection_closed
                        ''connection closed while processing a request'')
       | Some res \<Rightarrow> Some res)"
    and "op_result opn = None \<Longrightarrow> op_cancellation_requested (connection_lost_op opn)"
  using connection_lost_op_active [of opn] connection_lost_op_step [of opn] op_inv_result [OF assms(1)]
    active_iff [OF assms(2)]
  by (auto simp: op_step_def split: option.split)

text \<open>How a read tells that the connection is gone: an exception, or no bytes and a closed transport.\<close>

definition connection_gone :: "bool \<Rightarrow> Buffer option \<Rightarrow> bool" where
  "connection_gone still_open result \<longleftrightarrow> result = None \<or> result = Some [] \<and> \<not> still_open"

text \<open>
  Property C10. When the transport fails or ends under the read loop, every handler that has not
  ended learns of it: an operation without a result gets \<open>connection_closed\<close>, and its handler sees
  the cancellation flag; operations that have a result keep it. The read loop has ended and the
  connection counts as closed. The same happens when the drain period of a shutdown is over.
\<close>

theorem connection_loss_reaches_handlers:
  assumes "queue_env (env_queue E) vf vs" and "server_reachable E (new_server E lim hook) s"
    and "i \<in> live_handlers s" and "sc_lifecycle s \<noteq> Connection_created"
    and "server_read_completed E s still_open result = Some s' \<and> connection_gone still_open result \<or>
      s' = server_shutdown_finish s"
  shows "op_result (task_operation (sc_tasks s' ! i)) =
       (case op_result (task_operation (sc_tasks s ! i)) of
          None \<Rightarrow> Some (OperationResult_failure Status_connection_closed
                         ''connection closed while processing a request'')
        | Some res \<Rightarrow> Some res) \<and>
     (op_result (task_operation (sc_tasks s ! i)) = None \<longrightarrow> context_is_cancelled s' i) \<and>
     task_phase (sc_tasks s' ! i) = task_phase (sc_tasks s ! i) \<and>
     sc_lifecycle s' = Connection_closed"
proof -
  note inv = server_reachable_inv [OF assms(1,2)]
  note core = server_inv_core [OF inv]
  have i: "i < length (sc_tasks s)" and live: "task_phase (sc_tasks s ! i) \<noteq> Task_done"
    using assms(3) by (simp_all add: live_handlers_def)
  have "sc_operations s \<noteq> []"
    using table_inv_task [OF server_core_parts(1) [OF core] i] live by (auto simp: task_ok_def)
  then have busy: "sc_active_handlers s \<noteq> 0" using active_handlers_zero [OF core] by simp
  have wiring: "sc_lifecycle (fail_operations_on_connection_close s0) = sc_lifecycle s0"
    if "table_inv (sc_operations s0) (sc_tasks s0)" for s0 :: "('a, 'b, 'c, 'd) ServerConnection"
    using fail_operations_effect(1) [OF that] by (simp add: same_server_wiring_def)
  let ?lost = "(sc_tasks s ! i)\<lparr>task_operation := connection_lost_op (task_operation (sc_tasks s ! i))\<rparr>"
  have "sc_tasks s' ! i = ?lost \<and> sc_lifecycle s' = Connection_closed"
    using assms(5)
  proof
    assume "s' = server_shutdown_finish s"
    then show ?thesis
      using busy i live fail_operations_effect(2) [OF server_core_parts(1) [OF core] i]
        wiring [OF server_core_parts(1) [OF core]] server_core_parts(5) [OF core] assms(4)
      by (simp add: server_shutdown_finish_def Let_def resting_def transition_closed)
  next
    let ?s0 = "s\<lparr>sc_transport_open := sc_transport_open s \<and> still_open\<rparr>"
    assume "server_read_completed E s still_open result = Some s' \<and> connection_gone still_open result"
    then have "s' = server_read_exit E ?s0 True"
      by (auto simp: server_read_completed_def connection_gone_def)
    then show ?thesis
      using i live fail_operations_effect(2) [of ?s0 i] wiring [of ?s0] server_core_parts(1,5) [OF core] assms(4)
      by (simp add: server_read_exit_def Let_def resting_def transition_closed)
  qed
  then show ?thesis
    using connection_lost_result [OF live_operation(1,2) [OF inv i]] by (simp add: context_is_cancelled_def)
qed

theorem connection_loss_reaches_handlers_witness:
  "\<exists>s. server_reachable sample_env sample_server s \<and>
     op_result (task_operation (sc_tasks (server_shutdown_finish s) ! 0)) =
       Some (OperationResult_failure Status_connection_closed
         ''connection closed while processing a request'') \<and>
     context_is_cancelled (server_shutdown_finish s) 0"
proof -
  obtain s where s: "server_reachable sample_env sample_server s" "sc_tasks s = [sample_task]"
    "sc_lifecycle s = Connection_active"
    by (rule sample_busy)
  have "0 \<in> live_handlers s" using s(2) by (simp add: live_handlers_def)
  then show ?thesis
    using connection_loss_reaches_handlers [OF sample_queue_env s(1), of 0 True None "server_shutdown_finish s"]
      s by (intro exI [of _ s]) simp
qed

text \<open>
  A second request on a stream with an active operation closes the transport, but unlike the other
  violations it is neither answered nor reported to the diagnostics hook.
\<close>

lemma second_request_closes_silently:
  assumes "ordinary_request s f" and "peek_message_type (frame_payload f) = Some mt"
    and "sc_handlers s mt = Some types"
    and "map_of (sc_operations s) (header_stream (frame_header f)) = Some i"
  shows "\<not> sc_transport_open (server_dispatch E s f) \<and>
     sc_diagnostics (server_dispatch E s f) = sc_diagnostics s \<and>
     sc_write_queue (server_dispatch E s f) = sc_write_queue s"
  using assms by (simp add: server_dispatch_def ordinary_request_def Let_def)

text \<open>
  What the server takes for a violation of the protocol: a frame that is no request, any frame
  on a stream that saw a final frame, a cancellation for a stream without an operation, and a
  second request on a stream with one.
\<close>

definition protocol_violation :: "('ch, 'sp, 't, 'v) ServerConnection \<Rightarrow> Frame \<Rightarrow> bool" where
  "protocol_violation s f \<longleftrightarrow>
     header_type (frame_header f) \<noteq> FrameType_request \<or>
     header_stream (frame_header f) \<in> sc_terminal_streams s \<or>
     (if has_flag (header_flags (frame_header f)) Flags_cancel
      then map_of (sc_operations s) (header_stream (frame_header f)) = None
      else map_of (sc_operations s) (header_stream (frame_header f)) \<noteq> None \<and>
        (\<exists>mt \<in> dom (sc_handlers s). peek_message_type (frame_payload f) = Some mt))"

lemma violating_frame:
  assumes "sc_reader s = Reader_dispatching (f # fs)" and "sc_lifecycle s = Connection_active"
    and "protocol_violation s f" and s1: "s1 = server_dispatch_next E s"
  shows "\<not> sc_transport_open s1 \<and> sc_reader s1 = Reader_done \<and> sc_lifecycle s1 = Connection_closed \<and>
     sc_tasks s1 = sc_tasks s \<and> sc_operations s1 = sc_operations s"
proof -
  let ?s = "frame_seen s f" and ?s2 = "server_dispatch E (frame_seen s f) f"
  have "\<not> draining_or_later (sc_lifecycle ?s)" using assms(2) by (simp add: draining_or_later_def)
  then have d: "\<not> sc_transport_open ?s2" "sc_tasks ?s2 = sc_tasks s"
    "sc_operations ?s2 = sc_operations s" "sc_lifecycle ?s2 = Connection_active"
    using assms(2,3)
    by (auto simp: server_dispatch_def protocol_violation_def Let_def split: option.split if_splits)
  have "s1 = server_frames_done E ?s2"
    unfolding s1 using assms(1) d(1) by (simp add: server_dispatch_next_def Let_def)
  then show ?thesis
    using d by (auto simp: server_frames_done_def server_read_head_def server_read_exit_def
        connection_transition_def Let_def split: option.split)
qed

text \<open>
  Property C37. A frame that violates the protocol closes the transport and ends the connection;
  but unlike a lost connection it leaves every handler task as it is. Operations without a result
  do not get one, and their handlers are not told.
\<close>

theorem violation_leaves_operations:
  assumes "sc_reader s = Reader_dispatching (f # fs)" and "sc_lifecycle s = Connection_active"
    and "protocol_violation s f" and s1: "s1 = server_dispatch_next E s"
  shows "\<not> sc_transport_open s1 \<and> sc_reader s1 = Reader_done \<and> sc_lifecycle s1 = Connection_closed \<and>
     sc_tasks s1 = sc_tasks s \<and> sc_operations s1 = sc_operations s"
  unfolding s1 by (rule violating_frame [OF assms(1-3) refl])

lemma sample_response_valid:
  "validate_frame sample_response default_max_payload_size = Validation_none"
  by (simp add: sample_response_def validate_frame_def is_known_frame_type_def
      has_only_known_flags_iff stream_is_valid_def has_flag_def flags_and_def
      default_max_payload_size_def Let_def)

theorem violation_leaves_operations_witness:
  "\<exists>s. server_reachable sample_env sample_server s \<and> sc_lifecycle s = Connection_closed \<and>
     \<not> sc_transport_open s \<and> op_result (task_operation (sc_tasks s ! 0)) = None \<and>
     \<not> context_is_cancelled s 0"
proof -
  obtain s where s: "server_reachable sample_env sample_server s"
    "sc_reader s = Reader_dispatching [sample_response]" "sc_lifecycle s = Connection_active"
    "sc_tasks s = [sample_task]"
    by (rule sample_busy_arrival [OF sample_response_valid]) simp
  let ?s1 = "server_dispatch_next sample_env s"
  have "protocol_violation s sample_response"
    by (simp add: protocol_violation_def sample_response_def)
  from violation_leaves_operations [OF s(2,3) this refl, of sample_env]
  have "sc_lifecycle ?s1 = Connection_closed" "\<not> sc_transport_open ?s1" "sc_tasks ?s1 = [sample_task]"
    using s(4) by simp_all
  moreover have "server_reachable sample_env sample_server ?s1"
    using server_reachable.step [OF s(1), of Server_dispatch_next ?s1] s(2) by (simp add: dispatching_def)
  ultimately show ?thesis
    by (intro exI [of _ ?s1]) (simp add: context_is_cancelled_def)
qed

text \<open>
  After \<open>begin_shutdown\<close> the connection drains: every further frame, a cancellation of a running
  operation included, is answered with an error frame carrying \<open>connection_closed\<close>, spawns no handler
  and changes no task, so that a cancelled handler is not told; the handlers that are still running may
  finish.
\<close>

lemma draining_server_refuses:
  assumes "queue_env (env_queue E) vf vs" and "server_reachable E (new_server E lim hook) s"
  shows "draining_or_later (sc_lifecycle (server_begin_shutdown s)) \<and>
     sc_tasks (server_begin_shutdown s) = sc_tasks s \<and>
     sc_tasks (server_dispatch E (server_begin_shutdown s) f) = sc_tasks s \<and>
     sc_operations (server_dispatch E (server_begin_shutdown s) f) = sc_operations s \<and>
     sc_transport_open (server_dispatch E (server_begin_shutdown s) f) = sc_transport_open s \<and>
     sc_write_queue (server_dispatch E (server_begin_shutdown s) f) =
       fst (try_enqueue (env_queue E) (sc_write_queue s)
         (make_error_frame (header_stream (frame_header f)) Status_connection_closed))"
proof -
  have "resting (sc_lifecycle s)"
    by (rule server_core_parts(5) [OF server_inv_core [OF server_reachable_inv [OF assms]]])
  then have drain: "draining_or_later (sc_lifecycle (server_begin_shutdown s))"
    by (cases "sc_lifecycle s")
      (simp_all add: server_begin_shutdown_def resting_def draining_or_later_def
        connection_transition_def Let_def)
  then have "server_dispatch E (server_begin_shutdown s) f = server_mark_terminal
      (send_operation_error E (server_begin_shutdown s) (header_stream (frame_header f))
        Status_connection_closed) f"
    by (simp add: server_dispatch_def)
  then show ?thesis
    using drain by (simp add: send_operation_error_def)
      (simp add: server_begin_shutdown_def Let_def)
qed

lemma draining_server_refuses_example:
  "\<exists>s. server_reachable sample_env sample_server s \<and> sc_tasks s = [sample_task] \<and>
     sc_tasks (server_dispatch sample_env (server_begin_shutdown s) sample_request) = [sample_task]"
proof -
  obtain s where s: "server_reachable sample_env sample_server s" "sc_tasks s = [sample_task]"
    by (rule sample_busy)
  then show ?thesis using draining_server_refuses [OF sample_queue_env s(1)] by (intro exI [of _ s]) simp
qed

text \<open>
  Property C26. When the read loop has ended and the last handler has ended, the write queue has
  been closed, so the other half of \<open>run\<close> comes to an end too, whatever the transport does. Let the
  writes that a writer waiting for frames starts from here on end as \<open>ws\<close> says, for at least one more
  write than there are queued frames. Then the writer returns: with success, all queued frames having been
  handed to the transport in order, if none of these writes fails; and otherwise with \<open>transport_error\<close>
  and the text of the first failure, nothing having been handed over after the write that failed.
\<close>

theorem idle_server_finishes:
  assumes "queue_env (env_queue E) vf vs" and "server_reachable E (new_server E lim hook) s"
    and "sc_reader s = Reader_done" and "live_handlers s = {}"
  shows "wq_closed (sc_write_queue s) \<and>
     (wq_writer (sc_write_queue s) = Writer_receiving \<and> length (buffer_of vf (sc_write_queue s)) < length ws \<longrightarrow>
       wq_writer (write_out (env_queue E) (sc_write_queue s) ws) = Writer_returned
         (case first_failure (take (length (buffer_of vf (sc_write_queue s))) ws) of
            None \<Rightarrow> WriteResult_success
          | Some what \<Rightarrow> WriteResult_failure Status_transport_error what) \<and>
       wq_writes (write_out (env_queue E) (sc_write_queue s) ws) = wq_writes (sc_write_queue s) @
         map encode_frame (take (writes_started ws) (buffer_of vf (sc_write_queue s))))"
proof -
  note inv = server_reachable_inv [OF assms(1,2)]
  note parts = server_core_parts [OF server_inv_core [OF inv]]
  have "sc_operations s = []" using live_handlers_table(1) [OF parts(1)] assms(4) by simp
  then have closed: "wq_closed (sc_write_queue s)"
    using inv parts(6) assms(3) by (simp add: server_inv_def)
  then show ?thesis using write_out_closed [OF assms(1) parts(3) closed, of ws] by blast
qed

lemma sample_response_enqueued:
  obtains q where "enqueue (env_queue sample_env) (sc_write_queue sample_listening) sample_response =
      (q, Some WriteResult_success)" and "buffer_of id q = [sample_response]"
    and "wq_writer q = Writer_receiving" and "wq_writes q = []"
proof -
  let ?r = "enqueue (env_queue sample_env) (sc_write_queue sample_listening) sample_response"
  have "snd ?r = Some WriteResult_success" "buffer_of id (fst ?r) = [sample_response]"
    "wq_writer (fst ?r) = Writer_receiving" "wq_writes (fst ?r) = []"
    by (simp_all add: sample_listening_state sample_env_def reference_queue_ops_def reference_channel_def
        view_op_defs enqueue_def enqueue_attempt_def try_enqueue_frame_def new_write_queue_def writer_loop_def
        can_fit_def queued_bytes_def write_ok_def WriteResult_success_def WriteResult_failure_def
        frame_header_size_def sample_response_def Let_def)
  then show thesis by (intro that [of "fst ?r"]) (metis prod.collapse)+
qed

text \<open>
  The example's handler has answered, the peer is gone before the answer was written, and the
  write fails.
\<close>

lemma sample_gone:
  obtains s where "server_reachable sample_env sample_server s" and "\<not> sc_transport_open s"
    and "sc_reader s = Reader_done" and "live_handlers s = {}"
    and "wq_writer (sc_write_queue s) = Writer_receiving"
    and "buffer_of id (sc_write_queue s) = [sample_response]" and "wq_writes (sc_write_queue s) = []"
proof -
  obtain s where s: "server_reachable sample_env sample_server s" "sc_tasks s = [sample_task]"
    "sc_transport_open s" "sc_reader s = Reader_dispatching []" "sc_reading s" "dec_clean (sc_decoder s)"
    "sc_write_queue s = sc_write_queue sample_listening"
    by (rule sample_busy)
  obtain q where q: "enqueue (env_queue sample_env) (sc_write_queue sample_listening) sample_response =
      (q, Some WriteResult_success)" "buffer_of id q = [sample_response]" "wq_writer q = Writer_receiving"
      "wq_writes q = []"
    by (rule sample_response_enqueued)
  let ?s1 = "handler_returned sample_env s 0 (Some [6])"
  let ?s2 = "server_dispatch_next sample_env ?s1"
  let ?s3 = "server_read_exit sample_env (?s2\<lparr>sc_transport_open := False\<rparr>) True"
  have inv: "server_inv id s" by (rule server_reachable_inv [OF sample_queue_env s(1)])
  have "?s1 = run_handler_end sample_env ((fst (call_task_operation s 0 (Call_complete ''response ready'')))
      \<lparr>sc_write_queue := q\<rparr>) 0"
    using handler_returned_eq [OF inv, of 0 sample_env "[6]"] sample_response_encoding s(2,7) q(1)
    by (auto simp: frame_encode_defs handler_sent_def)
  then have s1: "sc_write_queue ?s1 = q" "live_handlers ?s1 = {}" "sc_transport_open ?s1"
    "sc_reader ?s1 = Reader_dispatching []" "sc_decoder ?s1 = sc_decoder s" "length (sc_tasks ?s1) = 1"
    using s by (auto simp: run_handler_end_def close_queue_when_idle_def live_handlers_def tasks_call
        update_task_def nth_Cons' Let_def)
  then have s2: "?s2 = ?s1\<lparr>sc_reader := Reader_reading\<rparr>"
    using s(6) by (simp add: server_dispatch_next_def server_frames_done_def server_read_head_def dec_clean_def)
  have "server_events sample_env s [Server_handler_returned 0 (Some [6]), Server_dispatch_next,
      Server_read False None] = Some ?s3"
    using s(2) s1(4) by (simp add: in_handler_def dispatching_def s2 server_read_completed_def)
  then have reach: "server_reachable sample_env sample_server ?s3"
    by (rule server_reachable_trans [OF s(1) server_events_reachable])
  have inv1: "server_inv id ?s1"
    by (rule server_reachable_inv [OF sample_queue_env server_reachable.step [OF s(1),
          of "Server_handler_returned 0 (Some [6])"]]) (use s(2) in \<open>simp_all add: in_handler_def\<close>)
  have wq: "wq_inv id q" using server_core_parts(3) [OF server_inv_core [OF inv1]] s1(1) by simp
  have "sc_operations ?s1 = []"
    using live_handlers_table(1) [OF server_core_parts(1) [OF server_inv_core [OF inv1]]] s1(2) by simp
  then have "sc_tasks ?s3 = sc_tasks ?s1" "sc_write_queue ?s3 = sc_write_queue ?s1 \<or>
      sc_write_queue ?s3 = close_queue (env_queue sample_env) (sc_write_queue ?s1)"
    "\<not> sc_transport_open ?s3" "sc_reader ?s3 = Reader_done"
    by (simp_all add: server_read_exit_def fail_operations_on_connection_close_def close_queue_when_idle_def
        s2 Let_def)
  then show thesis
    using close_queue_inv [OF sample_queue_env wq] q s1 reach that [of ?s3]
    by (auto simp: live_handlers_def)
qed

theorem idle_server_finishes_witness:
  "\<exists>s. server_reachable sample_env sample_server s \<and> \<not> sc_transport_open s \<and>
     wq_writer (write_out (env_queue sample_env) (sc_write_queue s) [Some ''broken pipe'', None]) =
       Writer_returned (WriteResult_failure Status_transport_error ''broken pipe'') \<and>
     wq_writes (write_out (env_queue sample_env) (sc_write_queue s) [Some ''broken pipe'', None]) =
       [encode_frame sample_response]"
proof -
  obtain s where s: "server_reachable sample_env sample_server s" "\<not> sc_transport_open s"
    "sc_reader s = Reader_done" "live_handlers s = {}" "wq_writer (sc_write_queue s) = Writer_receiving"
    "buffer_of id (sc_write_queue s) = [sample_response]" "wq_writes (sc_write_queue s) = []"
    by (rule sample_gone)
  from idle_server_finishes [OF sample_queue_env s(1,3,4), of "[Some ''broken pipe'', None]"] s(2,5-)
  show ?thesis using s(1) by (intro exI [of _ s]) (simp add: writes_started_def del: write_out.simps)
qed

end
