(* ===== verification/Tcp_Transport.thy ===== *)
theory Tcp_Transport
  imports Prelude
begin

text \<open>
  The transport interface (\<open>transport.hpp\<close>) as a locale, and its implementation over a TCP socket
  (\<open>tcp_transport.hpp\<close>). The socket belongs to Boost.Asio: its operations are parameters, and
  how an asynchronous read or write ends is supplied with the event that completes it. Both
  coroutines are cut at their only suspension point: \<open>tcp_read_begin\<close> and \<open>tcp_write_begin\<close>
  give the result when there is no suspension.
\<close>

section \<open>Errors and sockets\<close>

text \<open>The error codes the library looks at; a missing code is success.\<close>

datatype ErrorCode =
  Error_eof
| Error_connection_refused
| Error_connection_reset
| Error_connection_aborted
| Error_operation_aborted
| Error_not_connected
| Error_other int

record 's SocketOps =
  socket_is_open :: "'s \<Rightarrow> bool"
  socket_shutdown :: "'s \<Rightarrow> 's"
  socket_close :: "'s \<Rightarrow> 's"

section \<open>The TCP transport\<close>

record 's TcpTransport =
  tt_socket :: 's
  tt_open :: bool

definition new_tcp_transport :: "'s \<Rightarrow> 's TcpTransport" where
  "new_tcp_transport sock = \<lparr>tt_socket = sock, tt_open = True\<rparr>"

definition tcp_is_open :: "'s SocketOps \<Rightarrow> 's TcpTransport \<Rightarrow> bool" where
  "tcp_is_open S t \<longleftrightarrow> tt_open t \<and> socket_is_open S (tt_socket t)"

definition tcp_close :: "'s SocketOps \<Rightarrow> 's TcpTransport \<Rightarrow> 's TcpTransport" where
  "tcp_close S t =
     (if \<not> tt_open t then t
      else \<lparr>tt_socket = socket_close S (socket_shutdown S (tt_socket t)), tt_open = False\<rparr>)"

definition tcp_read_begin :: "'s SocketOps \<Rightarrow> 's TcpTransport \<Rightarrow> (ErrorCode + Buffer) option" where
  "tcp_read_begin S t = (if \<not> tcp_is_open S t then Some (Inr []) else None)"

text \<open>\<open>async_read_some\<close> has completed with an error or with the bytes it has put into the buffer.\<close>

definition tcp_read_completed ::
  "'s SocketOps \<Rightarrow> 's TcpTransport \<Rightarrow> ErrorCode option \<Rightarrow> Buffer \<Rightarrow>
     's TcpTransport \<times> (ErrorCode + Buffer)" where
  "tcp_read_completed S t error bytes =
     (if error = Some Error_eof then (tcp_close S t, Inr [])
      else (case error of
              Some e \<Rightarrow> (tcp_close S t, Inl e)
            | None \<Rightarrow> (t, Inr bytes)))"

definition tcp_write_begin :: "'s SocketOps \<Rightarrow> 's TcpTransport \<Rightarrow> (ErrorCode + unit) option" where
  "tcp_write_begin S t = (if \<not> tcp_is_open S t then Some (Inl Error_not_connected) else None)"

definition tcp_write_completed ::
  "'s SocketOps \<Rightarrow> 's TcpTransport \<Rightarrow> ErrorCode option \<Rightarrow> 's TcpTransport \<times> (ErrorCode + unit)" where
  "tcp_write_completed S t error =
     (case error of Some e \<Rightarrow> (tcp_close S t, Inl e) | None \<Rightarrow> (t, Inr ()))"

text \<open>The destructor.\<close>

definition tcp_destroy :: "'s SocketOps \<Rightarrow> 's TcpTransport \<Rightarrow> 's TcpTransport" where
  "tcp_destroy S t = tcp_close S t"

section \<open>The interface the protocol layer relies on\<close>

text \<open>
  What the comments of the interface and the read and write loops rely on: closing closes, is
  idempotent and final; a failed read or write leaves a closed transport; a closed transport
  reads nothing and refuses to write.
\<close>

locale byte_transport =
  fixes is_open :: "'t \<Rightarrow> bool"
    and close :: "'t \<Rightarrow> 't"
    and read_begin :: "'t \<Rightarrow> (ErrorCode + Buffer) option"
    and read_completed :: "'t \<Rightarrow> ErrorCode option \<Rightarrow> Buffer \<Rightarrow> 't \<times> (ErrorCode + Buffer)"
    and write_begin :: "'t \<Rightarrow> (ErrorCode + unit) option"
    and write_completed :: "'t \<Rightarrow> ErrorCode option \<Rightarrow> 't \<times> (ErrorCode + unit)"
  assumes close_closes: "\<not> is_open (close t)"
    and close_twice: "close (close t) = close t"
    and read_no_reopen: "\<not> is_open t \<Longrightarrow> \<not> is_open (fst (read_completed t e bs))"
    and write_no_reopen: "\<not> is_open t \<Longrightarrow> \<not> is_open (fst (write_completed t e))"
    and read_error: "e \<noteq> None \<Longrightarrow> \<not> is_open (fst (read_completed t e bs))"
    and write_error: "e \<noteq> None \<Longrightarrow> \<not> is_open (fst (write_completed t e))"
    and read_closed: "\<not> is_open t \<Longrightarrow> read_begin t = Some (Inr [])"
    and write_closed: "\<not> is_open t \<Longrightarrow> \<exists>e. write_begin t = Some (Inl e)"
begin

text \<open>What happens to a transport: calls of \<open>close\<close> and completions.\<close>

definition transport_step :: "'t \<Rightarrow> (ErrorCode option \<times> Buffer) + ErrorCode option + unit \<Rightarrow> 't" where
  "transport_step t ev =
     (case ev of
        Inl (e, bs) \<Rightarrow> fst (read_completed t e bs)
      | Inr (Inl e) \<Rightarrow> fst (write_completed t e)
      | Inr (Inr _) \<Rightarrow> close t)"

lemma closed_step: "\<not> is_open t \<Longrightarrow> \<not> is_open (transport_step t ev)"
  by (auto simp: transport_step_def close_closes read_no_reopen write_no_reopen split: sum.split)

lemma closed_forever: "\<not> is_open t \<Longrightarrow> \<not> is_open (foldl transport_step t evs)"
  by (induction evs arbitrary: t) (simp_all add: closed_step)

lemma closed_is_silent:
  assumes "\<not> is_open t"
  shows "read_begin (foldl transport_step t evs) = Some (Inr [])"
    and "\<exists>e. write_begin (foldl transport_step t evs) = Some (Inl e)"
  using closed_forever [OF assms] by (simp_all add: read_closed write_closed)

end

interpretation tcp: byte_transport "tcp_is_open S" "tcp_close S" "tcp_read_begin S"
  "tcp_read_completed S" "tcp_write_begin S" "tcp_write_completed S"
  for S :: "'s SocketOps"
  by unfold_locales
    (auto simp: tcp_is_open_def tcp_read_completed_def tcp_write_completed_def tcp_read_begin_def
      tcp_write_begin_def tcp_close_def split: option.split)

section \<open>Properties of the component\<close>

text \<open>A call or completion at a TCP transport.\<close>

datatype TransportEvent =
  Transport_read "ErrorCode option" Buffer
| Transport_write "ErrorCode option"
| Transport_close

fun tcp_event :: "'s SocketOps \<Rightarrow> 's TcpTransport \<Rightarrow> TransportEvent \<Rightarrow> 's TcpTransport" where
  "tcp_event S t (Transport_read e bs) = fst (tcp_read_completed S t e bs)"
| "tcp_event S t (Transport_write e) = fst (tcp_write_completed S t e)"
| "tcp_event S t Transport_close = tcp_close S t"

fun tcp_event_closes :: "TransportEvent \<Rightarrow> bool" where
  "tcp_event_closes (Transport_read e _) \<longleftrightarrow> e \<noteq> None"
| "tcp_event_closes (Transport_write e) \<longleftrightarrow> e \<noteq> None"
| "tcp_event_closes Transport_close \<longleftrightarrow> True"

definition transport_event_sum :: "TransportEvent \<Rightarrow> (ErrorCode option \<times> Buffer) + ErrorCode option + unit" where
  "transport_event_sum ev =
     (case ev of Transport_read e bs \<Rightarrow> Inl (e, bs) | Transport_write e \<Rightarrow> Inr (Inl e)
      | Transport_close \<Rightarrow> Inr (Inr ()))"

lemma tcp_event_step: "tcp_event S t ev = tcp.transport_step S t (transport_event_sum ev)"
  by (cases ev) (simp_all add: tcp.transport_step_def transport_event_sum_def)

lemma tcp_events_steps:
  "foldl (tcp_event S) t evs = foldl (tcp.transport_step S) t (map transport_event_sum evs)"
  by (induction evs arbitrary: t) (simp_all add: tcp_event_step)

text \<open>
  Property C31. The end of a TCP transport is final: once it has been closed, has seen the end of
  the stream, or a read or write has failed, then whatever completes or is called afterwards, it
  is closed, every further read returns no bytes without touching the socket, and every further
  write fails with \<open>not_connected\<close>.
\<close>

theorem tcp_close_is_final:
  assumes "tcp_event_closes ev"
  shows "\<not> tcp_is_open S (foldl (tcp_event S) (tcp_event S t ev) evs) \<and>
     tcp_read_begin S (foldl (tcp_event S) (tcp_event S t ev) evs) = Some (Inr []) \<and>
     tcp_write_begin S (foldl (tcp_event S) (tcp_event S t ev) evs) = Some (Inl Error_not_connected)"
proof -
  have "\<not> tcp_is_open S (tcp_event S t ev)"
    using assms tcp.read_error tcp.write_error tcp.close_closes by (cases ev) simp_all
  from tcp.closed_forever [OF this]
  have "\<not> tcp_is_open S (foldl (tcp_event S) (tcp_event S t ev) evs)" by (simp add: tcp_events_steps)
  then show ?thesis by (simp add: tcp_read_begin_def tcp_write_begin_def)
qed

text \<open>A socket that is just a flag, to evaluate examples on.\<close>

definition flag_socket :: "bool SocketOps" where
  "flag_socket = \<lparr>socket_is_open = id, socket_shutdown = id, socket_close = (\<lambda>_. False)\<rparr>"

theorem tcp_close_is_final_witness:
  "tcp_is_open flag_socket (new_tcp_transport True) \<and>
   tcp_read_begin flag_socket (foldl (tcp_event flag_socket)
     (tcp_event flag_socket (new_tcp_transport True) (Transport_write (Some Error_connection_reset)))
     [Transport_read None [1, 2]]) = Some (Inr [])"
  using tcp_close_is_final [of "Transport_write (Some Error_connection_reset)" flag_socket
      "new_tcp_transport True" "[Transport_read None [1, 2]]"]
  by (simp add: tcp_is_open_def new_tcp_transport_def flag_socket_def)

end
