(* ===== verification/Tcp_Server.thy ===== *)
theory Tcp_Server
  imports Tcp_Transport
begin

text \<open>
  Accepting connections and shutting the server down (\<open>tcp_server.hpp\<close>). The acceptor is a
  Boost.Asio object: the model keeps whether it is open, and how an accept ended is supplied with
  the event that completes it. The connection handler is code of the application, represented by
  a name; what it is called with is recorded in \<open>ts_delivered\<close>. A drain handler is taken out of
  the vector by a move, which leaves an empty function (\<open>None\<close>) in its place.

  Every call of \<open>shutdown\<close> is a coroutine of its own with its own completion channel; calls that overlap
  share the vector of drain handlers.
\<close>

section \<open>Data\<close>

datatype AcceptLoop = Accept_idle | Accept_waiting | Accept_returned

text \<open>
  A call of \<open>shutdown\<close>: waiting in its second loop, or returned. While it waits
  there are the drain coroutines it spawned, each with its deadline and whether it has ended, the
  number of messages in the completion channel, and the index of the loop. A drain whose handler has been
  moved away by another call is one that throws \<open>std::bad_function_call\<close>, and so ends, at once.
\<close>

record 'h Drain =
  drain_handler :: "'h option"
  drain_deadline :: int
  drain_ended :: bool

datatype 'h Shutdown =
  Shutdown_waiting "'h Drain list" nat nat | Shutdown_returned

record ('h, 'k, 's) TcpServer =
  ts_acceptor_open :: bool
  ts_connection_handler :: "'k option"
  ts_shutdown_handlers :: "'h option list"
  ts_stopping :: bool
  ts_loop :: AcceptLoop
  ts_shutdowns :: "'h Shutdown list"
  ts_delivered :: "('k \<times> 's TcpTransport) list"

definition new_tcp_server :: "('h, 'k, 's) TcpServer" where
  "new_tcp_server =
     \<lparr>ts_acceptor_open = True, ts_connection_handler = None, ts_shutdown_handlers = [],
      ts_stopping = False, ts_loop = Accept_idle, ts_shutdowns = [], ts_delivered = []\<rparr>"

section \<open>Operations\<close>

definition on_connection :: "('h, 'k, 's) TcpServer \<Rightarrow> 'k \<Rightarrow> ('h, 'k, 's) TcpServer" where
  "on_connection t handler = t\<lparr>ts_connection_handler := Some handler\<rparr>"

definition register_connection_shutdown :: "('h, 'k, 's) TcpServer \<Rightarrow> 'h \<Rightarrow> ('h, 'k, 's) TcpServer" where
  "register_connection_shutdown t handler =
     t\<lparr>ts_shutdown_handlers := ts_shutdown_handlers t @ [Some handler]\<rparr>"

text \<open>\<open>run\<close>: the head of its loop, and what follows the completion of an accept.\<close>

definition accept_loop_head :: "('h, 'k, 's) TcpServer \<Rightarrow> ('h, 'k, 's) TcpServer" where
  "accept_loop_head t =
     t\<lparr>ts_loop := (if ts_stopping t then Accept_returned else Accept_waiting)\<rparr>"

definition accept_completed ::
  "('h, 'k, 's) TcpServer \<Rightarrow> ErrorCode option \<Rightarrow> 's \<Rightarrow> ('h, 'k, 's) TcpServer" where
  "accept_completed t error sock =
     (if error \<noteq> None then
        (if ts_stopping t \<or> error = Some Error_operation_aborted
         then t\<lparr>ts_loop := Accept_returned\<rparr> else accept_loop_head t)
      else
        accept_loop_head
          (case ts_connection_handler t of
             None \<Rightarrow> t
           | Some k \<Rightarrow> t\<lparr>ts_delivered := ts_delivered t @ [(k, new_tcp_transport sock)]\<rparr>))"

definition stop_server :: "('h, 'k, 's) TcpServer \<Rightarrow> ('h, 'k, 's) TcpServer" where
  "stop_server t =
     (if ts_stopping t then t else t\<lparr>ts_stopping := True, ts_acceptor_open := False\<rparr>)"

text \<open>The test of the loop that waits for the drains; it reads the size of the vector each time.\<close>

definition shutdown_loop_head ::
  "('h, 'k, 's) TcpServer \<Rightarrow> nat \<Rightarrow> 'h Drain list \<Rightarrow> nat \<Rightarrow> nat \<Rightarrow> ('h, 'k, 's) TcpServer" where
  "shutdown_loop_head t j drains messages index =
     (if index < length (ts_shutdown_handlers t)
      then t\<lparr>ts_shutdowns := (ts_shutdowns t)[j := Shutdown_waiting drains messages index]\<rparr>
      else t\<lparr>ts_shutdown_handlers := [], ts_shutdowns := (ts_shutdowns t)[j := Shutdown_returned]\<rparr>)"

definition shutdown_server ::
  "('h, 'k, 's) TcpServer \<Rightarrow> int \<Rightarrow> int \<Rightarrow> ('h, 'k, 's) TcpServer" where
  "shutdown_server t now drain_period =
     (let t = stop_server t; deadline = now + drain_period;
          drains = map (\<lambda>h. \<lparr>drain_handler = h, drain_deadline = deadline, drain_ended = False\<rparr>)
                     (ts_shutdown_handlers t) in
      shutdown_loop_head
        (t\<lparr>ts_shutdown_handlers := map (\<lambda>_. None) (ts_shutdown_handlers t),
           ts_shutdowns := ts_shutdowns t @ [Shutdown_waiting drains 0 0]\<rparr>)
        (length (ts_shutdowns t)) drains 0 0)"

text \<open>
  A drain coroutine of a call ends, by return or exception, and puts a message into the call's completion
  channel, which has room for all of them.
\<close>

definition drain_completed :: "('h, 'k, 's) TcpServer \<Rightarrow> nat \<Rightarrow> nat \<Rightarrow> ('h, 'k, 's) TcpServer" where
  "drain_completed t j i =
     (case ts_shutdowns t ! j of
        Shutdown_waiting drains messages index \<Rightarrow>
          t\<lparr>ts_shutdowns := (ts_shutdowns t)[j := Shutdown_waiting
              (drains[i := (drains ! i)\<lparr>drain_ended := True\<rparr>]) (messages + 1) index]\<rparr>
      | Shutdown_returned \<Rightarrow> t)"

text \<open>The receive of a call's waiting loop has completed.\<close>

definition drain_received :: "('h, 'k, 's) TcpServer \<Rightarrow> nat \<Rightarrow> ('h, 'k, 's) TcpServer" where
  "drain_received t j =
     (case ts_shutdowns t ! j of
        Shutdown_waiting drains messages index \<Rightarrow>
          shutdown_loop_head t j drains (messages - 1) (index + 1)
      | Shutdown_returned \<Rightarrow> t)"

section \<open>Events\<close>

datatype ('h, 'k, 's) TcpServerEvent =
  Tcp_on_connection 'k
| Tcp_register 'h
| Tcp_run
| Tcp_accepted "ErrorCode option" 's
| Tcp_stop
| Tcp_shutdown int int
| Tcp_drain_completed nat nat
| Tcp_drain_received nat

fun tcp_server_event :: "('h, 'k, 's) TcpServer \<Rightarrow> ('h, 'k, 's) TcpServerEvent \<Rightarrow> ('h, 'k, 's) TcpServer" where
  "tcp_server_event t (Tcp_on_connection k) = on_connection t k"
| "tcp_server_event t (Tcp_register h) = register_connection_shutdown t h"
| "tcp_server_event t Tcp_run = accept_loop_head t"
| "tcp_server_event t (Tcp_accepted e sock) = accept_completed t e sock"
| "tcp_server_event t Tcp_stop = stop_server t"
| "tcp_server_event t (Tcp_shutdown now period) = shutdown_server t now period"
| "tcp_server_event t (Tcp_drain_completed j i) = drain_completed t j i"
| "tcp_server_event t (Tcp_drain_received j) = drain_received t j"

fun tcp_server_enabled :: "('h, 'k, 's) TcpServer \<Rightarrow> ('h, 'k, 's) TcpServerEvent \<Rightarrow> bool" where
  "tcp_server_enabled t Tcp_run \<longleftrightarrow> ts_loop t = Accept_idle"
| "tcp_server_enabled t (Tcp_accepted _ _) \<longleftrightarrow> ts_loop t = Accept_waiting"
| "tcp_server_enabled t (Tcp_drain_completed j i) \<longleftrightarrow>
     j < length (ts_shutdowns t) \<and>
     (case ts_shutdowns t ! j of
        Shutdown_waiting drains _ _ \<Rightarrow> i < length drains \<and> \<not> drain_ended (drains ! i)
      | Shutdown_returned \<Rightarrow> False)"
| "tcp_server_enabled t (Tcp_drain_received j) \<longleftrightarrow>
     j < length (ts_shutdowns t) \<and>
     (case ts_shutdowns t ! j of Shutdown_waiting _ messages _ \<Rightarrow> 0 < messages | Shutdown_returned \<Rightarrow> False)"
| "tcp_server_enabled t _ \<longleftrightarrow> True"

text \<open>Whether a call of \<open>shutdown\<close> is made only when no other one waits.\<close>

fun one_shutdown :: "('h, 'k, 's) TcpServer \<Rightarrow> ('h, 'k, 's) TcpServerEvent \<Rightarrow> bool" where
  "one_shutdown t (Tcp_shutdown _ _) \<longleftrightarrow> (\<forall>c \<in> set (ts_shutdowns t). c = Shutdown_returned)"
| "one_shutdown t _ \<longleftrightarrow> True"

text \<open>Runs in which every step is allowed by \<open>P\<close>.\<close>

inductive tcp_server_steps ::
  "(('h, 'k, 's) TcpServer \<Rightarrow> ('h, 'k, 's) TcpServerEvent \<Rightarrow> bool) \<Rightarrow> ('h, 'k, 's) TcpServer \<Rightarrow>
     ('h, 'k, 's) TcpServerEvent list \<Rightarrow> ('h, 'k, 's) TcpServer \<Rightarrow> bool"
  for P where
  none: "tcp_server_steps P t [] t"
| more: "tcp_server_steps P t evs t' \<Longrightarrow> tcp_server_enabled t' ev \<Longrightarrow> P t' ev \<Longrightarrow>
           tcp_server_steps P t (evs @ [ev]) (tcp_server_event t' ev)"

section \<open>Invariants\<close>

definition ended_drains :: "'h Drain list \<Rightarrow> nat" where
  "ended_drains drains = length (filter drain_ended drains)"

text \<open>
  While a call waits and no other one does, the vector has at least one place per drain it spawned, and
  the messages received and still in the channel are those of the drains that have ended.
\<close>

definition call_inv :: "('h, 'k, 's) TcpServer \<Rightarrow> 'h Shutdown \<Rightarrow> bool" where
  "call_inv t call \<longleftrightarrow>
     (case call of
        Shutdown_waiting drains messages index \<Rightarrow>
          length drains \<le> length (ts_shutdown_handlers t) \<and>
          index < length (ts_shutdown_handlers t) \<and>
          messages + index = ended_drains drains \<and> ts_stopping t \<and>
          (\<exists>deadline. \<forall>d \<in> set drains. drain_deadline d = deadline)
      | Shutdown_returned \<Rightarrow> True)"

definition shutdown_inv :: "('h, 'k, 's) TcpServer \<Rightarrow> bool" where
  "shutdown_inv t \<longleftrightarrow>
     (\<forall>call \<in> set (butlast (ts_shutdowns t)). call = Shutdown_returned) \<and>
     (ts_shutdowns t \<noteq> [] \<longrightarrow> call_inv t (last (ts_shutdowns t)))"

lemma shutdown_inv_snoc:
  "ts_shutdowns t = calls @ [call] \<Longrightarrow>
     shutdown_inv t \<longleftrightarrow> (\<forall>c \<in> set calls. c = Shutdown_returned) \<and> call_inv t call"
  by (simp add: shutdown_inv_def)

lemma waiting_call:
  assumes "shutdown_inv t" and "j < length (ts_shutdowns t)"
    and "ts_shutdowns t ! j = Shutdown_waiting drains m n"
  obtains calls where "ts_shutdowns t = calls @ [Shutdown_waiting drains m n]" and "j = length calls"
    and "\<forall>c \<in> set calls. c = Shutdown_returned" and "call_inv t (Shutdown_waiting drains m n)"
proof (cases "ts_shutdowns t" rule: rev_cases)
  case (snoc calls call)
  then have ret: "\<forall>c \<in> set calls. c = Shutdown_returned" and "call_inv t call"
    using assms(1) by (simp_all add: shutdown_inv_snoc)
  moreover have "j = length calls"
  proof (rule ccontr)
    assume "j \<noteq> length calls"
    then have "j < length calls" using assms(2) snoc by simp
    then have "ts_shutdowns t ! j \<in> set calls" using snoc by (simp add: nth_append)
    then show False using ret assms(3) by auto
  qed
  ultimately show thesis using that snoc assms(3) by simp
qed (use assms(2) in simp)

lemma ended_drains_le: "ended_drains drains \<le> length drains"
  by (simp add: ended_drains_def)

lemma ended_drains_all: "ended_drains drains = length drains \<longleftrightarrow> (\<forall>d \<in> set drains. drain_ended d)"
  unfolding ended_drains_def using length_filter_less [of _ drains drain_ended]
  by (metis filter_True less_irrefl)

lemma ended_drains_update:
  assumes "i < length drains" and "\<not> drain_ended (drains ! i)"
  shows "ended_drains (drains[i := (drains ! i)\<lparr>drain_ended := True\<rparr>]) = Suc (ended_drains drains)"
  using assms
proof (induction drains arbitrary: i)
  case (Cons d drains)
  then show ?case by (cases i) (simp_all add: ended_drains_def)
qed simp

lemma shutdown_loop_head_inv:
  assumes "ts_shutdowns t = calls @ [call]" and "\<forall>c \<in> set calls. c = Shutdown_returned"
    and "n < length (ts_shutdown_handlers t) \<Longrightarrow> call_inv t (Shutdown_waiting drains m n)"
  shows "shutdown_inv (shutdown_loop_head t (length calls) drains m n)"
  using assms by (simp add: shutdown_loop_head_def shutdown_inv_def call_inv_def)

lemma drain_completed_inv:
  assumes "shutdown_inv t" and "tcp_server_enabled t (Tcp_drain_completed j i)"
  shows "shutdown_inv (drain_completed t j i)"
proof -
  obtain drains m n where w: "ts_shutdowns t ! j = Shutdown_waiting drains m n" "j < length (ts_shutdowns t)"
    "i < length drains" "\<not> drain_ended (drains ! i)"
    using assms(2) by (auto split: Shutdown.splits)
  obtain calls where calls: "ts_shutdowns t = calls @ [Shutdown_waiting drains m n]" "j = length calls"
    "\<forall>c \<in> set calls. c = Shutdown_returned" "call_inv t (Shutdown_waiting drains m n)"
    by (rule waiting_call [OF assms(1) w(2,1)])
  obtain D where "\<forall>d \<in> set drains. drain_deadline d = D" using calls(4) by (auto simp: call_inv_def)
  then have "\<forall>d \<in> set (drains[i := (drains ! i)\<lparr>drain_ended := True\<rparr>]). drain_deadline d = D"
    using w(3) set_update_subset_insert [of drains i "(drains ! i)\<lparr>drain_ended := True\<rparr>"] by auto
  then show ?thesis
    using calls w ended_drains_update [OF w(3,4)]
    by (auto simp: drain_completed_def shutdown_inv_def call_inv_def)
qed

lemma drain_received_inv:
  assumes "shutdown_inv t" and "tcp_server_enabled t (Tcp_drain_received j)"
  shows "shutdown_inv (drain_received t j)"
proof -
  obtain drains m n where w: "ts_shutdowns t ! j = Shutdown_waiting drains m n" "j < length (ts_shutdowns t)" "0 < m"
    using assms(2) by (auto split: Shutdown.splits)
  obtain calls where calls: "ts_shutdowns t = calls @ [Shutdown_waiting drains m n]" "j = length calls"
    "\<forall>c \<in> set calls. c = Shutdown_returned" "call_inv t (Shutdown_waiting drains m n)"
    by (rule waiting_call [OF assms(1) w(2,1)])
  have "shutdown_inv (shutdown_loop_head t (length calls) drains (m - 1) (n + 1))"
    using calls(4) w(3) by (intro shutdown_loop_head_inv [OF calls(1,3)]) (simp add: call_inv_def)
  then show ?thesis using calls(1,2) by (simp add: drain_received_def)
qed

lemma shutdown_server_inv:
  assumes "\<forall>c \<in> set (ts_shutdowns t). c = Shutdown_returned"
  shows "shutdown_inv (shutdown_server t now period)"
  unfolding shutdown_server_def Let_def using assms
  by (intro shutdown_loop_head_inv [where calls = "ts_shutdowns (stop_server t)", simplified])
    (auto simp: call_inv_def stop_server_def ended_drains_def filter_map o_def)

lemma call_inv_mono:
  "call_inv t call \<Longrightarrow> length (ts_shutdown_handlers t) \<le> length (ts_shutdown_handlers t') \<Longrightarrow>
     (ts_stopping t \<Longrightarrow> ts_stopping t') \<Longrightarrow> call_inv t' call"
  by (cases call) (simp_all add: call_inv_def)

lemma shutdown_inv_mono:
  assumes "shutdown_inv t" and "ts_shutdowns t' = ts_shutdowns t"
    and "length (ts_shutdown_handlers t) \<le> length (ts_shutdown_handlers t')"
    and "ts_stopping t \<Longrightarrow> ts_stopping t'"
  shows "shutdown_inv t'"
  using assms call_inv_mono [OF _ assms(3,4)] by (simp add: shutdown_inv_def)

lemma tcp_event_inv:
  assumes inv: "shutdown_inv t" and "tcp_server_enabled t ev" and "one_shutdown t ev"
  shows "shutdown_inv (tcp_server_event t ev)"
proof (cases ev)
  case (Tcp_drain_completed j i)
  then show ?thesis using drain_completed_inv [OF inv] assms(2) by simp
next
  case (Tcp_drain_received j)
  then show ?thesis using drain_received_inv [OF inv] assms(2) by simp
next
  case (Tcp_shutdown now period)
  then show ?thesis using shutdown_server_inv assms(3) by simp
qed (auto intro!: shutdown_inv_mono [OF inv] simp: on_connection_def register_connection_shutdown_def
    accept_loop_head_def accept_completed_def stop_server_def split: option.split)

lemma tcp_steps_inv: "tcp_server_steps one_shutdown t evs t' \<Longrightarrow> shutdown_inv t \<Longrightarrow> shutdown_inv t'"
  by (induction rule: tcp_server_steps.induct) (simp_all add: tcp_event_inv)

lemma tcp_server_inv: "tcp_server_steps one_shutdown new_tcp_server evs t \<Longrightarrow> shutdown_inv t"
  by (erule tcp_steps_inv) (simp add: shutdown_inv_def new_tcp_server_def)

section \<open>Accepting\<close>

text \<open>
  What the application should be handed: each accepted socket, in order, wrapped in a transport,
  by the handler registered last.
\<close>

fun deliveries :: "'k option \<Rightarrow> ('h, 'k, 's) TcpServerEvent list \<Rightarrow> ('k \<times> 's TcpTransport) list" where
  "deliveries k [] = []"
| "deliveries k (Tcp_on_connection k' # evs) = deliveries (Some k') evs"
| "deliveries k (Tcp_accepted None sock # evs) =
     (case k of None \<Rightarrow> [] | Some k' \<Rightarrow> [(k', new_tcp_transport sock)]) @ deliveries k evs"
| "deliveries k (_ # evs) = deliveries k evs"

fun last_handler :: "'k option \<Rightarrow> ('h, 'k, 's) TcpServerEvent list \<Rightarrow> 'k option" where
  "last_handler k [] = k"
| "last_handler k (Tcp_on_connection k' # evs) = last_handler (Some k') evs"
| "last_handler k (_ # evs) = last_handler k evs"

lemma deliveries_append:
  "deliveries k (evs @ evs') = deliveries k evs @ deliveries (last_handler k evs) evs'"
  by (induction k evs rule: deliveries.induct) simp_all

lemma last_handler_append: "last_handler k (evs @ evs') = last_handler (last_handler k evs) evs'"
  by (induction k evs rule: last_handler.induct) simp_all

lemma handler_kept [simp]:
  "ts_connection_handler (shutdown_loop_head t j d m n) = ts_connection_handler t"
  "ts_delivered (shutdown_loop_head t j d m n) = ts_delivered t"
  "ts_stopping (shutdown_loop_head t j d m n) = ts_stopping t"
  "ts_loop (shutdown_loop_head t j d m n) = ts_loop t"
  "ts_connection_handler (stop_server t) = ts_connection_handler t"
  "ts_delivered (stop_server t) = ts_delivered t" "ts_loop (stop_server t) = ts_loop t"
  "ts_stopping (stop_server t)"
  by (simp_all add: shutdown_loop_head_def stop_server_def)

lemmas tcp_server_ops = on_connection_def register_connection_shutdown_def accept_loop_head_def
  accept_completed_def shutdown_server_def drain_completed_def drain_received_def

lemma tcp_event_deliveries:
  "ts_delivered (tcp_server_event t ev) = ts_delivered t @ deliveries (ts_connection_handler t) [ev]"
  "ts_connection_handler (tcp_server_event t ev) = last_handler (ts_connection_handler t) [ev]"
  by (cases ev; auto simp: tcp_server_ops Let_def split: option.split Shutdown.split)+

text \<open>
  The accept loop refines its specification: over any run, with failed accepts,
  changes of the handler and shutdowns in between, the connections handed to the application are
  exactly the sockets accepted while a handler was registered, in order, none lost or repeated.
\<close>

lemma accepted_connections_delivered:
  assumes "tcp_server_steps P new_tcp_server evs t"
  shows "ts_delivered t = deliveries None evs"
proof -
  have "ts_delivered t' = ts_delivered t @ deliveries (ts_connection_handler t) evs \<and>
    ts_connection_handler t' = last_handler (ts_connection_handler t) evs"
    if "tcp_server_steps P t evs t'" for t t' :: "('a, 'b, 'c) TcpServer" and evs
    using that by (induction rule: tcp_server_steps.induct)
      (simp_all add: tcp_event_deliveries deliveries_append last_handler_append)
  from this [OF assms] show ?thesis by (simp add: new_tcp_server_def)
qed

text \<open>A run whose events are all enabled and allowed.\<close>

fun tcp_server_runs ::
  "(('h, 'k, 's) TcpServer \<Rightarrow> ('h, 'k, 's) TcpServerEvent \<Rightarrow> bool) \<Rightarrow> ('h, 'k, 's) TcpServer \<Rightarrow>
     ('h, 'k, 's) TcpServerEvent list \<Rightarrow> bool" where
  "tcp_server_runs P t [] \<longleftrightarrow> True"
| "tcp_server_runs P t (ev # evs) \<longleftrightarrow>
     tcp_server_enabled t ev \<and> P t ev \<and> tcp_server_runs P (tcp_server_event t ev) evs"

lemma tcp_server_runs_append:
  "tcp_server_runs P t (evs @ evs') \<longleftrightarrow>
     tcp_server_runs P t evs \<and> tcp_server_runs P (foldl tcp_server_event t evs) evs'"
  by (induction evs arbitrary: t) simp_all

lemma tcp_server_steps_append:
  "tcp_server_steps P t evs t' \<Longrightarrow> tcp_server_runs P t' evs' \<Longrightarrow>
     tcp_server_steps P t (evs @ evs') (foldl tcp_server_event t' evs')"
proof (induction evs' arbitrary: evs t')
  case (Cons ev evs')
  then show ?case using Cons.IH [OF tcp_server_steps.more [OF Cons.prems(1)]] by simp
qed simp

lemma tcp_server_run_steps:
  "tcp_server_runs P t evs \<Longrightarrow> tcp_server_steps P t evs (foldl tcp_server_event t evs)"
  using tcp_server_steps_append [OF tcp_server_steps.none, of P t evs] by simp

abbreviation any_event :: "'a \<Rightarrow> 'b \<Rightarrow> bool" where
  "any_event \<equiv> \<lambda>_ _. True"

abbreviation sample_accepts :: "(unit, nat, bool) TcpServerEvent list" where
  "sample_accepts \<equiv> [Tcp_on_connection 1, Tcp_run, Tcp_accepted None True,
     Tcp_accepted (Some Error_connection_aborted) False, Tcp_accepted None True, Tcp_stop]"

lemma sample_accepts_steps:
  "tcp_server_steps any_event new_tcp_server sample_accepts (foldl tcp_server_event new_tcp_server sample_accepts)"
  by (rule tcp_server_run_steps) (simp add: tcp_server_ops stop_server_def new_tcp_server_def)

lemma accepted_connections_delivered_example:
  "ts_delivered (foldl tcp_server_event new_tcp_server sample_accepts) =
     [(1, new_tcp_transport True), (1, new_tcp_transport True)]"
  using accepted_connections_delivered [OF sample_accepts_steps] by simp

lemma stopped_event:
  assumes "ts_stopping t" and "tcp_server_enabled t ev"
  shows "ts_stopping (tcp_server_event t ev) \<and>
     length (ts_delivered (tcp_server_event t ev)) + of_bool (ts_loop (tcp_server_event t ev) = Accept_waiting)
       \<le> length (ts_delivered t) + of_bool (ts_loop t = Accept_waiting) \<and>
     (ts_loop t = Accept_returned \<longrightarrow> ts_loop (tcp_server_event t ev) = Accept_returned) \<and>
     (\<forall>e sock. ev = Tcp_accepted e sock \<longrightarrow> ts_loop (tcp_server_event t ev) = Accept_returned)"
  using assms
  by (cases ev) (auto simp: tcp_server_ops Let_def split: option.split Shutdown.split)

text \<open>
  After \<open>stop\<close> or \<open>shutdown\<close> the server accepts nothing new: over any continuation at
  most one connection is still handed out (an accept that had completed before it was told to
  stop), and \<open>run\<close> returns at the latest with the next completion of an accept.
\<close>

lemma stop_ends_accepting:
  assumes "ts_stopping t" and "tcp_server_steps P t evs t'"
  shows "ts_stopping t' \<and> length (ts_delivered t') \<le> length (ts_delivered t) + 1 \<and>
     ((\<exists>e sock. Tcp_accepted e sock \<in> set evs) \<longrightarrow> ts_loop t' = Accept_returned)"
proof -
  have "ts_stopping t' \<and>
    length (ts_delivered t') + of_bool (ts_loop t' = Accept_waiting)
      \<le> length (ts_delivered t) + of_bool (ts_loop t = Accept_waiting) \<and>
    ((\<exists>e sock. Tcp_accepted e sock \<in> set evs) \<longrightarrow> ts_loop t' = Accept_returned)"
    using assms(2,1)
  proof (induction rule: tcp_server_steps.induct)
    case (more t evs t' ev)
    then show ?case using stopped_event [of t' ev] by fastforce
  qed simp
  then show ?thesis by (auto simp: of_bool_def split: if_splits)
qed

lemma stop_ends_accepting_witness:
  "\<exists>t :: (unit, nat, bool) TcpServer.
     tcp_server_steps any_event (stop_server (accept_loop_head new_tcp_server)) [Tcp_accepted None True] t \<and>
     ts_loop t = Accept_returned"
proof -
  let ?t = "stop_server (accept_loop_head new_tcp_server) :: (unit, nat, bool) TcpServer"
  have steps: "tcp_server_steps any_event ?t [Tcp_accepted None True] (accept_completed ?t None True)"
    using tcp_server_run_steps [of any_event ?t "[Tcp_accepted None True]"]
    by (simp add: accept_loop_head_def new_tcp_server_def)
  from stop_ends_accepting [OF _ steps] steps show ?thesis by auto
qed

section \<open>Shutting down\<close>

text \<open>Receiving the messages of drains that have all ended.\<close>

lemma all_received:
  assumes "j < length (ts_shutdowns t)" and "ts_shutdowns t ! j = Shutdown_waiting drains m n"
    and "n + m = length (ts_shutdown_handlers t)" and "0 < m" and "\<And>t j. P t (Tcp_drain_received j)"
  defines "t' \<equiv> foldl tcp_server_event t (replicate m (Tcp_drain_received j))"
  shows "tcp_server_runs P t (replicate m (Tcp_drain_received j)) \<and> ts_shutdown_handlers t' = [] \<and>
     ts_shutdowns t' = (ts_shutdowns t)[j := Shutdown_returned]"
  unfolding t'_def using assms(1-4)
proof (induction m arbitrary: t n)
  case (Suc m)
  show ?case
  proof (cases m)
    case 0
    then show ?thesis
      using Suc.prems assms(5) by (simp add: drain_received_def shutdown_loop_head_def)
  next
    case (Suc k)
    let ?t = "drain_received t j"
    have t: "ts_shutdowns ?t = (ts_shutdowns t)[j := Shutdown_waiting drains m (n + 1)]"
      "ts_shutdown_handlers ?t = ts_shutdown_handlers t"
      using Suc.prems Suc by (simp_all add: drain_received_def shutdown_loop_head_def)
    have "tcp_server_enabled t (Tcp_drain_received j)" using Suc.prems by simp
    then show ?thesis using Suc.IH [of ?t "n + 1"] Suc.prems Suc t assms(5) by simp
  qed
qed simp

text \<open>
  What a step does to a call that waits, when no other call does: it returns only when its drains have
  ended, and otherwise at most one of its drains ends.
\<close>

lemma waiting_call_step:
  assumes inv_t: "shutdown_inv t" and j: "j < length (ts_shutdowns t)"
    and w: "ts_shutdowns t ! j = Shutdown_waiting drains m n"
    and en: "tcp_server_enabled t ev" and one: "one_shutdown t ev"
  shows "ts_shutdowns (tcp_server_event t ev) ! j = Shutdown_returned \<Longrightarrow> \<forall>d \<in> set drains. drain_ended d"
    and "ts_shutdowns (tcp_server_event t ev) ! j = Shutdown_waiting drains' m' n' \<Longrightarrow> drains' = drains \<or>
      (\<exists>i < length drains. ev = Tcp_drain_completed j i \<and> drains' = drains[i := (drains ! i)\<lparr>drain_ended := True\<rparr>])"
proof -
  obtain calls where calls: "ts_shutdowns t = calls @ [Shutdown_waiting drains m n]" "j = length calls"
    "\<forall>c \<in> set calls. c = Shutdown_returned" "call_inv t (Shutdown_waiting drains m n)"
    by (rule waiting_call [OF inv_t j w])
  have ret: "calls ! i = Shutdown_returned" if "i < length calls" for i using calls(3) that by simp
  show "\<forall>d \<in> set drains. drain_ended d" if "ts_shutdowns (tcp_server_event t ev) ! j = Shutdown_returned"
  proof -
    have ev: "ev = Tcp_drain_received j"
      using that ret en one calls(1,2) w
      by (cases ev) (auto simp: tcp_server_ops stop_server_def shutdown_loop_head_def nth_list_update nth_append Let_def
          split: option.splits if_splits Shutdown.splits)
    then have "0 < m" "length (ts_shutdown_handlers t) \<le> n + 1"
      using that en w j by (simp_all add: drain_received_def shutdown_loop_head_def split: if_splits)
    then have "ended_drains drains = length drains"
      using calls(4) ended_drains_le [of drains] by (simp add: call_inv_def)
    then show ?thesis by (simp add: ended_drains_all)
  qed
  show "drains' = drains \<or>
      (\<exists>i < length drains. ev = Tcp_drain_completed j i \<and> drains' = drains[i := (drains ! i)\<lparr>drain_ended := True\<rparr>])"
    if "ts_shutdowns (tcp_server_event t ev) ! j = Shutdown_waiting drains' m' n'"
    using that ret en one calls(1,2) w
    by (cases ev) (auto simp: tcp_server_ops stop_server_def shutdown_loop_head_def nth_list_update nth_append Let_def
        split: option.splits if_splits Shutdown.splits)
qed

lemma returned_call_step:
  assumes "j < length (ts_shutdowns t)" and "ts_shutdowns t ! j = Shutdown_returned"
    and "tcp_server_enabled t ev"
  shows "ts_shutdowns (tcp_server_event t ev) ! j = Shutdown_returned"
  using assms
  by (cases ev) (auto simp: tcp_server_ops stop_server_def shutdown_loop_head_def nth_list_update nth_append Let_def
      split: option.splits if_splits Shutdown.splits)

lemma tcp_event_calls: "length (ts_shutdowns t) \<le> length (ts_shutdowns (tcp_server_event t ev))"
  by (cases ev) (auto simp: tcp_server_ops stop_server_def shutdown_loop_head_def Let_def split: option.splits Shutdown.splits)

text \<open>
  A shutdown drains every connection, when no other shutdown overlaps it: it returns in no
  state in which a drain it spawned has not ended, all drains were given the same deadline, and when no
  connection was registered meanwhile and every drain has ended, it does return, after receiving the
  messages that are left.
\<close>

lemma shutdown_waits_for_drains:
  assumes "tcp_server_steps one_shutdown new_tcp_server evs t" and "j < length (ts_shutdowns t)"
    and w: "ts_shutdowns t ! j = Shutdown_waiting drains m n"
  shows "(\<exists>deadline. \<forall>d \<in> set drains. drain_deadline d = deadline) \<and>
     (\<forall>ev. tcp_server_enabled t ev \<and> one_shutdown t ev \<and>
        ts_shutdowns (tcp_server_event t ev) ! j = Shutdown_returned \<longrightarrow> (\<forall>d \<in> set drains. drain_ended d)) \<and>
     ((\<forall>d \<in> set drains. drain_ended d) \<and> length (ts_shutdown_handlers t) = length drains \<longrightarrow>
        tcp_server_runs one_shutdown t (replicate m (Tcp_drain_received j)) \<and>
        ts_shutdowns (foldl tcp_server_event t (replicate m (Tcp_drain_received j))) ! j = Shutdown_returned)"
proof -
  have inv_t: "shutdown_inv t" by (rule tcp_server_inv [OF assms(1)])
  obtain calls where calls: "ts_shutdowns t = calls @ [Shutdown_waiting drains m n]" "j = length calls"
    "\<forall>c \<in> set calls. c = Shutdown_returned" "call_inv t (Shutdown_waiting drains m n)"
    by (rule waiting_call [OF inv_t assms(2) w])
  then have inv: "length drains \<le> length (ts_shutdown_handlers t)" "n < length (ts_shutdown_handlers t)"
    "m + n = ended_drains drains" "\<exists>deadline. \<forall>d \<in> set drains. drain_deadline d = deadline"
    by (simp_all add: call_inv_def)
  have "\<forall>d \<in> set drains. drain_ended d"
    if "tcp_server_enabled t ev" "one_shutdown t ev"
      "ts_shutdowns (tcp_server_event t ev) ! j = Shutdown_returned" for ev
    by (rule waiting_call_step(1) [OF inv_t assms(2) w that])
  moreover have "tcp_server_runs one_shutdown t (replicate m (Tcp_drain_received j)) \<and>
      ts_shutdowns (foldl tcp_server_event t (replicate m (Tcp_drain_received j))) ! j = Shutdown_returned"
    if "\<forall>d \<in> set drains. drain_ended d" "length (ts_shutdown_handlers t) = length drains"
  proof -
    have "m + n = length drains" using inv(3) that(1) ended_drains_all [of drains] by simp
    then show ?thesis using all_received [OF assms(2) w, of one_shutdown] that(2) inv(2) assms(2) by simp
  qed
  ultimately show ?thesis using inv(4) by blast
qed

text \<open>A shutdown with one registered connection, whose drain has ended.\<close>

abbreviation sample_drain :: "(nat, nat, bool) TcpServerEvent list" where
  "sample_drain \<equiv> [Tcp_register 5, Tcp_shutdown 10 20, Tcp_drain_completed 0 0]"

lemma sample_drain_steps:
  "tcp_server_steps one_shutdown new_tcp_server sample_drain
     (foldl tcp_server_event new_tcp_server sample_drain)"
  "ts_shutdowns (foldl tcp_server_event new_tcp_server sample_drain) =
     [Shutdown_waiting [\<lparr>drain_handler = Some 5, drain_deadline = 30, drain_ended = True\<rparr>] 1 0]"
  "ts_shutdown_handlers (foldl tcp_server_event new_tcp_server sample_drain) = [None]"
  by (rule tcp_server_run_steps,
      simp_all add: tcp_server_ops stop_server_def new_tcp_server_def shutdown_loop_head_def Let_def)

lemma shutdown_waits_for_drains_example:
  "ts_shutdowns (drain_received (foldl tcp_server_event new_tcp_server sample_drain) 0) ! 0 = Shutdown_returned"
  using shutdown_waits_for_drains [OF sample_drain_steps(1), of 0] sample_drain_steps(2,3)
  by (simp add: numeral_eq_Suc)

text \<open>
  Property C40. A connection registered while \<open>shutdown\<close> waits blocks it: the loop counts
  up to the new size of the vector, but no drain was spawned for the new entry, so one message is
  missing; no continuation of the run, short of another call of \<open>shutdown\<close>, lets the call return.
\<close>

theorem late_registration_blocks_shutdown:
  assumes "tcp_server_steps one_shutdown new_tcp_server evs t" and "j < length (ts_shutdowns t)"
    and "ts_shutdowns t ! j = Shutdown_waiting drains m n"
    and "tcp_server_steps one_shutdown (register_connection_shutdown t h) evs' t'"
  shows "ts_shutdowns t' ! j \<noteq> Shutdown_returned"
proof -
  let ?t0 = "register_connection_shutdown t h"
  define blocked where "blocked t \<longleftrightarrow> shutdown_inv t \<and> j < length (ts_shutdowns t) \<and>
    (\<exists>drains m n. ts_shutdowns t ! j = Shutdown_waiting drains m n \<and> length drains < length (ts_shutdown_handlers t))"
    for t :: "('a, 'b, 'c) TcpServer"
  have inv: "shutdown_inv t" by (rule tcp_server_inv [OF assms(1)])
  obtain calls where "call_inv t (Shutdown_waiting drains m n)" by (rule waiting_call [OF inv assms(2,3)])
  then have start: "blocked ?t0"
    using tcp_event_inv [OF inv, of "Tcp_register h"] assms(2,3)
    by (simp add: blocked_def register_connection_shutdown_def call_inv_def)
  have "blocked (tcp_server_event t ev)" if blk: "blocked t" and en: "tcp_server_enabled t ev" "one_shutdown t ev"
    for t :: "('a, 'b, 'c) TcpServer" and ev
  proof -
    obtain drains m n where w: "ts_shutdowns t ! j = Shutdown_waiting drains m n" "j < length (ts_shutdowns t)"
      "length drains < length (ts_shutdown_handlers t)" and inv_t: "shutdown_inv t"
      using blk by (auto simp: blocked_def)
    obtain calls where calls: "ts_shutdowns t = calls @ [Shutdown_waiting drains m n]" "j = length calls"
      "\<forall>c \<in> set calls. c = Shutdown_returned" "call_inv t (Shutdown_waiting drains m n)"
      by (rule waiting_call [OF inv_t w(2,1)])
    have ret: "calls ! i = Shutdown_returned" if "i < length calls" for i using calls(3) that by simp
    have "m + n \<le> length drains" using calls(4) ended_drains_le [of drains] by (simp add: call_inv_def)
    then show ?thesis
      using tcp_event_inv [OF inv_t en] en w(3) calls(1,2) ret unfolding blocked_def
      by (cases ev) (auto simp: tcp_server_ops stop_server_def shutdown_loop_head_def nth_append less_Suc_eq
          split: option.split Shutdown.splits if_splits)
  qed
  with assms(4) start have "blocked t'" by (induction rule: tcp_server_steps.induct) auto
  then show ?thesis by (auto simp: blocked_def)
qed

theorem late_registration_blocks_shutdown_witness:
  "\<exists>t :: (nat, nat, bool) TcpServer.
     t = drain_received (register_connection_shutdown
           (foldl tcp_server_event new_tcp_server sample_drain) 6) 0 \<and>
     ts_shutdowns t ! 0 \<noteq> Shutdown_returned"
proof -
  let ?t = "register_connection_shutdown (foldl tcp_server_event new_tcp_server sample_drain) 6"
  have "tcp_server_enabled ?t (Tcp_drain_received 0)"
    using sample_drain_steps(2) by (simp add: register_connection_shutdown_def)
  then have steps: "tcp_server_steps one_shutdown ?t [Tcp_drain_received 0] (drain_received ?t 0)"
    using tcp_server_run_steps [of one_shutdown ?t "[Tcp_drain_received 0]"] by simp
  have "ts_shutdowns (drain_received ?t 0) ! 0 \<noteq> Shutdown_returned"
    by (rule late_registration_blocks_shutdown [OF sample_drain_steps(1) _ _ steps])
      (use sample_drain_steps(2) in auto)
  then show ?thesis by blast
qed

section \<open>Overlapping shutdowns\<close>

text \<open>The drains of a call end one after the other.\<close>

lemma all_completed:
  assumes "j < length (ts_shutdowns t)" and "ts_shutdowns t ! j = Shutdown_waiting drains m n"
    and "\<forall>d \<in> set drains. \<not> drain_ended d" and "k \<le> length drains"
  defines "t' \<equiv> foldl tcp_server_event t (map (Tcp_drain_completed j) [0..<k])"
  shows "tcp_server_runs any_event t (map (Tcp_drain_completed j) [0..<k]) \<and>
     ts_shutdown_handlers t' = ts_shutdown_handlers t \<and>
     (\<exists>ds. ts_shutdowns t' = (ts_shutdowns t)[j := Shutdown_waiting ds (m + k) n] \<and>
        length ds = length drains \<and> (\<forall>i. k \<le> i \<and> i < length drains \<longrightarrow> \<not> drain_ended (ds ! i)))"
  unfolding t'_def using assms(4)
proof (induction k)
  case 0
  have "(ts_shutdowns t)[j := Shutdown_waiting drains m n] = ts_shutdowns t"
    using list_update_id [of "ts_shutdowns t" j] assms(2) by simp
  then show ?case using assms(3) by (intro conjI exI [of _ drains]) auto
next
  case (Suc k)
  let ?t = "foldl tcp_server_event t (map (Tcp_drain_completed j) [0..<k])"
  obtain ds where ds: "ts_shutdowns ?t = (ts_shutdowns t)[j := Shutdown_waiting ds (m + k) n]"
    "length ds = length drains" "\<forall>i. k \<le> i \<and> i < length drains \<longrightarrow> \<not> drain_ended (ds ! i)"
    "ts_shutdown_handlers ?t = ts_shutdown_handlers t"
    "tcp_server_runs any_event t (map (Tcp_drain_completed j) [0..<k])"
    using Suc by auto
  have "tcp_server_enabled ?t (Tcp_drain_completed j k)" using ds assms(1) Suc.prems by simp
  then show ?case
    using ds assms(1) Suc.prems
    by (auto simp: tcp_server_runs_append drain_completed_def
        intro!: exI [of _ "ds[k := (ds ! k)\<lparr>drain_ended := True\<rparr>]"])
qed

text \<open>A call that nothing else happens to runs to its end and empties the vector.\<close>

lemma shutdown_call_finishes:
  fixes t :: "('h, 'k, 's) TcpServer"
  defines "k \<equiv> length (ts_shutdowns t)"
  obtains evs where "tcp_server_runs any_event t (Tcp_shutdown now period # evs)"
    and "\<And>j i. Tcp_drain_completed j i \<in> set evs \<Longrightarrow> j = k"
    and "ts_shutdown_handlers (foldl tcp_server_event t (Tcp_shutdown now period # evs)) = []"
    and "ts_shutdowns (foldl tcp_server_event t (Tcp_shutdown now period # evs)) =
      ts_shutdowns t @ [Shutdown_returned]"
proof -
  let ?t1 = "shutdown_server t now period" and ?N = "length (ts_shutdown_handlers t)"
  show thesis
  proof (cases "?N = 0")
    case True
    then show thesis
      using that [of "[]"] by (simp add: shutdown_server_def shutdown_loop_head_def stop_server_def Let_def)
  next
    case False
    obtain drains where t1: "ts_shutdowns ?t1 = ts_shutdowns t @ [Shutdown_waiting drains 0 0]"
      "length drains = ?N" "\<forall>d \<in> set drains. \<not> drain_ended d" "length (ts_shutdown_handlers ?t1) = ?N"
      using False by (simp add: shutdown_server_def shutdown_loop_head_def stop_server_def Let_def)
    let ?evs = "map (Tcp_drain_completed k) [0..<?N]"
    let ?t2 = "foldl tcp_server_event ?t1 ?evs"
    have "k < length (ts_shutdowns ?t1)" "ts_shutdowns ?t1 ! k = Shutdown_waiting drains 0 0"
      using t1(1) by (simp_all add: k_def)
    from all_completed [OF this t1(3), of ?N] t1
    obtain ds where t2: "ts_shutdowns ?t2 = ts_shutdowns t @ [Shutdown_waiting ds ?N 0]"
      "ts_shutdown_handlers ?t2 = ts_shutdown_handlers ?t1" "tcp_server_runs any_event ?t1 ?evs"
      by (auto simp: k_def)
    have "k < length (ts_shutdowns ?t2)" "ts_shutdowns ?t2 ! k = Shutdown_waiting ds ?N 0"
      using t2(1) by (simp_all add: k_def)
    from all_received [OF this, of any_event] t1(4) t2 False
    show thesis
      by (intro that [of "?evs @ replicate ?N (Tcp_drain_received k)"]) (auto simp: tcp_server_runs_append k_def)
  qed
qed

text \<open>
  Two calls of \<open>shutdown\<close> that overlap break each other: in any state in which a call waits
  and one of its messages has arrived, a second call can run to its end, empty the vector
  the first call counts against, and let the first call return although none of its remaining drains
  has ended. The drains of the second call for connections taken by the first have no handler to run.
\<close>

lemma overlapping_shutdown_returns_early:
  assumes "j < length (ts_shutdowns t)" and "ts_shutdowns t ! j = Shutdown_waiting drains m n" and "0 < m"
  shows "\<exists>evs. tcp_server_runs any_event t (Tcp_shutdown now period # evs) \<and>
     (\<forall>i. Tcp_drain_completed j i \<notin> set evs) \<and>
     ts_shutdowns (foldl tcp_server_event t (Tcp_shutdown now period # evs)) ! j = Shutdown_returned"
proof -
  obtain evs where evs: "tcp_server_runs any_event t (Tcp_shutdown now period # evs)"
    "\<And>j i. Tcp_drain_completed j i \<in> set evs \<Longrightarrow> j = length (ts_shutdowns t)"
    "ts_shutdown_handlers (foldl tcp_server_event t (Tcp_shutdown now period # evs)) = []"
    "ts_shutdowns (foldl tcp_server_event t (Tcp_shutdown now period # evs)) = ts_shutdowns t @ [Shutdown_returned]"
    by (rule shutdown_call_finishes [of t now period]) blast
  let ?t = "foldl tcp_server_event t (Tcp_shutdown now period # evs)"
  have w: "ts_shutdowns ?t ! j = Shutdown_waiting drains m n" "j < length (ts_shutdowns ?t)"
    using evs(4) assms(1,2) by (simp_all add: nth_append)
  then have "tcp_server_enabled ?t (Tcp_drain_received j)" using assms(3) by simp
  moreover have "ts_shutdowns (drain_received ?t j) ! j = Shutdown_returned"
    using w evs(3) by (simp add: drain_received_def shutdown_loop_head_def)
  moreover have "Tcp_drain_completed j i \<notin> set evs" for i using evs(2) [of j i] assms(1) by auto
  ultimately show ?thesis
    using evs(1) by (intro exI [of _ "evs @ [Tcp_drain_received j]"]) (simp add: tcp_server_runs_append)
qed

text \<open>Two registered connections, of which one has been drained.\<close>

abbreviation sample_half_drained :: "(nat, nat, bool) TcpServer" where
  "sample_half_drained \<equiv> foldl tcp_server_event new_tcp_server
     [Tcp_register 5, Tcp_register 6, Tcp_shutdown 10 20, Tcp_drain_completed 0 0]"

lemma overlapping_shutdown_returns_early_example:
  "ts_shutdowns sample_half_drained ! 0 = Shutdown_waiting
       [\<lparr>drain_handler = Some 5, drain_deadline = 30, drain_ended = True\<rparr>,
        \<lparr>drain_handler = Some 6, drain_deadline = 30, drain_ended = False\<rparr>] 1 0 \<and>
   (\<exists>evs. (\<forall>i. Tcp_drain_completed 0 i \<notin> set evs) \<and>
      ts_shutdowns (foldl tcp_server_event sample_half_drained (Tcp_shutdown 15 20 # evs)) ! 0 = Shutdown_returned)"
proof -
  have "ts_shutdowns sample_half_drained = [Shutdown_waiting
       [\<lparr>drain_handler = Some 5, drain_deadline = 30, drain_ended = True\<rparr>,
        \<lparr>drain_handler = Some 6, drain_deadline = 30, drain_ended = False\<rparr>] 1 0]"
    by (simp add: tcp_server_ops stop_server_def new_tcp_server_def shutdown_loop_head_def Let_def)
  then show ?thesis
    using overlapping_shutdown_returns_early [of 0 sample_half_drained _ 1 0 15 20] by auto
qed

end
