(* ===== verification/Tcp_Client.thy ===== *)
theory Tcp_Client
  imports Tcp_Transport Status
begin

text \<open>
  Establishing a connection (\<open>tcp_client.hpp\<close>). Name resolution and the race between the
  connection attempt and the timer belong to Boost.Asio: how each ended is an argument of
  \<open>tcp_connect\<close>, and so is the exception that ended it, if one did.
\<close>

section \<open>Results\<close>

record 's ConnectResult =
  connect_transport :: "'s TcpTransport option"
  connect_status :: StatusCode
  connect_message :: string

definition connect_ok :: "'s ConnectResult \<Rightarrow> bool" where
  "connect_ok r \<longleftrightarrow> connect_status r = Status_ok"

definition ConnectResult_success :: "'s TcpTransport \<Rightarrow> 's ConnectResult" where
  "ConnectResult_success t =
     \<lparr>connect_transport = Some t, connect_status = Status_ok, connect_message = []\<rparr>"

definition ConnectResult_failure :: "StatusCode \<Rightarrow> string \<Rightarrow> 's ConnectResult" where
  "ConnectResult_failure st msg =
     \<lparr>connect_transport = None, connect_status = st, connect_message = msg\<rparr>"

lemmas connect_result_defs = connect_ok_def ConnectResult_success_def ConnectResult_failure_def

definition classify_connect_error :: "ErrorCode \<Rightarrow> StatusCode" where
  "classify_connect_error error =
     (if error = Error_connection_refused \<or> error = Error_connection_reset
      then Status_connection_reset
      else if error = Error_eof \<or> error = Error_connection_aborted
      then Status_connection_closed
      else Status_transport_error)"

text \<open>The default of the timeout argument, in milliseconds.\<close>

definition default_connect_timeout :: int where
  "default_connect_timeout = 10000"

section \<open>Connecting\<close>

text \<open>An exception that leaves an awaited operation: a system error with its text, or another one.\<close>

datatype 'x Thrown = System_error ErrorCode string | Other_exception 'x

text \<open>
  How the race ended, with the socket as it is then: one side came first, or an exception left the
  awaited operation.
\<close>

datatype ('x, 's) Race = Race_connected 's | Race_timer 's | Race_thrown "'x Thrown" 's

text \<open>
  \<open>connect\<close>: what its \<open>try\<close> block returns or throws, together with the local socket when the block
  is left. There is none before the socket is declared, and none once it has been moved into the
  transport.
\<close>

definition tcp_connect_try ::
  "'s SocketOps \<Rightarrow> string \<Rightarrow> 'x Thrown + 'e \<Rightarrow> ('e \<Rightarrow> ('x, 's) Race) \<Rightarrow>
     ('x Thrown + 's ConnectResult) \<times> 's option" where
  "tcp_connect_try S host resolved race =
     (case resolved of
        Inl x \<Rightarrow> (Inl x, None)
      | Inr endpoints \<Rightarrow>
          (case race endpoints of
             Race_thrown x sock \<Rightarrow> (Inl x, Some sock)
           | Race_timer sock \<Rightarrow>
               (Inr (ConnectResult_failure Status_connection_timed_out
                      (''connection to '' @ host @ '' timed out'')), Some (socket_close S sock))
           | Race_connected sock \<Rightarrow>
               (Inr (ConnectResult_success (new_tcp_transport sock)), None)))"

text \<open>
  Leaving the block destroys the local socket, which closes it, whether the block returns or
  throws; then system errors are turned into results and other exceptions go on to the caller. The
  second component is what is left of the local socket.
\<close>

definition tcp_connect ::
  "'s SocketOps \<Rightarrow> string \<Rightarrow> 'x Thrown + 'e \<Rightarrow> ('e \<Rightarrow> ('x, 's) Race) \<Rightarrow>
     ('x + 's ConnectResult) \<times> 's option" where
  "tcp_connect S host resolved race =
     (case tcp_connect_try S host resolved race of
        (outcome, local) \<Rightarrow>
          (case outcome of
             Inl (System_error code what) \<Rightarrow>
               Inr (ConnectResult_failure (classify_connect_error code) what)
           | Inl (Other_exception x) \<Rightarrow> Inl x
           | Inr r \<Rightarrow> Inr r,
           map_option (socket_close S) local))"

section \<open>Properties of the component\<close>

text \<open>Every status \<open>connect\<close> reports is an error of the transport band.\<close>

lemma connect_statuses:
  "classify_connect_error e \<noteq> Status_ok"
  "status_category (classify_connect_error e) = Category_transport"
  "status_category Status_connection_timed_out = Category_transport"
  by (simp_all add: classify_connect_error_def status_category_bands Let_def)

text \<open>The ways \<open>connect\<close> can end, by how resolution and the race ended.\<close>

definition foreign_exception :: "'x Thrown + 'e \<Rightarrow> ('e \<Rightarrow> ('x, 's) Race) \<Rightarrow> 'x \<Rightarrow> bool" where
  "foreign_exception resolved race x \<longleftrightarrow>
     (case resolved of
        Inl y \<Rightarrow> y = Other_exception x
      | Inr e \<Rightarrow> (\<exists>sock. race e = Race_thrown (Other_exception x) sock))"

text \<open>
  Property C32. Whatever resolution and the race end with, \<open>connect\<close> ends in one of three ways. It
  returns a transport and the status \<open>ok\<close>: then the connection attempt has won the race, the
  transport is open and owns that socket, and no socket stays behind. Or it returns no transport
  and an error of the transport category. Or an exception that is no system error has left
  resolution or the race, and it is passed on. In the last two cases the socket the coroutine
  had opened, if any, has been closed.
\<close>

theorem connect_result_exclusive:
  assumes "\<And>sock. \<not> socket_is_open S (socket_close S sock)"
    and "tcp_connect S host resolved race = (outcome, left)"
  shows "(case outcome of
       Inl x \<Rightarrow> foreign_exception resolved race x
     | Inr r \<Rightarrow>
         (case connect_transport r of
            Some t \<Rightarrow> connect_ok r \<and> tt_open t \<and> left = None \<and>
              (\<exists>e. resolved = Inr e \<and> race e = Race_connected (tt_socket t))
          | None \<Rightarrow> \<not> connect_ok r \<and> status_category (connect_status r) = Category_transport)) \<and>
     (case left of None \<Rightarrow> True | Some sock \<Rightarrow> \<not> socket_is_open S sock)"
proof -
  note defs = tcp_connect_def tcp_connect_try_def connect_result_defs foreign_exception_def
  show ?thesis
  proof (cases resolved)
    case (Inl x)
    then show ?thesis using assms(2) by (cases x) (auto simp: defs connect_statuses)
  next
    case (Inr e)
    note resolved = this
    show ?thesis
    proof (cases "race e")
      case (Race_thrown x sock)
      then show ?thesis using assms resolved by (cases x) (auto simp: defs connect_statuses)
    qed (use assms resolved in \<open>auto simp: defs new_tcp_transport_def connect_statuses\<close>)
  qed
qed

text \<open>A system error while the socket is open: the result is an error, the socket is closed.\<close>

theorem connect_result_exclusive_witness:
  "\<exists>r. tcp_connect flag_socket ''host'' (Inr () :: unit Thrown + unit)
       (\<lambda>_. Race_thrown (System_error Error_connection_refused ''refused'') True) = (Inr r, Some False) \<and>
     connect_transport r = None \<and> \<not> connect_ok r \<and>
     status_category (connect_status r) = Category_transport"
proof -
  have closes: "\<not> socket_is_open flag_socket (socket_close flag_socket sock)" for sock
    by (simp add: flag_socket_def)
  let ?race = "\<lambda>_ :: unit. Race_thrown (System_error Error_connection_refused ''refused'') True"
  obtain r where r: "tcp_connect flag_socket ''host'' (Inr () :: unit Thrown + unit) ?race = (Inr r, Some False)"
    "connect_transport r = None"
    by (simp add: tcp_connect_def tcp_connect_try_def connect_result_defs flag_socket_def)
  with connect_result_exclusive [OF closes r(1)] show ?thesis by simp
qed

end
