(* ===== verification/Session.thy ===== *)
theory Session
  imports Client_Properties Server_Properties Tcp_Server Tcp_Client Message_Registry
begin

text \<open>
  Lemmas about the components together: how a frame started by a client connection arrives at a
  server connection and its response comes back, what an initial part of a byte stream decodes
  to, what becomes of a stream that was given up, and a TCP transport under a connection.
\<close>

section \<open>A frame on its way\<close>

lemma encode_message_arrives:
  assumes "encode_message C reg ty v sid ft fl default_max_payload_size current_protocol_version =
      FrameEncodeResult_success f"
    and "is_known_frame_type ft" and "has_only_known_flags fl"
    and "\<not> (has_flag fl Flags_cancel \<and> has_flag fl Flags_error)" and "stream_is_valid sid"
  shows "validate_frame f default_max_payload_size = Validation_none"
proof -
  have "frame_encode_ok (encode_message C reg ty v sid ft fl default_max_payload_size
      current_protocol_version)" by (simp add: assms(1) frame_encode_defs)
  from encode_message_valid [OF this assms(2-)] show ?thesis
    by (auto simp: assms(1) FrameEncodeResult_success_def)
qed

text \<open>What a started request leaves behind, and the frame it sends.\<close>

lemma started_request:
  assumes env: "queue_env (env_queue E) vf vs" and inv: "client_inv vf c"
    and ok: "start_request E c ty v = (c1, Start_ok h)"
  obtains sid f where "request_encoding E ty v sid = FrameEncodeResult_success f"
    and "queue_contents vf (cc_write_queue c1) = queue_contents vf (cc_write_queue c) @ [encode_frame f]"
    and "pending_stream c1 (length (cc_heap c)) = sid"
    and "map_of (cc_pending c1) sid = Some (length (cc_heap c))"
    and "cc_decoder c1 = cc_decoder c" and "cc_transport_open c1 = cc_transport_open c"
    and "cc_terminal_streams c1 = cc_terminal_streams c" and "cc_reading c1 = cc_reading c"
    and "ro_pending h = Some (length (cc_heap c))" and "ro_connected h"
proof -
  have "\<not> rejects_requests (cc_lifecycle c)" using ok by (auto simp: start_request_def)
  with inv show thesis
  proof (cases rule: start_request_cases [where E = E and ty = ty and v = v])
    case (started sid f q sent)
    then obtain res where res: "sent = Some res" "write_ok res"
      and c1: "c1 = (registered E c sid)\<lparr>cc_write_queue := q\<rparr>"
      and h: "h = \<lparr>ro_connected = True, ro_pending = Some (length (cc_heap c))\<rparr>"
      using ok by (auto simp: start_request_sent_def Let_def split: option.splits if_splits)
    have "request_encoding E ty v sid = FrameEncodeResult_success f"
      using encode_message_ok [OF started(2) [unfolded request_encoding_def]] started(3)
      by (metis FrameEncodeResult.select_convs(1) FrameEncodeResult_success_def option.sel
          request_encoding_def)
    moreover have "queue_contents vf q = queue_contents vf (cc_write_queue c) @ [encode_frame f]"
      using enqueue_step [OF env client_inv_parts(2) [OF inv] started(4,5)] res
      by (simp add: accepted_frame_def)
    ultimately show thesis
      by (intro that [of sid f]) (simp_all add: c1 h registered_def nth_append new_pending_def
          op_activate_def new_operation_def operation_transition_def)
  qed (use ok in simp_all)
qed

text \<open>The bytes of a response arrive at the client that waits for it.\<close>

lemma response_arrives:
  assumes env: "queue_env (env_queue E) vf vs" and inv: "client_inv vf c"
    and "cc_transport_open c" and "dec_clean (cc_decoder c)" and "is_response_to c g r"
    and "validate_frame g default_max_payload_size = Validation_none"
    and "\<not> has_flag (header_flags (frame_header g)) Flags_cancel"
    and "\<not> has_flag (header_flags (frame_header g)) Flags_error"
  obtains c' where "read_completed E c True (Some (encode_frame g)) = Some c'"
    and "op_result (pr_operation (cc_heap c' ! r)) = Some (OperationResult_success ''response received'')"
    and "view_buffer (vf (pr_channel (cc_heap c' ! r))) = [g]" and "r < length (cc_heap c')"
    and "cc_transport_open c'"
proof -
  obtain d where d: "push (cc_decoder c) (encode_frame g) = Some (d, [g])" "dec_clean d"
    using push_one_frame [OF assms(4,6)] .
  obtain b bs where bs: "encode_frame g = b # bs"
    using encode_frame_nonempty [of g] by (cases "encode_frame g") auto
  define c1 where "c1 = notify ((notify (c\<lparr>cc_transport_open := True\<rparr>)
      (diagnostics_event Event_bytes_transferred StreamId_default Status_ok (length (b # bs)) True []))
        \<lparr>cc_decoder := d\<rparr>)
    (diagnostics_event Event_message_transferred (header_stream (frame_header g)) Status_ok 0 True [])"
  have inv1: "client_inv vf c1"
    using d(2) unfolding c1_def by (intro client_advancesD [OF client_inv_frame [OF inv]])
      (simp_all add: client_inv_parts [OF inv] dec_clean_def)
  have resp1: "is_response_to c1 g r" and open1: "cc_transport_open c1"
    using assms(5) by (simp_all add: is_response_to_def c1_def)
  note eff = completed_by_effect [OF env inv1 resp1]
  have "dispatch E c1 g = Some (completed_by E c1 g r)"
    by (rule dispatch_response [OF inv1 resp1 assms(7,8)])
  moreover have "cc_transport_open (completed_by E c1 g r)" using eff(6) open1 by simp
  moreover have "dec_error d = None" using d(2) by (simp add: dec_clean_def)
  ultimately have "read_completed E c True (Some (encode_frame g)) =
      Some ((completed_by E c1 g r)\<lparr>cc_reading := True\<rparr>)"
    using d(1) assms(3)
    by (simp add: read_completed_def read_loop_head_def bs Let_def c1_def [symmetric] del: length_Cons list.size)
  moreover have "r < length (cc_heap (completed_by E c1 g r))"
  proof -
    note r1 = is_response_to_facts(1) [OF inv1 resp1]
    have "ops_le (operations c1) (operations (completed_by E c1 g r))"
      using completed_by_advances(1) [OF inv1 r1, of E g] by (simp add: client_advances_def)
    then have "length (cc_heap c1) \<le> length (cc_heap (completed_by E c1 g r))"
      by (simp add: ops_le_def)
    with r1 show ?thesis by simp
  qed
  ultimately show thesis
    using eff(1,2,6) open1
    by (intro that [of "(completed_by E c1 g r)\<lparr>cc_reading := True\<rparr>"]) simp_all
qed

lemma awaited_response:
  assumes env: "queue_env (env_queue E) vf vs" and "r < length (cc_heap c)"
    and "view_buffer (vf (pr_channel (cc_heap c ! r))) = [g]"
    and "ro_connected h" and "ro_pending h = Some r"
  shows "snd (async_wait_completed E (fst (async_wait E c h)) h ty) =
     Some (decode_message (env_codec E) (env_registry E) ty g)"
proof -
  let ?ch = "chan_begin_receive (frame_channel (env_queue E)) (pr_channel (cc_heap c ! r))"
  have impl: "implements_channel (frame_channel (env_queue E)) vf" using env by (simp add: queue_env_def)
  have "snd (chan_end_receive (frame_channel (env_queue E)) ?ch) = Channel_message g"
    using implements_channelD(4,6) [OF impl] assms(3)
    by (simp add: view_begin_receive_def view_end_receive_def)
  then show ?thesis
    using assms(2,4,5)
    by (simp add: async_wait_completed_def async_wait_def update_pending_def case_prod_beta Let_def)
qed

text \<open>Marking a response as final keeps it a valid response.\<close>

lemma final_frame_valid:
  assumes "validate_frame g mx = Validation_none" and "header_flags (frame_header g) = Flags_none"
  shows "validate_frame (final_frame g) mx = Validation_none"
    and "\<not> has_flag (header_flags (frame_header (final_frame g))) Flags_cancel"
    and "\<not> has_flag (header_flags (frame_header (final_frame g))) Flags_error"
  using assms
  by (simp_all add: validate_frame_def final_frame_def has_only_known_flags_iff has_flag_def
      flags_and_def flags_or_def Let_def split: if_splits)

text \<open>The way back: a response for a pending request is read and awaited.\<close>

lemma response_comes_back:
  assumes env: "queue_env (env_queue E) vf vs" and inv: "client_inv vf c"
    and "cc_transport_open c" and "dec_clean (cc_decoder c)"
    and entry: "map_of (cc_pending c) sid = Some r" and "sid \<notin> cc_terminal_streams c"
    and codec: "codec_contract (env_codec E) good" and "good tr w"
    and resp: "encode_message (env_codec E) (env_registry E) tr w sid FrameType_response Flags_none
      default_max_payload_size current_protocol_version = FrameEncodeResult_success g"
    and h: "ro_connected h" "ro_pending h = Some r"
  obtains c' where "read_completed E c True (Some (encode_frame (final_frame g))) = Some c'"
    and "snd (async_wait_completed E (fst (async_wait E c' h)) h tr) = Some (DecodeResult_success w)"
proof -
  have g: "header_stream (frame_header g) = sid" "header_type (frame_header g) = FrameType_response"
    "header_flags (frame_header g) = Flags_none" "header_version (frame_header g) = current_protocol_version"
    by (rule encode_message_success [OF resp], simp)+
  have "stream_is_valid sid"
    using pending_entry_stream(1) [OF inv entry] by (simp add: is_client_stream_def)
  then have gv: "validate_frame g default_max_payload_size = Validation_none"
    by (intro encode_message_arrives [OF resp])
      (simp_all add: is_known_frame_type_def has_only_known_flags_iff has_flag_def flags_and_def)
  have "is_response_to c (final_frame g) r"
    using g entry assms(6) by (simp add: is_response_to_def final_frame_def)
  then obtain c' where c': "read_completed E c True (Some (encode_frame (final_frame g))) = Some c'"
    "view_buffer (vf (pr_channel (cc_heap c' ! r))) = [final_frame g]" "r < length (cc_heap c')"
    using response_arrives [OF env inv assms(3,4) _ final_frame_valid [OF gv g(3)]] by metis
  have "decode_message (env_codec E) (env_registry E) tr (final_frame g) = DecodeResult_success w"
    unfolding final_frame_def by (rule message_roundtrip(2) [OF codec assms(8) resp]) (simp add: g)
  then show thesis using awaited_response [OF env c'(3,2) h] c'(1) that by simp
qed

text \<open>A request frame is read, dispatched, and its handler started.\<close>

lemma request_served:
  assumes "codec_contract (env_codec E) good" and "good ty v"
    and enc: "encode_message (env_codec E) (env_registry E) ty v sid FrameType_request Flags_none
      default_max_payload_size current_protocol_version = FrameEncodeResult_success f"
    and "stream_is_valid sid"
    and "message_type (env_registry E) ty = Some mt"
    and "sc_handlers s mt = Some types" and "handler_request types = ty"
    and "sc_reader s = Reader_reading" and "sc_transport_open s" and "dec_clean (sc_decoder s)"
    and "\<not> draining_or_later (sc_lifecycle s)" and "sid \<notin> sc_terminal_streams s"
    and "map_of (sc_operations s) sid = None"
  obtains s1 where "server_events E s [Server_read True (Some (encode_frame f)), Server_dispatch_next,
      Server_handler_started (length (sc_tasks s))] = Some s1"
    and "sc_tasks s1 = sc_tasks s @ [(new_task types f)\<lparr>task_phase := Task_running v\<rparr>]"
proof -
  have valid: "validate_frame f default_max_payload_size = Validation_none"
    using assms(4) by (intro encode_message_arrives [OF enc])
      (simp_all add: is_known_frame_type_def has_only_known_flags_iff has_flag_def flags_and_def)
  obtain D d where arr: "server_event E s (Server_read True (Some (encode_frame f))) =
      Some (s\<lparr>sc_diagnostics := D, sc_decoder := d, sc_reader := Reader_dispatching [f]\<rparr>)"
    (is "_ = Some ?s0") by (rule frame_arrives [OF assms(8-10) valid])
  have header: "header_stream (frame_header f) = sid" "header_type (frame_header f) = FrameType_request"
    "header_flags (frame_header f) = Flags_none"
    by (rule encode_message_success [OF enc], simp)+
  have "ordinary_request ?s0 f"
    using assms(11,12) header by (simp add: ordinary_request_def has_flag_def flags_and_def)
  note served = request_reaches_handler [OF assms(1,2) enc assms(5), of ?s0 types "[]" "server_dispatch_next E ?s0",
      OF _ assms(7) _ _ this _ refl]
  have tasks: "sc_tasks (server_dispatch_next E ?s0) = sc_tasks s @ [new_task types f]"
    "sc_tasks (handler_started E (server_dispatch_next E ?s0) (length (sc_tasks s))) =
       sc_tasks s @ [(new_task types f)\<lparr>task_phase := Task_running v\<rparr>]"
    using served assms(6,9,13) by simp_all
  then show thesis
    using arr assms(8)
    by (intro that [of "handler_started E (server_dispatch_next E ?s0) (length (sc_tasks s))"])
      (simp_all add: dispatching_def nth_append)
qed

section \<open>Parts of a byte stream\<close>

lemma parse_prefix:
  assumes "list_all (\<lambda>f. validate_frame f mx = Validation_none) A"
    and "concat (map encode_frame A) = xs @ ys"
  obtains rest where "A = fst (parse mx xs) @ rest" and "snd (snd (parse mx xs)) = None"
    and "ys = [] \<longrightarrow> rest = [] \<and> fst (snd (parse mx xs)) = []"
proof -
  have whole: "parse mx (xs @ ys) = (A, [], None)"
    using parse_encode_frames [OF assms(1), of "[]"] assms(2)
    by (simp add: parse_short frame_header_size_def)
  obtain fs r e where p: "parse mx xs = (fs, r, e)" by (metis prod.exhaust)
  show thesis
  proof (cases e)
    case None
    obtain gs r' e' where q: "parse mx (r @ ys) = (gs, r', e')" by (metis prod.exhaust)
    have "A = fs @ gs" using whole parse_append [of mx xs ys] by (simp add: p None q)
    moreover have "gs = [] \<and> r = []" if "ys = []"
      using whole that p by (simp add: \<open>A = fs @ gs\<close>)
    ultimately show thesis using that [of gs] p None by simp
  next
    case (Some err)
    then show thesis using whole parse_append [of mx xs ys] by (simp add: p)
  qed
qed

section \<open>Streams that were given up\<close>

text \<open>A server never forgets the streams it has seen a final frame on.\<close>

lemma fail_operations_terminal [simp]:
  "sc_terminal_streams (fail_operations_on_connection_close s) = sc_terminal_streams s"
proof -
  have "sc_terminal_streams (foldl (\<lambda>s (_, i). fail_operation s i) s ps) = sc_terminal_streams s" for ps
    by (induction ps arbitrary: s) (auto simp: fail_operation_def Let_def)
  then show ?thesis by (simp add: fail_operations_on_connection_close_def)
qed

lemma stretches_terminal [simp]:
  "sc_terminal_streams (run_handler_end E s i) = sc_terminal_streams s"
  "sc_terminal_streams (handler_sent E s i f r) = sc_terminal_streams s"
  "sc_terminal_streams (handler_started E s i) = sc_terminal_streams s"
  "sc_terminal_streams (server_read_exit E s b) = sc_terminal_streams s"
  "sc_terminal_streams (server_read_head E s) = sc_terminal_streams s"
  "sc_terminal_streams (server_frames_done E s) = sc_terminal_streams s"
  by (simp_all add: run_handler_end_def handler_sent_def handler_started_def server_read_exit_def
      server_read_head_def server_frames_done_def case_prod_beta Let_def split: option.split)

lemma handler_returned_terminal [simp]:
  "sc_terminal_streams (handler_returned E s i v) = sc_terminal_streams s"
  by (simp add: handler_returned_def case_prod_beta Let_def split: option.split)

lemma server_dispatch_terminal: "sc_terminal_streams s \<subseteq> sc_terminal_streams (server_dispatch E s f)"
  by (auto simp: server_dispatch_def server_mark_terminal_def Let_def split: option.split)

lemma server_event_terminal:
  assumes "server_event E s ev = Some s'"
  shows "sc_terminal_streams s \<subseteq> sc_terminal_streams s'"
proof (cases ev)
  case (Server_read still_open result)
  then show ?thesis
    using assms by (cases result; cases "the result")
      (auto simp: server_read_completed_def Let_def split: Option.bind_splits)
next
  case Server_dispatch_next
  have seen: "sc_terminal_streams s \<subseteq> sc_terminal_streams (server_dispatch E (frame_seen s f) f)" for f
    using server_dispatch_terminal [of "frame_seen s f" E f] by simp
  then show ?thesis
    using assms Server_dispatch_next
    by (auto simp: server_dispatch_next_def Let_def intro: subsetD [OF seen]
        split: Reader.splits list.splits if_splits)
qed (use assms in \<open>auto simp: server_handle_def server_run_def handler_resumed_def
    server_begin_shutdown_def server_shutdown_finish_def server_write_completed_def
    server_frame_received_def server_observe_write_def case_prod_beta Let_def split: option.splits\<close>)

lemma server_reachable_terminal:
  "server_reachable E s s' \<Longrightarrow> sc_terminal_streams s \<subseteq> sc_terminal_streams s'"
proof (induction rule: server_reachable.induct)
  case (step s s' ev s'')
  then show ?case using server_event_terminal by blast
qed simp

text \<open>Giving up a pending request frees its stream on the client.\<close>

lemma discard_releases:
  assumes inv: "client_inv vf c" and entry: "map_of (cc_pending c) sid = Some r"
  shows "live_streams (cc_stream_ids (discard_pending E c r)) = live_streams (cc_stream_ids c) - {sid}"
proof -
  let ?m = "Call_cancel ''operation handle released'' :: DiagnosticsEvent OpCall"
  let ?c1 = "fst (call_operation c r ?m)"
  let ?c2 = "close_channel E (send_cancellation E ?c1 (pending_stream ?c1 r)) r"
  note pinv = client_inv_parts(1) [OF inv]
  note e = pend_inv_entry [OF pinv entry]
  have active: "\<not> op_is_terminal (pr_operation (cc_heap c ! r))"
    using pend_inv_entry_active [OF pinv entry] by simp
  have "request_ok {} (cc_stream_ids c) (cc_pending c) r (cc_heap c ! r)"
    using pinv e(1) by (simp add: pend_inv_def)
  then have fresh: "\<not> pr_stream_released (cc_heap c ! r)" using e(3) by (simp add: request_ok_def)
  have "client_pend_inv {r} ?c1" using call_operation_inv(1) [OF pinv e(1), of ?m] by simp
  then have "client_pend_inv {r} (send_cancellation E ?c1 (pending_stream ?c1 r))" by simp
  then have "client_pend_inv {r} ?c2" by (rule close_channel_inv) (simp add: e(1))
  moreover have "pending_stream ?c2 r = sid" "\<not> pr_stream_released (cc_heap ?c2 ! r)" "r < length (cc_heap ?c2)"
    using e fresh by (simp_all add: heap_close_channel heap_call_operation)
  ultimately have "live_streams (cc_stream_ids (cleanup_pending ?c2 r True)) =
      live_streams (cc_stream_ids ?c2) - {sid}"
    using cleanup_releases by metis
  then show ?thesis using active by (simp add: discard_pending_def Let_def)
qed

section \<open>A connection over TCP\<close>

text \<open>What a read loop sees of a completed read of its TCP transport.\<close>

definition tcp_read_seen :: "'s SocketOps \<Rightarrow> 's TcpTransport \<times> (ErrorCode + Buffer) \<Rightarrow> bool \<times> Buffer option" where
  "tcp_read_seen S r =
     (tcp_is_open S (fst r), case snd r of Inl _ \<Rightarrow> None | Inr bs \<Rightarrow> Some bs)"

text \<open>
  Both the orderly end of the stream and every error of a socket are, for the read loop of a
  connection, the loss of the connection; a successful read is not.
\<close>

lemma tcp_read_ends:
  assumes "tcp_is_open S t" and "bytes \<noteq> []"
  shows "connection_gone (fst (tcp_read_seen S (tcp_read_completed S t error bytes)))
       (snd (tcp_read_seen S (tcp_read_completed S t error bytes))) \<longleftrightarrow> error \<noteq> None"
  using assms
  by (auto simp: tcp_read_seen_def tcp_read_completed_def connection_gone_def tcp_is_open_def
      tcp_close_def split: option.split)

end
