(* ===== verification/Rpc_Spec.thy ===== *)
theory Rpc_Spec
  imports Main
begin

text \<open>
  What a request/response service promises its users, without streams, frames or bytes. Calls
  are numbered by the caller in the order in which they are issued; every execution of a handler
  has a number on the serving side. An execution serves one call that nothing has served before,
  with exactly the value that was issued; it replies at most once; and what a caller gets is the
  reply of the execution that served its own call, at most once. A session of a client and a
  server connection is compared with this specification by its visible events.
\<close>

datatype ('t, 'v) RpcEvent =
  Rpc_issue nat 't 'v
| Rpc_serve nat 't 'v
| Rpc_reply nat 't 'v
| Rpc_deliver nat 't 'v

record ('t, 'v) Rpc =
  rpc_calls :: "('t \<times> 'v) list"
  rpc_serves :: "nat \<rightharpoonup> nat"
  rpc_replies :: "nat \<rightharpoonup> 't \<times> 'v"
  rpc_delivered :: "nat set"

definition new_rpc :: "('t, 'v) Rpc" where
  "new_rpc = \<lparr>rpc_calls = [], rpc_serves = Map.empty, rpc_replies = Map.empty, rpc_delivered = {}\<rparr>"

inductive rpc_step :: "('t, 'v) Rpc \<Rightarrow> ('t, 'v) RpcEvent \<Rightarrow> ('t, 'v) Rpc \<Rightarrow> bool" where
  issue: "r = length (rpc_calls A) \<Longrightarrow>
    rpc_step A (Rpc_issue r ty v) (A\<lparr>rpc_calls := rpc_calls A @ [(ty, v)]\<rparr>)"
| serve: "rpc_serves A i = None \<Longrightarrow> r < length (rpc_calls A) \<Longrightarrow> r \<notin> ran (rpc_serves A) \<Longrightarrow>
    rpc_calls A ! r = (ty, v) \<Longrightarrow>
    rpc_step A (Rpc_serve i ty v) (A\<lparr>rpc_serves := (rpc_serves A)(i \<mapsto> r)\<rparr>)"
| reply: "rpc_serves A i \<noteq> None \<Longrightarrow> rpc_replies A i = None \<Longrightarrow>
    rpc_step A (Rpc_reply i ty v) (A\<lparr>rpc_replies := (rpc_replies A)(i \<mapsto> (ty, v))\<rparr>)"
| deliver: "rpc_serves A i = Some r \<Longrightarrow> rpc_replies A i = Some (ty, v) \<Longrightarrow>
    r \<notin> rpc_delivered A \<Longrightarrow>
    rpc_step A (Rpc_deliver r ty v) (A\<lparr>rpc_delivered := insert r (rpc_delivered A)\<rparr>)"

inductive_cases rpc_step_cases:
  "rpc_step A (Rpc_issue r ty v) A'" "rpc_step A (Rpc_serve i ty v) A'"
  "rpc_step A (Rpc_reply i ty v) A'" "rpc_step A (Rpc_deliver r ty v) A'"

inductive rpc_run :: "('t, 'v) Rpc \<Rightarrow> ('t, 'v) RpcEvent list \<Rightarrow> ('t, 'v) Rpc \<Rightarrow> bool" where
  start: "rpc_run A [] A"
| step: "rpc_run A evs A' \<Longrightarrow> rpc_step A' ev A'' \<Longrightarrow> rpc_run A (evs @ [ev]) A''"

section \<open>What conforming to the specification means\<close>

text \<open>The state only remembers what has happened.\<close>

definition rpc_history :: "('t, 'v) RpcEvent list \<Rightarrow> ('t, 'v) Rpc \<Rightarrow> bool" where
  "rpc_history evs A \<longleftrightarrow>
     (\<forall>r < length (rpc_calls A). Rpc_issue r (fst (rpc_calls A ! r)) (snd (rpc_calls A ! r)) \<in> set evs) \<and>
     (\<forall>i r. rpc_serves A i = Some r \<longrightarrow> r < length (rpc_calls A) \<and>
        Rpc_serve i (fst (rpc_calls A ! r)) (snd (rpc_calls A ! r)) \<in> set evs) \<and>
     (\<forall>i ty w. rpc_replies A i = Some (ty, w) \<longrightarrow> Rpc_reply i ty w \<in> set evs) \<and>
     inj_on (rpc_serves A) (dom (rpc_serves A)) \<and>
     (\<forall>r ty w. Rpc_deliver r ty w \<in> set evs \<longrightarrow>
        (\<exists>i. rpc_serves A i = Some r \<and> rpc_replies A i = Some (ty, w)))"

lemma rpc_history_step:
  assumes "rpc_history evs A" and "rpc_step A ev A'"
  shows "rpc_history (evs @ [ev]) A'"
  using assms(2,1)
proof cases
  case (issue r ty v)
  then show ?thesis using assms(1) by (auto simp: rpc_history_def nth_append less_Suc_eq)
next
  case (serve i r ty v)
  have "inj_on (rpc_serves A') (dom (rpc_serves A'))"
    using assms(1) serve by (auto simp: rpc_history_def inj_on_def ran_def split: if_splits)
  moreover have "\<exists>j. rpc_serves A' j = Some r' \<and> rpc_replies A' j = Some (ty', w)"
    if "Rpc_deliver r' ty' w \<in> set evs" for r' ty' w
  proof -
    obtain j where "rpc_serves A j = Some r'" "rpc_replies A j = Some (ty', w)"
      using assms(1) \<open>Rpc_deliver r' ty' w \<in> set evs\<close> unfolding rpc_history_def by blast
    then show ?thesis using serve by (intro exI [of _ j]) auto
  qed
  ultimately show ?thesis using assms(1) serve by (auto simp: rpc_history_def)
next
  case (reply i ty v)
  then have "\<exists>j. rpc_serves A' j = Some r' \<and> rpc_replies A' j = Some (ty', w)"
    if "Rpc_deliver r' ty' w \<in> set evs" for r' ty' w
  proof -
    obtain j where "rpc_serves A j = Some r'" "rpc_replies A j = Some (ty', w)"
      using assms(1) \<open>Rpc_deliver r' ty' w \<in> set evs\<close> unfolding rpc_history_def by blast
    then show ?thesis using reply by (intro exI [of _ j]) auto
  qed
  then show ?thesis using assms(1) reply by (auto simp: rpc_history_def)
next
  case (deliver i r ty v)
  then show ?thesis using assms(1) by (auto simp: rpc_history_def)
qed

lemma rpc_run_history: "rpc_run A evs A' \<Longrightarrow> A = new_rpc \<Longrightarrow> rpc_history evs A'"
proof (induction rule: rpc_run.induct)
  case (start A)
  then show ?case by (simp add: rpc_history_def new_rpc_def)
next
  case (step A evs A' ev A'')
  then show ?case using rpc_history_step by blast
qed

text \<open>
  The guarantee to a caller, read off the events: what was delivered to a call was returned by
  the handler that was given the value of that very call.
\<close>

lemma rpc_delivery:
  assumes "rpc_run new_rpc evs A" and "Rpc_deliver r tr w \<in> set evs"
  obtains i ty v where "Rpc_issue r ty v \<in> set evs" and "Rpc_serve i ty v \<in> set evs"
    and "Rpc_reply i tr w \<in> set evs"
proof -
  have h: "rpc_history evs A" using rpc_run_history [OF assms(1)] by simp
  then obtain i where i: "rpc_serves A i = Some r" "rpc_replies A i = Some (tr, w)"
    using assms(2) unfolding rpc_history_def by blast
  then show thesis
    using h by (intro that [of "fst (rpc_calls A ! r)" "snd (rpc_calls A ! r)" i]) (auto simp: rpc_history_def)
qed

text \<open>Events of a part of a run that happened before stay as they were.\<close>

lemma rpc_run_append: "rpc_run A' evs' A'' \<Longrightarrow> rpc_run A evs A' \<Longrightarrow> rpc_run A (evs @ evs') A''"
proof (induction rule: rpc_run.induct)
  case (step A' evs' B ev B')
  then show ?case using rpc_run.step [of A "evs @ evs'"] by simp
qed simp

end
