(* ===== verification/Session_Model.thy ===== *)
theory Session_Model
  imports Session Rpc_Spec "HOL-Library.Sublist"
begin

text \<open>
  A client connection and a server connection joined by a byte stream in each direction, as one
  system. What an end has handed to its transport is the concatenation of its writes; the other
  end reads it in pieces of any size and in order, as a TCP connection delivers it, so a
  completed read yields an initial part of what has not been read. Every other event of either
  end can happen as it can alone. Both ends use one codec and one registry, as two programs that
  agree on their message types do.

  The visible events are those of the specification: a request is registered, a handler is
  entered, a handler's response is taken, and waiting for a request yields a value.
\<close>

section \<open>The state of a session\<close>

text \<open>
  \<open>ss_starting\<close> holds the calls of \<open>start_request\<close> that are suspended in \<open>enqueue\<close>; \<open>ss_up\<close> and
  \<open>ss_down\<close> count the bytes the server and the client have read.
\<close>

record ('ch, 'sp, 't, 'v) Session =
  ss_client :: "('ch, 'sp) ClientConnection"
  ss_server :: "('ch, 'sp, 't, 'v) ServerConnection"
  ss_starting :: "(nat \<times> Frame) list"
  ss_up :: nat
  ss_down :: nat

definition new_session ::
  "('ch, 'sp, 't, 'v) Env \<Rightarrow> WriteQueueLimits \<Rightarrow> u64 \<Rightarrow> bool \<Rightarrow> WriteQueueLimits \<Rightarrow> bool \<Rightarrow>
     ('ch, 'sp, 't, 'v) Session" where
  "new_session E lim maximum_stream_id hook lim' hook' =
     \<lparr>ss_client = new_client E lim maximum_stream_id hook, ss_server = new_server E lim' hook',
      ss_starting = [], ss_up = 0, ss_down = 0\<rparr>"

definition unread :: "nat \<Rightarrow> ('ch, 'sp) WriteQueue \<Rightarrow> Buffer" where
  "unread n q = drop n (concat (wq_writes q))"

definition read_possible :: "Buffer option \<Rightarrow> Buffer \<Rightarrow> bool" where
  "read_possible result wire \<longleftrightarrow> (case result of None \<Rightarrow> True | Some bs \<Rightarrow> prefix bs wire)"

definition bytes_read :: "Buffer option \<Rightarrow> nat" where
  "bytes_read result = (case result of None \<Rightarrow> 0 | Some bs \<Rightarrow> length bs)"

section \<open>Steps\<close>

text \<open>
  Beyond what enables an event at one end alone: a read yields what the other end has written, a
  suspended call that is resumed is one of the suspended ones, and the last part of \<open>shutdown\<close> comes
  after \<open>begin_shutdown\<close>, with which it starts.
\<close>

datatype ('t, 'v) SessionEvent = At_client "('t, 'v) ClientEvent" | At_server "('t, 'v) ServerEvent"

fun session_enabled :: "('ch, 'sp, 't, 'v) Session \<Rightarrow> ('t, 'v) SessionEvent \<Rightarrow> bool" where
  "session_enabled S (At_client ev) \<longleftrightarrow>
     client_enabled (ss_client S) ev \<and>
     (case ev of
        Client_read _ result \<Rightarrow> cc_reading (ss_client S) \<and>
          read_possible result (unread (ss_down S) (sc_write_queue (ss_server S)))
      | Client_resume _ r f \<Rightarrow> (r, f) \<in> set (ss_starting S)
      | Client_resume_deadline _ r f _ \<Rightarrow> (r, f) \<in> set (ss_starting S)
      | Client_shutdown_finish \<Rightarrow> rejects_requests (cc_lifecycle (ss_client S))
      | _ \<Rightarrow> True)"
| "session_enabled S (At_server ev) \<longleftrightarrow>
     server_enabled (ss_server S) ev \<and>
     (case ev of
        Server_read _ result \<Rightarrow> read_possible result (unread (ss_up S) (cc_write_queue (ss_client S)))
      | _ \<Rightarrow> True)"

definition client_bytes_read :: "('t, 'v) ClientEvent \<Rightarrow> nat" where
  "client_bytes_read ev = (case ev of Client_read _ result \<Rightarrow> bytes_read result | _ \<Rightarrow> 0)"

definition server_bytes_read :: "('t, 'v) ServerEvent \<Rightarrow> nat" where
  "server_bytes_read ev = (case ev of Server_read _ result \<Rightarrow> bytes_read result | _ \<Rightarrow> 0)"

text \<open>The suspended calls after an event at the client.\<close>

definition starting_add :: "StartOutcome \<Rightarrow> (nat \<times> Frame) list \<Rightarrow> (nat \<times> Frame) list" where
  "starting_add outcome st = (case outcome of Start_suspended r f \<Rightarrow> (r, f) # st | _ \<Rightarrow> st)"

definition starting_after ::
  "('ch, 'sp, 't, 'v) Env \<Rightarrow> ('ch, 'sp) ClientConnection \<Rightarrow> ('t, 'v) ClientEvent \<Rightarrow>
     (nat \<times> Frame) list \<Rightarrow> (nat \<times> Frame) list" where
  "starting_after E c ev st =
     (case ev of
        Client_start ty v \<Rightarrow> starting_add (snd (start_request E c ty v)) st
      | Client_start_deadline ty v _ \<Rightarrow> starting_add (snd (start_request E c ty v)) st
      | Client_resume msg r f \<Rightarrow>
          starting_add (snd (start_request_resume E msg c r f)) (remove1 (r, f) st)
      | Client_resume_deadline msg r f _ \<Rightarrow>
          starting_add (snd (start_request_resume E msg c r f)) (remove1 (r, f) st)
      | _ \<Rightarrow> st)"

section \<open>Visible events\<close>

definition call_issued ::
  "('ch, 'sp, 't, 'v) Env \<Rightarrow> ('ch, 'sp) ClientConnection \<Rightarrow> 't \<Rightarrow> 'v \<Rightarrow> ('t, 'v) RpcEvent list" where
  "call_issued E c ty v =
     (if length (cc_heap c) < length (cc_heap (fst (start_request E c ty v)))
      then [Rpc_issue (length (cc_heap c)) ty v] else [])"

definition delivered ::
  "nat \<Rightarrow> 't \<Rightarrow> 'v DecodeResult option \<Rightarrow> ('t, 'v) RpcEvent list" where
  "delivered r ty waited =
     (case waited of
        None \<Rightarrow> []
      | Some result \<Rightarrow>
          (case decode_value result of None \<Rightarrow> [] | Some v \<Rightarrow> [Rpc_deliver r ty v]))"

definition client_visible ::
  "('ch, 'sp, 't, 'v) Env \<Rightarrow> ('ch, 'sp) ClientConnection \<Rightarrow> ('t, 'v) ClientEvent \<Rightarrow>
     ('t, 'v) RpcEvent list" where
  "client_visible E c ev =
     (case ev of
        Client_start ty v \<Rightarrow> call_issued E c ty v
      | Client_start_deadline ty v _ \<Rightarrow> call_issued E c ty v
      | Client_wait_completed h ty \<Rightarrow>
          delivered (the (ro_pending h)) ty (snd (async_wait_completed E c h ty))
      | _ \<Rightarrow> [])"

definition served ::
  "('ch, 'sp, 't, 'v) Env \<Rightarrow> nat \<Rightarrow> ('t, 'v) HandlerTask \<Rightarrow> ('t, 'v) RpcEvent list" where
  "served E i t =
     (let ty = handler_request (task_types t);
          request = decode_message (env_codec E) (env_registry E) ty (task_frame t) in
      if decode_ok request then [Rpc_serve i ty (the (decode_value request))] else [])"

definition replied ::
  "('ch, 'sp, 't, 'v) Env \<Rightarrow> nat \<Rightarrow> ('t, 'v) HandlerTask \<Rightarrow> 'v \<Rightarrow> ('t, 'v) RpcEvent list" where
  "replied E i t w =
     (if frame_encode_ok (response_encoding E t w) \<and> op_result (task_operation t) = None
      then [Rpc_reply i (handler_response (task_types t)) w] else [])"

definition server_visible ::
  "('ch, 'sp, 't, 'v) Env \<Rightarrow> ('ch, 'sp, 't, 'v) ServerConnection \<Rightarrow> ('t, 'v) ServerEvent \<Rightarrow>
     ('t, 'v) RpcEvent list" where
  "server_visible E s ev =
     (case ev of
        Server_handler_started i \<Rightarrow> served E i (sc_tasks s ! i)
      | Server_handler_returned i (Some w) \<Rightarrow> replied E i (sc_tasks s ! i) w
      | _ \<Rightarrow> [])"

fun session_event ::
  "('ch, 'sp, 't, 'v) Env \<Rightarrow> ('ch, 'sp, 't, 'v) Session \<Rightarrow> ('t, 'v) SessionEvent \<Rightarrow>
     (('ch, 'sp, 't, 'v) Session \<times> ('t, 'v) RpcEvent list) option" where
  "session_event E S (At_client ev) =
     (case client_event E (ss_client S) ev of
        None \<Rightarrow> None
      | Some c \<Rightarrow>
          Some (S\<lparr>ss_client := c, ss_starting := starting_after E (ss_client S) ev (ss_starting S),
                  ss_down := ss_down S + client_bytes_read ev\<rparr>,
                client_visible E (ss_client S) ev))"
| "session_event E S (At_server ev) =
     (case server_event E (ss_server S) ev of
        None \<Rightarrow> None
      | Some s \<Rightarrow>
          Some (S\<lparr>ss_server := s, ss_up := ss_up S + server_bytes_read ev\<rparr>,
                server_visible E (ss_server S) ev))"

section \<open>Runs\<close>

text \<open>
  A request is abandoned when it is cancelled, timed out or let go of before it has a result. The
  end of a handle's life after that is not abandonment.
\<close>

definition unsettled :: "('ch, 'sp) ClientConnection \<Rightarrow> nat \<Rightarrow> bool" where
  "unsettled c r \<longleftrightarrow> r < length (cc_heap c) \<and> op_result (pr_operation (cc_heap c ! r)) = None"

definition handle_unsettled :: "('ch, 'sp) ClientConnection \<Rightarrow> RequestOperation \<Rightarrow> bool" where
  "handle_unsettled c h \<longleftrightarrow> (case ro_pending h of None \<Rightarrow> False | Some r \<Rightarrow> unsettled c r)"

fun abandons :: "('ch, 'sp, 't, 'v) Session \<Rightarrow> ('t, 'v) SessionEvent \<Rightarrow> bool" where
  "abandons S (At_client (Client_timer r err)) \<longleftrightarrow> \<not> err \<and> unsettled (ss_client S) r"
| "abandons S (At_client (Client_cancel h _)) \<longleftrightarrow> handle_unsettled (ss_client S) h"
| "abandons S (At_client (Client_destroy h)) \<longleftrightarrow> handle_unsettled (ss_client S) h"
| "abandons S _ \<longleftrightarrow> False"

text \<open>Runs in which every step is allowed by \<open>P\<close>, with the visible events in order.\<close>

inductive session_run ::
  "(('ch, 'sp, 't, 'v) Session \<Rightarrow> ('t, 'v) SessionEvent \<Rightarrow> bool) \<Rightarrow> ('ch, 'sp, 't, 'v) Env \<Rightarrow>
     ('ch, 'sp, 't, 'v) Session \<Rightarrow> ('t, 'v) RpcEvent list \<Rightarrow> ('ch, 'sp, 't, 'v) Session \<Rightarrow> bool"
  for P E where
  start: "session_run P E S [] S"
| step: "session_run P E S log S' \<Longrightarrow> session_enabled S' ev \<Longrightarrow> P S' ev \<Longrightarrow>
    session_event E S' ev = Some (S'', vis) \<Longrightarrow> session_run P E S (log @ vis) S''"

text \<open>A run given by its events, for evaluation.\<close>

fun session_exec ::
  "(('ch, 'sp, 't, 'v) Session \<Rightarrow> ('t, 'v) SessionEvent \<Rightarrow> bool) \<Rightarrow> ('ch, 'sp, 't, 'v) Env \<Rightarrow>
     ('ch, 'sp, 't, 'v) Session \<Rightarrow> ('t, 'v) SessionEvent list \<Rightarrow>
     (('ch, 'sp, 't, 'v) Session \<times> ('t, 'v) RpcEvent list) option" where
  "session_exec P E S [] = Some (S, [])"
| "session_exec P E S (ev # evs) =
     (if session_enabled S ev \<and> P S ev then
        do { (S1, vis) \<leftarrow> session_event E S ev;
             (S2, log) \<leftarrow> session_exec P E S1 evs;
             Some (S2, vis @ log) }
      else None)"

lemma session_exec_extends:
  assumes "session_exec P E S evs = Some (S', log)" and "session_run P E S0 log0 S"
  shows "session_run P E S0 (log0 @ log) S'"
  using assms
proof (induction evs arbitrary: S log0 log)
  case (Cons ev evs)
  then obtain S1 vis log1 where "session_enabled S ev" "P S ev" "session_event E S ev = Some (S1, vis)"
    "session_exec P E S1 evs = Some (S', log1)" "log = vis @ log1"
    by (auto split: if_splits Option.bind_splits)
  then show ?case
    using Cons.IH [of S1 log1 "log0 @ vis"] session_run.step [OF Cons.prems(2), of ev S1 vis] by simp
qed simp

lemma session_exec_run: "session_exec P E S evs = Some (S', log) \<Longrightarrow> session_run P E S log S'"
  using session_exec_extends [OF _ session_run.start, of P E S] by fastforce

end
