(* ===== verification/Session_Pipe.thy ===== *)
theory Session_Pipe
  imports Session_Model
begin

text \<open>
  One direction of a session, from the frames a write queue has accepted to the frames the
  decoder at the other end has produced. \<open>pipe\<close> is the invariant: however the bytes are cut into
  reads, the decoder sees no error and has produced an initial part of the accepted frames.
\<close>

section \<open>How a write queue grows\<close>

definition queue_grows ::
  "('ch \<Rightarrow> Frame ChannelView) \<Rightarrow> ('ch, 'sp) WriteQueue \<Rightarrow> ('ch, 'sp) WriteQueue \<Rightarrow> Frame list \<Rightarrow> bool" where
  "queue_grows vf q q' fs \<longleftrightarrow>
     queue_contents vf q' = queue_contents vf q @ map encode_frame fs \<and>
     prefix (wq_writes q) (wq_writes q')"

lemma queue_grows_refl [simp]: "queue_grows vf q q []"
  by (simp add: queue_grows_def)

lemma queue_grows_trans:
  "queue_grows vf q q1 fs \<Longrightarrow> queue_grows vf q1 q2 gs \<Longrightarrow> queue_grows vf q q2 (fs @ gs)"
  by (auto simp: queue_grows_def)

lemma writes_kept [simp]:
  "wq_writes (fst (try_enqueue_frame Q q f)) = wq_writes q"
  "wq_writes (fst (try_enqueue Q q f)) = wq_writes q"
  "wq_writes (fst (enqueue_attempt Q q f)) = wq_writes q"
  "wq_writes (fst (enqueue Q q f)) = wq_writes q"
  "wq_writes (fst (enqueue_resume Q msg q f)) = wq_writes q"
  "wq_writes (close_queue Q q) = wq_writes q"
  "wq_writes (writer_loop Q q) = wq_writes q"
  "wq_writes (fst (writer_wrote Q q failure)) = wq_writes q"
proof -
  show one: "wq_writes (fst (try_enqueue_frame Q q f)) = wq_writes q" for q
    by (simp add: try_enqueue_frame_def case_prod_beta Let_def)
  show "wq_writes (fst (try_enqueue Q q f)) = wq_writes q" by (simp add: try_enqueue_def one)
  show attempt: "wq_writes (fst (enqueue_attempt Q q f)) = wq_writes q" for q
    by (simp add: enqueue_attempt_def case_prod_beta one)
  show "wq_writes (fst (enqueue Q q f)) = wq_writes q" by (simp add: enqueue_def attempt Let_def)
  show "wq_writes (fst (enqueue_resume Q msg q f)) = wq_writes q"
    by (simp add: enqueue_resume_def case_prod_beta attempt Let_def split: ChannelEvent.split)
  show "wq_writes (close_queue Q q) = wq_writes q" "wq_writes (writer_loop Q q) = wq_writes q"
    by (simp_all add: close_queue_def writer_loop_def)
  then show "wq_writes (fst (writer_wrote Q q failure)) = wq_writes q"
    by (simp add: writer_wrote_def split: Writer.split option.split)
qed

lemma enqueue_grows:
  assumes "queue_env Q vf vs" and "wq_inv vf q" and "representable f"
  shows "queue_grows vf q (fst (enqueue Q q f)) (accepted_frame (snd (enqueue Q q f)) f)"
    and "queue_grows vf q (fst (enqueue_resume Q msg q f)) (accepted_frame (snd (enqueue_resume Q msg q f)) f)"
    and "queue_grows vf q (fst (try_enqueue Q q f)) (accepted_frame (Some (snd (try_enqueue Q q f))) f)"
  using enqueue_step [OF assms prod.collapse [symmetric]]
    enqueue_resume_step [OF assms prod.collapse [symmetric], of msg]
    try_enqueue_step [OF assms prod.collapse [symmetric]]
  by (simp_all add: queue_grows_def)

lemma writer_grows:
  assumes "queue_env Q vf vs" and "wq_inv vf q"
  shows "queue_grows vf q (close_queue Q q) []"
    and "wq_writer q \<noteq> Writer_receiving \<Longrightarrow> queue_grows vf q (writer_loop Q q) []"
    and "queue_grows vf q (fst (writer_wrote Q q failure)) []"
    and "wq_writer q = Writer_receiving \<Longrightarrow> queue_grows vf q (writer_received Q q) []"
proof -
  show "queue_grows vf q (close_queue Q q) []"
    and "queue_grows vf q (fst (writer_wrote Q q failure)) []"
    using close_queue_inv [OF assms] writer_wrote_step [OF assms, of failure]
    by (simp_all add: queue_grows_def queue_contents_def)
  show "queue_grows vf q (writer_loop Q q) []" if "wq_writer q \<noteq> Writer_receiving"
    using writer_loop_inv [OF assms that] by (simp add: queue_grows_def queue_contents_def)
  show "queue_grows vf q (writer_received Q q) []" if "wq_writer q = Writer_receiving"
    using writer_received_step [OF assms that]
    by (cases rule: writer_received_cases [OF assms that]) (simp_all add: queue_grows_def)
qed

section \<open>The pipe\<close>

abbreviation wire_valid :: "Frame \<Rightarrow> bool" where
  "wire_valid f \<equiv> validate_frame f default_max_payload_size = Validation_none"

definition pipe ::
  "('ch \<Rightarrow> Frame ChannelView) \<Rightarrow> ('ch, 'sp) WriteQueue \<Rightarrow> nat \<Rightarrow> FrameDecoder \<Rightarrow> Frame list \<Rightarrow>
     Frame list \<Rightarrow> bool" where
  "pipe vf q n d accepted got \<longleftrightarrow>
     queue_contents vf q = map encode_frame accepted \<and> list_all wire_valid accepted \<and>
     n \<le> length (concat (wq_writes q)) \<and>
     (\<exists>cs. concat cs = take n (concat (wq_writes q)) \<and>
        push_all (new_decoder default_max_payload_size) cs = Some (d, got))"

lemma pipe_start:
  assumes "queue_env Q vf vs"
  shows "pipe vf (new_write_queue Q lim) 0 (new_decoder default_max_payload_size) [] []"
  using new_write_queue_inv [OF assms, of lim]
  by (auto simp: pipe_def queue_contents_def new_write_queue_def intro: exI [of _ "[]"])

lemma pipe_prefix:
  assumes "pipe vf q n d accepted got"
  obtains rest where "accepted = got @ rest" and "dec_error d = None"
proof -
  obtain cs where cs: "concat cs = take n (concat (wq_writes q))"
    "push_all (new_decoder default_max_payload_size) cs = Some (d, got)"
    and valid: "list_all wire_valid accepted"
    and contents: "queue_contents vf q = map encode_frame accepted"
    using assms by (auto simp: pipe_def)
  have "concat (map encode_frame accepted) =
      concat cs @ (drop n (concat (wq_writes q)) @ concat (map encode_frame (buffer_of vf q)))"
    using cs(1) contents [symmetric] by (simp add: queue_contents_def)
  then obtain rest where "accepted = fst (parse default_max_payload_size (concat cs)) @ rest"
    "snd (snd (parse default_max_payload_size (concat cs))) = None"
    using parse_prefix [OF valid] by metis
  then show thesis
    using push_all_parse [of default_max_payload_size cs] cs(2) that by auto
qed

lemma pipe_grows:
  assumes "pipe vf q n d accepted got" and "queue_grows vf q q' fs" and "list_all wire_valid fs"
  shows "pipe vf q' n d (accepted @ fs) got"
proof -
  obtain ws where ws: "wq_writes q' = wq_writes q @ ws"
    using assms(2) by (auto simp: queue_grows_def prefix_def)
  then show ?thesis using assms by (auto simp: pipe_def queue_grows_def)
qed

lemma push_all_snoc:
  "push_all d cs = Some (d', fs) \<Longrightarrow> push d' c = Some (d'', gs) \<Longrightarrow>
     push_all d (cs @ [c]) = Some (d'', fs @ gs)"
  by (induction cs arbitrary: d fs) (auto split: Option.bind_splits)

lemma pipe_read:
  assumes "pipe vf q n d accepted got" and "prefix bs (unread n q)" and "push d bs = Some (d', fs)"
  shows "pipe vf q (n + length bs) d' accepted (got @ fs)"
proof -
  obtain cs where cs: "concat cs = take n (concat (wq_writes q))"
    "push_all (new_decoder default_max_payload_size) cs = Some (d, got)"
    using assms(1) by (auto simp: pipe_def)
  obtain ys where ys: "drop n (concat (wq_writes q)) = bs @ ys"
    using assms(2) by (auto simp: unread_def prefix_def)
  have whole: "concat (wq_writes q) = take n (concat (wq_writes q)) @ bs @ ys"
    using append_take_drop_id [of n "concat (wq_writes q)"] ys by simp
  have n: "n \<le> length (concat (wq_writes q))" using assms(1) by (simp add: pipe_def)
  have "take (n + length bs) (concat (wq_writes q)) = take n (concat (wq_writes q)) @ bs"
    by (subst whole) (use n in simp)
  then have "concat (cs @ [bs]) = take (n + length bs) (concat (wq_writes q))"
    using cs(1) by simp
  moreover have "n + length bs \<le> length (concat (wq_writes q))"
    using n arg_cong [OF ys, of length] by simp
  ultimately show ?thesis
    using assms(1) push_all_snoc [OF cs(2) assms(3)] unfolding pipe_def by blast
qed

text \<open>The frames of the next read are the next accepted ones.\<close>

lemma pipe_next:
  assumes "pipe vf q n d (seen @ rest) seen" and "prefix bs (unread n q)"
    and "push d bs = Some (d', fs)"
  obtains rest' where "rest = fs @ rest'" and "pipe vf q (n + length bs) d' (seen @ rest) (seen @ fs)"
    and "dec_error d' = None"
proof -
  note p = pipe_read [OF assms]
  obtain rest' where "seen @ rest = (seen @ fs) @ rest'" "dec_error d' = None"
    using pipe_prefix [OF p] by metis
  then show thesis using that p by simp
qed

end
