(* ===== verification/Client_Effects.thy ===== *)
theory Client_Effects
  imports Session_Pipe
begin

text \<open>
  What an event at the client changes of the things a session is about: the streams of its
  requests, the responses waiting in their channels, the table of pending requests while the
  connection lives, and its write queue. Most events are quiet: they change none of them, or
  end the connection.
\<close>

definition streams :: "('ch, 'sp) ClientConnection \<Rightarrow> StreamId list" where
  "streams c = map op_stream (operations c)"

definition buffers :: "('ch \<Rightarrow> Frame ChannelView) \<Rightarrow> ('ch, 'sp) ClientConnection \<Rightarrow> Frame list list" where
  "buffers vf c = map (\<lambda>p. view_buffer (vf (pr_channel p))) (cc_heap c)"

definition alive :: "('ch, 'sp) ClientConnection \<Rightarrow> (StreamId \<rightharpoonup> nat) option" where
  "alive c = (if cc_lifecycle c = Connection_closed then None else Some (map_of (cc_pending c)))"

lemma length_streams [simp]: "length (streams c) = length (cc_heap c)"
  by (simp add: streams_def)

lemma length_buffers [simp]: "length (buffers vf c) = length (cc_heap c)"
  by (simp add: buffers_def)

lemma nth_streams: "r < length (cc_heap c) \<Longrightarrow> streams c ! r = pending_stream c r"
  by (simp add: streams_def)

lemma nth_buffers:
  "r < length (cc_heap c) \<Longrightarrow> buffers vf c ! r = view_buffer (vf (pr_channel (cc_heap c ! r)))"
  by (simp add: buffers_def)

text \<open>Streams never change, so it is enough that no request was added.\<close>

lemma streams_advance:
  assumes "client_advances vf c c'" and "length (cc_heap c') = length (cc_heap c)"
  shows "streams c' = streams c"
  using assms by (intro nth_equalityI) (auto simp: streams_def client_advances_def ops_le_def op_step_def)

section \<open>Channels\<close>

lemma buffers_heap: "cc_heap c' = cc_heap c \<Longrightarrow> buffers vf c' = buffers vf c"
  by (simp add: buffers_def)

lemma buffers_update:
  assumes "view_buffer (vf (pr_channel (g (cc_heap c ! r)))) = view_buffer (vf (pr_channel (cc_heap c ! r)))"
  shows "buffers vf (update_pending c r g) = buffers vf c"
  using assms
  by (cases "r < length (cc_heap c)")
    (simp_all add: buffers_def update_pending_def map_update list_update_same_conv list_update_beyond)

lemma buffers_helpers [simp]:
  "buffers vf (notify c ev) = buffers vf c"
  "buffers vf (notify_closed c) = buffers vf c"
  "buffers vf (mark_terminal c f) = buffers vf c"
  "buffers vf (send_cancellation E c sid) = buffers vf c"
  "buffers vf (fst (call_operation c r m)) = buffers vf c"
  "buffers vf (cleanup_pending c r b) = buffers vf c"
proof -
  show "buffers vf (notify c ev) = buffers vf c" "buffers vf (notify_closed c) = buffers vf c"
    "buffers vf (mark_terminal c f) = buffers vf c" "buffers vf (send_cancellation E c sid) = buffers vf c"
    by (rule buffers_heap, simp)+
  have "buffers vf (fst (call_operation c r m)) =
      buffers vf (update_pending c r (\<lambda>p. p\<lparr>pr_operation := fst (op_call m (pr_operation (cc_heap c ! r)))\<rparr>))"
    by (rule buffers_heap) (simp add: call_operation_def case_prod_beta)
  then show "buffers vf (fst (call_operation c r m)) = buffers vf c" by (simp add: buffers_update)
  have other: "buffers vf (c\<lparr>cc_pending := p\<rparr>) = buffers vf c"
    "buffers vf (c\<lparr>cc_stream_ids := a\<rparr>) = buffers vf c" for c :: "('a, 'b) ClientConnection" and p a
    by (simp_all add: buffers_def)
  show "buffers vf (cleanup_pending c r b) = buffers vf c"
    by (simp add: cleanup_pending_def other buffers_update Let_def)
qed

lemma buffers_close_channel:
  "queue_env (env_queue E) vf vs \<Longrightarrow> buffers vf (close_channel E c r) = buffers vf c"
  unfolding close_channel_def
  by (rule buffers_update) (simp add: queue_env_def implements_channelD(7) view_close_def)

lemma buffers_fail_pending:
  assumes env: "queue_env (env_queue E) vf vs" and "client_pend_inv {} c" and st: "st \<noteq> Status_ok"
    and "fail_pending E st msg c = Some c'"
  shows "buffers vf c' = buffers vf c"
  using assms(2,4)
proof (induction "length (cc_pending c)" arbitrary: c rule: less_induct)
  case less
  show ?case
  proof (cases "cc_pending c")
    case Nil
    then show ?thesis using less.prems by (simp add: fail_pending_unfold)
  next
    case (Cons e rest)
    obtain sid r where pend: "cc_pending c = (sid, r) # rest" using Cons by (cases e) simp
    note head = fail_head(1,2) [OF less.prems(1) pend st, of E msg]
    have "buffers vf c' = buffers vf (fail_head E st msg c r)"
      using less.hyps [OF head(2,1)] less.prems(2) pend by (simp add: fail_pending_unfold [of _ _ _ c])
    then show ?thesis by (simp add: fail_head_def buffers_close_channel [OF env])
  qed
qed

section \<open>Quiet events\<close>

text \<open>
  A connection whose read loop has not started or waits for data, and one that reads only after
  it has left its initial state.
\<close>

definition listening :: "('ch, 'sp) ClientConnection \<Rightarrow> bool" where
  "listening c \<longleftrightarrow> cc_reading c \<or> wq_writer (cc_write_queue c) = Writer_idle"

definition started_reading :: "('ch, 'sp) ClientConnection \<Rightarrow> bool" where
  "started_reading c \<longleftrightarrow> (cc_reading c \<longrightarrow> cc_lifecycle c \<noteq> Connection_created)"

definition client_quiet ::
  "('ch \<Rightarrow> Frame ChannelView) \<Rightarrow> ('ch, 'sp) ClientConnection \<Rightarrow> ('ch, 'sp) ClientConnection \<Rightarrow> bool" where
  "client_quiet vf c c' \<longleftrightarrow>
     client_advances vf c c' \<and> streams c' = streams c \<and> buffers vf c' = buffers vf c \<and>
     (alive c' = alive c \<or> alive c' = None) \<and> cc_decoder c' = cc_decoder c \<and>
     queue_grows vf (cc_write_queue c) (cc_write_queue c') [] \<and> started_reading c'"

lemma quietI:
  assumes "client_advances vf c c'" and "length (cc_heap c') = length (cc_heap c)"
    and "buffers vf c' = buffers vf c" and "alive c' = alive c \<or> alive c' = None"
    and "cc_decoder c' = cc_decoder c" and "queue_grows vf (cc_write_queue c) (cc_write_queue c') []"
    and "started_reading c'"
  shows "client_quiet vf c c'"
  using assms streams_advance [OF assms(1,2)] by (simp add: client_quiet_def)

lemma quiet_trans: "client_quiet vf a b \<Longrightarrow> client_quiet vf b c \<Longrightarrow> client_quiet vf a c"
  unfolding client_quiet_def
  using client_advances_trans queue_grows_trans [of vf "cc_write_queue a" "cc_write_queue b" "[]" _ "[]"]
  by auto

lemma client_eventD:
  assumes "queue_env (env_queue E) vf vs" and "client_inv vf c" and "client_enabled c ev"
    and "client_event E c ev = Some c'"
  shows "client_advances vf c c'"
  using client_event_total [OF assms(1-3)] assms(4) by auto

lemma quiet_refl: "client_inv vf c \<Longrightarrow> started_reading c \<Longrightarrow> client_quiet vf c c"
  by (rule quietI) (simp_all add: client_advances_refl)

text \<open>Changes to parts the session does not look at.\<close>

lemma quiet_frame:
  assumes "client_inv vf c" and "cc_stream_ids c' = cc_stream_ids c"
    and "cc_pending c' = cc_pending c" and "cc_heap c' = cc_heap c"
    and "cc_write_queue c' = cc_write_queue c" and "cc_decoder c' = cc_decoder c"
    and "cc_lifecycle c' = cc_lifecycle c" and "cc_reading c' = cc_reading c" and "started_reading c"
  shows "client_quiet vf c c'"
  using assms client_inv_frame [OF assms(1-4)] buffers_heap [OF assms(4)]
  by (intro quietI) (simp_all add: client_inv_parts alive_def started_reading_def)

lemma exit_quiet:
  assumes env: "queue_env (env_queue E) vf vs" and inv: "client_inv vf c"
    and life: "cc_lifecycle c \<noteq> Connection_created" and "read_loop_exit E c = Some c'"
  shows "client_quiet vf c c'" and "alive c' = None" and "\<not> cc_reading c'"
proof -
  let ?msg = "''connection closed while awaiting a response''"
  obtain c1 where c1: "fail_pending E Status_connection_closed ?msg c = Some c1" "same_wiring c c1"
    "operations c1 = map (fail_unsettled Status_connection_closed ?msg) (operations c)"
    using fail_pending_advances [OF inv, of Status_connection_closed E ?msg] by auto
  let ?c2 = "c1\<lparr>cc_write_queue := close_queue (env_queue E) (cc_write_queue c1),
    cc_lifecycle := fst (connection_transition (cc_lifecycle c1) Connection_closed),
    cc_reading := False\<rparr>"
  have eq: "c' = notify_closed ?c2"
    using assms(4) c1(1) by (simp add: read_loop_exit_def)
  have wires: "cc_write_queue c1 = cc_write_queue c" "cc_lifecycle c1 = cc_lifecycle c"
    "cc_decoder c1 = cc_decoder c" using c1(2) by (simp_all add: same_wiring_def)
  have closed: "cc_lifecycle c' = Connection_closed"
    using life client_inv_parts(6) [OF inv] by (simp add: eq wires transition_closed resting_def)
  then show "alive c' = None" by (simp add: alive_def)
  show "\<not> cc_reading c'" by (simp add: eq)
  have len: "length (cc_heap c') = length (cc_heap c)"
    using arg_cong [OF c1(3), of length] by (simp add: eq)
  have buf: "buffers vf c' = buffers vf c"
    using buffers_fail_pending [OF env client_inv_parts(1) [OF inv] _ c1(1)] buffers_heap [of ?c2 c1]
    by (simp add: eq)
  have "client_advances vf c c'"
    using read_loop_exit_returns [OF env inv] assms(4) by auto
  then show "client_quiet vf c c'"
    using len buf closed writer_grows(1) [OF env client_inv_parts(2) [OF inv]]
    by (intro quietI) (simp_all add: alive_def eq wires started_reading_def)
qed

lemma head_quiet:
  assumes env: "queue_env (env_queue E) vf vs" and inv: "client_inv vf c"
    and life: "cc_lifecycle c \<noteq> Connection_created" and "read_loop_head E c = Some c'"
  shows "client_quiet vf c c'"
proof (cases "cc_transport_open c")
  case True
  then have eq: "c' = c\<lparr>cc_reading := True\<rparr>" using assms(4) by (simp add: read_loop_head_def)
  have "client_advances vf c c'"
    unfolding eq by (rule client_inv_frame [OF inv]) (simp_all add: client_inv_parts [OF inv])
  then show ?thesis
    using life buffers_heap [of c' c]
    by (intro quietI) (simp_all add: eq alive_def started_reading_def)
next
  case False
  then show ?thesis
    using exit_quiet(1) [OF env inv life] assms(4) by (simp add: read_loop_head_def)
qed

lemma run_quiet:
  assumes env: "queue_env (env_queue E) vf vs" and inv: "client_inv vf c"
    and idle: "wq_writer (cc_write_queue c) = Writer_idle" and "client_run E c = Some c'"
  shows "client_quiet vf c c'"
proof -
  define c1 where "c1 = (if cc_lifecycle c = Connection_created
    then notify (c\<lparr>cc_lifecycle := Connection_active\<rparr>)
      (diagnostics_event Event_connection_opened StreamId_default Status_ok 0 False []) else c)"
  let ?c2 = "c1\<lparr>cc_write_queue := writer_loop (env_queue E) (cc_write_queue c1)\<rparr>"
  have q: "cc_write_queue c1 = cc_write_queue c" by (simp add: c1_def)
  have life: "cc_lifecycle c1 \<noteq> Connection_created" by (simp add: c1_def)
  have heap: "cc_heap c1 = cc_heap c" "cc_decoder c1 = cc_decoder c" "alive ?c2 = alive c"
    by (simp_all add: c1_def alive_def)
  have wq: "wq_inv vf (writer_loop (env_queue E) (cc_write_queue c))"
    using writer_loop_inv(1) [OF env client_inv_parts(2) [OF inv]] idle by simp
  have "client_advances vf c ?c2"
    using inv wq by (simp add: c1_def client_advances_def client_inv_def operations_def resting_def)
  then have "client_quiet vf c ?c2"
    using life heap writer_grows(2) [OF env client_inv_parts(2) [OF inv]] idle buffers_heap [of ?c2 c]
    by (intro quietI) (simp_all add: q started_reading_def)
  moreover have "client_run E c = read_loop_head E ?c2"
    by (simp add: client_run_def c1_def connection_transition_def Let_def)
  then have "client_quiet vf ?c2 c'"
    using head_quiet [OF env, of ?c2 c'] assms(4) life calculation
    by (simp add: client_quiet_def client_advances_def)
  ultimately show ?thesis by (rule quiet_trans)
qed

lemma shutdown_finish_quiet:
  assumes env: "queue_env (env_queue E) vf vs" and inv: "client_inv vf c"
    and life: "rejects_requests (cc_lifecycle c)" and "shutdown_finish E c = Some c'"
  shows "client_quiet vf c c'"
proof -
  let ?msg = "''connection drain period expired''"
  obtain c1 where c1: "fail_pending E Status_connection_closed ?msg c = Some c1" "same_wiring c c1"
    "operations c1 = map (fail_unsettled Status_connection_closed ?msg) (operations c)"
    using fail_pending_advances [OF inv, of Status_connection_closed E ?msg] by auto
  have "(if cc_pending c \<noteq> [] then fail_pending E Status_connection_closed ?msg c else Some c) = Some c1"
    using c1(1) fail_pending_unfold [of E Status_connection_closed ?msg c]
    by (cases "cc_pending c = []") simp_all
  then have eq: "c' = notify_closed (c1\<lparr>cc_transport_open := False,
      cc_lifecycle := fst (connection_transition (cc_lifecycle c1) Connection_closed)\<rparr>)"
    (is "_ = notify_closed ?c2") using assms(4) by (simp add: shutdown_finish_def)
  have wires: "cc_write_queue c1 = cc_write_queue c" "cc_lifecycle c1 = cc_lifecycle c"
    "cc_decoder c1 = cc_decoder c" using c1(2) by (simp_all add: same_wiring_def)
  have closed: "cc_lifecycle c' = Connection_closed"
    using life by (auto simp: eq wires transition_closed rejects_requests_def)
  have "length (cc_heap c') = length (cc_heap c)"
    using arg_cong [OF c1(3), of length] by (simp add: eq)
  moreover have "buffers vf c' = buffers vf c"
    using buffers_fail_pending [OF env client_inv_parts(1) [OF inv] _ c1(1)] buffers_heap [of ?c2 c1]
    by (simp add: eq)
  moreover have "client_advances vf c c'"
    using shutdown_finish_total [OF inv, of E] assms(4) by (metis option.inject)
  ultimately show ?thesis
    using closed by (intro quietI) (simp_all add: alive_def eq wires started_reading_def)
qed

text \<open>Calls and completions for a request that has its result already.\<close>

lemma settled_iff:
  assumes "client_inv vf c" and "r < length (cc_heap c)"
  shows "unsettled c r \<longleftrightarrow> \<not> op_is_terminal (operations c ! r)"
  using op_inv_result [OF pend_inv_request(1) [OF client_inv_parts(1) [OF assms(1)] assms(2)]] assms(2)
  by (simp add: unsettled_def)

lemma settled_not_pending:
  assumes "client_inv vf c" and "r < length (cc_heap c)" and "\<not> unsettled c r"
  shows "pr_removed (cc_heap c ! r)"
  using client_inv_parts(1) [OF assms(1)] settled_iff [OF assms(1,2)] assms(2,3)
  by (simp add: pend_inv_def request_ok_def)

lemma cleanup_quiet:
  assumes inv: "client_inv vf c" and "r < length (cc_heap c)" and "\<not> unsettled c r" and "started_reading c"
  shows "client_quiet vf c (cleanup_pending c r b)"
proof -
  have "cc_pending (cleanup_pending c r b) = cc_pending c"
    using settled_not_pending [OF assms(1-3)] by (simp add: cleanup_pending_def Let_def)
  then show ?thesis
    using cleanup_advances [OF inv assms(2)] settled_iff [OF assms(1,2)] assms
    by (intro quietI) (simp_all add: alive_def started_reading_def)
qed

lemma call_quiet:
  assumes inv: "client_inv vf c" and r: "r < length (cc_heap c)" and "\<not> unsettled c r" and "started_reading c"
  shows "client_quiet vf c (fst (call_operation c r m))"
  using call_advances [OF inv r, of m] settled_iff [OF inv r] assms
  by (intro quietI) (simp_all add: alive_def started_reading_def)

lemma settled_quiet:
  assumes inv: "client_inv vf c" and r: "r < length (cc_heap c)" and "\<not> unsettled c r" and "started_reading c"
  shows "client_quiet vf c (timeout_pending E c r)"
    and "client_quiet vf c (fst (cancel_pending E c r msg))"
    and "client_quiet vf c (discard_pending E c r)"
  using call_quiet [OF assms] cleanup_quiet [OF assms] settled_iff [OF inv r] assms(3) r
  by (simp_all add: timeout_pending_eq [OF inv r] cancel_pending_eq [OF inv r] discard_pending_def Let_def)

lemma wait_quiet:
  assumes env: "queue_env (env_queue E) vf vs" and inv: "client_inv vf c" and "handle_valid c h"
    and "started_reading c"
  shows "client_quiet vf c (fst (async_wait E c h))"
proof -
  have "client_advances vf c (fst (async_wait E c h))"
    using assms(3) by (intro async_wait_advances [OF env inv]) (simp add: handle_valid_def)
  moreover have "buffers vf (fst (async_wait E c h)) = buffers vf c"
    using env by (simp add: async_wait_def buffers_update queue_env_def implements_channelD(4) view_begin_receive_def)
  ultimately show ?thesis
    using assms(4) by (intro quietI) (simp_all add: async_wait_def alive_def started_reading_def)
qed

lemma begin_shutdown_quiet:
  assumes inv: "client_inv vf c" and "started_reading c"
  shows "client_quiet vf c (begin_shutdown c)"
proof -
  obtain st where st: "begin_shutdown c = c\<lparr>cc_lifecycle := st\<rparr>" using begin_shutdown_frame by blast
  have "alive (begin_shutdown c) = alive c"
    using begin_shutdown_lifecycle [of c] by (simp add: alive_def st)
  moreover have "st \<noteq> Connection_created"
    using begin_shutdown_lifecycle [of c] by (simp add: st split: if_splits)
  ultimately show ?thesis
    using begin_shutdown_advances [OF inv] buffers_heap [of "begin_shutdown c" c]
    by (intro quietI) (simp_all add: st started_reading_def)
qed

lemma writer_quiet:
  assumes env: "queue_env (env_queue E) vf vs" and inv: "client_inv vf c" and "started_reading c"
  shows "client_quiet vf c (client_write_completed E c failure)"
    and "wq_writer (cc_write_queue c) = Writer_receiving \<Longrightarrow> client_quiet vf c (client_frame_received E c)"
proof -
  note grow = writer_grows [OF env client_inv_parts(2) [OF inv]]
  obtain q cl obs where w: "writer_wrote (env_queue E) (cc_write_queue c) failure = (q, cl, obs)"
    by (metis prod_cases3)
  have "cc_heap (client_write_completed E c failure) = cc_heap c"
    "cc_write_queue (client_write_completed E c failure) = q"
    "cc_decoder (client_write_completed E c failure) = cc_decoder c"
    "alive (client_write_completed E c failure) = alive c"
    "started_reading (client_write_completed E c failure)"
    using assms(3) by (simp_all add: client_write_completed_def w observe_write_def alive_def
        started_reading_def Let_def split: option.split)
  then show "client_quiet vf c (client_write_completed E c failure)"
    using client_write_completed_advances [OF env inv, of failure] grow(3) [of failure] w
      buffers_heap [of "client_write_completed E c failure" c]
    by (intro quietI) simp_all
  show "client_quiet vf c (client_frame_received E c)"
    if "wq_writer (cc_write_queue c) = Writer_receiving"
    using client_frame_received_advances [OF env inv that] grow(4) [OF that] assms(3)
      buffers_heap [of "client_frame_received E c" c]
    by (intro quietI) (simp_all add: client_frame_received_def alive_def started_reading_def)
qed

section \<open>Requests that are settled\<close>

text \<open>
  A stretch that leaves the connection as it is but for the channels and the table of pending
  requests, and hands the frames \<open>fs\<close> to the queue.
\<close>

definition client_moves ::
  "('ch \<Rightarrow> Frame ChannelView) \<Rightarrow> ('ch, 'sp) ClientConnection \<Rightarrow> ('ch, 'sp) ClientConnection \<Rightarrow>
     Frame list list \<Rightarrow> (StreamId \<rightharpoonup> nat) \<Rightarrow> Frame list \<Rightarrow> bool" where
  "client_moves vf c c' B m fs \<longleftrightarrow>
     client_advances vf c c' \<and> streams c' = streams c \<and> buffers vf c' = B \<and>
     map_of (cc_pending c') = m \<and> cc_lifecycle c' = cc_lifecycle c \<and> cc_decoder c' = cc_decoder c \<and>
     cc_reading c' = cc_reading c \<and> queue_grows vf (cc_write_queue c) (cc_write_queue c') fs"

abbreviation settled_table :: "('ch, 'sp) ClientConnection \<Rightarrow> nat \<Rightarrow> (StreamId \<rightharpoonup> nat)" where
  "settled_table c r \<equiv>
     (if unsettled c r then (map_of (cc_pending c))(pending_stream c r := None)
      else map_of (cc_pending c))"

lemma unsettled_pending:
  assumes "client_inv vf c" and "r < length (cc_heap c)"
  shows "unsettled c r \<longleftrightarrow> map_of (cc_pending c) (pending_stream c r) = Some r"
    and "unsettled c r \<longleftrightarrow> \<not> pr_removed (cc_heap c ! r)"
proof -
  have eq: "unsettled c r \<longleftrightarrow> \<not> op_is_terminal (pr_operation (cc_heap c ! r))"
    using settled_iff [OF assms] assms(2) by simp
  then show "unsettled c r \<longleftrightarrow> map_of (cc_pending c) (pending_stream c r) = Some r"
    using pend_inv_unsettled [OF client_inv_parts(1) [OF assms(1)] assms(2)] by simp
  have "request_ok {} (cc_stream_ids c) (cc_pending c) r (cc_heap c ! r)"
    using client_inv_parts(1) [OF assms(1)] assms(2) by (simp add: pend_inv_def)
  then show "unsettled c r \<longleftrightarrow> \<not> pr_removed (cc_heap c ! r)"
    using eq by (auto simp: request_ok_def)
qed

lemma pending_settled:
  assumes inv: "client_inv vf c" and r: "r < length (cc_heap c)"
    and "cc_pending c' = cc_pending c" and "pending_stream c' r = pending_stream c r"
    and "pr_removed (cc_heap c' ! r) = pr_removed (cc_heap c ! r)"
    and "length (cc_heap c') = length (cc_heap c)"
  shows "map_of (cc_pending (cleanup_pending c' r b)) = settled_table c r"
  using unsettled_pending [OF inv r] assms(2-)
  by (simp add: pending_cleanup AList.delete_conv')

lemma closing_moves:
  assumes env: "queue_env (env_queue E) vf vs" and inv: "client_inv vf c"
    and r: "r < length (cc_heap c)" and m: "settling m"
  shows "client_moves vf c (cleanup_pending (close_channel E (fst (call_operation c r m)) r) r b)
    (buffers vf c) (settled_table c r) []"
proof -
  let ?c1 = "close_channel E (fst (call_operation c r m)) r"
  have adv: "client_advances vf c (cleanup_pending ?c1 r b)"
    using settle_closing(1) [OF inv r m] .
  have "map_of (cc_pending (cleanup_pending ?c1 r b)) = settled_table c r"
    by (rule pending_settled [OF inv r]) (use r in \<open>simp_all add: heap_close_channel heap_call_operation\<close>)
  then show ?thesis
    using adv streams_advance [OF adv] buffers_close_channel [OF env] by (simp add: client_moves_def)
qed

lemma rejected_moves:
  assumes env: "queue_env (env_queue E) vf vs" and inv: "client_inv vf c"
    and resp: "is_response_to c f r" and st: "st \<noteq> Status_ok"
  shows "client_moves vf c (rejected_by E c f r st) (buffers vf c)
    ((map_of (cc_pending c))(header_stream (frame_header f) := None)) []"
proof -
  note facts = is_response_to_facts [OF inv resp]
  have "settled_table c r = (map_of (cc_pending c))(header_stream (frame_header f) := None)"
    using unsettled_pending(2) [OF inv facts(1)] facts(2,3) by simp
  then show ?thesis
    using closing_moves [OF env inv facts(1), of "Call_fail st ''peer rejected the operation''" True]
      rejected_by_advances(1) [OF inv facts(1) st] st operations_mark_terminal
    by (simp add: client_moves_def rejected_by_def streams_def)
qed

lemma completed_moves:
  assumes env: "queue_env (env_queue E) vf vs" and inv: "client_inv vf c"
    and resp: "is_response_to c f r"
  shows "client_moves vf c (completed_by E c f r) ((buffers vf c)[r := [f]])
    ((map_of (cc_pending c))(header_stream (frame_header f) := None)) []"
proof -
  note r = is_response_to_facts(1) [OF inv resp]
  note adv = completed_by_advances(1) [OF inv r, of E f]
  note eff = completed_by_effect [OF env inv resp]
  have len: "length (cc_heap (completed_by E c f r)) = length (cc_heap c)"
    by (simp add: completed_by_def Let_def)
  have "buffers vf (completed_by E c f r) ! i = (buffers vf c)[r := [f]] ! i" if "i < length (cc_heap c)" for i
    using that len eff(2) eff(5) [of i] by (cases "i = r") (simp_all add: nth_buffers)
  then have "buffers vf (completed_by E c f r) = (buffers vf c)[r := [f]]"
    by (intro nth_equalityI) (simp_all add: len)
  then show ?thesis
    using adv streams_advance [OF adv len] eff(3,7)
    by (simp add: client_moves_def) (simp add: completed_by_def Let_def)
qed

lemma failed_moves:
  assumes env: "queue_env (env_queue E) vf vs" and inv: "client_inv vf c" and st: "st \<noteq> Status_ok"
    and "fail_connection E c st msg = Some c'"
  shows "client_moves vf c c' (buffers vf c) Map.empty []" and "\<not> cc_transport_open c'"
proof -
  define c0 where "c0 = (if status_category st = Category_protocol
    then notify c (diagnostics_event Event_protocol_error StreamId_default st 0 True msg) else c)"
  have inv0: "client_inv vf c0" using client_advancesD [OF notify_advances [OF inv]] inv by (simp add: c0_def)
  obtain c1 where c1: "fail_pending E st msg c0 = Some c1" "same_wiring c0 c1" "cc_pending c1 = []"
    "operations c1 = map (fail_unsettled st msg) (operations c0)"
    using fail_pending_advances [OF inv0 st] by metis
  have eq: "c' = c1\<lparr>cc_transport_open := False\<rparr>"
    using assms(4) c1(1) by (simp add: fail_connection_def c0_def Let_def)
  then show "\<not> cc_transport_open c'" by simp
  have adv: "client_advances vf c c'" using fail_connection_returns [OF inv st, of E msg] assms(4) by auto
  have "operations c0 = operations c" "buffers vf c0 = buffers vf c" by (simp_all add: c0_def)
  then have "length (cc_heap c') = length (cc_heap c)" "buffers vf c' = buffers vf c"
    using arg_cong [OF c1(4), of length] buffers_heap [of c' c1]
      buffers_fail_pending [OF env client_inv_parts(1) [OF inv0] st c1(1)]
    by (simp_all add: eq)
  then show "client_moves vf c c' (buffers vf c) Map.empty []"
    using adv streams_advance [OF adv] c1(2,3) by (simp add: client_moves_def eq same_wiring_def c0_def)
qed

text \<open>The ways a frame that does not cancel can be dispatched.\<close>

lemma dispatch_moves:
  assumes env: "queue_env (env_queue E) vf vs" and inv: "client_inv vf c"
    and "\<not> has_flag (header_flags (frame_header f)) Flags_cancel" and "dispatch E c f = Some c'"
  obtains
    (completed) r where "is_response_to c f r" "\<not> has_flag (header_flags (frame_header f)) Flags_error"
      "client_moves vf c c' ((buffers vf c)[r := [f]])
         ((map_of (cc_pending c))(header_stream (frame_header f) := None)) []"
  | (rejected) r where "is_response_to c f r" "has_flag (header_flags (frame_header f)) Flags_error"
      "client_moves vf c c' (buffers vf c)
         ((map_of (cc_pending c))(header_stream (frame_header f) := None)) []"
  | (failed) "client_moves vf c c' (buffers vf c) Map.empty []" "\<not> cc_transport_open c'"
proof (cases "\<exists>r. is_response_to c f r")
  case False
  then obtain st msg where st: "dispatch E c f = fail_connection E c st msg" "st \<noteq> Status_ok"
    using dispatch_not_response by blast
  then show thesis using failed failed_moves [OF env inv st(2)] assms(4) by simp
next
  case True
  then obtain r where resp: "is_response_to c f r" by blast
  show thesis
  proof (cases "has_flag (header_flags (frame_header f)) Flags_error")
    case False
    then show thesis
      using completed [OF resp False] completed_moves [OF env inv resp]
        dispatch_response [OF inv resp assms(3) False, of E] assms(4) by simp
  next
    case err: True
    show thesis
    proof (cases "decode_error_status f")
      case None
      then have "dispatch E c f = fail_connection E c Status_malformed_frame ''malformed protocol error payload''"
        using resp err assms(3) by (simp add: dispatch_def is_response_to_def Let_def)
      then show thesis using failed failed_moves [OF env inv, of Status_malformed_frame] assms(4) by simp
    next
      case (Some st)
      then show thesis
        using rejected [OF resp err] rejected_moves [OF env inv resp decode_error_status_error [OF Some]]
          dispatch_error [OF resp assms(3) err Some, of E] assms(4) by simp
    qed
  qed
qed

section \<open>Requests that are started\<close>

definition client_starts ::
  "('ch \<Rightarrow> Frame ChannelView) \<Rightarrow> ('ch, 'sp) ClientConnection \<Rightarrow> ('ch, 'sp) ClientConnection \<Rightarrow>
     StreamId \<Rightarrow> (StreamId \<rightharpoonup> nat) \<Rightarrow> Frame list \<Rightarrow> bool" where
  "client_starts vf c c' sid m fs \<longleftrightarrow>
     client_advances vf c c' \<and> streams c' = streams c @ [sid] \<and> buffers vf c' = buffers vf c @ [[]] \<and>
     map_of (cc_pending c') = m \<and> cc_lifecycle c' = cc_lifecycle c \<and> cc_decoder c' = cc_decoder c \<and>
     cc_reading c' = cc_reading c \<and> queue_grows vf (cc_write_queue c) (cc_write_queue c') fs"

lemma registered_starts:
  assumes env: "queue_env (env_queue E) vf vs" and inv: "client_inv vf c"
    and alloc: "allocation_stream (snd (allocate (cc_stream_ids c))) = Some sid"
    and "\<not> rejects_requests (cc_lifecycle c)" and "wq_inv vf q"
    and "queue_grows vf (cc_write_queue c) q fs"
  shows "client_starts vf c ((registered E c sid)\<lparr>cc_write_queue := q\<rparr>) sid
    ((map_of (cc_pending c))(sid \<mapsto> length (cc_heap c))) fs"
proof -
  have "implements_channel (frame_channel (env_queue E)) vf" using env by (simp add: queue_env_def)
  then have "view_buffer (vf (pr_channel (new_pending E sid))) = []"
    by (simp add: implements_channelD(1) new_pending_def view_new_def)
  then show ?thesis
    using registered_advances [OF env inv alloc assms(4,5)] assms(6)
    by (simp add: client_starts_def registered_def streams_def operations_def buffers_def)
qed

text \<open>A started request whose frame the queue refuses at once is taken back.\<close>

lemma refused_starts:
  assumes env: "queue_env (env_queue E) vf vs" and st: "client_starts vf c c1 sid m1 []"
    and fresh: "map_of (cc_pending c) sid = None"
    and m1: "m1 = (map_of (cc_pending c))(sid \<mapsto> length (cc_heap c))" and "settling call"
    and stream: "pending_stream c1 (length (cc_heap c)) = sid"
  shows "client_starts vf c (cleanup_pending (close_channel E (fst (call_operation c1 (length (cc_heap c)) call))
      (length (cc_heap c))) (length (cc_heap c)) True) sid (map_of (cc_pending c)) []"
proof -
  let ?r = "length (cc_heap c)"
  have c1: "client_inv vf c1" "map_of (cc_pending c1) = m1" "streams c1 = streams c @ [sid]"
    using st by (simp_all add: client_starts_def client_advances_def)
  have r1: "?r < length (cc_heap c1)" using arg_cong [OF c1(3), of length] by simp
  note mv = closing_moves [OF env c1(1) r1 \<open>settling call\<close>, of True]
  have "settled_table c1 ?r = map_of (cc_pending c)"
    using unsettled_pending(1) [OF c1(1) r1] c1(2) stream m1 fresh by auto
  then show ?thesis
    using st mv by (auto simp: client_starts_def client_moves_def
        dest: client_advances_trans queue_grows_trans [of vf _ _ "[]" _ "[]"])
qed

lemma start_moves:
  assumes env: "queue_env (env_queue E) vf vs" and inv: "client_inv vf c"
    and start: "start_request E c ty v = (c', out)"
  obtains
    (refused) st msg where "out = Start_failed st msg"
      "client_moves vf c c' (buffers vf c) (map_of (cc_pending c)) []"
  | (started) sid f fs m where "\<not> rejects_requests (cc_lifecycle c)"
      "request_encoding E ty v sid = FrameEncodeResult_success f" "stream_is_valid sid"
      "map_of (cc_pending c) sid = None" "client_starts vf c c' sid m fs"
      "(\<exists>st msg. out = Start_failed st msg) \<and> fs = [] \<and> m = map_of (cc_pending c) \<or>
       m = (map_of (cc_pending c))(sid \<mapsto> length (cc_heap c)) \<and>
       ((\<exists>h. out = Start_ok h) \<and> fs = [f] \<or> out = Start_suspended (length (cc_heap c)) f \<and> fs = [])"
proof (cases "rejects_requests (cc_lifecycle c)")
  case True
  then show thesis
    using start inv by (intro refused) (auto simp: start_request_def client_moves_def client_advances_refl)
next
  case False
  have adv: "client_advances vf c c'"
    using start_request_advances [OF env inv, of ty v] start by simp
  from inv False show thesis
  proof (cases rule: start_request_cases [where E = E and ty = ty and v = v])
    case exhausted
    then show thesis
      using start adv streams_advance [OF adv] by (intro refused) (auto simp: client_moves_def buffers_def)
  next
    case (unencodable sid)
    then show thesis
      using start adv streams_advance [OF adv] by (intro refused) (auto simp: client_moves_def buffers_def)
  next
    case (started sid f q sent)
    note fresh = pend_inv_fresh(1) [OF client_inv_parts(1) [OF inv] started(1)]
    have enc: "request_encoding E ty v sid = FrameEncodeResult_success f"
      using encode_message_ok [OF started(2) [unfolded request_encoding_def]] started(3)
      by (metis FrameEncodeResult.select_convs(1) FrameEncodeResult_success_def option.sel
          request_encoding_def)
    have q: "wq_inv vf q" "queue_grows vf (cc_write_queue c) q (accepted_frame sent f)"
      using enqueue_step [OF env client_inv_parts(2) [OF inv] started(4,5)]
        enqueue_grows(1) [OF env client_inv_parts(2) [OF inv] started(4)] started(5) by simp_all
    let ?c1 = "(registered E c sid)\<lparr>cc_write_queue := q\<rparr>" and ?r = "length (cc_heap c)"
    note st = registered_starts [OF env inv started(1) False q]
    have inv1: "client_inv vf ?c1" using st by (simp add: client_starts_def client_advances_def)
    have entry: "map_of (cc_pending ?c1) sid = Some ?r" by (simp add: registered_def)
    have valid: "stream_is_valid sid"
      using pending_entry_stream(1) [OF inv1 entry] by (simp add: is_client_stream_def)
    note go = that(2) [OF False enc valid fresh]
    show thesis
    proof (cases "\<exists>res. sent = Some res \<and> \<not> write_ok res")
      case True
      then obtain res where res: "sent = Some res" "\<not> write_ok res" by blast
      let ?m = "Call_fail (write_status res) (write_message res) :: DiagnosticsEvent OpCall"
      have eq: "c' = cleanup_pending (close_channel E (fst (call_operation ?c1 ?r ?m)) ?r) ?r True"
        and out: "\<exists>st msg. out = Start_failed st msg"
        using start started(6) res by (auto simp: start_request_sent_def Let_def)
      have "settling ?m" "accepted_frame sent f = []" using res by (simp_all add: write_ok_def accepted_frame_def)
      then have "client_starts vf c c' sid (map_of (cc_pending c)) []"
        using refused_starts [OF env _ fresh refl, of ?c1 ?m] st
        by (simp add: eq) (simp add: registered_def nth_append)
      then show thesis using out by (intro go) auto
    next
      case False
      then have "c' = ?c1 \<and> ((\<exists>h. out = Start_ok h) \<and> accepted_frame sent f = [f] \<or>
          out = Start_suspended ?r f \<and> accepted_frame sent f = [])"
        using start started(6) by (cases sent) (auto simp: start_request_sent_def accepted_frame_def)
      then show thesis using st by (intro go) auto
    qed
  qed
qed

lemma moves_quiet:
  assumes "client_moves vf c c' (buffers vf c) (map_of (cc_pending c)) []" and "started_reading c"
  shows "client_quiet vf c c'"
  using assms by (simp add: client_moves_def client_quiet_def alive_def started_reading_def)

lemma moves_refl: "client_inv vf c \<Longrightarrow> client_moves vf c c (buffers vf c) (map_of (cc_pending c)) []"
  by (simp add: client_moves_def client_advances_refl)

lemma resume_moves:
  assumes env: "queue_env (env_queue E) vf vs" and inv: "client_inv vf c"
    and r: "r < length (cc_heap c)" and rep: "representable f"
    and "start_request_resume E msg c r f = (c', out)"
  obtains m fs where "client_moves vf c c' (buffers vf c) m fs"
    and "(\<exists>st what. out = Start_failed st what) \<and> fs = [] \<and> m = settled_table c r \<or>
       m = map_of (cc_pending c) \<and>
       ((\<exists>h. out = Start_ok h) \<and> fs = [f] \<or> out = Start_suspended r f \<and> fs = [])"
proof -
  obtain q sent where q: "enqueue_resume (env_queue E) msg (cc_write_queue c) f = (q, sent)" by fastforce
  have grow: "wq_inv vf q" "queue_grows vf (cc_write_queue c) q (accepted_frame sent f)"
    using enqueue_resume_step [OF env client_inv_parts(2) [OF inv] rep q]
      enqueue_grows(2) [OF env client_inv_parts(2) [OF inv] rep, of msg] q by simp_all
  let ?c1 = "c\<lparr>cc_write_queue := q\<rparr>"
  have adv: "client_advances vf c ?c1"
    using inv grow(1) by (intro client_inv_frame) (simp_all add: client_inv_parts)
  then have mv: "client_moves vf c ?c1 (buffers vf c) (map_of (cc_pending c)) (accepted_frame sent f)"
    using streams_advance [OF adv] buffers_heap [of ?c1 c] grow(2) by (simp add: client_moves_def)
  show thesis
  proof (cases "\<exists>res. sent = Some res \<and> \<not> write_ok res")
    case True
    then obtain res where res: "sent = Some res" "\<not> write_ok res" by blast
    let ?m = "Call_fail (write_status res) (write_message res) :: DiagnosticsEvent OpCall"
    have eq: "c' = cleanup_pending (close_channel E (fst (call_operation ?c1 r ?m)) r) r True"
      and out: "\<exists>st what. out = Start_failed st what"
      using assms(5) q res by (auto simp: start_request_resume_def start_request_sent_def Let_def)
    have "settling ?m" using res(2) by (simp add: write_ok_def)
    note closed = closing_moves [OF env client_advancesD [OF adv] _ this, of r True]
    have "settled_table ?c1 r = settled_table c r" by (simp add: unsettled_def)
    then have "client_moves vf c c' (buffers vf c) (settled_table c r) []"
      using mv closed r res by (auto simp: eq client_moves_def accepted_frame_def
          dest: client_advances_trans queue_grows_trans [of vf _ _ "[]" _ "[]"])
    then show thesis using out by (intro that) auto
  next
    case False
    then have "c' = ?c1 \<and> ((\<exists>h. out = Start_ok h) \<and> accepted_frame sent f = [f] \<or>
        out = Start_suspended r f \<and> accepted_frame sent f = [])"
      using assms(5) q by (cases sent)
        (auto simp: start_request_resume_def start_request_sent_def accepted_frame_def Let_def)
    then show thesis using mv by (intro that) auto
  qed
qed

lemma deadline_moves:
  assumes "client_inv vf c" and "\<And>h. out = Start_ok h \<Longrightarrow> the (ro_pending h) < length (cc_heap c)"
  shows "client_moves vf c (fst (start_request_deadline c out d)) (buffers vf c) (map_of (cc_pending c)) []"
proof -
  let ?c' = "fst (start_request_deadline c out d)"
  have adv: "client_advances vf c ?c'" by (rule start_request_deadline_advances [OF assms])
  have "length (cc_heap ?c') = length (cc_heap c)" "buffers vf ?c' = buffers vf c"
    by (cases out; simp add: start_request_deadline_def buffers_update Let_def)+
  then show ?thesis
    using adv streams_advance [OF adv] by (cases out)
      (simp_all add: client_moves_def start_request_deadline_def Let_def)
qed

section \<open>Waiting\<close>

lemma wait_completed_moves:
  assumes env: "queue_env (env_queue E) vf vs" and inv: "client_inv vf c"
    and r: "ro_pending h = Some r" "r < length (cc_heap c)"
    and "async_wait_completed E c h ty = (c', res)"
  obtains
    (message) g rest where "buffers vf c ! r = g # rest" "\<not> unsettled c r"
      "client_moves vf c c' ((buffers vf c)[r := rest]) (map_of (cc_pending c)) []"
      "res = Some (decode_message (env_codec E) (env_registry E) ty g)"
  | (unchanged) "client_moves vf c c' (buffers vf c) (map_of (cc_pending c)) []" "delivered r ty res = []"
proof -
  let ?p = "cc_heap c ! r" and ?F = "frame_channel (env_queue E)"
  obtain ch ev where rcv: "chan_end_receive ?F (pr_channel ?p) = (ch, ev)" by fastforce
  have impl: "implements_channel ?F vf" using env by (simp add: queue_env_def)
  note view = implements_channelD(5,6) [OF impl, of "pr_channel ?p", unfolded rcv]
  let ?c1 = "update_pending c r (\<lambda>p. p\<lparr>pr_channel := ch\<rparr>)"
  have adv: "client_advances vf c c'"
    using async_wait_completed_advances [OF env inv r, of ty] assms(5) by simp
  have eq: "c' = (if ev = Channel_pending then ?c1 else cleanup_pending ?c1 r True)"
    using assms(5) rcv r(1) by (cases ev) (auto simp: async_wait_completed_def Let_def)
  have settled: "\<not> unsettled c r" if "ev \<noteq> Channel_pending"
    using unsettled_receive_pending [OF env inv r(2)] rcv that settled_iff [OF inv r(2)] r(2) by auto
  have pend: "cc_pending c' = cc_pending c"
    using settled unsettled_pending(2) [OF inv r(2)] r(2)
    by (auto simp: eq pending_cleanup heap_update_pending)
  have buf: "buffers vf c' = (buffers vf c)[r := view_buffer (vf ch)]"
    by (simp add: eq) (simp add: buffers_def update_pending_def map_update)
  have moves: "client_moves vf c c' ((buffers vf c)[r := view_buffer (vf ch)]) (map_of (cc_pending c)) []"
    using adv streams_advance [OF adv] buf pend by (simp add: client_moves_def eq)
  show thesis
  proof (cases "view_buffer (vf (pr_channel ?p))")
    case Nil
    then have "view_buffer (vf ch) = buffers vf c ! r" "ev = Channel_pending \<or> ev = Channel_closed"
      using view r(2) by (auto simp: view_end_receive_def nth_buffers split: if_splits)
    then have "client_moves vf c c' (buffers vf c) (map_of (cc_pending c)) []" "delivered r ty res = []"
      using moves assms(5) rcv r(1)
      by (auto simp: async_wait_completed_def delivered_def DecodeResult_failure_def Let_def
          split: option.splits)
    then show thesis by (rule unchanged)
  next
    case (Cons g rest)
    then have ev: "view_buffer (vf ch) = rest" "ev = Channel_message g" "buffers vf c ! r = g # rest"
      using view r(2) by (simp_all add: view_end_receive_def nth_buffers)
    then have "res = Some (decode_message (env_codec E) (env_registry E) ty g)"
      using assms(5) rcv r(1) by (simp add: async_wait_completed_def Let_def)
    then show thesis using message [OF ev(3)] settled ev moves by simp
  qed
qed

section \<open>The read loop is left once\<close>

lemma writer_kept [simp]:
  "wq_writer (fst (try_enqueue Q q f)) = wq_writer q"
  "wq_writer (fst (enqueue Q q f)) = wq_writer q"
  "wq_writer (fst (enqueue_resume Q msg q f)) = wq_writer q"
  "wq_writer (close_queue Q q) = wq_writer q"
proof -
  have one: "wq_writer (fst (try_enqueue_frame Q q f)) = wq_writer q" for q
    by (simp add: try_enqueue_frame_def case_prod_beta Let_def)
  have attempt: "wq_writer (fst (enqueue_attempt Q q f)) = wq_writer q" for q
    by (simp add: enqueue_attempt_def case_prod_beta one)
  show "wq_writer (fst (try_enqueue Q q f)) = wq_writer q" by (simp add: try_enqueue_def one)
  show "wq_writer (fst (enqueue Q q f)) = wq_writer q" by (simp add: enqueue_def attempt Let_def)
  show "wq_writer (fst (enqueue_resume Q msg q f)) = wq_writer q"
    by (simp add: enqueue_resume_def case_prod_beta attempt Let_def split: ChannelEvent.split)
  show "wq_writer (close_queue Q q) = wq_writer q" by (simp add: close_queue_def)
qed

lemma start_keeps_reader:
  "cc_reading (fst (start_request E c ty v)) = cc_reading c"
  "wq_writer (cc_write_queue (fst (start_request E c ty v))) = wq_writer (cc_write_queue c)"
  "cc_reading (fst (start_request_deadline c out d)) = cc_reading c"
  "wq_writer (cc_write_queue (fst (start_request_deadline c out d))) = wq_writer (cc_write_queue c)"
  "cc_reading (fst (start_request_resume E msg c r f)) = cc_reading c"
  "wq_writer (cc_write_queue (fst (start_request_resume E msg c r f))) = wq_writer (cc_write_queue c)"
  by (simp_all add: start_request_def start_request_sent_def start_request_deadline_def
      start_request_resume_def case_prod_beta Let_def split: option.split StartOutcome.split)

lemma handles_keep_reader:
  "cc_reading (timeout_pending E c r) = cc_reading c"
  "wq_writer (cc_write_queue (timeout_pending E c r)) = wq_writer (cc_write_queue c)"
  "cc_reading (fst (cancel_pending E c r msg)) = cc_reading c"
  "wq_writer (cc_write_queue (fst (cancel_pending E c r msg))) = wq_writer (cc_write_queue c)"
  "cc_reading (discard_pending E c r) = cc_reading c"
  "wq_writer (cc_write_queue (discard_pending E c r)) = wq_writer (cc_write_queue c)"
  "cc_reading (fst (async_wait E c h)) = cc_reading c"
  "wq_writer (cc_write_queue (fst (async_wait E c h))) = wq_writer (cc_write_queue c)"
  "cc_reading (fst (async_wait_completed E c h ty)) = cc_reading c"
  "wq_writer (cc_write_queue (fst (async_wait_completed E c h ty))) = wq_writer (cc_write_queue c)"
  by (simp_all add: timeout_pending_def cancel_pending_def discard_pending_def send_cancellation_def
      async_wait_def async_wait_completed_def case_prod_beta Let_def split: ChannelEvent.split)

lemma finish_keeps_reader:
  assumes "client_inv vf c" and "shutdown_finish E c = Some c'"
  shows "cc_reading c' = cc_reading c" and "cc_write_queue c' = cc_write_queue c"
proof -
  obtain c1 where "fail_pending E Status_connection_closed ''connection drain period expired'' c = Some c1"
    "same_wiring c c1"
    using fail_pending_advances [OF assms(1), of Status_connection_closed E] by auto
  then show "cc_reading c' = cc_reading c" and "cc_write_queue c' = cc_write_queue c"
    using assms(2) by (auto simp: shutdown_finish_def same_wiring_def split: if_splits)
qed

lemma listening_event:
  assumes "client_inv vf c" and "client_event E c ev = Some c'" and "client_enabled c ev"
    and "\<And>b result. ev = Client_read b result \<Longrightarrow> cc_reading c" and "listening c'"
  shows "listening c"
proof (cases ev)
  case Client_run
  then show ?thesis using assms(3) by (simp add: listening_def)
next
  case (Client_read b result)
  then show ?thesis using assms(4) by (simp add: listening_def)
next
  case (Client_start_deadline ty v d)
  then have "c' = fst (start_request_deadline (fst (start_request E c ty v)) (snd (start_request E c ty v)) d)"
    using assms(2) by (simp add: case_prod_beta)
  then show ?thesis using assms(5) by (simp add: listening_def start_keeps_reader)
next
  case (Client_resume_deadline msg r f d)
  then have "c' = fst (start_request_deadline (fst (start_request_resume E msg c r f))
      (snd (start_request_resume E msg c r f)) d)"
    using assms(2) by (simp add: case_prod_beta)
  then show ?thesis using assms(5) by (simp add: listening_def start_keeps_reader)
next
  case Client_begin_shutdown
  then show ?thesis using assms(2,5) by (auto simp: listening_def begin_shutdown_def Let_def)
next
  case Client_shutdown_finish
  then show ?thesis
    using finish_keeps_reader [OF assms(1), of E c'] assms(2,5) by (simp add: listening_def)
next
  case (Client_wrote failure)
  have "wq_writer (fst (writer_wrote (env_queue E) (cc_write_queue c) failure)) = Writer_idle \<Longrightarrow>
      wq_writer (cc_write_queue c) = Writer_idle"
    by (auto simp: writer_wrote_def writer_loop_def split: Writer.splits option.splits)
  then show ?thesis
    using assms(2,5) Client_wrote
    by (auto simp: listening_def client_write_completed_def observe_write_def case_prod_beta Let_def
        split: option.splits)
next
  case Client_frame_received
  then show ?thesis
    using assms(2,3,5)
    by (auto simp: listening_def client_frame_received_def writer_received_def case_prod_beta Let_def
        split: ChannelEvent.splits)
qed (use assms(2,5) in \<open>auto simp: listening_def start_keeps_reader handles_keep_reader
    timer_completed_def handle_cancel_def handle_destroy_def split: if_splits\<close>)

end
