(* ===== verification/Session_Play.thy ===== *)
theory Session_Play
  imports Session_Model "HOL-Library.Multiset"
begin

text \<open>
  What is in play in a session: requests that have not reached a handler, handlers that have not
  ended, and answers that have not reached the client. Each item belongs to one call of the
  specification, no two are on the same stream, and while the client connection lives each
  belongs to the request that is pending on its stream. The lemmas say how items move.
\<close>

section \<open>Items\<close>

datatype 'v Item =
  Item_request Frame | Item_task nat Frame "'v TaskPhase" | Item_answer Frame

abbreviation frame_stream :: "Frame \<Rightarrow> StreamId" where
  "frame_stream f \<equiv> header_stream (frame_header f)"

fun item_stream :: "'v Item \<Rightarrow> StreamId" where
  "item_stream (Item_request f) = frame_stream f"
| "item_stream (Item_task i f ph) = frame_stream f"
| "item_stream (Item_answer g) = frame_stream g"

text \<open>
  \<open>requests E A str f r\<close>: the frame \<open>f\<close> carries call \<open>r\<close>, whose stream is \<open>str ! r\<close>.
  \<open>replies_to E A str r g\<close>: the frame \<open>g\<close> carries the reply of the handler that served call \<open>r\<close>.
\<close>

definition requests ::
  "('ch, 'sp, 't, 'v) Env \<Rightarrow> ('t, 'v) Rpc \<Rightarrow> StreamId list \<Rightarrow> Frame \<Rightarrow> nat \<Rightarrow> bool" where
  "requests E A str f r \<longleftrightarrow>
     r < length (rpc_calls A) \<and> r < length str \<and> frame_stream f = str ! r \<and>
     request_encoding E (fst (rpc_calls A ! r)) (snd (rpc_calls A ! r)) (str ! r) =
       FrameEncodeResult_success f"

definition replies_to ::
  "('ch, 'sp, 't, 'v) Env \<Rightarrow> ('t, 'v) Rpc \<Rightarrow> StreamId list \<Rightarrow> nat \<Rightarrow> Frame \<Rightarrow> bool" where
  "replies_to E A str r g \<longleftrightarrow>
     r < length str \<and>
     (\<exists>i tr w f. rpc_serves A i = Some r \<and> rpc_replies A i = Some (tr, w) \<and> g = final_frame f \<and>
        encode_message (env_codec E) (env_registry E) tr w (str ! r) FrameType_response Flags_none
          default_max_payload_size current_protocol_version = FrameEncodeResult_success f)"

definition is_error_frame :: "Frame \<Rightarrow> bool" where
  "is_error_frame g \<longleftrightarrow> (\<exists>sid st. g = make_error_frame sid st)"

text \<open>The requests pending at the client by stream; \<open>None\<close> once the connection is closed.\<close>

definition owned_by :: "(StreamId \<rightharpoonup> nat) option \<Rightarrow> StreamId \<Rightarrow> nat \<Rightarrow> bool" where
  "owned_by pend sid r \<longleftrightarrow> (case pend of None \<Rightarrow> True | Some m \<Rightarrow> m sid = Some r)"

definition phase_ok ::
  "('ch, 'sp, 't, 'v) Env \<Rightarrow> ('t, 'v) Rpc \<Rightarrow> StreamId list \<Rightarrow> nat \<Rightarrow> nat \<Rightarrow> 'v TaskPhase \<Rightarrow> bool" where
  "phase_ok E A str i r ph \<longleftrightarrow>
     (case ph of
        Task_spawned \<Rightarrow> rpc_serves A i = None \<and> r \<notin> ran (rpc_serves A)
      | Task_running _ \<Rightarrow> rpc_serves A i = Some r \<and> rpc_replies A i = None
      | Task_sending g \<Rightarrow> replies_to E A str r g
      | Task_done \<Rightarrow> False)"

fun item_ok ::
  "('ch, 'sp, 't, 'v) Env \<Rightarrow> ('t, 'v) Rpc \<Rightarrow> StreamId list \<Rightarrow> (StreamId \<rightharpoonup> nat) option \<Rightarrow>
     'v Item \<Rightarrow> bool" where
  "item_ok E A str pend (Item_request f) \<longleftrightarrow>
     (\<exists>r. requests E A str f r \<and> r \<notin> ran (rpc_serves A) \<and> owned_by pend (frame_stream f) r)"
| "item_ok E A str pend (Item_task i f ph) \<longleftrightarrow>
     (\<exists>r. requests E A str f r \<and> owned_by pend (frame_stream f) r \<and> phase_ok E A str i r ph)"
| "item_ok E A str pend (Item_answer g) \<longleftrightarrow>
     (\<exists>r. r < length str \<and> frame_stream g = str ! r \<and> owned_by pend (frame_stream g) r \<and>
        (replies_to E A str r g \<or> is_error_frame g))"

definition distinct_streams :: "'v Item multiset \<Rightarrow> bool" where
  "distinct_streams M \<longleftrightarrow> (\<forall>sid. count (image_mset item_stream M) sid \<le> 1)"

definition play ::
  "('ch, 'sp, 't, 'v) Env \<Rightarrow> ('t, 'v) Rpc \<Rightarrow> StreamId list \<Rightarrow> (StreamId \<rightharpoonup> nat) option \<Rightarrow>
     'v Item multiset \<Rightarrow> bool" where
  "play E A str pend M \<longleftrightarrow> distinct_streams M \<and> (\<forall>x \<in># M. item_ok E A str pend x)"

section \<open>Adding, replacing and dropping items\<close>

lemma distinct_streams_add:
  "distinct_streams (add_mset x M) \<longleftrightarrow>
     distinct_streams M \<and> (\<forall>y \<in># M. item_stream y \<noteq> item_stream x)"
proof -
  let ?K = "image_mset item_stream M" and ?k = "item_stream x"
  have "(\<forall>sid. count (add_mset ?k ?K) sid \<le> 1) \<longleftrightarrow> (\<forall>sid. count ?K sid \<le> 1) \<and> count ?K ?k = 0"
    (is "?lhs \<longleftrightarrow> ?rhs")
  proof
    assume l: ?lhs
    have "count ?K sid \<le> 1" for sid using spec [OF l, of sid] by (simp split: if_splits)
    then show ?rhs using spec [OF l, of ?k] by simp
  qed simp
  moreover have "count ?K ?k = 0 \<longleftrightarrow> (\<forall>y \<in># M. item_stream y \<noteq> item_stream x)"
    by (force simp: count_eq_zero_iff image_iff)
  ultimately show ?thesis by (simp add: distinct_streams_def)
qed

lemma play_empty [simp]: "play E A str pend {#}"
  by (simp add: play_def distinct_streams_def)

lemma play_add:
  "play E A str pend (add_mset x M) \<longleftrightarrow>
     item_ok E A str pend x \<and> (\<forall>y \<in># M. item_stream y \<noteq> item_stream x) \<and> play E A str pend M"
  by (auto simp: play_def distinct_streams_add)

lemma play_replace:
  "play E A str pend (add_mset x M) \<Longrightarrow> item_ok E A str pend y \<Longrightarrow>
     item_stream y = item_stream x \<Longrightarrow> play E A str pend (add_mset y M)"
  by (simp add: play_add)

lemma play_mono:
  assumes "play E A str pend N" and "M \<subseteq># N"
  shows "play E A str pend M"
proof -
  obtain K where "N = M + K" using assms(2) by (auto simp: subset_mset.le_iff_add)
  then have "distinct_streams M"
    using assms(1) unfolding play_def distinct_streams_def by (auto intro: add_leD1)
  then show ?thesis using assms(1) by (simp add: play_def \<open>N = M + K\<close>)
qed

lemma item_ok_dead: "item_ok E A str pend x \<Longrightarrow> item_ok E A str None x"
  by (cases x) (auto simp: owned_by_def)

lemma play_dead: "play E A str pend M \<Longrightarrow> play E A str None M"
  by (auto simp: play_def intro: item_ok_dead)

lemma play_pend:
  assumes "play E A str (Some m) M" and "\<And>x. x \<in># M \<Longrightarrow> m' (item_stream x) = m (item_stream x)"
  shows "play E A str (Some m') M"
proof -
  have "item_ok E A str (Some m') x" if "item_ok E A str (Some m) x" "x \<in># M" for x
    using assms(2) [OF that(2)] that(1) by (cases x) (simp_all add: owned_by_def)
  then show ?thesis using assms(1) by (auto simp: play_def)
qed

text \<open>An item whose stream has a pending request belongs to that request.\<close>

lemma item_owner:
  assumes "item_ok E A str (Some m) x"
  obtains r where "m (item_stream x) = Some r"
  using assms by (cases x) (auto simp: owned_by_def)

section \<open>Progress of the specification\<close>

lemma item_ok_mono:
  assumes "item_ok E A str pend x"
    and req: "\<And>f r. requests E A str f r \<Longrightarrow> frame_stream f = item_stream x \<Longrightarrow>
      requests E A' str' f r \<and> (r \<notin> ran (rpc_serves A) \<longrightarrow> r \<notin> ran (rpc_serves A'))"
    and rep: "\<And>r g. replies_to E A str r g \<Longrightarrow> replies_to E A' str' r g"
    and task: "\<And>i f ph. x = Item_task i f ph \<Longrightarrow>
      (rpc_serves A i = None \<longrightarrow> rpc_serves A' i = None) \<and>
      (\<forall>r. rpc_serves A i = Some r \<longrightarrow> rpc_serves A' i = Some r) \<and>
      (rpc_replies A i = None \<longrightarrow> rpc_replies A' i = None)"
    and str: "\<And>r. r < length str \<Longrightarrow> r < length str' \<and> str' ! r = str ! r"
  shows "item_ok E A' str' pend x"
proof (cases x)
  case (Item_request f)
  then obtain r where "requests E A str f r" "r \<notin> ran (rpc_serves A)" "owned_by pend (frame_stream f) r"
    using assms(1) by auto
  then show ?thesis using req [of f r] Item_request by auto
next
  case (Item_task i f ph)
  then obtain r where r: "requests E A str f r" "owned_by pend (frame_stream f) r" "phase_ok E A str i r ph"
    using assms(1) by auto
  have "phase_ok E A' str' i r ph"
    using r(3) req [OF r(1)] rep task [OF Item_task] Item_task
    by (cases ph) (simp_all add: phase_ok_def)
  then show ?thesis using r req [OF r(1)] Item_task by auto
next
  case (Item_answer g)
  then obtain r where r: "r < length str" "frame_stream g = str ! r" "owned_by pend (frame_stream g) r"
    "replies_to E A str r g \<or> is_error_frame g"
    using assms(1) by auto
  then show ?thesis using rep str [OF r(1)] Item_answer by auto
qed

lemma requests_issue:
  "requests E A str f r \<Longrightarrow>
     requests E (A\<lparr>rpc_calls := rpc_calls A @ calls\<rparr>) (str @ sids) f r"
  by (simp add: requests_def nth_append)

lemma replies_to_issue:
  "replies_to E A str r g \<Longrightarrow>
     replies_to E (A\<lparr>rpc_calls := rpc_calls A @ calls\<rparr>) (str @ sids) r g"
  by (auto simp: replies_to_def nth_append)

lemma item_ok_issue:
  assumes "item_ok E A str pend x"
  shows "item_ok E (A\<lparr>rpc_calls := rpc_calls A @ calls\<rparr>) (str @ sids) pend x"
  by (rule item_ok_mono [OF assms]) (simp_all add: requests_issue replies_to_issue nth_append)

lemma play_issue:
  "play E A str pend M \<Longrightarrow> play E (A\<lparr>rpc_calls := rpc_calls A @ calls\<rparr>) (str @ sids) pend M"
  by (simp add: play_def item_ok_issue)

lemma requests_other [simp]:
  "requests E (A\<lparr>rpc_serves := sv\<rparr>) str f r = requests E A str f r"
  "requests E (A\<lparr>rpc_replies := rp\<rparr>) str f r = requests E A str f r"
  "requests E (A\<lparr>rpc_delivered := dl\<rparr>) str f r = requests E A str f r"
  by (simp_all add: requests_def)

lemma replies_to_serve:
  "rpc_serves A i = None \<Longrightarrow> replies_to E A str r g \<Longrightarrow>
     replies_to E (A\<lparr>rpc_serves := (rpc_serves A)(i \<mapsto> r')\<rparr>) str r g"
  by (auto simp: replies_to_def) (metis option.distinct(1))

lemma replies_to_reply:
  "rpc_replies A i = None \<Longrightarrow> replies_to E A str r g \<Longrightarrow>
     replies_to E (A\<lparr>rpc_replies := (rpc_replies A)(i \<mapsto> x)\<rparr>) str r g"
  by (auto simp: replies_to_def) (metis option.distinct(1))

lemma replies_to_delivered [simp]:
  "replies_to E (A\<lparr>rpc_delivered := dl\<rparr>) str r g = replies_to E A str r g"
  by (simp add: replies_to_def)

lemma play_deliver [simp]: "play E (A\<lparr>rpc_delivered := dl\<rparr>) str pend M = play E A str pend M"
proof -
  have "item_ok E (A\<lparr>rpc_delivered := dl\<rparr>) str pend x = item_ok E A str pend x" for x
    by (cases x) (simp_all add: phase_ok_def split: TaskPhase.split)
  then show ?thesis by (simp add: play_def)
qed

definition not_task :: "nat \<Rightarrow> 'v Item \<Rightarrow> bool" where
  "not_task i x \<longleftrightarrow> (\<forall>f ph. x \<noteq> Item_task i f ph)"

text \<open>A spawned handler is entered with the value of the call its frame carries.\<close>

lemma item_ok_serve:
  assumes "item_ok E A str pend x" and "rpc_serves A i = None" and "r < length str"
    and "item_stream x \<noteq> str ! r" and "not_task i x"
  shows "item_ok E (A\<lparr>rpc_serves := (rpc_serves A)(i \<mapsto> r)\<rparr>) str pend x"
proof -
  have other: "r' \<noteq> r" if "requests E A str f r'" "frame_stream f = item_stream x" for f r'
    using that assms(4) by (auto simp: requests_def)
  have ran: "ran ((rpc_serves A)(i \<mapsto> r)) = insert r (ran (rpc_serves A))"
    using assms(2) by simp
  show ?thesis
    using assms(5) other
    by (intro item_ok_mono [OF assms(1)] replies_to_serve [OF assms(2)])
      (auto simp: ran not_task_def)
qed

lemma play_serve:
  assumes "play E A str pend (add_mset (Item_task i f Task_spawned) M)"
    and "\<And>x. x \<in># M \<Longrightarrow> not_task i x" and "rpc_replies A i = None"
  obtains r where "requests E A str f r" and "r \<notin> ran (rpc_serves A)" and "rpc_serves A i = None"
    and "play E (A\<lparr>rpc_serves := (rpc_serves A)(i \<mapsto> r)\<rparr>) str pend
           (add_mset (Item_task i f (Task_running v)) M)"
proof -
  obtain r where r: "requests E A str f r" "r \<notin> ran (rpc_serves A)" "rpc_serves A i = None"
    "owned_by pend (frame_stream f) r"
    using assms(1) by (auto simp: play_add phase_ok_def)
  then have "r < length str" "frame_stream f = str ! r" by (auto simp: requests_def)
  then have "item_ok E (A\<lparr>rpc_serves := (rpc_serves A)(i \<mapsto> r)\<rparr>) str pend x" if "x \<in># M" for x
    using assms(1,2) r that by (intro item_ok_serve) (auto simp: play_def distinct_streams_add)
  then have "play E (A\<lparr>rpc_serves := (rpc_serves A)(i \<mapsto> r)\<rparr>) str pend
      (add_mset (Item_task i f (Task_running v)) M)"
    using assms(1,3) r by (auto simp: play_def distinct_streams_add phase_ok_def)
  then show thesis using that r by blast
qed

text \<open>A handler that was entered replies.\<close>

lemma item_ok_reply:
  assumes "item_ok E A str pend x" and "rpc_replies A i = None" and "not_task i x"
  shows "item_ok E (A\<lparr>rpc_replies := (rpc_replies A)(i \<mapsto> y)\<rparr>) str pend x"
  using assms(3) by (intro item_ok_mono [OF assms(1)] replies_to_reply [OF assms(2)])
    (auto simp: not_task_def)

lemma play_reply:
  assumes "play E A str pend (add_mset (Item_task i f (Task_running v)) M)"
    and "\<And>x. x \<in># M \<Longrightarrow> not_task i x"
    and "encode_message (env_codec E) (env_registry E) tr w (frame_stream f) FrameType_response
        Flags_none default_max_payload_size current_protocol_version = FrameEncodeResult_success g"
  obtains r where "rpc_serves A i = Some r" and "rpc_replies A i = None"
    and "play E (A\<lparr>rpc_replies := (rpc_replies A)(i \<mapsto> (tr, w))\<rparr>) str pend
           (add_mset (Item_task i f (Task_sending (final_frame g))) M)"
proof -
  obtain r where r: "requests E A str f r" "rpc_serves A i = Some r" "rpc_replies A i = None"
    "owned_by pend (frame_stream f) r"
    using assms(1) by (auto simp: play_add phase_ok_def)
  let ?A = "A\<lparr>rpc_replies := (rpc_replies A)(i \<mapsto> (tr, w))\<rparr>"
  have "item_ok E ?A str pend x" if "x \<in># M" for x
    using assms(1,2) r that by (intro item_ok_reply) (auto simp: play_add play_def)
  moreover have "replies_to E ?A str r (final_frame g)"
    using r assms(3) by (auto simp: replies_to_def requests_def)
  ultimately have "play E ?A str pend (add_mset (Item_task i f (Task_sending (final_frame g))) M)"
    using assms(1) r by (auto simp: play_def distinct_streams_add phase_ok_def)
  then show thesis using that r by blast
qed

text \<open>A response waiting for room in the queue, or an error about a request, becomes an answer.\<close>

lemma replies_to_stream: "replies_to E A str r g \<Longrightarrow> frame_stream g = str ! r"
proof -
  assume "replies_to E A str r g"
  then obtain tr w f where "g = final_frame f" "encode_message (env_codec E) (env_registry E) tr w
      (str ! r) FrameType_response Flags_none default_max_payload_size current_protocol_version =
      FrameEncodeResult_success f"
    by (auto simp: replies_to_def)
  then show ?thesis by (auto simp: final_frame_def elim: encode_message_success)
qed

lemma play_sent:
  assumes "play E A str pend (add_mset (Item_task i f (Task_sending g)) M)"
  shows "play E A str pend (add_mset (Item_answer g) M)" and "frame_stream g = frame_stream f"
proof -
  obtain r where r: "requests E A str f r" "owned_by pend (frame_stream f) r" "replies_to E A str r g"
    using assms by (auto simp: play_add phase_ok_def)
  then show stream: "frame_stream g = frame_stream f"
    using replies_to_stream [OF r(3)] by (simp add: requests_def)
  show "play E A str pend (add_mset (Item_answer g) M)"
    using r stream by (intro play_replace [OF assms]) (auto simp: requests_def)
qed

lemma error_frame_stream [simp]: "frame_stream (make_error_frame sid st) = sid"
  by (simp add: make_error_frame_def Let_def)

lemma error_frame_is_error [simp]: "is_error_frame (make_error_frame sid st)"
  by (auto simp: is_error_frame_def)

lemma play_refused:
  assumes "play E A str pend (add_mset x M)" and "x = Item_request f \<or> x = Item_task i f ph"
  shows "play E A str pend (add_mset (Item_answer (make_error_frame (frame_stream f) st)) M)"
proof -
  obtain r where "requests E A str f r" "owned_by pend (frame_stream f) r"
    using assms by (auto simp: play_add)
  then show ?thesis
    using assms(2) by (intro play_replace [OF assms(1)]) (auto simp: requests_def)
qed

section \<open>The handlers of a server\<close>

definition task_item :: "nat \<Rightarrow> ('t, 'v) HandlerTask \<Rightarrow> 'v Item multiset" where
  "task_item i t =
     (if task_phase t = Task_done then {#} else {#Item_task i (task_frame t) (task_phase t)#})"

definition live_items :: "('t, 'v) HandlerTask list \<Rightarrow> 'v Item multiset" where
  "live_items tasks = (\<Sum>i < length tasks. task_item i (tasks ! i))"

definition other_items :: "('t, 'v) HandlerTask list \<Rightarrow> nat \<Rightarrow> 'v Item multiset" where
  "other_items tasks i = (\<Sum>j \<in> {..<length tasks} - {i}. task_item j (tasks ! j))"

lemma live_items_Nil [simp]: "live_items [] = {#}"
  by (simp add: live_items_def)

lemma live_items_split:
  "i < length tasks \<Longrightarrow> live_items tasks = task_item i (tasks ! i) + other_items tasks i"
  unfolding live_items_def other_items_def by (simp add: sum.remove)

lemma live_items_update:
  "i < length tasks \<Longrightarrow> live_items (tasks[i := t]) = task_item i t + other_items tasks i"
  using live_items_split [of i "tasks[i := t]"] by (simp add: other_items_def)

lemma other_items_not_task: "x \<in># other_items tasks i \<Longrightarrow> not_task i x"
  by (auto simp: other_items_def not_task_def task_item_def set_mset_sum split: if_splits)

lemma live_items_snoc: "live_items (tasks @ [t]) = live_items tasks + task_item (length tasks) t"
proof -
  have "(\<Sum>i < length tasks. task_item i ((tasks @ [t]) ! i)) = live_items tasks"
    unfolding live_items_def by (rule sum.cong) (simp_all add: nth_append)
  then show ?thesis by (simp add: live_items_def)
qed

lemma live_items_cong:
  assumes "length tasks' = length tasks"
    and "\<And>i. i < length tasks \<Longrightarrow> task_frame (tasks' ! i) = task_frame (tasks ! i) \<and>
      task_phase (tasks' ! i) = task_phase (tasks ! i)"
  shows "live_items tasks' = live_items tasks"
  unfolding live_items_def using assms by (intro sum.cong) (simp_all add: task_item_def)

end
