(* ===== verification/Server_Effects.thy ===== *)
theory Server_Effects
  imports Session_Pipe Session_Play
begin

text \<open>
  What an event at the server changes of the things a session is about: the handlers that have
  not ended, the write queue, and the frames that have been read and not dispatched. Quiet events
  leave the handlers where they are and send nothing.
\<close>

definition reader_frames :: "Reader \<Rightarrow> Frame list" where
  "reader_frames rd = (case rd of Reader_dispatching fs \<Rightarrow> fs | _ \<Rightarrow> [])"

text \<open>A read loop that goes on with the frames \<open>fs\<close> to dispatch, or has been left.\<close>

definition reads_on :: "('ch, 'sp, 't, 'v) ServerConnection \<Rightarrow> Frame list \<Rightarrow> bool" where
  "reads_on s fs \<longleftrightarrow> (sc_reader s \<noteq> Reader_done \<longrightarrow> reader_frames (sc_reader s) = fs)"

definition server_quiet ::
  "('ch \<Rightarrow> Frame ChannelView) \<Rightarrow> ('ch, 'sp, 't, 'v) ServerConnection \<Rightarrow>
     ('ch, 'sp, 't, 'v) ServerConnection \<Rightarrow> bool" where
  "server_quiet vf s s' \<longleftrightarrow>
     server_inv vf s' \<and> length (sc_tasks s') = length (sc_tasks s) \<and>
     live_items (sc_tasks s') = live_items (sc_tasks s) \<and>
     queue_grows vf (sc_write_queue s) (sc_write_queue s') [] \<and> sc_decoder s' = sc_decoder s \<and>
     (sc_reader s = Reader_done \<longrightarrow> sc_reader s' = Reader_done) \<and>
     reads_on s' (reader_frames (sc_reader s))"

lemma server_quiet_frame:
  assumes "server_inv vf s'" and "sc_tasks s' = sc_tasks s"
    and "queue_grows vf (sc_write_queue s) (sc_write_queue s') []" and "sc_decoder s' = sc_decoder s"
    and "sc_reader s' = sc_reader s"
  shows "server_quiet vf s s'"
  using assms by (simp add: server_quiet_def reads_on_def)

lemma server_eventD:
  assumes "queue_env (env_queue E) vf vs" and "server_inv vf s" and "server_enabled s ev"
    and "server_event E s ev = Some s'"
  shows "server_inv vf s'"
  using server_event_total [OF assms(1-3)] assms(4) by (auto simp: server_advances_def)

section \<open>Losing the connection\<close>

lemma live_items_lost:
  assumes "table_inv (sc_operations s) (sc_tasks s)"
  shows "live_items (sc_tasks (fail_operations_on_connection_close s)) = live_items (sc_tasks s)"
  using fail_operations_effect [OF assms] by (intro live_items_cong) (simp_all add: same_server_wiring_def)

lemma idle_queue_grows:
  assumes "queue_env (env_queue E) vf vs" and "wq_inv vf (sc_write_queue s)"
  shows "queue_grows vf (sc_write_queue s) (sc_write_queue (close_queue_when_idle E s)) []"
  using writer_grows(1) [OF assms] by (simp add: close_queue_when_idle_def)

lemma read_exit_quiet:
  assumes env: "queue_env (env_queue E) vf vs" and inv: "server_inv vf s"
  shows "server_quiet vf s (server_read_exit E s lost)"
    and "sc_reader (server_read_exit E s lost) = Reader_done"
proof -
  let ?s1 = "if lost then fail_operations_on_connection_close s else s"
  note parts = server_core_parts [OF server_inv_core [OF inv]]
  have same: "sc_write_queue ?s1 = sc_write_queue s" "sc_decoder ?s1 = sc_decoder s"
    "length (sc_tasks ?s1) = length (sc_tasks s)" "live_items (sc_tasks ?s1) = live_items (sc_tasks s)"
    using fail_operations_effect(1) [OF parts(1)] live_items_lost [OF parts(1)]
    by (simp_all add: same_server_wiring_def)
  show ended: "sc_reader (server_read_exit E s lost) = Reader_done"
    by (simp add: server_read_exit_def Let_def)
  have "queue_grows vf (sc_write_queue s) (sc_write_queue (server_read_exit E s lost)) []"
    using idle_queue_grows [OF env, of "?s1\<lparr>sc_reading := False, sc_reader := Reader_done\<rparr>"] parts(3) same(1)
    by (simp add: server_read_exit_def Let_def)
  moreover have "sc_tasks (server_read_exit E s lost) = sc_tasks ?s1"
    "sc_decoder (server_read_exit E s lost) = sc_decoder ?s1"
    by (simp_all add: server_read_exit_def Let_def)
  ultimately show "server_quiet vf s (server_read_exit E s lost)"
    using server_advancesD [OF server_read_exit_advances [OF env inv]] same ended
    by (simp add: server_quiet_def reads_on_def)
qed

lemma read_head_quiet:
  assumes env: "queue_env (env_queue E) vf vs" and inv: "server_inv vf s"
    and "sc_reading s" and "reader_frames (sc_reader s) = []"
  shows "server_quiet vf s (server_read_head E s)"
proof (cases "sc_transport_open s")
  case True
  then show ?thesis
    using assms(4) server_advancesD [OF server_read_head_advances [OF assms(1-3)]]
      server_core_parts(6) [OF server_inv_core [OF inv]] assms(3)
    by (simp add: server_quiet_def server_read_head_def reads_on_def reader_frames_def)
next
  case False
  then show ?thesis using read_exit_quiet(1) [OF env inv] by (simp add: server_read_head_def)
qed

text \<open>The end of a read: the loop goes on when the transport is open and the decoder has no error.\<close>

lemma frames_done_quiet:
  assumes env: "queue_env (env_queue E) vf vs" and inv: "server_inv vf s" and "sc_reading s"
    and "dec_error (sc_decoder s) = None"
    and "reader_frames (sc_reader s) = [] \<or> \<not> sc_transport_open s"
  shows "server_quiet vf s (server_frames_done E s)"
    and "\<not> sc_transport_open s \<Longrightarrow> sc_reader (server_frames_done E s) = Reader_done"
  using assms read_head_quiet [OF assms(1-3)] read_exit_quiet [OF env inv]
  by (auto simp: server_frames_done_def server_read_head_def)

section \<open>The other quiet events\<close>

lemma server_run_quiet:
  assumes env: "queue_env (env_queue E) vf vs" and inv: "server_inv vf s"
    and idle: "wq_writer (sc_write_queue s) = Writer_idle" "sc_reader s = Reader_idle"
  shows "server_quiet vf s (server_run E s)"
proof -
  define s1 where "s1 = (if sc_lifecycle s = Connection_created
    then server_notify (s\<lparr>sc_lifecycle := fst (connection_transition
        (fst (connection_transition (sc_lifecycle s) Connection_accepting)) Connection_active)\<rparr>)
      (diagnostics_event Event_connection_opened StreamId_default Status_ok 0 False []) else s)"
  let ?s2 = "s1\<lparr>sc_write_queue := writer_loop (env_queue E) (sc_write_queue s1)\<rparr>"
  note parts = server_core_parts [OF server_inv_core [OF inv]]
  have same: "sc_write_queue s1 = sc_write_queue s" "sc_decoder s1 = sc_decoder s" "sc_tasks s1 = sc_tasks s"
    "sc_reader s1 = sc_reader s" "sc_reading s1 = sc_reading s" "sc_operations s1 = sc_operations s"
    "sc_active_handlers s1 = sc_active_handlers s"
    by (simp_all add: s1_def)
  have grows: "queue_grows vf (sc_write_queue s) (sc_write_queue ?s2) []"
    using writer_grows(2) [OF env parts(3)] idle same(1) by simp
  have "resting (sc_lifecycle s1)"
    using parts(5) by (simp add: s1_def resting_def connection_transition_def)
  then have inv2: "server_inv vf ?s2"
    using parts same writer_loop_inv(1) [OF env parts(3)] idle closed_stays(4)
    by (intro server_advancesD [OF server_inv_frame [OF inv]]) simp_all
  have eq: "server_run E s = server_read_head E ?s2"
    by (simp add: server_run_def s1_def Let_def)
  have "server_quiet vf ?s2 (server_run E s)"
    unfolding eq using inv2 idle same parts(6) by (intro read_head_quiet [OF env]) (simp_all add: reader_frames_def)
  then show ?thesis
    using queue_grows_trans [OF grows, of "sc_write_queue (server_run E s)" "[]"] same
    by (simp add: server_quiet_def)
qed

lemma shutdown_quiet:
  assumes "server_inv vf s"
  shows "server_quiet vf s (server_shutdown_finish s)"
proof -
  let ?s1 = "if sc_active_handlers s \<noteq> 0 then fail_operations_on_connection_close s else s"
  note parts = server_core_parts [OF server_inv_core [OF assms]]
  have "sc_write_queue ?s1 = sc_write_queue s" "sc_decoder ?s1 = sc_decoder s" "sc_reader ?s1 = sc_reader s"
    "length (sc_tasks ?s1) = length (sc_tasks s)" "live_items (sc_tasks ?s1) = live_items (sc_tasks s)"
    using fail_operations_effect(1) [OF parts(1)] live_items_lost [OF parts(1)]
    by (simp_all add: same_server_wiring_def)
  moreover have "sc_write_queue (server_shutdown_finish s) = sc_write_queue ?s1"
    "sc_decoder (server_shutdown_finish s) = sc_decoder ?s1" "sc_reader (server_shutdown_finish s) = sc_reader ?s1"
    "sc_tasks (server_shutdown_finish s) = sc_tasks ?s1"
    by (simp_all add: server_shutdown_finish_def Let_def)
  ultimately show ?thesis
    using server_advancesD [OF server_shutdown_finish_advances [OF assms]]
    by (simp add: server_quiet_def reads_on_def)
qed

lemma server_writer_quiet:
  assumes env: "queue_env (env_queue E) vf vs" and inv: "server_inv vf s"
  shows "server_quiet vf s (server_write_completed E s failure)"
    and "wq_writer (sc_write_queue s) = Writer_receiving \<Longrightarrow> server_quiet vf s (server_frame_received E s)"
proof -
  note wq = server_core_parts(3) [OF server_inv_core [OF inv]]
  have q: "sc_write_queue (server_write_completed E s failure) =
      fst (writer_wrote (env_queue E) (sc_write_queue s) failure)"
    by (simp add: server_write_completed_def server_observe_write_def case_prod_beta Let_def split: option.split)
  have "queue_grows vf (sc_write_queue s) (sc_write_queue (server_write_completed E s failure)) []"
    unfolding q by (rule writer_grows(3) [OF env wq])
  moreover have "sc_tasks (server_write_completed E s failure) = sc_tasks s"
    "sc_decoder (server_write_completed E s failure) = sc_decoder s"
    "sc_reader (server_write_completed E s failure) = sc_reader s"
    by (simp_all add: server_write_completed_def server_observe_write_def case_prod_beta Let_def split: option.split)
  ultimately show "server_quiet vf s (server_write_completed E s failure)"
    using server_advancesD [OF server_write_completed_advances [OF env inv]] by (intro server_quiet_frame) simp_all
  show "server_quiet vf s (server_frame_received E s)" if "wq_writer (sc_write_queue s) = Writer_receiving"
    using server_advancesD [OF server_frame_received_advances [OF env inv that]] writer_grows(4) [OF env wq that]
    by (intro server_quiet_frame) (simp_all add: server_frame_received_def)
qed

lemma server_quiet_event:
  assumes env: "queue_env (env_queue E) vf vs" and inv: "server_inv vf s"
    and en: "server_enabled s ev" and "server_event E s ev = Some s'"
    and "\<And>b result. ev \<noteq> Server_read b result" and "ev \<noteq> Server_dispatch_next"
    and "\<And>i. ev \<noteq> Server_handler_started i" and "\<And>i v. ev \<noteq> Server_handler_returned i v"
    and "\<And>msg i. ev \<noteq> Server_handler_resumed msg i"
  shows "server_quiet vf s s'"
proof (cases ev)
  case (Server_handle request response)
  then have "s' = server_handle E s request response" using assms(4) by simp
  then show ?thesis
    using server_advancesD [OF server_handle_advances [OF inv, of E request response]]
    by (intro server_quiet_frame) (simp_all add: server_handle_def split: option.split)
next
  case Server_begin_shutdown
  then have "s' = server_begin_shutdown s" using assms(4) by simp
  then show ?thesis
    using server_advancesD [OF server_begin_shutdown_advances [OF inv]]
    by (intro server_quiet_frame) (simp_all add: server_begin_shutdown_def Let_def)
qed (use assms shutdown_quiet [OF inv] server_run_quiet [OF env inv] server_writer_quiet [OF env inv] in auto)

section \<open>Dispatching a request\<close>

lemma refusal_grows:
  assumes "queue_env (env_queue E) vf vs" and "wq_inv vf (sc_write_queue s)"
  shows "\<exists>fs. set fs \<subseteq> {make_error_frame sid st} \<and> length fs \<le> 1 \<and>
    queue_grows vf (sc_write_queue s) (sc_write_queue (send_operation_error E s sid st)) fs"
proof -
  let ?g = "make_error_frame sid st"
  let ?fs = "accepted_frame (Some (snd (try_enqueue (env_queue E) (sc_write_queue s) ?g))) ?g"
  have "queue_grows vf (sc_write_queue s) (sc_write_queue (send_operation_error E s sid st)) ?fs"
    using enqueue_grows(3) [OF assms error_frame_representable] by (simp add: send_operation_error_def)
  moreover have "set ?fs \<subseteq> {?g} \<and> length ?fs \<le> 1" by (simp add: accepted_frame_def)
  ultimately show ?thesis by blast
qed

text \<open>What \<open>dispatch\<close> does with a request: it ignores or refuses it, or it gives it a handler.\<close>

lemma request_dispatched:
  assumes "header_type (frame_header f) = FrameType_request"
    and "\<not> has_flag (header_flags (frame_header f)) Flags_cancel"
  obtains
    (error) st where "server_dispatch E s f =
      server_mark_terminal (send_operation_error E s (frame_stream f) st) f"
  | (ignored) "sc_write_queue (server_dispatch E s f) = sc_write_queue s"
      "sc_tasks (server_dispatch E s f) = sc_tasks s"
  | (accepted) types where "sc_write_queue (server_dispatch E s f) = sc_write_queue s"
      "sc_tasks (server_dispatch E s f) = sc_tasks s @ [new_task types f]"
proof -
  let ?d = "server_dispatch E s f"
  let ?M = "\<lambda>st. server_mark_terminal (send_operation_error E s (frame_stream f) st) f"
  have d: "?d = (if draining_or_later (sc_lifecycle s) then ?M Status_connection_closed
      else if frame_stream f \<in> sc_terminal_streams s then
        server_fail_connection s Status_malformed_frame ''duplicate terminal frame''
      else (case peek_message_type (frame_payload f) of
          None \<Rightarrow> ?M Status_decode_error
        | Some mt \<Rightarrow>
            (case sc_handlers s mt of
               None \<Rightarrow> ?M Status_unknown_message_type
             | Some types \<Rightarrow> server_dispatch E s f)))"
    using assms by (simp add: server_dispatch_def Let_def split: option.split)
  have routed: "sc_write_queue ?d = sc_write_queue s \<and>
      (sc_tasks ?d = sc_tasks s \<or> sc_tasks ?d = sc_tasks s @ [new_task types f])"
    if "\<not> draining_or_later (sc_lifecycle s)" "frame_stream f \<notin> sc_terminal_streams s"
      "peek_message_type (frame_payload f) = Some mt" "sc_handlers s mt = Some types" for mt types
    using assms that by (simp add: server_dispatch_def Let_def)
  show thesis
  proof (cases "draining_or_later (sc_lifecycle s) \<or> frame_stream f \<in> sc_terminal_streams s")
    case True
    then show ?thesis using that(1,2) d by (cases "draining_or_later (sc_lifecycle s)") simp_all
  next
    case False
    show ?thesis
    proof (cases "peek_message_type (frame_payload f)")
      case None
      then show ?thesis using that(1) d False by simp
    next
      case (Some mt)
      then show ?thesis using that d False routed [OF _ _ Some]
        by (cases "sc_handlers s mt") (simp, blast)
    qed
  qed
qed

lemma dispatch_outcome:
  assumes env: "queue_env (env_queue E) vf vs" and wq: "wq_inv vf (sc_write_queue s)"
    and "header_type (frame_header f) = FrameType_request"
    and "\<not> has_flag (header_flags (frame_header f)) Flags_cancel"
  obtains
    (refused) st gs where "set gs \<subseteq> {make_error_frame (frame_stream f) st}" and "length gs \<le> 1"
      and "queue_grows vf (sc_write_queue s) (sc_write_queue (server_dispatch E s f)) gs"
      and "sc_tasks (server_dispatch E s f) = sc_tasks s"
  | (spawned) types where "sc_write_queue (server_dispatch E s f) = sc_write_queue s"
      and "sc_tasks (server_dispatch E s f) = sc_tasks s @ [new_task types f]"
proof -
  from assms(3,4) show thesis
  proof (cases rule: request_dispatched [where E = E and s = s])
    case (error st)
    then show thesis using refusal_grows [OF env wq, of "frame_stream f" st] refused by auto
  next
    case ignored
    then show thesis using refused [of "[]"] by simp
  next
    case (accepted types)
    then show thesis by (rule spawned)
  qed
qed

text \<open>After the frame, the loop goes on with the next one or is left.\<close>

lemma dispatch_tail:
  assumes env: "queue_env (env_queue E) vf vs" and inv: "server_inv vf s"
    and reader: "sc_reader s = Reader_dispatching (f # fs)" and "dec_error (sc_decoder s) = None"
  defines "s2 \<equiv> server_dispatch E (server_notify s (diagnostics_event Event_message_transferred
    (header_stream (frame_header f)) Status_ok 0 True [])) f"
    and "s' \<equiv> server_dispatch_next E s"
  shows "server_inv vf s'" and "length (sc_tasks s') = length (sc_tasks s2)"
    and "live_items (sc_tasks s') = live_items (sc_tasks s2)"
    and "queue_grows vf (sc_write_queue s2) (sc_write_queue s') []"
    and "sc_decoder s' = sc_decoder s" and "reads_on s' fs"
proof -
  note parts = server_core_parts [OF server_inv_core [OF inv]]
  show inv': "server_inv vf s'"
    unfolding s'_def by (rule server_advancesD [OF server_dispatch_next_advances [OF env inv]])
  have dec: "sc_decoder s2 = sc_decoder s" and rd: "sc_reader s2 = sc_reader s" "sc_reading s2"
    using parts(6) reader by (simp_all add: s2_def server_dispatch_def Let_def split: option.split)
  have "stream_is_valid (frame_stream f)" using parts(7) reader by simp
  then have inv2: "server_inv vf s2"
    using server_advancesD [OF server_notify_advances [OF inv]] rd(2) unfolding s2_def
    by (intro server_advancesD [OF server_dispatch_advances [OF env]]) simp_all
  have eq: "s' = (if \<not> sc_transport_open s2 then server_frames_done E s2 else s2\<lparr>sc_reader := Reader_dispatching fs\<rparr>)"
    by (simp add: s'_def s2_def server_dispatch_next_def reader Let_def)
  have "server_quiet vf s2 s' \<and> sc_reader s' = Reader_done" if "\<not> sc_transport_open s2"
    using frames_done_quiet [OF env inv2 rd(2)] dec assms(4) that by (simp add: eq)
  then show "length (sc_tasks s') = length (sc_tasks s2)" and "live_items (sc_tasks s') = live_items (sc_tasks s2)"
    and "queue_grows vf (sc_write_queue s2) (sc_write_queue s') []" and "sc_decoder s' = sc_decoder s"
    and "reads_on s' fs"
    using dec server_core_parts(3) [OF server_inv_core [OF inv2]]
    by (cases "sc_transport_open s2"; simp add: eq server_quiet_def reads_on_def reader_frames_def)+
qed

section \<open>Handlers\<close>

text \<open>One handler goes on to the phase \<open>ph\<close>, the frames \<open>gs\<close> are sent, and nothing else moves.\<close>

definition task_moves ::
  "('ch \<Rightarrow> Frame ChannelView) \<Rightarrow> ('ch, 'sp, 't, 'v) ServerConnection \<Rightarrow>
     ('ch, 'sp, 't, 'v) ServerConnection \<Rightarrow> nat \<Rightarrow> 'v TaskPhase \<Rightarrow> Frame list \<Rightarrow> bool" where
  "task_moves vf s s' i ph gs \<longleftrightarrow>
     length (sc_tasks s') = length (sc_tasks s) \<and>
     live_items (sc_tasks s') =
       (if ph = Task_done then {#} else {#Item_task i (task_frame (sc_tasks s ! i)) ph#}) +
       other_items (sc_tasks s) i \<and>
     queue_grows vf (sc_write_queue s) (sc_write_queue s') gs \<and> sc_decoder s' = sc_decoder s \<and>
     sc_reader s' = sc_reader s"

lemma task_movesI:
  assumes "i < length (sc_tasks s)" and "sc_tasks s' = (sc_tasks s)[i := t]"
    and "task_frame t = task_frame (sc_tasks s ! i)" and "task_phase t = ph"
    and "queue_grows vf (sc_write_queue s) (sc_write_queue s') gs" and "sc_decoder s' = sc_decoder s"
    and "sc_reader s' = sc_reader s"
  shows "task_moves vf s s' i ph gs"
  using assms live_items_update [OF assms(1), of t] by (simp add: task_moves_def task_item_def)

lemma call_task_moves:
  assumes "i < length (sc_tasks s)" and "task_moves vf (fst (call_task_operation s i m)) s' i ph gs"
  shows "task_moves vf s s' i ph gs"
  using assms by (simp add: task_moves_def tasks_call other_items_def)

lemma handler_end_moves:
  assumes "queue_env (env_queue E) vf vs" and "wq_inv vf q" and "i < length (sc_tasks s)"
    and "queue_grows vf (sc_write_queue s) q gs"
  shows "task_moves vf s (run_handler_end E (s\<lparr>sc_write_queue := q\<rparr>) i) i Task_done gs"
proof -
  let ?s' = "run_handler_end E (s\<lparr>sc_write_queue := q\<rparr>) i"
  have "queue_grows vf q (sc_write_queue ?s') []"
    using writer_grows(1) [OF assms(1,2)] by (simp add: run_handler_end_def close_queue_when_idle_def Let_def)
  then have "queue_grows vf (sc_write_queue s) (sc_write_queue ?s') gs"
    using queue_grows_trans [OF assms(4)] by fastforce
  then show ?thesis
    using assms(3) by (intro task_movesI [where t = "(sc_tasks s ! i)\<lparr>task_phase := Task_done\<rparr>"])
      (simp_all add: run_handler_end_def update_task_def Let_def)
qed

lemmas handler_end_moves_idle =
  handler_end_moves [where q = "sc_write_queue s" and s = s and gs = "[]" for s, simplified]

lemma handler_sent_moves:
  assumes "queue_env (env_queue E) vf vs" and "wq_inv vf q" and "i < length (sc_tasks s)"
    and "queue_grows vf (sc_write_queue s) q (accepted_frame res f)"
  shows "task_moves vf s (handler_sent E s i f (q, res)) i
    (case res of None \<Rightarrow> Task_sending f | Some _ \<Rightarrow> Task_done) (accepted_frame res f)"
proof (cases res)
  case None
  then show ?thesis
    using assms(3,4) by (intro task_movesI [where t = "(sc_tasks s ! i)\<lparr>task_phase := Task_sending f\<rparr>"])
      (simp_all add: handler_sent_def update_task_def)
next
  case (Some w)
  then show ?thesis using handler_end_moves [OF assms] by (simp add: handler_sent_def)
qed

lemma handler_started_moves:
  assumes env: "queue_env (env_queue E) vf vs" and inv: "server_inv vf s" and i: "i < length (sc_tasks s)"
  defines "f \<equiv> task_frame (sc_tasks s ! i)"
  defines "request \<equiv> decode_message (env_codec E) (env_registry E) (handler_request (task_types (sc_tasks s ! i))) f"
  shows "decode_ok request \<Longrightarrow> task_moves vf s (handler_started E s i) i (Task_running (the (decode_value request))) []"
    and "\<not> decode_ok request \<Longrightarrow> \<exists>gs. set gs \<subseteq> {make_error_frame (frame_stream f) (decode_status request)} \<and>
      length gs \<le> 1 \<and> task_moves vf s (handler_started E s i) i Task_done gs"
proof -
  note wq = server_core_parts(3) [OF server_inv_core [OF inv]]
  show "task_moves vf s (handler_started E s i) i (Task_running (the (decode_value request))) []" if "decode_ok request"
    using that i
    by (intro task_movesI [where t = "(sc_tasks s ! i)\<lparr>task_phase := Task_running (the (decode_value request))\<rparr>"])
      (simp_all add: handler_started_def request_def f_def update_task_def Let_def)
  show "\<exists>gs. set gs \<subseteq> {make_error_frame (frame_stream f) (decode_status request)} \<and>
      length gs \<le> 1 \<and> task_moves vf s (handler_started E s i) i Task_done gs" if fail: "\<not> decode_ok request"
  proof -
    let ?s1 = "fst (call_task_operation s i (Call_fail (decode_status request) (decode_message_text request)))"
    let ?s2 = "send_operation_error E ?s1 (frame_stream f) (decode_status request)"
    obtain gs where gs: "set gs \<subseteq> {make_error_frame (frame_stream f) (decode_status request)}" "length gs \<le> 1"
      "queue_grows vf (sc_write_queue ?s1) (sc_write_queue ?s2) gs"
      using refusal_grows [OF env, of ?s1 "frame_stream f" "decode_status request"] wq by auto
    have "handler_started E s i = run_handler_end E (?s1\<lparr>sc_write_queue := sc_write_queue ?s2\<rparr>) i"
      using fail by (simp add: handler_started_def request_def f_def send_operation_error_def Let_def)
    moreover have "wq_inv vf (sc_write_queue ?s2)" using send_operation_error_wq [OF env] wq by simp
    ultimately have "task_moves vf ?s1 (handler_started E s i) i Task_done gs"
      using handler_end_moves [OF env _ _ gs(3)] i by simp
    then show ?thesis using gs(1,2) call_task_moves [OF i] by blast
  qed
qed

lemma handler_returned_moves:
  assumes env: "queue_env (env_queue E) vf vs" and inv: "server_inv vf s" and i: "i < length (sc_tasks s)"
  obtains
    (sent) f res v where "outcome = Some v" and "response_encoding E (sc_tasks s ! i) v = FrameEncodeResult_success f"
      and "replied E i (sc_tasks s ! i) v = [Rpc_reply i (handler_response (task_types (sc_tasks s ! i))) v]"
      and "task_moves vf s (handler_returned E s i outcome) i
        (case res of None \<Rightarrow> Task_sending (final_frame f) | Some _ \<Rightarrow> Task_done) (accepted_frame res (final_frame f))"
  | (dropped) "case outcome of None \<Rightarrow> True | Some v \<Rightarrow> replied E i (sc_tasks s ! i) v = []"
      and "task_moves vf s (handler_returned E s i outcome) i Task_done []"
proof (cases outcome)
  case None
  then show thesis
    using handler_end_moves_idle [OF env server_core_parts(3) [OF server_inv_core [OF inv]] i]
    by (intro dropped) (simp_all add: handler_returned_def)
next
  case (Some v)
  let ?s1 = "fst (call_task_operation s i (Call_complete ''response ready''))"
  note wq = server_core_parts(3) [OF server_inv_core [OF inv]]
  show thesis
  proof (cases rule: handler_returned_cases [OF env inv i, of v])
    case (1 f q res)
    have "queue_grows vf (sc_write_queue ?s1) q (accepted_frame res (final_frame f))"
      using enqueue_grows(1) [OF env server_core_parts(3) [OF server_inv_core [OF inv]] 1(6)] 1(7) by simp
    then have "task_moves vf ?s1 (handler_returned E s i outcome) i
        (case res of None \<Rightarrow> Task_sending (final_frame f) | Some _ \<Rightarrow> Task_done) (accepted_frame res (final_frame f))"
      unfolding Some 1(10) using i by (intro handler_sent_moves [OF env 1(8)]) simp_all
    then show thesis
      using 1(1,2) Some by (intro sent [OF Some 1(1)] call_task_moves [OF i]) (simp_all add: replied_def frame_encode_defs)
  next
    case 2
    have "task_moves vf ?s1 (run_handler_end E ?s1 i) i Task_done []" "task_moves vf s (run_handler_end E s i) i Task_done []"
      using handler_end_moves_idle [OF env, of ?s1 i] handler_end_moves_idle [OF env wq i] wq i by simp_all
    then have "task_moves vf s (handler_returned E s i outcome) i Task_done []"
      using 2(1) call_task_moves [OF i] by (auto simp: Some handler_returned_eq [OF inv i])
    then show thesis using 2(1) by (intro dropped) (auto simp: Some replied_def)
  qed
qed

lemma handler_resumed_moves:
  assumes env: "queue_env (env_queue E) vf vs" and inv: "server_inv vf s" and i: "i < length (sc_tasks s)"
    and "task_phase (sc_tasks s ! i) = Task_sending f"
  obtains res where "task_moves vf s (handler_resumed E msg s i f) i
    (case res of None \<Rightarrow> Task_sending f | Some _ \<Rightarrow> Task_done) (accepted_frame res f)"
proof -
  note core = server_inv_core [OF inv]
  obtain q res where q: "enqueue_resume (env_queue E) msg (sc_write_queue s) f = (q, res)" by fastforce
  have rep: "representable f"
    using table_inv_task [OF server_core_parts(1) [OF core] i] assms(4) by (simp add: task_ok_def)
  have "wq_inv vf q" "queue_grows vf (sc_write_queue s) q (accepted_frame res f)"
    using enqueue_resume_step [OF env server_core_parts(3) [OF core] rep q]
      enqueue_grows(2) [OF env server_core_parts(3) [OF core] rep, of msg] q by simp_all
  then show thesis
    using handler_sent_moves [OF env _ i] q by (intro that) (simp add: handler_resumed_def)
qed

end
