(* ===== verification/Session_Relation.thy ===== *)
theory Session_Relation
  imports Client_Effects Server_Effects
begin

text \<open>
  The simulation relation between a session and the specification \<open>Rpc\<close>, and that every event at
  the client keeps it. \<open>up\<close> are the frames the client's queue has accepted and the server has not
  dispatched, \<open>down\<close> those on their way back; \<open>useen\<close> and \<open>dseen\<close> were dispatched before.
\<close>

section \<open>The relation\<close>

definition items ::
  "('ch, 'sp, 't, 'v) Session \<Rightarrow> Frame list \<Rightarrow> Frame list \<Rightarrow> 'v Item multiset" where
  "items S up down =
     image_mset (\<lambda>(r, f). Item_request f) (mset (ss_starting S)) + image_mset Item_request (mset up) +
     live_items (sc_tasks (ss_server S)) + image_mset Item_answer (mset down)"

definition waiting_ok ::
  "('ch, 'sp, 't, 'v) Env \<Rightarrow> ('t, 'v) Rpc \<Rightarrow> StreamId list \<Rightarrow> Frame list list \<Rightarrow> bool" where
  "waiting_ok E A str B \<longleftrightarrow>
     (\<forall>r < length B. length (B ! r) \<le> 1 \<and>
        (\<forall>g \<in> set (B ! r). replies_to E A str r g \<and> r \<notin> rpc_delivered A))"

definition client_part ::
  "('ch, 'sp, 't, 'v) Env \<Rightarrow> ('ch \<Rightarrow> Frame ChannelView) \<Rightarrow> ('t, 'v) Rpc \<Rightarrow>
     ('ch, 'sp) ClientConnection \<Rightarrow> bool" where
  "client_part E vf A c \<longleftrightarrow>
     client_inv vf c \<and> started_reading c \<and> length (rpc_calls A) = length (cc_heap c) \<and>
     list_all stream_is_valid (streams c) \<and> waiting_ok E A (streams c) (buffers vf c) \<and>
     (\<forall>r \<in> rpc_delivered A. r < length (cc_heap c) \<and> \<not> unsettled c r)"

definition starting_part :: "('ch, 'sp) ClientConnection \<Rightarrow> (nat \<times> Frame) list \<Rightarrow> bool" where
  "starting_part c st \<longleftrightarrow>
     (\<forall>(r, f) \<in> set st. r < length (cc_heap c) \<and> frame_stream f = streams c ! r)"

definition rpc_part :: "('t \<Rightarrow> 'v \<Rightarrow> bool) \<Rightarrow> ('t, 'v) Rpc \<Rightarrow> nat \<Rightarrow> bool" where
  "rpc_part good A n \<longleftrightarrow>
     (\<forall>x \<in> set (rpc_calls A). good (fst x) (snd x)) \<and>
     (\<forall>x \<in> ran (rpc_replies A). good (fst x) (snd x)) \<and>
     dom (rpc_replies A) \<subseteq> dom (rpc_serves A) \<and> dom (rpc_serves A) \<subseteq> {..<n} \<and>
     ran (rpc_serves A) \<subseteq> {..<length (rpc_calls A)}"

definition up_part ::
  "('ch \<Rightarrow> Frame ChannelView) \<Rightarrow> ('ch, 'sp) ClientConnection \<Rightarrow> ('ch, 'sp, 't, 'v) ServerConnection \<Rightarrow>
     nat \<Rightarrow> Frame list \<Rightarrow> Frame list \<Rightarrow> bool" where
  "up_part vf c s n useen up \<longleftrightarrow>
     (\<exists>got. pipe vf (cc_write_queue c) n (sc_decoder s) (useen @ up) got \<and>
        (sc_reader s \<noteq> Reader_done \<longrightarrow> got = useen @ reader_frames (sc_reader s)))"

definition down_part ::
  "('ch \<Rightarrow> Frame ChannelView) \<Rightarrow> ('ch, 'sp) ClientConnection \<Rightarrow> ('ch, 'sp, 't, 'v) ServerConnection \<Rightarrow>
     nat \<Rightarrow> Frame list \<Rightarrow> Frame list \<Rightarrow> bool" where
  "down_part vf c s n dseen down \<longleftrightarrow>
     (\<exists>got. pipe vf (sc_write_queue s) n (cc_decoder c) (dseen @ down) got \<and>
        (listening c \<longrightarrow> got = dseen))"

definition session_rel ::
  "('ch, 'sp, 't, 'v) Env \<Rightarrow> ('ch \<Rightarrow> Frame ChannelView) \<Rightarrow> ('t \<Rightarrow> 'v \<Rightarrow> bool) \<Rightarrow>
     ('ch, 'sp, 't, 'v) Session \<Rightarrow> ('t, 'v) Rpc \<Rightarrow> Frame list \<Rightarrow> Frame list \<Rightarrow> Frame list \<Rightarrow>
     Frame list \<Rightarrow> bool" where
  "session_rel E vf good S A useen up dseen down \<longleftrightarrow>
     client_part E vf A (ss_client S) \<and> server_inv vf (ss_server S) \<and>
     starting_part (ss_client S) (ss_starting S) \<and>
     rpc_part good A (length (sc_tasks (ss_server S))) \<and>
     play E A (streams (ss_client S)) (alive (ss_client S)) (items S up down) \<and>
     up_part vf (ss_client S) (ss_server S) (ss_up S) useen up \<and>
     down_part vf (ss_client S) (ss_server S) (ss_down S) dseen down"

definition session_sim ::
  "('ch, 'sp, 't, 'v) Env \<Rightarrow> ('ch \<Rightarrow> Frame ChannelView) \<Rightarrow> ('t \<Rightarrow> 'v \<Rightarrow> bool) \<Rightarrow>
     ('ch, 'sp, 't, 'v) Session \<Rightarrow> ('t, 'v) Rpc \<Rightarrow> bool" where
  "session_sim E vf good S A \<longleftrightarrow> (\<exists>useen up dseen down. session_rel E vf good S A useen up dseen down)"

lemma session_relD:
  assumes "session_rel E vf good S A useen up dseen down"
  shows "client_part E vf A (ss_client S)" and "server_inv vf (ss_server S)"
    and "starting_part (ss_client S) (ss_starting S)"
    and "rpc_part good A (length (sc_tasks (ss_server S)))"
    and "play E A (streams (ss_client S)) (alive (ss_client S)) (items S up down)"
    and "up_part vf (ss_client S) (ss_server S) (ss_up S) useen up"
    and "down_part vf (ss_client S) (ss_server S) (ss_down S) dseen down"
  using assms by (simp_all add: session_rel_def)

lemma client_partD:
  assumes "client_part E vf A c"
  shows "client_inv vf c" and "started_reading c" and "length (rpc_calls A) = length (cc_heap c)"
    and "list_all stream_is_valid (streams c)" and "waiting_ok E A (streams c) (buffers vf c)"
    and "r \<in> rpc_delivered A \<Longrightarrow> r < length (cc_heap c)" and "r \<in> rpc_delivered A \<Longrightarrow> \<not> unsettled c r"
  using assms by (auto simp: client_part_def)

lemma session_simI: "session_rel E vf good S A useen up dseen down \<Longrightarrow> session_sim E vf good S A"
  unfolding session_sim_def by blast

section \<open>The start\<close>

lemma session_sim_start:
  assumes env: "queue_env (env_queue E) vf vs"
  shows "session_sim E vf good (new_session E lim mx hook lim' hook') new_rpc"
proof -
  let ?S = "new_session E lim mx hook lim' hook'"
  have "client_part E vf new_rpc (ss_client ?S)"
    using new_client_inv [OF env, of lim mx hook]
    by (simp add: client_part_def new_session_def started_reading_def new_rpc_def waiting_ok_def)
      (simp add: new_client_def buffers_def streams_def operations_def)
  moreover have "server_inv vf (ss_server ?S)" "sc_tasks (ss_server ?S) = []" "sc_reader (ss_server ?S) = Reader_idle"
    using new_server_inv [OF env, of lim' hook'] by (simp_all add: new_session_def new_server_def)
  moreover have "items ?S [] [] = {#}"
    by (simp add: items_def new_session_def new_server_def)
  moreover have "up_part vf (ss_client ?S) (ss_server ?S) (ss_up ?S) [] []"
    "down_part vf (ss_client ?S) (ss_server ?S) (ss_down ?S) [] []"
    using pipe_start [OF env]
    by (simp_all add: up_part_def down_part_def new_session_def new_client_def new_server_def reader_frames_def)
      blast+
  ultimately have "session_rel E vf good ?S new_rpc [] [] [] []"
    by (simp add: session_rel_def starting_part_def rpc_part_def new_rpc_def)
      (simp add: new_session_def)
  then show ?thesis unfolding session_sim_def by blast
qed

section \<open>Frames of items are valid on the wire\<close>

lemma requests_valid:
  assumes "requests E A str f r" and "list_all stream_is_valid str"
  shows "wire_valid f" and "\<not> has_flag (header_flags (frame_header f)) Flags_cancel"
    and "header_type (frame_header f) = FrameType_request"
proof -
  have enc: "request_encoding E (fst (rpc_calls A ! r)) (snd (rpc_calls A ! r)) (str ! r) =
      FrameEncodeResult_success f" and sid: "stream_is_valid (str ! r)"
    using assms by (auto simp: requests_def list_all_length)
  show "wire_valid f"
    using sid by (intro encode_message_arrives [OF enc [unfolded request_encoding_def]])
      (simp_all add: is_known_frame_type_def has_only_known_flags_iff has_flag_def flags_and_def)
  show "\<not> has_flag (header_flags (frame_header f)) Flags_cancel"
    and "header_type (frame_header f) = FrameType_request"
    using enc unfolding request_encoding_def
    by (auto simp: has_flag_def flags_and_def elim: encode_message_success)
qed

lemma replies_valid:
  assumes "replies_to E A str r g" and "list_all stream_is_valid str"
  shows "wire_valid g" and "\<not> has_flag (header_flags (frame_header g)) Flags_cancel"
    and "\<not> has_flag (header_flags (frame_header g)) Flags_error"
proof -
  obtain tr w f where f: "g = final_frame f" "encode_message (env_codec E) (env_registry E) tr w
      (str ! r) FrameType_response Flags_none default_max_payload_size current_protocol_version =
      FrameEncodeResult_success f" and sid: "stream_is_valid (str ! r)"
    using assms by (auto simp: replies_to_def list_all_length)
  have "wire_valid f"
    using sid by (intro encode_message_arrives [OF f(2)])
      (simp_all add: is_known_frame_type_def has_only_known_flags_iff has_flag_def flags_and_def)
  moreover have "header_flags (frame_header f) = Flags_none"
    by (rule encode_message_success [OF f(2)]) simp
  ultimately show "wire_valid g" and "\<not> has_flag (header_flags (frame_header g)) Flags_cancel"
    and "\<not> has_flag (header_flags (frame_header g)) Flags_error"
    unfolding f(1) by (rule final_frame_valid)+
qed

lemma answer_valid:
  assumes "item_ok E A str pend (Item_answer g)" and "list_all stream_is_valid str"
  shows "wire_valid g" and "\<not> has_flag (header_flags (frame_header g)) Flags_cancel"
proof -
  obtain r where r: "r < length str" "frame_stream g = str ! r" "replies_to E A str r g \<or> is_error_frame g"
    using assms(1) by auto
  have "wire_valid g \<and> \<not> has_flag (header_flags (frame_header g)) Flags_cancel"
  proof (cases "replies_to E A str r g")
    case True
    then show ?thesis using replies_valid [OF _ assms(2)] by blast
  next
    case False
    then obtain sid st where "g = make_error_frame sid st" using r(3) by (auto simp: is_error_frame_def)
    then show ?thesis
      using r(1,2) assms(2) error_frame_valid [of sid] error_frame_flags
      by (simp add: list_all_length default_max_payload_size_def error_frame_header)
  qed
  then show "wire_valid g" and "\<not> has_flag (header_flags (frame_header g)) Flags_cancel" by simp_all
qed

section \<open>Steps of the client that keep the parts\<close>

lemma unsettled_advance:
  assumes "client_inv vf c" and "client_advances vf c c'" and "r < length (cc_heap c)" and "\<not> unsettled c r"
  shows "\<not> unsettled c' r"
proof -
  have "op_step (operations c ! r) (operations c' ! r)" "r < length (cc_heap c')"
    using assms(2,3) by (auto simp: client_advances_def ops_le_def)
  then show ?thesis
    using settled_iff [OF assms(1,3)] assms(3,4) settled_iff [OF client_advancesD [OF assms(2)]]
    by (auto simp: op_step_def op_is_terminal_def)
qed

lemma waiting_update:
  assumes "waiting_ok E A str B" and "length b \<le> 1"
    and "\<And>g. g \<in> set b \<Longrightarrow> replies_to E A str r g \<and> r \<notin> rpc_delivered A"
  shows "waiting_ok E A str (B[r := b])"
proof -
  have "length (B[r := b] ! q) \<le> 1 \<and>
      (\<forall>g \<in> set (B[r := b] ! q). replies_to E A str q g \<and> q \<notin> rpc_delivered A)" if "q < length B" for q
    using assms that by (cases "q = r") (simp_all add: waiting_ok_def)
  then show ?thesis by (simp add: waiting_ok_def)
qed

lemma client_part_step:
  assumes "client_part E vf A c" and "client_advances vf c c'" and "streams c' = streams c"
    and "waiting_ok E A (streams c) (buffers vf c')" and "started_reading c'"
  shows "client_part E vf A c'"
proof -
  note parts = client_partD [OF assms(1)]
  have len: "length (cc_heap c') = length (cc_heap c)" using arg_cong [OF assms(3), of length] by simp
  have "\<not> unsettled c' r" if "r \<in> rpc_delivered A" for r
    by (rule unsettled_advance [OF parts(1) assms(2) parts(6,7)]) (rule that)+
  then show ?thesis
    using parts(3,4,6) assms len client_advancesD [OF assms(2)] by (simp add: client_part_def)
qed

lemma client_part_moves:
  assumes "client_part E vf A c" and "client_moves vf c c' B m fs" and "waiting_ok E A (streams c) B"
  shows "client_part E vf A c'"
  using assms client_partD(2) [OF assms(1)]
  by (intro client_part_step [OF assms(1)]) (simp_all add: client_moves_def started_reading_def)

lemma up_part_client:
  assumes "up_part vf c s n useen up" and "queue_grows vf (cc_write_queue c) (cc_write_queue c') fs"
    and "list_all wire_valid fs"
  shows "up_part vf c' s n useen (up @ fs)"
proof -
  obtain got where got: "pipe vf (cc_write_queue c) n (sc_decoder s) (useen @ up) got"
    "sc_reader s \<noteq> Reader_done \<longrightarrow> got = useen @ reader_frames (sc_reader s)"
    using assms(1) by (auto simp: up_part_def)
  have "pipe vf (cc_write_queue c') n (sc_decoder s) (useen @ up @ fs) got"
    using pipe_grows [OF got(1) assms(2,3)] by simp
  then show ?thesis using got(2) unfolding up_part_def by blast
qed

lemma down_part_client:
  assumes "down_part vf c s n dseen down" and "cc_decoder c' = cc_decoder c" and "listening c' \<Longrightarrow> listening c"
  shows "down_part vf c' s n dseen down"
  using assms by (auto simp: down_part_def)

lemma starting_part_mono:
  assumes "starting_part c st" and "prefix (streams c) (streams c')" and "set st' \<subseteq> set st"
  shows "starting_part c' st'"
proof -
  have "length (streams c) \<le> length (streams c')" using assms(2) by (rule prefix_length_le)
  moreover have "streams c' ! r = streams c ! r" if "r < length (cc_heap c)" for r
    using assms(2) that by (auto simp: prefix_def nth_append)
  ultimately show ?thesis using assms(1,3) unfolding starting_part_def by fastforce
qed

text \<open>Quiet events.\<close>

lemma rel_quiet:
  assumes rel: "session_rel E vf good S A useen up dseen down"
    and quiet: "client_quiet vf (ss_client S) c'" and "listening c' \<Longrightarrow> listening (ss_client S)"
  shows "session_rel E vf good (S\<lparr>ss_client := c'\<rparr>) A useen up dseen down"
proof -
  note parts = session_relD [OF rel]
  let ?c = "ss_client S"
  have "client_part E vf A c'"
    using quiet client_partD(5) [OF parts(1)]
    by (intro client_part_step [OF parts(1)]) (simp_all add: client_quiet_def)
  moreover have "starting_part c' (ss_starting S)"
    using quiet by (intro starting_part_mono [OF parts(3)]) (simp_all add: client_quiet_def)
  moreover have "play E A (streams c') (alive c') (items S up down)"
    using quiet parts(5) play_dead [OF parts(5)] by (auto simp: client_quiet_def)
  moreover have "up_part vf c' (ss_server S) (ss_up S) useen up"
    using up_part_client [OF parts(6), of c' "[]"] quiet by (simp add: client_quiet_def)
  moreover have "down_part vf c' (ss_server S) (ss_down S) dseen down"
    using quiet assms(3) by (intro down_part_client [OF parts(7)]) (simp_all add: client_quiet_def)
  moreover have "items (S\<lparr>ss_client := c'\<rparr>) up down = items S up down" by (simp add: items_def)
  ultimately show ?thesis using parts by (simp add: session_rel_def)
qed

section \<open>Starting requests\<close>

lemma waiting_issue:
  assumes "waiting_ok E A str B" and "length B = length str"
  shows "waiting_ok E (A\<lparr>rpc_calls := rpc_calls A @ calls\<rparr>) (str @ [sid]) (B @ [[]])"
  using assms replies_to_issue [of E A str _ _ calls "[sid]"]
  by (auto simp: waiting_ok_def nth_append less_Suc_eq)

lemma client_part_issue:
  assumes part: "client_part E vf A c" and st: "client_starts vf c c' sid m fs" and "stream_is_valid sid"
  shows "client_part E vf (A\<lparr>rpc_calls := rpc_calls A @ [(ty, v)]\<rparr>) c'"
proof -
  note parts = client_partD [OF part]
  have c': "client_advances vf c c'" "streams c' = streams c @ [sid]" "buffers vf c' = buffers vf c @ [[]]"
    "cc_lifecycle c' = cc_lifecycle c" "cc_reading c' = cc_reading c"
    using st by (simp_all add: client_starts_def)
  have len: "length (cc_heap c') = Suc (length (cc_heap c))"
    using arg_cong [OF c'(2), of length] by simp
  have "\<not> unsettled c' r" if "r \<in> rpc_delivered A" for r
    by (rule unsettled_advance [OF parts(1) c'(1) parts(6,7)]) (rule that)+
  then show ?thesis
    using parts(2-4,6) c' len waiting_issue [OF parts(5), of "[(ty, v)]" sid] assms(3)
      client_advancesD [OF c'(1)]
    by (auto simp: client_part_def started_reading_def less_Suc_eq)
qed

lemma request_frame:
  assumes "request_encoding E ty v sid = FrameEncodeResult_success f"
  shows "frame_stream f = sid" and "stream_is_valid sid \<Longrightarrow> wire_valid f"
proof -
  note enc = assms [unfolded request_encoding_def]
  show "frame_stream f = sid" using enc by (auto elim: encode_message_success)
  show "wire_valid f" if "stream_is_valid sid"
    using that by (intro encode_message_arrives [OF enc])
      (simp_all add: is_known_frame_type_def has_only_known_flags_iff has_flag_def flags_and_def)
qed

text \<open>A new request comes into play, or is refused by the queue at once.\<close>

lemma play_started:
  assumes play: "play E A str (Some m) M" and "m sid = None"
    and "request_encoding E ty v sid = FrameEncodeResult_success f"
    and len: "length (rpc_calls A) = length str" "ran (rpc_serves A) \<subseteq> {..<length str}"
  defines "A' \<equiv> A\<lparr>rpc_calls := rpc_calls A @ [(ty, v)]\<rparr>"
  shows "play E A' (str @ [sid]) (Some m) M"
    and "play E A' (str @ [sid]) (Some (m(sid \<mapsto> length str))) (add_mset (Item_request f) M)"
proof -
  show old: "play E A' (str @ [sid]) (Some m) M"
    unfolding A'_def by (rule play_issue [OF play])
  have other: "item_stream x \<noteq> sid" if "x \<in># M" for x
  proof -
    have "item_ok E A' (str @ [sid]) (Some m) x" using old that by (simp add: play_def)
    then obtain r where "m (item_stream x) = Some r" by (rule item_owner)
    then show ?thesis using assms(2) by auto
  qed
  have "frame_stream f = sid" by (rule request_frame(1) [OF assms(3)])
  then have "requests E A' (str @ [sid]) f (length str)"
    using assms(3) len by (simp add: A'_def requests_def nth_append)
  moreover have "length str \<notin> ran (rpc_serves A')" using len by (auto simp: A'_def)
  ultimately have "item_ok E A' (str @ [sid]) (Some (m(sid \<mapsto> length str))) (Item_request f)"
    using \<open>frame_stream f = sid\<close> by (auto simp: owned_by_def)
  moreover have "play E A' (str @ [sid]) (Some (m(sid \<mapsto> length str))) M"
    using other by (intro play_pend [OF old]) simp
  ultimately show "play E A' (str @ [sid]) (Some (m(sid \<mapsto> length str))) (add_mset (Item_request f) M)"
    using other \<open>frame_stream f = sid\<close> by (simp add: play_add)
qed

lemma rel_start:
  assumes env: "queue_env (env_queue E) vf vs" and rel: "session_rel E vf good S A useen up dseen down"
    and start: "start_request E (ss_client S) ty v = (c', out)"
    and typed: "call_issued E (ss_client S) ty v \<noteq> [] \<Longrightarrow> good ty v"
  shows "\<exists>A' up'. rpc_run A (call_issued E (ss_client S) ty v) A' \<and>
    session_rel E vf good (S\<lparr>ss_client := c', ss_starting := starting_add out (ss_starting S)\<rparr>) A'
      useen up' dseen down"
proof -
  let ?c = "ss_client S" and ?r = "length (cc_heap (ss_client S))"
  note parts = session_relD [OF rel] and cl = client_partD [OF session_relD(1) [OF rel]]
  have listen: "listening c' \<Longrightarrow> listening ?c"
    using start_keeps_reader(1,2) [of E ?c ty v] start by (simp add: listening_def)
  from env cl(1) start show ?thesis
  proof (cases rule: start_moves)
    case (refused st msg)
    have "call_issued E ?c ty v = []"
      using refused(2) start by (simp add: call_issued_def client_moves_def) (metis length_streams less_irrefl)
    moreover have "session_rel E vf good (S\<lparr>ss_client := c'\<rparr>) A useen up dseen down"
      using rel_quiet [OF rel moves_quiet [OF refused(2) cl(2)] listen] .
    ultimately show ?thesis
      using rpc_run.start refused(1) by (intro exI [of _ A] exI [of _ up]) (simp add: starting_add_def)
  next
    case (started sid f fs m)
    let ?A = "A\<lparr>rpc_calls := rpc_calls A @ [(ty, v)]\<rparr>" and ?st = "starting_add out (ss_starting S)"
    let ?S = "S\<lparr>ss_client := c', ss_starting := ?st\<rparr>"
    have c': "client_advances vf ?c c'" "streams c' = streams ?c @ [sid]"
      "map_of (cc_pending c') = m" "cc_lifecycle c' = cc_lifecycle ?c" "cc_decoder c' = cc_decoder ?c"
      "queue_grows vf (cc_write_queue ?c) (cc_write_queue c') fs"
      using started(5) by (simp_all add: client_starts_def)
    have len: "length (cc_heap c') = Suc ?r" using arg_cong [OF c'(2), of length] by simp
    have vis: "call_issued E ?c ty v = [Rpc_issue ?r ty v]" using start len by (simp add: call_issued_def)
    have alive: "alive ?c = Some (map_of (cc_pending ?c))" "alive c' = Some m"
      using started(1) c'(3,4) by (simp_all add: alive_def rejects_requests_def)
    note pl = play_started [OF parts(5) [unfolded alive] started(4,2)]
    have ranS: "ran (rpc_serves A) \<subseteq> {..<length (streams ?c)}"
      using parts(4) cl(3) by (simp add: rpc_part_def)
    note f = request_frame [OF started(2)]
    have st: "starting_part c' ?st"
      using starting_part_mono [OF parts(3), of c' "ss_starting S"] c'(2) started(6) len f(1)
      by (auto simp: starting_part_def starting_add_def nth_append split: StartOutcome.splits)
    have play: "play E ?A (streams c') (alive c') (items ?S (up @ fs) down)"
      using started(6) pl [OF _ ranS] cl(3) c'(2)
      by (auto simp: alive items_def starting_add_def)
    have up: "up_part vf c' (ss_server S) (ss_up S) useen (up @ fs)"
      using up_part_client [OF parts(6) c'(6)] started(3,6) f(2) by auto
    have "session_rel E vf good ?S ?A useen (up @ fs) dseen down"
      using client_part_issue [OF parts(1) started(5,3), of ty v] parts(2,4) st play up typed vis
        down_part_client [OF parts(7) c'(5) listen] cl(3)
      by (auto simp: session_rel_def rpc_part_def)
    moreover have "rpc_run A [Rpc_issue ?r ty v] ?A"
      using rpc_run.step [OF rpc_run.start rpc_step.issue, of ?r A ty v] cl(3) by simp
    ultimately show ?thesis unfolding vis by blast
  qed
qed

text \<open>The requests in play after a suspended one has been resumed: it stays, or it has failed.\<close>

lemma play_resumed:
  assumes play: "play E A (streams c) (alive c) (add_mset (Item_request f) M)"
    and mv: "client_moves vf c c' B m fs" and r: "r < length (cc_heap c)" "frame_stream f = streams c ! r"
  shows "m = settled_table c r \<Longrightarrow> play E A (streams c) (alive c') M"
    and "m = map_of (cc_pending c) \<Longrightarrow> play E A (streams c) (alive c') (add_mset (Item_request f) M)"
proof -
  have c': "map_of (cc_pending c') = m" "cc_lifecycle c' = cc_lifecycle c"
    using mv by (simp_all add: client_moves_def)
  show "play E A (streams c) (alive c') (add_mset (Item_request f) M)" if "m = map_of (cc_pending c)"
    using play that c' by (simp add: alive_def split: if_splits)
  show "play E A (streams c) (alive c') M" if failed: "m = settled_table c r"
  proof (cases "alive c")
    case None
    then have "alive c' = None" using c' by (simp add: alive_def split: if_splits)
    then show ?thesis using play None by (simp add: play_add)
  next
    case (Some m0)
    then have m0: "m0 = map_of (cc_pending c)" "alive c' = Some m"
      using c' by (auto simp: alive_def split: if_splits)
    have "play E A (streams c) (Some m0) M" using play Some by (simp add: play_add)
    moreover have "m (item_stream x) = m0 (item_stream x)" if "x \<in># M" for x
      using play that failed r by (auto simp: play_add m0 nth_streams)
    ultimately show ?thesis unfolding m0(2) by (rule play_pend)
  qed
qed

lemma rel_resume:
  assumes env: "queue_env (env_queue E) vf vs" and rel: "session_rel E vf good S A useen up dseen down"
    and mem: "(r, f) \<in> set (ss_starting S)" and rep: "representable f"
    and resume: "start_request_resume E msg (ss_client S) r f = (c', out)"
  shows "\<exists>up'. session_rel E vf good
    (S\<lparr>ss_client := c', ss_starting := starting_add out (remove1 (r, f) (ss_starting S))\<rparr>) A useen up' dseen down"
proof -
  let ?c = "ss_client S" and ?st = "starting_add out (remove1 (r, f) (ss_starting S))"
  let ?M = "items (S\<lparr>ss_starting := remove1 (r, f) (ss_starting S)\<rparr>) up down"
  note parts = session_relD [OF rel] and cl = client_partD [OF session_relD(1) [OF rel]]
  have r: "r < length (cc_heap ?c)" "frame_stream f = streams ?c ! r"
    using parts(3) mem by (auto simp: starting_part_def)
  have its: "items S up down = add_mset (Item_request f) ?M"
  proof -
    have "mset (ss_starting S) = add_mset (r, f) (mset (remove1 (r, f) (ss_starting S)))"
      using mem by simp
    then show ?thesis unfolding items_def by (simp del: mset_remove1)
  qed
  note play = parts(5) [unfolded its]
  obtain m fs where mv: "client_moves vf ?c c' (buffers vf ?c) m fs"
    and how: "(\<exists>st what. out = Start_failed st what) \<and> fs = [] \<and> m = settled_table ?c r \<or>
       m = map_of (cc_pending ?c) \<and>
       ((\<exists>h. out = Start_ok h) \<and> fs = [f] \<or> out = Start_suspended r f \<and> fs = [])"
    by (rule resume_moves [OF env cl(1) r(1) rep resume])
  have c': "streams c' = streams ?c" "map_of (cc_pending c') = m" "cc_lifecycle c' = cc_lifecycle ?c"
    "cc_decoder c' = cc_decoder ?c" "queue_grows vf (cc_write_queue ?c) (cc_write_queue c') fs"
    using mv by (simp_all add: client_moves_def)
  have listen: "listening c' \<Longrightarrow> listening ?c"
    using start_keeps_reader(5,6) [of E msg ?c r f] resume by (simp add: listening_def)
  have "wire_valid f"
    using play requests_valid(1) [OF _ cl(4)] by (auto simp: play_add)
  then have up: "up_part vf c' (ss_server S) (ss_up S) useen (up @ fs)"
    using up_part_client [OF parts(6) c'(5)] how by auto
  have "set ?st \<subseteq> set (ss_starting S)"
    using how mem set_remove1_subset [of "(r, f)" "ss_starting S"]
    by (auto simp: starting_add_def split: StartOutcome.splits)
  then have st: "starting_part c' ?st"
    by (intro starting_part_mono [OF parts(3)]) (simp_all add: c'(1))
  have "play E A (streams c') (alive c') (items (S\<lparr>ss_client := c', ss_starting := ?st\<rparr>) (up @ fs) down)"
    using how play_resumed [OF play mv r] by (auto simp: c'(1) items_def starting_add_def)
  then have "session_rel E vf good (S\<lparr>ss_client := c', ss_starting := ?st\<rparr>) A useen (up @ fs) dseen down"
    using client_part_moves [OF parts(1) mv cl(5)] parts(2,4) st up
      down_part_client [OF parts(7) c'(4) listen] by (simp add: session_rel_def)
  then show ?thesis by blast
qed

section \<open>Waiting\<close>

text \<open>The waiting side gets the value of the reply if it asks for its type, and nothing otherwise.\<close>

lemma reply_decoded:
  assumes codec: "codec_contract (env_codec E) good" and reg: "registry_inv (env_registry E)"
    and enc: "encode_message (env_codec E) (env_registry E) tr w sid FrameType_response Flags_none
      default_max_payload_size current_protocol_version = FrameEncodeResult_success f"
    and "good tr w"
  shows "decode_message (env_codec E) (env_registry E) tr (final_frame f) = DecodeResult_success w"
    and "ty \<noteq> tr \<Longrightarrow> decode_value (decode_message (env_codec E) (env_registry E) ty (final_frame f)) = None"
proof -
  have version: "header_version (frame_header f) = current_protocol_version"
    by (rule encode_message_success [OF enc]) simp
  then show "decode_message (env_codec E) (env_registry E) tr (final_frame f) = DecodeResult_success w"
    unfolding final_frame_def by (intro message_roundtrip(2) [OF codec assms(4) enc]) simp
  show "decode_value (decode_message (env_codec E) (env_registry E) ty (final_frame f)) = None" if "ty \<noteq> tr"
    unfolding final_frame_def using version that by (intro other_type_fails(2) [OF reg enc]) simp_all
qed

text \<open>Taking the reply out of its channel, with and without delivering it.\<close>

lemma rel_take_reply:
  assumes rel: "session_rel E vf good S A useen up dseen down" and r: "r < length (cc_heap (ss_client S))"
    and mv: "client_moves vf (ss_client S) c' ((buffers vf (ss_client S))[r := []]) m []"
    and m: "m = map_of (cc_pending (ss_client S))"
    and settled: "\<not> unsettled (ss_client S) r" and listen: "listening c' \<Longrightarrow> listening (ss_client S)"
  shows "session_rel E vf good (S\<lparr>ss_client := c'\<rparr>) A useen up dseen down"
    and "session_rel E vf good (S\<lparr>ss_client := c'\<rparr>) (A\<lparr>rpc_delivered := insert r (rpc_delivered A)\<rparr>)
      useen up dseen down"
proof -
  let ?c = "ss_client S" and ?A = "A\<lparr>rpc_delivered := insert r (rpc_delivered A)\<rparr>"
  note parts = session_relD [OF rel] and cl = client_partD [OF session_relD(1) [OF rel]]
  have W: "waiting_ok E A (streams ?c) ((buffers vf ?c)[r := []])"
    by (rule waiting_update [OF cl(5)]) simp_all
  then have W': "waiting_ok E ?A (streams ?c) ((buffers vf ?c)[r := []])"
    by (auto simp: waiting_ok_def nth_list_update)
  have c': "client_advances vf ?c c'" "streams c' = streams ?c" "alive c' = alive ?c"
    "cc_decoder c' = cc_decoder ?c" "buffers vf c' = (buffers vf ?c)[r := []]"
    "queue_grows vf (cc_write_queue ?c) (cc_write_queue c') []"
    using mv m by (simp_all add: client_moves_def alive_def)
  have len: "length (cc_heap c') = length (cc_heap ?c)" using arg_cong [OF c'(2), of length] by simp
  show old: "session_rel E vf good (S\<lparr>ss_client := c'\<rparr>) A useen up dseen down"
    using client_part_moves [OF parts(1) mv W] parts(2-5) c'
      starting_part_mono [OF parts(3), of c' "ss_starting S"] up_part_client [OF parts(6) c'(6)]
      down_part_client [OF parts(7) c'(4) listen]
    by (simp add: session_rel_def items_def)
  have "client_part E vf ?A c'"
    using client_part_moves [OF parts(1) mv W] W' unsettled_advance [OF cl(1) c'(1) r settled] r len c'(2,5)
    by (auto simp: client_part_def)
  then show "session_rel E vf good (S\<lparr>ss_client := c'\<rparr>) ?A useen up dseen down"
    using old by (simp add: session_rel_def rpc_part_def)
qed

lemma rel_wait:
  assumes env: "queue_env (env_queue E) vf vs" and codec: "codec_contract (env_codec E) good"
    and reg: "registry_inv (env_registry E)" and rel: "session_rel E vf good S A useen up dseen down"
    and r: "ro_pending h = Some r" "r < length (cc_heap (ss_client S))"
    and wait: "async_wait_completed E (ss_client S) h ty = (c', res)"
  shows "\<exists>A'. rpc_run A (delivered r ty res) A' \<and> session_rel E vf good (S\<lparr>ss_client := c'\<rparr>) A' useen up dseen down"
proof -
  let ?c = "ss_client S"
  note parts = session_relD [OF rel] and cl = client_partD [OF session_relD(1) [OF rel]]
  have listen: "listening c' \<Longrightarrow> listening ?c"
    using handles_keep_reader(9,10) [of E ?c h ty] wait by (simp add: listening_def)
  from env cl(1) r wait show ?thesis
  proof (cases rule: wait_completed_moves)
    case unchanged
    then show ?thesis
      using rel_quiet [OF rel moves_quiet [OF unchanged(1) cl(2)] listen] rpc_run.start by auto
  next
    case (message g rest)
    have B: "r < length (buffers vf ?c)" using r(2) by simp
    have rest: "rest = []" "replies_to E A (streams ?c) r g" "r \<notin> rpc_delivered A"
      using cl(5) B message(1) by (auto simp: waiting_ok_def)
    obtain i tr w f where i: "rpc_serves A i = Some r" "rpc_replies A i = Some (tr, w)" "g = final_frame f"
      "encode_message (env_codec E) (env_registry E) tr w (streams ?c ! r) FrameType_response Flags_none
        default_max_payload_size current_protocol_version = FrameEncodeResult_success f"
      using rest(2) by (auto simp: replies_to_def)
    have "good tr w" using parts(4) i(2) by (force simp: rpc_part_def ran_def)
    note dec = reply_decoded [OF codec reg i(4) this]
    have vis: "delivered r ty res = (if ty = tr then [Rpc_deliver r tr w] else [])"
      using dec by (auto simp: delivered_def message(4) i(3) DecodeResult_success_def)
    note took = rel_take_reply [OF rel r(2) message(3) [unfolded rest(1)] refl message(2) listen]
    show ?thesis
    proof (cases "ty = tr")
      case True
      then show ?thesis
        using took(2) vis rpc_run.step [OF rpc_run.start rpc_step.deliver [OF i(1,2) rest(3)]] by auto
    next
      case False
      then show ?thesis using took(1) vis rpc_run.start by auto
    qed
  qed
qed

section \<open>Reading\<close>

text \<open>
  Dispatching the answer that is next. Either the request it belongs to is settled and the rest
  stays in play, or the connection has failed and nothing is pending any more.
\<close>

lemma play_settled:
  assumes "client_inv vf c" and "play E A (streams c) (alive c) (add_mset (Item_answer g) M)"
    and "is_response_to c g r"
    and "client_moves vf c c' B ((map_of (cc_pending c))(frame_stream g := None)) fs"
  shows "play E A (streams c) (alive c') M"
proof -
  have "cc_lifecycle c \<noteq> Connection_closed"
    using assms(3) client_inv_parts(5) [OF assms(1)] by (auto simp: is_response_to_def)
  then have "alive c = Some (map_of (cc_pending c))"
    "alive c' = Some ((map_of (cc_pending c))(frame_stream g := None))"
    using assms(4) by (simp_all add: alive_def client_moves_def)
  then show ?thesis using assms(2) by (auto simp: play_add intro: play_pend)
qed

lemma dispatch_rel:
  assumes env: "queue_env (env_queue E) vf vs" and part: "client_part E vf A c"
    and play: "play E A (streams c) (alive c) (add_mset (Item_answer g) M)"
    and disp: "dispatch E c g = Some c'"
  obtains B m where "client_moves vf c c' B m []" and "client_part E vf A c'"
    and "play E A (streams c') (alive c') M \<or> \<not> cc_transport_open c' \<and> play E A (streams c') None M"
proof -
  note cl = client_partD [OF part]
  have item: "item_ok E A (streams c) (alive c) (Item_answer g)"
    and old: "play E A (streams c) (alive c) M"
    using play by (simp_all add: play_add)
  note settled = play_settled [OF cl(1) play]
  from env cl(1) answer_valid(2) [OF item cl(4)] disp show thesis
  proof (cases rule: dispatch_moves)
    case (completed r)
    obtain r' where r': "owned_by (alive c) (frame_stream g) r'" "replies_to E A (streams c) r' g \<or> is_error_frame g"
      using item by auto
    have "cc_lifecycle c \<noteq> Connection_closed"
      using completed(1) client_inv_parts(5) [OF cl(1)] by (auto simp: is_response_to_def)
    then have "r' = r"
      using r'(1) completed(1) by (simp add: owned_by_def alive_def is_response_to_def)
    moreover have "\<not> is_error_frame g"
      using completed(2) error_frame_flags by (auto simp: is_error_frame_def error_frame_header)
    ultimately have rep: "replies_to E A (streams c) r g" using r'(2) by simp
    have "unsettled c r"
      using completed(1) unsettled_pending(1) [OF cl(1)] is_response_to_facts(1,2) [OF cl(1) completed(1)]
      by (simp add: is_response_to_def)
    then have "r \<notin> rpc_delivered A" using cl(7) by blast
    then have "waiting_ok E A (streams c) ((buffers vf c)[r := [g]])"
      using rep by (intro waiting_update [OF cl(5)]) simp_all
    then show thesis
      using that [OF completed(3) client_part_moves [OF part completed(3)]] settled [OF completed(1,3)] completed(3)
      by (simp add: client_moves_def)
  next
    case (rejected r)
    then show thesis
      using that [OF rejected(3) client_part_moves [OF part rejected(3) cl(5)]] settled [OF rejected(1,3)]
      by (simp add: client_moves_def)
  next
    case failed
    then show thesis
      using that [OF failed(1) client_part_moves [OF part failed(1) cl(5)]] play_dead [OF old]
      by (simp add: client_moves_def)
  qed
qed

lemma dispatch_all_rel:
  assumes env: "queue_env (env_queue E) vf vs" and "client_part E vf A c"
    and "play E A (streams c) (alive c) (M + image_mset Item_answer (mset fs))"
    and "dispatch_all E c fs = Some c'"
  shows "client_part E vf A c' \<and> client_advances vf c c' \<and> streams c' = streams c \<and>
    cc_lifecycle c' = cc_lifecycle c \<and> cc_decoder c' = cc_decoder c \<and>
    queue_grows vf (cc_write_queue c) (cc_write_queue c') [] \<and>
    (play E A (streams c) (alive c') M \<or> \<not> cc_transport_open c' \<and> play E A (streams c) None M)"
  using assms(2-)
proof (induction fs arbitrary: c)
  case Nil
  then show ?case using client_advances_refl client_partD(1) by fastforce
next
  case (Cons g fs)
  let ?c0 = "notify c (diagnostics_event Event_message_transferred (frame_stream g) Status_ok 0 True [])"
  let ?N = "M + image_mset Item_answer (mset fs)"
  have same: "streams ?c0 = streams c" "alive ?c0 = alive c"
    by (simp_all add: streams_def alive_def)
  have adv0: "client_advances vf c ?c0" by (rule notify_advances [OF client_partD(1) [OF Cons.prems(1)]])
  have part0: "client_part E vf A ?c0"
    using client_partD(2,5) [OF Cons.prems(1)]
    by (intro client_part_step [OF Cons.prems(1) adv0]) (simp_all add: same started_reading_def)
  obtain c1 where c1: "dispatch E ?c0 g = Some c1"
    "(if \<not> cc_transport_open c1 then Some c1 else dispatch_all E c1 fs) = Some c'"
    using Cons.prems(3) by (auto split: Option.bind_splits)
  have "play E A (streams ?c0) (alive ?c0) (add_mset (Item_answer g) ?N)"
    using Cons.prems(2) by (simp add: same)
  then obtain B m where d: "client_moves vf ?c0 c1 B m []" "client_part E vf A c1"
    "play E A (streams c1) (alive c1) ?N \<or> \<not> cc_transport_open c1 \<and> play E A (streams c1) None ?N"
    by (rule dispatch_rel [OF env part0 _ c1(1)])
  have mv: "client_advances vf c c1" "streams c1 = streams c" "cc_lifecycle c1 = cc_lifecycle c"
    "cc_decoder c1 = cc_decoder c" "queue_grows vf (cc_write_queue c) (cc_write_queue c1) []"
    using d(1) client_advances_trans [OF adv0] by (simp_all add: client_moves_def same)
  show ?case
  proof (cases "cc_transport_open c1")
    case False
    then have "c' = c1" using c1(2) by simp
    have "M \<subseteq># ?N" by simp
    then show ?thesis
      using d(2,3) mv play_mono [of E A "streams c" _ ?N M] unfolding \<open>c' = c1\<close> by auto
  next
    case True
    then have "play E A (streams c1) (alive c1) ?N" "dispatch_all E c1 fs = Some c'" using d(3) c1(2) by auto
    note ih = Cons.IH [OF d(2) this]
    show ?thesis
      using ih mv client_advances_trans [OF mv(1)]
        queue_grows_trans [OF mv(5), of "cc_write_queue c'" "[]"] by auto
  qed
qed

lemma rel_lost:
  assumes env: "queue_env (env_queue E) vf vs" and rel: "session_rel E vf good S A useen up dseen down"
    and reading: "cc_reading (ss_client S)" and "result = None \<or> result = Some []"
    and "read_completed E (ss_client S) still_open result = Some c'"
  shows "session_rel E vf good (S\<lparr>ss_client := c'\<rparr>) A useen up dseen down"
proof -
  let ?c = "ss_client S"
  let ?closing = "?c\<lparr>cc_transport_open := cc_transport_open ?c \<and> still_open\<rparr>"
  note cl = client_partD [OF session_relD(1) [OF rel]]
  have exit: "read_loop_exit E ?closing = Some c'" using assms(4,5) by (auto simp: read_completed_def Let_def)
  have quiet0: "client_quiet vf ?c ?closing" by (rule quiet_frame [OF cl(1)]) (simp_all add: cl(2))
  moreover have "cc_lifecycle ?closing \<noteq> Connection_created" using cl(2) reading by (simp add: started_reading_def)
  then have "client_quiet vf ?closing c'"
    using quiet0 by (intro exit_quiet(1) [OF env _ _ exit]) (simp_all add: client_quiet_def client_advances_def)
  ultimately have "client_quiet vf ?c c'" by (rule quiet_trans)
  then show ?thesis using rel_quiet [OF rel] reading by (simp add: listening_def)
qed

text \<open>A round of the read loop: the frames of one read, and the decision to go on or to end.\<close>

lemma read_loop_rel:
  assumes env: "queue_env (env_queue E) vf vs" and part: "client_part E vf A c" and reading: "cc_reading c"
    and play: "play E A (streams c) (alive c) (M + image_mset Item_answer (mset fs))"
    and disp: "dispatch_all E c fs = Some c1" and head: "read_loop_head E c1 = Some c'"
  shows "client_part E vf A c'" and "streams c' = streams c" and "cc_decoder c' = cc_decoder c"
    and "queue_grows vf (cc_write_queue c) (cc_write_queue c') []" and "play E A (streams c) (alive c') M"
proof -
  note loop = dispatch_all_rel [OF env part play disp]
  have life: "cc_lifecycle c1 \<noteq> Connection_created"
    using loop client_partD(2) [OF part] reading by (simp add: started_reading_def)
  have inv: "client_inv vf c1" using loop by (simp add: client_part_def)
  have quiet: "client_quiet vf c1 c'" by (rule head_quiet [OF env inv life head])
  show "client_part E vf A c'"
    using quiet client_partD(5) [OF conjunct1 [OF loop]]
    by (intro client_part_step [OF conjunct1 [OF loop]]) (simp_all add: client_quiet_def)
  show "streams c' = streams c" "cc_decoder c' = cc_decoder c"
    using quiet loop by (simp_all add: client_quiet_def)
  show "queue_grows vf (cc_write_queue c) (cc_write_queue c') []"
    using loop quiet queue_grows_trans [of vf "cc_write_queue c" "cc_write_queue c1" "[]" "cc_write_queue c'" "[]"]
    by (simp add: client_quiet_def)
  show "play E A (streams c) (alive c') M"
  proof (cases "cc_transport_open c1")
    case True
    then have "alive c' = alive c1 \<or> alive c' = None" "play E A (streams c) (alive c1) M"
      using quiet loop by (simp_all add: client_quiet_def)
    then show ?thesis using play_dead by auto
  next
    case False
    then have "alive c' = None"
      using exit_quiet(2) [OF env inv life, of c'] head by (simp add: read_loop_head_def)
    then show ?thesis using loop play_dead by auto
  qed
qed

lemma rel_bytes:
  assumes env: "queue_env (env_queue E) vf vs" and rel: "session_rel E vf good S A useen up dseen down"
    and reading: "cc_reading (ss_client S)" and bytes: "result = Some bs" "bs \<noteq> []"
    and wire: "prefix bs (unread (ss_down S) (sc_write_queue (ss_server S)))"
    and read: "read_completed E (ss_client S) still_open result = Some c'"
  shows "\<exists>dseen' down'. session_rel E vf good (S\<lparr>ss_client := c', ss_down := ss_down S + length bs\<rparr>) A
    useen up dseen' down'"
proof -
  let ?c = "ss_client S" and ?s = "ss_server S"
  note parts = session_relD [OF rel] and cl = client_partD [OF session_relD(1) [OF rel]]
  have pipe: "pipe vf (sc_write_queue ?s) (ss_down S) (cc_decoder ?c) (dseen @ down) dseen"
    using parts(7) reading by (auto simp: down_part_def listening_def)
  obtain d fs where d: "push (cc_decoder ?c) bs = Some (d, fs)" "dec_inv d"
    by (rule push_returns [OF client_inv_parts(3) [OF cl(1)]])
  obtain down' where down': "down = fs @ down'" "dec_error d = None"
    "pipe vf (sc_write_queue ?s) (ss_down S + length bs) d ((dseen @ fs) @ down') (dseen @ fs)"
    using pipe_next [OF pipe wire d(1)] by (metis append_assoc)
  define c2 where "c2 = (notify (?c\<lparr>cc_transport_open := cc_transport_open ?c \<and> still_open\<rparr>)
    (diagnostics_event Event_bytes_transferred StreamId_default Status_ok (length bs) True []))\<lparr>cc_decoder := d\<rparr>"
  have adv2: "client_advances vf ?c c2"
    unfolding c2_def using d(2) by (intro client_inv_frame [OF cl(1)]) (simp_all add: client_inv_parts [OF cl(1)])
  have same2: "streams c2 = streams ?c" "alive c2 = alive ?c" "cc_lifecycle c2 = cc_lifecycle ?c"
    "cc_write_queue c2 = cc_write_queue ?c" "cc_decoder c2 = d" "buffers vf c2 = buffers vf ?c" "cc_reading c2"
    using reading by (simp_all add: c2_def streams_def operations_def alive_def buffers_def)
  have part2: "client_part E vf A c2"
    using cl(2,5) same2 reading by (intro client_part_step [OF parts(1) adv2]) (simp_all add: started_reading_def)
  let ?M = "items S up down'"
  have its: "items S up down = ?M + image_mset Item_answer (mset fs)"
    by (simp add: items_def down'(1))
  obtain c3 where c3: "dispatch_all E c2 fs = Some c3" "read_loop_head E c3 = Some c'"
    using read d(1) down'(2) bytes
    by (auto simp: read_completed_def c2_def Let_def split: Option.bind_splits list.splits)
  note loop = read_loop_rel [OF env part2 same2(7) _ c3, of ?M, unfolded same2, OF parts(5) [unfolded its]]
  have "up_part vf c' ?s (ss_up S) useen up"
    using up_part_client [OF parts(6) loop(4)] by simp
  then have "session_rel E vf good (S\<lparr>ss_client := c', ss_down := ss_down S + length bs\<rparr>) A
      useen up (dseen @ fs) down'"
    using parts(2-4) down'(3) loop starting_part_mono [OF parts(3), of c' "ss_starting S"]
    by (auto simp: session_rel_def down_part_def items_def)
  then show ?thesis by blast
qed

lemma rel_read:
  assumes env: "queue_env (env_queue E) vf vs" and rel: "session_rel E vf good S A useen up dseen down"
    and reading: "cc_reading (ss_client S)"
    and wire: "read_possible result (unread (ss_down S) (sc_write_queue (ss_server S)))"
    and read: "read_completed E (ss_client S) still_open result = Some c'"
  shows "session_sim E vf good (S\<lparr>ss_client := c', ss_down := ss_down S + bytes_read result\<rparr>) A"
proof (cases "result = None \<or> result = Some []")
  case True
  then show ?thesis
    using rel_lost [OF env rel reading True read] by (auto simp: bytes_read_def intro: session_simI)
next
  case False
  then obtain bs where "result = Some bs" "bs \<noteq> []" by auto
  then show ?thesis
    using rel_bytes [OF env rel reading _ _ _ read, of bs] wire
    by (auto simp: bytes_read_def read_possible_def intro: session_simI)
qed

section \<open>All events at the client\<close>

definition well_typed :: "('t \<Rightarrow> 'v \<Rightarrow> bool) \<Rightarrow> ('t, 'v) RpcEvent \<Rightarrow> bool" where
  "well_typed good ev \<longleftrightarrow>
     (case ev of Rpc_issue _ ty v \<Rightarrow> good ty v | Rpc_reply _ ty v \<Rightarrow> good ty v | _ \<Rightarrow> True)"

lemma issued_typed:
  "list_all (well_typed good) (call_issued E c ty v) \<Longrightarrow> call_issued E c ty v \<noteq> [] \<Longrightarrow> good ty v"
  by (simp add: call_issued_def well_typed_def split: if_splits)

lemma client_quiet_event:
  assumes env: "queue_env (env_queue E) vf vs" and inv: "client_inv vf (ss_client S)" and "started_reading (ss_client S)"
    and "session_enabled S (At_client ev)" and "\<not> abandons S (At_client ev)"
    and "client_event E (ss_client S) ev = Some c'"
    and "\<And>b result. ev \<noteq> Client_read b result" and "\<And>ty v. ev \<noteq> Client_start ty v"
    and "\<And>ty v d. ev \<noteq> Client_start_deadline ty v d" and "\<And>msg r f. ev \<noteq> Client_resume msg r f"
    and "\<And>msg r f d. ev \<noteq> Client_resume_deadline msg r f d" and "\<And>h ty. ev \<noteq> Client_wait_completed h ty"
  shows "client_quiet vf (ss_client S) c'"
proof (cases ev)
  case Client_run
  then show ?thesis using run_quiet [OF env inv] assms(4,6) by simp
next
  case (Client_timer r err)
  then show ?thesis
    using assms(4-6) settled_quiet(1) [OF inv _ _ assms(3)] quiet_refl [OF inv assms(3)]
    by (auto simp: timer_completed_def)
next
  case (Client_cancel h msg)
  then show ?thesis
    using assms(4-6) settled_quiet(2) [OF inv _ _ assms(3)] quiet_refl [OF inv assms(3)]
    by (auto simp: handle_cancel_def handle_unsettled_def handle_valid_def)
next
  case (Client_destroy h)
  then show ?thesis
    using assms(4-6) settled_quiet(3) [OF inv _ _ assms(3)] quiet_refl [OF inv assms(3)]
    by (auto simp: handle_destroy_def handle_unsettled_def handle_valid_def)
next
  case Client_shutdown_finish
  then show ?thesis using shutdown_finish_quiet [OF env inv] assms(4,6) by simp
qed (use assms in \<open>auto simp: wait_quiet [OF env inv] begin_shutdown_quiet writer_quiet [OF env inv]\<close>)

text \<open>Arming the timer of a request that has been started.\<close>

lemma rel_deadline:
  assumes rel: "session_rel E vf good (S\<lparr>ss_client := c, ss_starting := st\<rparr>) A useen up dseen down"
    and "\<And>h. out = Start_ok h \<Longrightarrow> the (ro_pending h) < length (cc_heap c)"
  shows "session_rel E vf good (S\<lparr>ss_client := fst (start_request_deadline c out d), ss_starting := st\<rparr>)
    A useen up dseen down"
proof -
  note cl = client_partD [OF session_relD(1) [OF rel], simplified]
  have "client_quiet vf c (fst (start_request_deadline c out d))"
    by (rule moves_quiet [OF deadline_moves [OF cl(1) assms(2)] cl(2)])
  then show ?thesis
    using rel_quiet [OF rel, of "fst (start_request_deadline c out d)"] start_keeps_reader(3,4) [of c out d]
    by (simp add: listening_def session_rel_def items_def)
qed

lemma rel_start_deadline:
  assumes env: "queue_env (env_queue E) vf vs" and rel: "session_rel E vf good S A useen up dseen down"
    and start: "start_request E (ss_client S) ty v = (c1, out)"
    and typed: "call_issued E (ss_client S) ty v \<noteq> [] \<Longrightarrow> good ty v"
  shows "\<exists>A' up'. rpc_run A (call_issued E (ss_client S) ty v) A' \<and>
    session_rel E vf good (S\<lparr>ss_client := fst (start_request_deadline c1 out d),
      ss_starting := starting_add out (ss_starting S)\<rparr>) A' useen up' dseen down"
proof -
  have "the (ro_pending h) < length (cc_heap c1)" if "out = Start_ok h" for h
    using start_request_handle(2,3) [OF env client_partD(1) [OF session_relD(1) [OF rel]], of ty v c1 h]
      start that by simp
  note timer = rel_deadline [OF _ this]
  from rel_start [OF env rel start typed] timer show ?thesis by blast
qed

lemma rel_resume_deadline:
  assumes env: "queue_env (env_queue E) vf vs" and rel: "session_rel E vf good S A useen up dseen down"
    and en: "session_enabled S (At_client (Client_resume_deadline msg r f d))"
    and resume: "start_request_resume E msg (ss_client S) r f = (c1, out)"
  shows "\<exists>up'. session_rel E vf good (S\<lparr>ss_client := fst (start_request_deadline c1 out d),
      ss_starting := starting_add out (remove1 (r, f) (ss_starting S))\<rparr>) A useen up' dseen down"
proof -
  note cl = client_partD [OF session_relD(1) [OF rel]]
  have "client_advances vf (ss_client S) c1"
    using client_eventD [OF env cl(1), of "Client_resume msg r f" c1] en resume by simp
  then have "length (cc_heap (ss_client S)) \<le> length (cc_heap c1)"
    by (simp add: client_advances_def ops_le_def)
  then have "the (ro_pending h) < length (cc_heap c1)" if "out = Start_ok h" for h
    using resumed_handle [of E msg "ss_client S" r f c1 h] resume en that by simp
  note timer = rel_deadline [OF _ this]
  have "(r, f) \<in> set (ss_starting S)" "representable f" using en by simp_all
  from rel_resume [OF env rel this resume] timer show ?thesis by blast
qed

lemmas client_step_defs = starting_after_def client_bytes_read_def client_visible_def

lemma start_simulated:
  assumes env: "queue_env (env_queue E) vf vs" and rel: "session_rel E vf good S A useen up dseen down"
    and ev: "ev = Client_start ty v \<or> ev = Client_start_deadline ty v d"
    and step: "session_event E S (At_client ev) = Some (S', vis)" and typed: "list_all (well_typed good) vis"
  shows "\<exists>A'. rpc_run A vis A' \<and> session_sim E vf good S' A'"
proof -
  obtain c1 out where st: "start_request E (ss_client S) ty v = (c1, out)" by fastforce
  have vis: "vis = call_issued E (ss_client S) ty v" using step ev by (auto simp: client_visible_def split: prod.splits)
  note sound = issued_typed [OF typed [unfolded vis]]
  show ?thesis
    using ev
  proof
    assume "ev = Client_start ty v"
    with step st rel_start [OF env rel st sound] show ?thesis
      by (auto simp: client_step_defs intro: session_simI)
  next
    assume "ev = Client_start_deadline ty v d"
    with step st rel_start_deadline [OF env rel st sound, of d] show ?thesis
      by (auto simp: client_step_defs intro: session_simI)
  qed
qed

lemma resume_simulated:
  assumes env: "queue_env (env_queue E) vf vs" and rel: "session_rel E vf good S A useen up dseen down"
    and ev: "ev = Client_resume msg r f \<or> ev = Client_resume_deadline msg r f d"
    and en: "session_enabled S (At_client ev)"
    and step: "session_event E S (At_client ev) = Some (S', vis)"
  shows "\<exists>A'. rpc_run A vis A' \<and> session_sim E vf good S' A'"
proof -
  obtain c1 out where st: "start_request_resume E msg (ss_client S) r f = (c1, out)" by fastforce
  have "session_sim E vf good S' A \<and> vis = []"
    using ev
  proof
    assume e: "ev = Client_resume msg r f"
    then have "(r, f) \<in> set (ss_starting S)" "representable f" using en by simp_all
    from e step st rel_resume [OF env rel this st] show ?thesis
      by (auto simp: client_step_defs intro: session_simI)
  next
    assume e: "ev = Client_resume_deadline msg r f d"
    with step st rel_resume_deadline [OF env rel en [unfolded e] st] show ?thesis
      by (auto simp: client_step_defs intro: session_simI)
  qed
  then show ?thesis using rpc_run.start by blast
qed

lemma client_simulated:
  assumes env: "queue_env (env_queue E) vf vs" and codec: "codec_contract (env_codec E) good"
    and reg: "registry_inv (env_registry E)" and rel: "session_rel E vf good S A useen up dseen down"
    and en: "session_enabled S (At_client ev)" and patient: "\<not> abandons S (At_client ev)"
    and step: "session_event E S (At_client ev) = Some (S', vis)" and typed: "list_all (well_typed good) vis"
  shows "\<exists>A'. rpc_run A vis A' \<and> session_sim E vf good S' A'"
proof -
  let ?c = "ss_client S"
  note cl = client_partD [OF session_relD(1) [OF rel]]
  obtain c' where c': "client_event E ?c ev = Some c'"
    and S': "S' = S\<lparr>ss_client := c', ss_starting := starting_after E ?c ev (ss_starting S),
      ss_down := ss_down S + client_bytes_read ev\<rparr>" and vis: "vis = client_visible E ?c ev"
    using step by (auto split: option.splits)
  have en': "client_enabled ?c ev" using en by simp
  have quiet: ?thesis if "client_quiet vf ?c c'" "starting_after E ?c ev (ss_starting S) = ss_starting S"
    "client_bytes_read ev = 0" "vis = []"
  proof -
    have "session_rel E vf good (S\<lparr>ss_client := c'\<rparr>) A useen up dseen down"
      using en by (intro rel_quiet [OF rel that(1)] listening_event [OF cl(1) c' en']) auto
    then have "session_sim E vf good S' A" using that session_simI unfolding S' by simp
    then show ?thesis using rpc_run.start that(4) by blast
  qed
  show ?thesis
  proof (cases ev)
    case (Client_read still_open result)
    then show ?thesis
      using rel_read [OF env rel, of result still_open c'] en c' rpc_run.start
      by (auto simp: S' vis client_step_defs)
  next
    case (Client_start ty v)
    then show ?thesis using start_simulated [OF env rel _ step typed] by blast
  next
    case (Client_start_deadline ty v d)
    then show ?thesis using start_simulated [OF env rel _ step typed] by blast
  next
    case (Client_resume msg r f)
    then show ?thesis using resume_simulated [OF env rel _ en step] by blast
  next
    case (Client_resume_deadline msg r f d)
    then show ?thesis using resume_simulated [OF env rel _ en step] by blast
  next
    case (Client_wait_completed h ty)
    obtain c1 res where w: "async_wait_completed E ?c h ty = (c1, res)" by fastforce
    obtain r where r: "ro_pending h = Some r" "r < length (cc_heap ?c)"
      using en Client_wait_completed by (auto simp: handle_valid_def)
    show ?thesis
      using rel_wait [OF env codec reg rel r w] c' Client_wait_completed w r
      by (auto simp: S' vis client_step_defs intro: session_simI)
  qed (rule quiet; use client_quiet_event [OF env cl(1,2) en patient c'] in
      \<open>simp add: vis client_step_defs\<close>)+
qed

end
