(* ===== verification/Session_Refinement.thy ===== *)
theory Session_Refinement
  imports Session_Relation
begin

text \<open>
  Every event at the server keeps the simulation relation, and with the client's half this gives
  the refinement: a session in which no request is abandoned behaves as the specification \<open>Rpc\<close>.
\<close>

section \<open>Parts of the relation and the server\<close>

lemma client_part_serve:
  assumes "client_part E vf A c" and "rpc_serves A i = None"
  shows "client_part E vf (A\<lparr>rpc_serves := (rpc_serves A)(i \<mapsto> r)\<rparr>) c"
  using assms(1) by (auto simp: client_part_def waiting_ok_def intro!: replies_to_serve [OF assms(2)])

lemma client_part_reply:
  assumes "client_part E vf A c" and "rpc_replies A i = None"
  shows "client_part E vf (A\<lparr>rpc_replies := (rpc_replies A)(i \<mapsto> x)\<rparr>) c"
  using assms(1) by (auto simp: client_part_def waiting_ok_def intro!: replies_to_reply [OF assms(2)])

lemma up_part_server:
  assumes "up_part vf c s n useen up" and "sc_decoder s' = sc_decoder s"
    and "sc_reader s = Reader_done \<Longrightarrow> sc_reader s' = Reader_done"
    and "reads_on s' (reader_frames (sc_reader s))"
  shows "up_part vf c s' n useen up"
  using assms by (auto simp: up_part_def reads_on_def)

text \<open>
  What there is to show about an event at the server that reads up to \<open>n\<close> and sends \<open>gs\<close>.
\<close>

lemma rel_server:
  assumes rel: "session_rel E vf good S A useen up dseen down" and "server_inv vf s'"
    and part: "client_part E vf A' (ss_client S)" and "rpc_part good A' (length (sc_tasks s'))"
    and play: "play E A' (streams (ss_client S)) (alive (ss_client S))
      (items (S\<lparr>ss_server := s'\<rparr>) up' (down @ gs))"
    and "up_part vf (ss_client S) s' n useen' up'"
    and grows: "queue_grows vf (sc_write_queue (ss_server S)) (sc_write_queue s') gs"
  shows "session_rel E vf good (S\<lparr>ss_server := s', ss_up := n\<rparr>) A' useen' up' dseen (down @ gs)"
proof -
  note parts = session_relD [OF rel]
  obtain got where got: "pipe vf (sc_write_queue (ss_server S)) (ss_down S) (cc_decoder (ss_client S)) (dseen @ down) got"
    "listening (ss_client S) \<longrightarrow> got = dseen"
    using parts(7) by (auto simp: down_part_def)
  have "wire_valid g" if "g \<in> set gs" for g
  proof -
    have "Item_answer g \<in># items (S\<lparr>ss_server := s'\<rparr>) up' (down @ gs)" using that by (simp add: items_def)
    then have "item_ok E A' (streams (ss_client S)) (alive (ss_client S)) (Item_answer g)"
      using play unfolding play_def by blast
    then show ?thesis by (rule answer_valid(1) [OF _ client_partD(4) [OF part]])
  qed
  then have "list_all wire_valid gs" by (simp add: list_all_iff)
  then have "pipe vf (sc_write_queue s') (ss_down S) (cc_decoder (ss_client S)) (dseen @ down @ gs) got"
    using pipe_grows [OF got(1) grows] by simp
  then have "down_part vf (ss_client S) s' (ss_down S) dseen (down @ gs)"
    using got(2) unfolding down_part_def by blast
  then show ?thesis
    using assms(2-6) parts(3) by (simp add: session_rel_def items_def)
qed

lemma server_rel_quiet:
  assumes rel: "session_rel E vf good S A useen up dseen down" and quiet: "server_quiet vf (ss_server S) s'"
  shows "session_rel E vf good (S\<lparr>ss_server := s'\<rparr>) A useen up dseen down"
proof -
  note parts = session_relD [OF rel]
  have "items (S\<lparr>ss_server := s'\<rparr>) up (down @ []) = items S up down"
    using quiet by (simp add: items_def server_quiet_def)
  moreover have "up_part vf (ss_client S) s' (ss_up S) useen up"
    using quiet by (intro up_part_server [OF parts(6)]) (simp_all add: server_quiet_def)
  ultimately have "session_rel E vf good (S\<lparr>ss_server := s', ss_up := ss_up S\<rparr>) A useen up dseen (down @ [])"
    using quiet parts(1,4,5) by (intro rel_server [OF rel]) (simp_all add: server_quiet_def)
  then show ?thesis by simp
qed

section \<open>Reading\<close>

lemma server_rel_read:
  assumes env: "queue_env (env_queue E) vf vs" and rel: "session_rel E vf good S A useen up dseen down"
    and reading: "sc_reader (ss_server S) = Reader_reading"
    and wire: "read_possible result (unread (ss_up S) (cc_write_queue (ss_client S)))"
    and read: "server_read_completed E (ss_server S) still_open result = Some s'"
  shows "session_rel E vf good (S\<lparr>ss_server := s', ss_up := ss_up S + bytes_read result\<rparr>) A useen up dseen down"
proof -
  let ?s = "ss_server S" and ?c = "ss_client S"
  note parts = session_relD [OF rel]
  let ?s1 = "?s\<lparr>sc_transport_open := sc_transport_open ?s \<and> still_open\<rparr>"
  have inv': "server_inv vf s'"
    using server_eventD [OF env parts(2), of "Server_read still_open result" s'] read reading by simp
  show ?thesis
  proof (cases "result = None \<or> result = Some []")
    case True
    then obtain b where s': "s' = server_read_exit E ?s1 b" using read by (auto simp: server_read_completed_def Let_def)
    have "server_inv vf ?s1" by (rule server_advancesD [OF close_transport_advances [OF parts(2)]])
    then have "server_quiet vf ?s s'"
      unfolding s' using read_exit_quiet(1) [OF env, of ?s1 b] by (simp add: server_quiet_def reads_on_def)
    then show ?thesis using server_rel_quiet [OF rel] True by (auto simp: bytes_read_def)
  next
    case False
    then obtain bs where bs: "result = Some bs" "bs \<noteq> []" by auto
    obtain d fs where d: "push (sc_decoder ?s) bs = Some (d, fs)" "sc_decoder s' = d"
      "sc_reader s' = Reader_dispatching fs" "sc_tasks s' = sc_tasks ?s" "sc_write_queue s' = sc_write_queue ?s"
      using read bs by (auto simp: server_read_completed_def Let_def split: Option.bind_splits list.splits)
    have "pipe vf (cc_write_queue ?c) (ss_up S) (sc_decoder ?s) (useen @ up) useen"
      using parts(6) reading by (auto simp: up_part_def reader_frames_def)
    then have "pipe vf (cc_write_queue ?c) (ss_up S + length bs) d (useen @ up) (useen @ fs)"
      using wire d(1) bs(1) by (intro pipe_read) (simp_all add: read_possible_def)
    then have "up_part vf ?c s' (ss_up S + bytes_read result) useen up"
      unfolding up_part_def using d(2,3) bs(1)
      by (intro exI [of _ "useen @ fs"]) (simp add: reader_frames_def bytes_read_def)
    moreover have "items (S\<lparr>ss_server := s'\<rparr>) up (down @ []) = items S up down"
      using d(4) by (simp add: items_def)
    ultimately have "session_rel E vf good (S\<lparr>ss_server := s', ss_up := ss_up S + bytes_read result\<rparr>) A
        useen up dseen (down @ [])"
      using parts(1,4,5) inv' d(4,5) by (intro rel_server [OF rel]) simp_all
    then show ?thesis by simp
  qed
qed

section \<open>Dispatching\<close>

text \<open>A request that is dispatched is refused, dropped or given to a handler.\<close>

lemma at_most_one: "set gs \<subseteq> {g} \<Longrightarrow> length gs \<le> 1 \<Longrightarrow> gs = [] \<or> gs = [g]"
  by (cases gs) auto

lemma play_dropped: "play E A str pend (add_mset x M) \<Longrightarrow> play E A str pend M"
  by (simp add: play_add)

lemma play_error:
  assumes "play E A str pend (add_mset x M)" and "x = Item_request f \<or> x = Item_task i f ph"
    and "set gs \<subseteq> {make_error_frame (frame_stream f) st}" and "length gs \<le> 1"
  shows "play E A str pend (image_mset Item_answer (mset gs) + M)"
  using at_most_one [OF assms(3,4)] play_refused [OF assms(1,2)] play_dropped [OF assms(1)] by auto

lemma play_spawned:
  assumes "play E A str pend (add_mset (Item_request f) M)" and "rpc_serves A i = None"
  shows "play E A str pend (add_mset (Item_task i f Task_spawned) M)"
  using assms by (intro play_replace [OF assms(1)]) (auto simp: play_add phase_ok_def)

lemma server_rel_frame:
  assumes env: "queue_env (env_queue E) vf vs" and rel: "session_rel E vf good S A useen up dseen down"
    and reader: "sc_reader (ss_server S) = Reader_dispatching (f # gs)" and up: "up = f # gs @ rest"
    and clean: "dec_error (sc_decoder (ss_server S)) = None"
    and pipe: "pipe vf (cc_write_queue (ss_client S)) (ss_up S) (sc_decoder (ss_server S)) (useen @ up) (useen @ f # gs)"
  shows "session_sim E vf good (S\<lparr>ss_server := server_dispatch_next E (ss_server S)\<rparr>) A"
proof -
  let ?s = "ss_server S" and ?c = "ss_client S" and ?up = "gs @ rest"
  let ?s' = "server_dispatch_next E ?s"
  note parts = session_relD [OF rel]
  let ?R = "image_mset (\<lambda>(r, f). Item_request f) (mset (ss_starting S)) + image_mset Item_request (mset ?up) +
    live_items (sc_tasks ?s) + image_mset Item_answer (mset down)"
  have play: "play E A (streams ?c) (alive ?c) (add_mset (Item_request f) ?R)"
    using parts(5) by (simp add: items_def up)
  then obtain r where "requests E A (streams ?c) f r" by (auto simp: play_add)
  note req = requests_valid [OF this client_partD(4) [OF parts(1)]]
  let ?s1 = "server_notify ?s (diagnostics_event Event_message_transferred (frame_stream f) Status_ok 0 True [])"
  have wq: "wq_inv vf (sc_write_queue ?s1)"
    using server_core_parts(3) [OF server_inv_core [OF parts(2)]] by simp
  note tail = dispatch_tail [OF env parts(2) reader clean]
  have "useen @ f # gs = (useen @ [f]) @ gs" "useen @ up = (useen @ [f]) @ ?up" by (simp_all add: up)
  then have up': "up_part vf ?c ?s' (ss_up S) (useen @ [f]) ?up"
    using pipe tail(5,6) unfolding up_part_def reads_on_def by metis
  note go = rel_server [OF rel tail(1) parts(1) _ _ up']
  from env wq req(3,2) show ?thesis
  proof (cases rule: dispatch_outcome)
    case (refused st hs)
    have q: "queue_grows vf (sc_write_queue ?s) (sc_write_queue ?s') hs"
      using queue_grows_trans [OF _ tail(4), of "sc_write_queue ?s" hs] refused(3) by simp
    have "items (S\<lparr>ss_server := ?s'\<rparr>) ?up (down @ hs) = image_mset Item_answer (mset hs) + ?R"
      using tail(3) refused(4) by (simp add: items_def)
    then have "session_rel E vf good (S\<lparr>ss_server := ?s', ss_up := ss_up S\<rparr>) A (useen @ [f]) ?up dseen (down @ hs)"
      using q parts(4) tail(2) refused(4) play_error [OF play _ refused(1,2)] by (intro go) simp_all
    then show ?thesis using session_simI by fastforce
  next
    case (spawned types)
    let ?n = "length (sc_tasks ?s)"
    have q: "queue_grows vf (sc_write_queue ?s) (sc_write_queue ?s') []"
      using tail(4) spawned(1) by simp
    have fresh: "rpc_serves A ?n = None" "rpc_part good A (length (sc_tasks ?s'))"
      using parts(4) tail(2) spawned(2) by (auto simp: rpc_part_def)
    have "items (S\<lparr>ss_server := ?s'\<rparr>) ?up (down @ []) = add_mset (Item_task ?n f Task_spawned) ?R"
      using tail(3) spawned(2) by (simp add: items_def live_items_snoc task_item_def)
    then have "session_rel E vf good (S\<lparr>ss_server := ?s', ss_up := ss_up S\<rparr>) A (useen @ [f]) ?up dseen (down @ [])"
      using q fresh play_spawned [OF play] by (intro go) simp_all
    then show ?thesis using session_simI by fastforce
  qed
qed

lemma server_rel_dispatch:
  assumes env: "queue_env (env_queue E) vf vs" and rel: "session_rel E vf good S A useen up dseen down"
    and "dispatching (sc_reader (ss_server S))"
  shows "session_sim E vf good (S\<lparr>ss_server := server_dispatch_next E (ss_server S)\<rparr>) A"
proof -
  let ?s = "ss_server S" and ?c = "ss_client S"
  let ?s' = "server_dispatch_next E ?s"
  note parts = session_relD [OF rel]
  note core = server_core_parts [OF server_inv_core [OF parts(2)]]
  obtain fs where fs: "sc_reader ?s = Reader_dispatching fs"
    using assms(3) by (auto simp: dispatching_def split: Reader.splits)
  have reading: "sc_reading ?s" using core(6) fs by simp
  have pipe: "pipe vf (cc_write_queue ?c) (ss_up S) (sc_decoder ?s) (useen @ up) (useen @ fs)"
    using parts(6) fs by (auto simp: up_part_def reader_frames_def)
  obtain rest where rest: "up = fs @ rest" and clean: "dec_error (sc_decoder ?s) = None"
    using pipe_prefix [OF pipe] by auto
  show ?thesis
  proof (cases fs)
    case Nil
    then have "server_quiet vf ?s ?s'"
      using frames_done_quiet(1) [OF env parts(2) reading clean] fs
      by (simp add: server_dispatch_next_def reader_frames_def)
    then show ?thesis using server_rel_quiet [OF rel] session_simI by blast
  next
    case (Cons f gs)
    then show ?thesis
      using server_rel_frame [OF env rel fs [unfolded Cons] _ clean] pipe rest by simp
  qed
qed

section \<open>Handlers\<close>

text \<open>Everything in play but the handler \<open>i\<close>.\<close>

definition items_but ::
  "('ch, 'sp, 't, 'v) Session \<Rightarrow> Frame list \<Rightarrow> Frame list \<Rightarrow> nat \<Rightarrow> 'v Item multiset" where
  "items_but S up down i =
     image_mset (\<lambda>(r, f). Item_request f) (mset (ss_starting S)) + image_mset Item_request (mset up) +
     other_items (sc_tasks (ss_server S)) i + image_mset Item_answer (mset down)"

lemma items_but_not_task: "x \<in># items_but S up down i \<Longrightarrow> not_task i x"
  by (auto simp: items_but_def dest: other_items_not_task) (auto simp: not_task_def)

lemma items_task:
  assumes "i < length (sc_tasks (ss_server S))" and "task_phase (sc_tasks (ss_server S) ! i) \<noteq> Task_done"
  shows "items S up down = add_mset (Item_task i (task_frame (sc_tasks (ss_server S) ! i))
    (task_phase (sc_tasks (ss_server S) ! i))) (items_but S up down i)"
  using live_items_split [OF assms(1)] assms(2) by (simp add: items_def items_but_def task_item_def)

lemma server_rel_task:
  assumes rel: "session_rel E vf good S A useen up dseen down" and "server_inv vf s'"
    and moves: "task_moves vf (ss_server S) s' i ph gs"
    and "client_part E vf A' (ss_client S)" and "rpc_part good A' (length (sc_tasks (ss_server S)))"
    and "play E A' (streams (ss_client S)) (alive (ss_client S))
      ((if ph = Task_done then {#} else {#Item_task i (task_frame (sc_tasks (ss_server S) ! i)) ph#}) +
       (image_mset Item_answer (mset gs) + items_but S up down i))"
  shows "session_sim E vf good (S\<lparr>ss_server := s'\<rparr>) A'"
proof -
  have "items (S\<lparr>ss_server := s'\<rparr>) up (down @ gs) =
      (if ph = Task_done then {#} else {#Item_task i (task_frame (sc_tasks (ss_server S) ! i)) ph#}) +
       (image_mset Item_answer (mset gs) + items_but S up down i)"
    using moves by (simp add: items_def items_but_def task_moves_def)
  moreover have "up_part vf (ss_client S) s' (ss_up S) useen up"
    using moves by (intro up_part_server [OF session_relD(6) [OF rel]]) (simp_all add: task_moves_def reads_on_def)
  ultimately have "session_rel E vf good (S\<lparr>ss_server := s', ss_up := ss_up S\<rparr>) A' useen up dseen (down @ gs)"
    using moves assms(2,4-) by (intro rel_server [OF rel]) (simp_all add: task_moves_def)
  then show ?thesis using session_simI by fastforce
qed

text \<open>A request that decodes at its handler's type was made with that type and that value.\<close>

lemma request_decoded:
  assumes codec: "codec_contract (env_codec E) good" and reg: "registry_inv (env_registry E)"
    and req: "requests E A str f r" and typed: "rpc_part good A n" 
    and "decode_ok (decode_message (env_codec E) (env_registry E) ty f)"
  obtains v where "rpc_calls A ! r = (ty, v)" "r < length (rpc_calls A)"
    "decode_value (decode_message (env_codec E) (env_registry E) ty f) = Some v"
proof -
  obtain ty' v where call: "rpc_calls A ! r = (ty', v)" "r < length (rpc_calls A)"
    using req by (cases "rpc_calls A ! r") (auto simp: requests_def)
  have enc: "encode_message (env_codec E) (env_registry E) ty' v (str ! r) FrameType_request Flags_none
      default_max_payload_size current_protocol_version = FrameEncodeResult_success f"
    using req call by (simp add: requests_def request_encoding_def)
  have "(ty', v) \<in> set (rpc_calls A)" using call nth_mem [of r "rpc_calls A"] by simp
  then have good: "good ty' v" using typed by (auto simp: rpc_part_def)
  have "header_version (frame_header f) = current_protocol_version"
    by (rule encode_message_success [OF enc]) simp
  then have "ty = ty'" using other_type_fails(3) [OF reg enc, of "frame_header f" ty] assms(5) by fastforce
  moreover have "decode_message (env_codec E) (env_registry E) ty' f = DecodeResult_success v"
    by (rule message_roundtrip(1) [OF codec good enc])
  ultimately show thesis using that call by (simp add: DecodeResult_success_def)
qed

lemma server_rel_started:
  assumes env: "queue_env (env_queue E) vf vs" and codec: "codec_contract (env_codec E) good"
    and reg: "registry_inv (env_registry E)" and rel: "session_rel E vf good S A useen up dseen down"
    and i: "i < length (sc_tasks (ss_server S))" and spawned: "task_phase (sc_tasks (ss_server S) ! i) = Task_spawned"
  shows "\<exists>A'. rpc_run A (served E i (sc_tasks (ss_server S) ! i)) A' \<and>
    session_sim E vf good (S\<lparr>ss_server := handler_started E (ss_server S) i\<rparr>) A'"
proof -
  let ?s = "ss_server S" and ?c = "ss_client S"
  let ?t = "sc_tasks ?s ! i"
  let ?f = "task_frame ?t" and ?ty = "handler_request (task_types ?t)" and ?M = "items_but S up down i"
  define request where "request = decode_message (env_codec E) (env_registry E) ?ty ?f"
  note parts = session_relD [OF rel]
  note moves = handler_started_moves [OF env parts(2) i, folded request_def]
  have inv': "server_inv vf (handler_started E ?s i)"
    by (rule server_advancesD [OF handler_started_advances [OF env parts(2) i spawned]])
  have play: "play E A (streams ?c) (alive ?c) (add_mset (Item_task i ?f Task_spawned) ?M)"
    using parts(5) items_task [OF i] spawned by simp
  show ?thesis
  proof (cases "decode_ok request")
    case False
    then obtain gs where "set gs \<subseteq> {make_error_frame (frame_stream ?f) (decode_status request)}" "length gs \<le> 1"
      "task_moves vf ?s (handler_started E ?s i) i Task_done gs"
      using moves(2) by blast
    then have "session_sim E vf good (S\<lparr>ss_server := handler_started E ?s i\<rparr>) A"
      using server_rel_task [OF rel inv' _ parts(1,4)] play_error [OF play] by simp
    then show ?thesis using rpc_run.start False by (auto simp: served_def request_def Let_def)
  next
    case True
    have "rpc_serves A i = None" using play by (auto simp: play_add phase_ok_def)
    then have unreplied: "rpc_replies A i = None" using parts(4) by (auto simp: rpc_part_def)
    obtain r where r: "requests E A (streams ?c) ?f r" "r \<notin> ran (rpc_serves A)" "rpc_serves A i = None"
      "play E (A\<lparr>rpc_serves := (rpc_serves A)(i \<mapsto> r)\<rparr>) (streams ?c) (alive ?c)
         (add_mset (Item_task i ?f (Task_running (the (decode_value request)))) ?M)" (is "play E ?A _ _ _")
      by (rule play_serve [OF play _ unreplied]) (auto intro: items_but_not_task)
    obtain v where call: "rpc_calls A ! r = (?ty, v)" "r < length (rpc_calls A)" "decode_value request = Some v"
      using request_decoded [OF codec reg r(1) parts(4)] True unfolding request_def by metis
    then have v: "served E i ?t = [Rpc_serve i ?ty v]"
      using True by (simp add: served_def request_def Let_def)
    have "rpc_step A (Rpc_serve i ?ty v) ?A" by (rule rpc_step.serve [OF r(3) call(2) r(2) call(1)])
    then have "rpc_run A (served E i ?t) ?A" using rpc_run.step [OF rpc_run.start] by (fastforce simp: v)
    moreover have "rpc_part good ?A (length (sc_tasks ?s))"
      using parts(4) i call(2) r(3) by (auto simp: rpc_part_def)
    then have "session_sim E vf good (S\<lparr>ss_server := handler_started E ?s i\<rparr>) ?A"
      using server_rel_task [OF rel inv' moves(1) [OF True] client_part_serve [OF parts(1) r(3)]] r(4) by simp
    ultimately show ?thesis by blast
  qed
qed

text \<open>The end of a handler that has replied: its response is on the way, waits for room, or is lost.\<close>

lemma play_answered:
  assumes "play E A str pend (add_mset (Item_task i f (Task_sending g)) M)"
  shows "play E A str pend ((if (case res of None \<Rightarrow> Task_sending g | Some _ \<Rightarrow> Task_done) = Task_done then {#}
      else {#Item_task i f (case res of None \<Rightarrow> Task_sending g | Some _ \<Rightarrow> Task_done)#}) +
    (image_mset Item_answer (mset (accepted_frame res g)) + M))"
  using assms play_sent(1) [OF assms] play_dropped [OF assms]
  by (cases res) (simp_all add: accepted_frame_def)

lemma server_rel_returned:
  assumes env: "queue_env (env_queue E) vf vs" and rel: "session_rel E vf good S A useen up dseen down"
    and i: "i < length (sc_tasks (ss_server S))" and running: "in_handler (task_phase (sc_tasks (ss_server S) ! i))"
    and vis: "vis = (case outcome of None \<Rightarrow> [] | Some v \<Rightarrow> replied E i (sc_tasks (ss_server S) ! i) v)"
    and typed: "list_all (well_typed good) vis"
  shows "\<exists>A'. rpc_run A vis A' \<and> session_sim E vf good (S\<lparr>ss_server := handler_returned E (ss_server S) i outcome\<rparr>) A'"
proof -
  let ?s = "ss_server S" and ?c = "ss_client S"
  let ?t = "sc_tasks ?s ! i"
  let ?f = "task_frame ?t" and ?M = "items_but S up down i"
  note parts = session_relD [OF rel]
  obtain x where x: "task_phase ?t = Task_running x"
    using running by (auto simp: in_handler_def split: TaskPhase.splits)
  have inv': "server_inv vf (handler_returned E ?s i outcome)"
    using x by (intro server_advancesD [OF handler_returned_advances [OF env parts(2) i]]) simp
  have play: "play E A (streams ?c) (alive ?c) (add_mset (Item_task i ?f (Task_running x)) ?M)"
    using parts(5) items_task [OF i] x by simp
  from env parts(2) i show ?thesis
  proof (cases rule: handler_returned_moves [where outcome = outcome])
    case (sent g res w)
    let ?tr = "handler_response (task_types ?t)"
    obtain r where r: "rpc_serves A i = Some r" "rpc_replies A i = None"
      "play E (A\<lparr>rpc_replies := (rpc_replies A)(i \<mapsto> (?tr, w))\<rparr>) (streams ?c) (alive ?c)
         (add_mset (Item_task i ?f (Task_sending (final_frame g))) ?M)" (is "play E ?A _ _ _")
      by (rule play_reply [OF play _ sent(2) [unfolded response_encoding_def]]) (auto intro: items_but_not_task)
    have vis: "vis = [Rpc_reply i ?tr w]" using sent(1,3) vis by simp
    have "rpc_step A (Rpc_reply i ?tr w) ?A" using r by (intro rpc_step.reply) simp_all
    then have "rpc_run A vis ?A" using rpc_run.step [OF rpc_run.start] by (fastforce simp: vis)
    moreover have "good ?tr w" using typed by (simp add: vis well_typed_def)
    then have "rpc_part good ?A (length (sc_tasks ?s))"
      using parts(4) r(1,2) by (auto simp: rpc_part_def)
    then have "session_sim E vf good (S\<lparr>ss_server := handler_returned E ?s i outcome\<rparr>) ?A"
      by (rule server_rel_task [OF rel inv' sent(4) client_part_reply [OF parts(1) r(2)] _ play_answered [OF r(3)]])
    ultimately show ?thesis by blast
  next
    case dropped
    have "session_sim E vf good (S\<lparr>ss_server := handler_returned E ?s i outcome\<rparr>) A"
      using server_rel_task [OF rel inv' dropped(2) parts(1,4)] play_dropped [OF play] by simp
    moreover have "vis = []" using dropped(1) vis by (cases outcome) simp_all
    ultimately show ?thesis using rpc_run.start by blast
  qed
qed

lemma server_rel_resumed:
  assumes env: "queue_env (env_queue E) vf vs" and rel: "session_rel E vf good S A useen up dseen down"
    and i: "i < length (sc_tasks (ss_server S))" and sending: "task_phase (sc_tasks (ss_server S) ! i) = Task_sending g"
  shows "session_sim E vf good (S\<lparr>ss_server := handler_resumed E msg (ss_server S) i g\<rparr>) A"
proof -
  let ?c = "ss_client S"
  note parts = session_relD [OF rel]
  have inv': "server_inv vf (handler_resumed E msg (ss_server S) i g)"
    by (rule server_advancesD [OF handler_resumed_advances [OF env parts(2) i sending]])
  have play: "play E A (streams ?c) (alive ?c) (add_mset (Item_task i
      (task_frame (sc_tasks (ss_server S) ! i)) (Task_sending g)) (items_but S up down i))"
    using parts(5) items_task [OF i] sending by simp
  obtain res where "task_moves vf (ss_server S) (handler_resumed E msg (ss_server S) i g) i
      (case res of None \<Rightarrow> Task_sending g | Some _ \<Rightarrow> Task_done) (accepted_frame res g)"
    by (rule handler_resumed_moves [OF env parts(2) i sending])
  then show ?thesis by (rule server_rel_task [OF rel inv' _ parts(1,4) play_answered [OF play]])
qed

section \<open>All events at the server\<close>

lemma server_simulated:
  assumes env: "queue_env (env_queue E) vf vs" and codec: "codec_contract (env_codec E) good"
    and reg: "registry_inv (env_registry E)" and rel: "session_rel E vf good S A useen up dseen down"
    and en: "session_enabled S (At_server ev)"
    and step: "session_event E S (At_server ev) = Some (S', vis)" and typed: "list_all (well_typed good) vis"
  shows "\<exists>A'. rpc_run A vis A' \<and> session_sim E vf good S' A'"
proof -
  let ?s = "ss_server S"
  note parts = session_relD [OF rel]
  obtain s' where s': "server_event E ?s ev = Some s'"
    and S': "S' = S\<lparr>ss_server := s', ss_up := ss_up S + server_bytes_read ev\<rparr>" and vis: "vis = server_visible E ?s ev"
    using step by (auto split: option.splits)
  have en': "server_enabled ?s ev" using en by simp
  have same: "S\<lparr>ss_server := s', ss_up := ss_up S\<rparr> = S\<lparr>ss_server := s'\<rparr>" by simp
  have quiet: ?thesis if "session_sim E vf good S' A" "vis = []"
    using that rpc_run.start by blast
  note still = session_simI [OF server_rel_quiet [OF rel server_quiet_event [OF env parts(2) en' s']]]
  show ?thesis
  proof (cases ev)
    case (Server_read still_open result)
    then show ?thesis
      using server_rel_read [OF env rel, of result still_open s'] en s'
      by (intro quiet) (auto simp: S' vis server_visible_def server_bytes_read_def intro: session_simI)
  next
    case Server_dispatch_next
    then show ?thesis
      using server_rel_dispatch [OF env rel] en s'
      by (intro quiet) (auto simp: S' vis server_visible_def server_bytes_read_def)
  next
    case (Server_handler_started i)
    then show ?thesis
      using server_rel_started [OF env codec reg rel, of i] en s'
      by (auto simp: S' vis server_visible_def server_bytes_read_def)
  next
    case (Server_handler_returned i outcome)
    then have "vis = (case outcome of None \<Rightarrow> [] | Some v \<Rightarrow> replied E i (sc_tasks ?s ! i) v)"
      by (simp add: vis server_visible_def split: option.split)
    then show ?thesis
      using server_rel_returned [OF env rel _ _ _ typed, of i outcome] en s' Server_handler_returned
      by (simp add: S' server_bytes_read_def)
  next
    case (Server_handler_resumed msg i)
    then show ?thesis
      using server_rel_resumed [OF env rel, of i _ msg] en s'
      by (intro quiet) (auto simp: S' vis server_visible_def server_bytes_read_def sending_frame_def
          split: TaskPhase.splits)
  qed (rule quiet; use still in \<open>simp add: S' vis server_visible_def server_bytes_read_def\<close>)+
qed

section \<open>The refinement\<close>

lemma session_simulated:
  assumes "queue_env (env_queue E) vf vs" and "codec_contract (env_codec E) good"
    and "registry_inv (env_registry E)" and "session_sim E vf good S A"
    and "session_enabled S ev" and "\<not> abandons S ev"
    and "session_event E S ev = Some (S', vis)" and "list_all (well_typed good) vis"
  shows "\<exists>A'. rpc_run A vis A' \<and> session_sim E vf good S' A'"
proof -
  obtain useen up dseen down where rel: "session_rel E vf good S A useen up dseen down"
    using assms(4) by (auto simp: session_sim_def)
  show ?thesis
  proof (cases ev)
    case (At_client e)
    then show ?thesis using client_simulated [OF assms(1-3) rel] assms(5-) by blast
  next
    case (At_server e)
    then show ?thesis using server_simulated [OF assms(1-3) rel] assms(5-) by blast
  qed
qed

lemma session_run_simulated:
  assumes "session_run (\<lambda>S ev. \<not> abandons S ev) E S0 log S"
    and "queue_env (env_queue E) vf vs" and "codec_contract (env_codec E) good"
    and "registry_inv (env_registry E)" and "list_all (well_typed good) log"
    and "session_sim E vf good S0 A0"
  shows "\<exists>A. rpc_run A0 log A \<and> session_sim E vf good S A"
  using assms
proof (induction rule: session_run.induct)
  case (start S)
  then show ?case using rpc_run.start by blast
next
  case (step S log S' ev S'' vis)
  then obtain A where A: "rpc_run A0 log A" "session_sim E vf good S' A" by auto
  moreover obtain A' where "rpc_run A vis A'" "session_sim E vf good S'' A'"
    using session_simulated [OF step.prems(1-3) A(2) step.hyps(2-4)] step.prems(4) by auto
  ultimately show ?case using rpc_run_append by blast
qed

end
