(* ===== verification/Session_Properties.thy ===== *)
theory Session_Properties
  imports Session_Refinement
begin

text \<open>
  What a session promises its users: as long as no request is abandoned it is a request/response
  service as specified by \<open>Rpc\<close>. Abandoned requests break the promise: the response to one is taken
  for the response to the next.
\<close>

section \<open>Evaluating runs\<close>

text \<open>
  The definitions a run in the sample environment is evaluated with. Where a value is bound it is
  evaluated first.
\<close>

lemma bind_strict: "x = y \<Longrightarrow> Option.bind x f = Option.bind y f"
  by simp

lemma let_strict: "x = y \<Longrightarrow> Let x f = Let y f"
  by simp

lemmas session_eval_defs =
  new_session_def client_bytes_read_def server_bytes_read_def bytes_read_def starting_after_def
  starting_add_def client_visible_def server_visible_def call_issued_def delivered_def
  served_def [unfolded Let_def] replied_def read_possible_def unread_def
  unsettled_def handle_unsettled_def

lemmas queue_eval_defs =
  new_write_queue_def space_signal_capacity_def unbounded_capacity_def enqueue_def enqueue_attempt_def
  try_enqueue_def try_enqueue_frame_def can_fit_def queued_bytes_def frame_header_size_def write_ok_def
  WriteResult_success_def writer_loop_def writer_received_def writer_wrote_def
  reference_queue_ops_def reference_channel_def view_op_defs

lemmas client_eval_defs =
  new_client_def new_allocator_def first_id_def last_id_def allocate_def allocation_success_def release_def
  client_run_def read_loop_head_def connection_transition_def notify_def notify_diagnostics_def
  start_request_def rejects_requests_def new_pending_def start_request_sent_def start_request_deadline_def timer_armed_def
  client_frame_received_def client_write_completed_def observe_write_def
  timer_completed_def timeout_pending_def call_operation_def update_pending_def send_cancellation_def
  cancellation_frame_def default_header_def close_channel_def cleanup_pending_def async_wait_def
  async_wait_completed_def handle_valid_def read_completed_def dispatch_def mark_terminal_def
  op_activate_def new_operation_def operation_transition_def op_call.simps op_finish_def op_complete_def
  op_timeout_def op_set_deadline_def op_is_terminal_def notify_all_def request_completed_def has_flag_def flags_and_def flags_or_def

lemmas server_eval_defs =
  new_server_def server_run_def server_read_head_def server_handle_def server_notify_def
  server_read_completed_def server_dispatch_next_def server_dispatch_def draining_or_later_def
  dispatching_def handler_started_def [unfolded Let_def] update_task_def new_task_def
  op_set_completion_handler_def handler_returned_def [folded final_frame_def] handler_sent_def
  run_handler_end_def close_queue_when_idle_def in_handler_def response_encoding_def
  call_task_operation_def server_frame_received_def server_write_completed_def
  server_observe_write_def operation_reported_def

text \<open>The sample messages.\<close>

definition sample_request_7 :: Frame where
  "sample_request_7 = sample_request\<lparr>frame_payload := [0, 0, 0, 7, 7]\<rparr>"

definition sample_reply :: Frame where
  "sample_reply = sample_response\<lparr>frame_header := (frame_header sample_response)\<lparr>header_flags := Flags_none\<rparr>\<rparr>"

lemma sample_frames:
  "frame_header sample_request =
     \<lparr>header_version = current_protocol_version, header_type = FrameType_request, header_flags = Flags_none,
      header_stream = StreamId 1, header_payload_size = 5\<rparr>"
  "frame_payload sample_request = [0, 0, 0, 7, 5]"
  "frame_header sample_request_7 = frame_header sample_request"
  "frame_payload sample_request_7 = [0, 0, 0, 7, 7]"
  "frame_header sample_response =
     \<lparr>header_version = current_protocol_version, header_type = FrameType_response,
      header_flags = Flags_end_of_stream, header_stream = StreamId 1, header_payload_size = 5\<rparr>"
  "frame_payload sample_response = [0, 0, 0, 7, 6]"
  "final_frame sample_reply = sample_response"
  by (simp_all add: sample_request_7_def sample_request_def sample_response_def sample_reply_def
      final_frame_def flags_or_def)

lemma sample_encodings:
  "encode_message (env_codec sample_env) (env_registry sample_env) () [5] (StreamId 1) FrameType_request
     Flags_none default_max_payload_size current_protocol_version = FrameEncodeResult_success sample_request"
  "encode_message (env_codec sample_env) (env_registry sample_env) () [7] (StreamId 1) FrameType_request
     Flags_none default_max_payload_size current_protocol_version = FrameEncodeResult_success sample_request_7"
  "encode_message (env_codec sample_env) (env_registry sample_env) () [6] (StreamId 1) FrameType_response
     Flags_none default_max_payload_size current_protocol_version = FrameEncodeResult_success sample_reply"
  using sample_encoding
  by (simp_all add: request_encoding_def sample_env_def encode_message_def encode_message_payload_def
      PodCodec_def pod_encode_def register_message_at_def new_registry_def message_type_at_def
      frame_encode_defs codec_result_defs message_type_is_valid_def empty_registrations_def
      message_type_size_def be32.wr_eq copy_at_def be32_bytes_def default_max_payload_size_def Let_def
      sample_request_7_def sample_request_def sample_reply_def sample_response_def)

lemma sample_response_decoding:
  "decode_message (env_codec sample_env) (env_registry sample_env) () sample_response = DecodeResult_success [6]"
  using message_roundtrip(2) [OF sample_codec _ sample_encodings(3), of "frame_header sample_response"]
  by (simp add: sample_reply_def sample_response_def)

text \<open>How the encoded frames arrive at a fresh decoder.\<close>

definition arrives :: "Frame \<Rightarrow> FrameDecoder \<Rightarrow> bool" where
  "arrives f d \<longleftrightarrow>
     push (new_decoder default_max_payload_size) (encode_frame f) = Some (d, [f]) \<and> dec_error d = None"

lemma sample_arrivals:
  obtains d d' b bs b' bs' where "arrives sample_request d" and "arrives sample_response d'"
    and "encode_frame sample_request = b # bs" and "encode_frame sample_response = b' # bs'"
proof -
  have arr: "\<exists>d b bs. arrives f d \<and> encode_frame f = b # bs" if "wire_valid f" for f
    using push_one_frame [OF new_decoder_clean that] encode_frame_nonempty [of f]
    by (auto simp: arrives_def dec_clean_def neq_Nil_conv)
  show thesis using arr [OF sample_request_valid] arr [OF sample_response_valid] that by metis
qed

lemmas sample_eval =
  session_eval_defs queue_eval_defs client_eval_defs server_eval_defs sample_frames sample_encodings
  sample_decoding sample_response_decoding sample_message_type sample_peek [unfolded sample_frames]
  frame_encode_defs codec_result_defs

abbreviation sample_session ::
  "(Frame ChannelView, unit ChannelView, unit, Buffer) Session" where
  "sample_session \<equiv> new_session sample_env sample_limits 9 False sample_limits False"

abbreviation sample_handle :: "nat \<Rightarrow> RequestOperation" where
  "sample_handle r \<equiv> \<lparr>ro_connected = True, ro_pending = Some r\<rparr>"

text \<open>A request is issued, by the given call, served and answered; the answer is on its way back.\<close>

definition sample_exchange :: "(unit, Buffer) ClientEvent \<Rightarrow> (unit, Buffer) SessionEvent list" where
  "sample_exchange start =
     [At_client Client_run, At_server (Server_handle () ()), At_server Server_run,
      At_client start, At_client Client_frame_received, At_client (Client_wrote None),
      At_server (Server_read True (Some (encode_frame sample_request))), At_server Server_dispatch_next,
      At_server (Server_handler_started 0), At_server (Server_handler_returned 0 (Some [6])),
      At_server Server_frame_received, At_server (Server_wrote None)]"

section \<open>Property: the refinement\<close>

text \<open>
  Property C1. A client and a server connection joined by a byte stream in each direction refine the
  request/response service \<open>Rpc\<close>, whatever the interleaving of their events, the cuts of the
  streams into reads, the back-pressure of the queues, failures of the transport and shutdowns:
  the calls that were issued, the handlers that were entered, the responses they returned and
  the values that waiting yielded are a run of the specification. The only runs left out are
  those in which a request is cancelled, times out or is dropped before it has a result.
\<close>

theorem session_refines_rpc:
  assumes "queue_env (env_queue E) vf vs" and "codec_contract (env_codec E) good"
    and "registry_inv (env_registry E)"
    and "session_run (\<lambda>S ev. \<not> abandons S ev) E (new_session E lim mx hook lim' hook') log S"
    and "list_all (well_typed good) log"
  shows "\<exists>A. rpc_run new_rpc log A"
  using session_run_simulated [OF assms(4,1-3,5) session_sim_start [OF assms(1)]] by blast

lemma sample_registry_inv: "registry_inv (env_registry sample_env)"
  unfolding sample_env_def by (simp add: register_message_inv new_registry_inv)

definition sample_log :: "(unit, Buffer) RpcEvent list" where
  "sample_log = [Rpc_issue 0 () [5], Rpc_serve 0 () [5], Rpc_reply 0 () [6], Rpc_deliver 0 () [6]]"

lemma sample_patient_run:
  obtains S where "session_run (\<lambda>S ev. \<not> abandons S ev) sample_env sample_session sample_log S"
proof -
  let ?evs = "sample_exchange (Client_start () [5]) @ [At_client (Client_read True (Some (encode_frame sample_response))),
    At_client (Client_wait (sample_handle 0)), At_client (Client_wait_completed (sample_handle 0) ())]"
  obtain d d' b bs b' bs' where arr: "arrives sample_request d" "arrives sample_response d'"
    and bs: "encode_frame sample_request = b # bs" "encode_frame sample_response = b' # bs'"
    by (rule sample_arrivals)
  have q: "env_queue sample_env = reference_queue_ops" by (simp add: sample_env_def)
  have "\<exists>S. session_exec (\<lambda>S ev. \<not> abandons S ev) sample_env sample_session ?evs = Some (S, sample_log)"
    using arr [unfolded arrives_def bs] unfolding sample_exchange_def sample_log_def
    by (simp add: sample_eval q bs Let_def cong: bind_strict let_strict)
  then show thesis using session_exec_run that by blast
qed

theorem session_refines_rpc_witness:
  "\<exists>A. rpc_run new_rpc sample_log A \<and> Rpc_issue 0 () [5] \<in> set sample_log \<and> Rpc_deliver 0 () [6] \<in> set sample_log"
proof -
  obtain S where "session_run (\<lambda>S ev. \<not> abandons S ev) sample_env sample_session sample_log S"
    by (rule sample_patient_run)
  from session_refines_rpc [OF sample_queue_env sample_codec sample_registry_inv this]
  show ?thesis by (simp add: well_typed_def sample_log_def)
qed

section \<open>Property: abandoned requests\<close>

text \<open>Waiting on a request whose channel has been closed reports its result and frees its stream.\<close>

lemma awaited_failure:
  assumes env: "queue_env (env_queue E) vf vs" and inv: "client_inv vf c" and r: "r < length (cc_heap c)"
    and "view_buffer (vf (pr_channel (cc_heap c ! r))) = []" and "\<not> view_open (vf (pr_channel (cc_heap c ! r)))"
    and res: "op_result (pr_operation (cc_heap c ! r)) = Some res"
    and unreleased: "\<not> pr_stream_released (cc_heap c ! r)"
    and h: "ro_connected h" "ro_pending h = Some r"
    and wait: "async_wait_completed E (fst (async_wait E c h)) h ty = (c', outcome)"
  shows "outcome = Some (DecodeResult_failure (result_status res) (result_message res))"
    and "cc_stream_ids c' = release (cc_stream_ids c) (pending_stream c r)"
    and "cc_decoder c' = cc_decoder c" and "cc_transport_open c' = cc_transport_open c"
    and "cc_terminal_streams c' = cc_terminal_streams c" and "length (cc_heap c') = length (cc_heap c)"
    and "client_inv vf c'"
proof -
  let ?C = "frame_channel (env_queue E)"
  let ?ch = "chan_begin_receive ?C (pr_channel (cc_heap c ! r))"
  have impl: "implements_channel ?C vf" using env by (simp add: queue_env_def)
  have "snd (chan_end_receive ?C ?ch) = Channel_closed"
    using implements_channelD(4,6) [OF impl] assms(4,5)
    by (simp add: view_begin_receive_def view_end_receive_def)
  then obtain ch where rcv: "chan_end_receive ?C ?ch = (ch, Channel_closed)" by (metis prod.collapse)
  let ?c1 = "update_pending (fst (async_wait E c h)) r (\<lambda>p. p\<lparr>pr_channel := ch\<rparr>)"
  have c1: "fst (async_wait E c h) = update_pending c r (\<lambda>p. p\<lparr>pr_channel := chan_begin_receive ?C (pr_channel p)\<rparr>)"
    using h by (simp add: async_wait_def)
  have "async_wait_completed E (fst (async_wait E c h)) h ty =
      (cleanup_pending ?c1 r True,
       Some (DecodeResult_failure (result_status res) (result_message res)))"
    using rcv h r res
    by (simp add: async_wait_completed_def c1 heap_update_pending cleanup_self Let_def)
  with wait have c': "c' = cleanup_pending ?c1 r True"
    and out: "outcome = Some (DecodeResult_failure (result_status res) (result_message res))" by simp_all
  show "outcome = Some (DecodeResult_failure (result_status res) (result_message res))" by (rule out)
  show "cc_stream_ids c' = release (cc_stream_ids c) (pending_stream c r)"
    using r unreleased by (simp add: c' c1 cleanup_pending_def update_pending_def Let_def)
  show "cc_decoder c' = cc_decoder c" "cc_transport_open c' = cc_transport_open c"
    "cc_terminal_streams c' = cc_terminal_streams c"
    by (simp_all add: c' c1)
  show "length (cc_heap c') = length (cc_heap c)"
    by (simp add: c' c1 cleanup_pending_def update_pending_def Let_def)
  have "client_inv vf (fst (async_wait E c h))"
    using client_advancesD [OF async_wait_advances [OF env inv, of h]] h r by (simp add: handle_valid_def)
  from client_advancesD [OF async_wait_completed_advances [OF env this h(2), of ty]]
  show "client_inv vf c'" using wait r by (simp add: c1)
qed

text \<open>A request gets the identifier the allocator returns, and that is the least released one.\<close>

lemma started_stream:
  assumes "client_inv vf c" and "start_request E c ty v = (c', Start_ok h)"
  shows "allocation_stream (snd (allocate (cc_stream_ids c))) = Some (handle_stream c' h)"
proof -
  have "\<not> rejects_requests (cc_lifecycle c)" using assms(2) by (auto simp: start_request_def)
  with assms(1) show ?thesis
  proof (cases rule: start_request_cases [where E = E and ty = ty and v = v])
    case (started sid f q sent)
    then have "c' = (registered E c sid)\<lparr>cc_write_queue := q\<rparr>" "ro_pending h = Some (length (cc_heap c))"
      using assms(2) by (auto simp: start_request_sent_def Let_def split: option.splits if_splits)
    then show ?thesis using started(1)
      by (simp add: handle_stream_def registered_def)
  qed (use assms(2) in simp_all)
qed

lemma least_released_reallocated:
  assumes "alloc_inv al" and "sid \<in> live_streams al" and "\<forall>v \<in> available al. stream_value sid < v"
  shows "allocation_stream (snd (allocate (release al sid))) = Some sid"
proof -
  have used: "stream_value sid \<in> in_use al" using assms(2) by (auto simp: live_streams_def)
  then have "stream_value sid \<in> owned al" using in_use_owned [OF assms(1)] by blast
  with used have av: "available (release al sid) = insert (stream_value sid) (available al)"
    by (auto simp: release_def owned_def Let_def)
  have "Min (insert (stream_value sid) (available al)) = stream_value sid"
    using assms(3) by (intro Min_eqI) (auto intro: less_imp_le)
  then show ?thesis by (simp add: allocate_def av allocation_success_def Let_def)
qed

text \<open>
  Property C33. After a timeout the client delivers the answer of one request to another. Take any
  reachable client with an open transport and a request that was started with a deadline and is not
  settled, on a stream that has carried no final frame and below every released identifier. Its timer
  expires, its owner waits for the outcome, which is the timeout, and starts another request. That one
  gets the identifier of the first. If the server's response to the first request, already on its way,
  arrives now, between two frames, then it is taken for the response to the second: waiting for
  the second request yields the value the handler returned for the first.
\<close>

theorem stale_response_misdelivered:
  assumes env: "queue_env (env_queue E) vf vs" and codec: "codec_contract (env_codec E) good" and "good tr w"
    and client: "client_reachable E (new_client E lim mx hook) c" "cc_transport_open c" "dec_clean (cc_decoder c)"
    and timer: "client_enabled c (Client_timer r False :: ('t, 'v) ClientEvent)"
      "op_result (pr_operation (cc_heap c ! r)) = None"
    and stream: "pending_stream c r = sid" "sid \<notin> cc_terminal_streams c"
      "\<forall>v \<in> available (cc_stream_ids c). stream_value sid < v"
    and resp: "encode_message (env_codec E) (env_registry E) tr w sid FrameType_response Flags_none
      default_max_payload_size current_protocol_version = FrameEncodeResult_success g"
    and h: "h = \<lparr>ro_connected = True, ro_pending = Some r\<rparr>"
    and wait: "async_wait_completed E (fst (async_wait E (timer_completed E c r False) h)) h tr = (c2, outcome)"
    and start: "start_request E c2 ty v = (c3, Start_ok h')"
  shows "outcome = Some (DecodeResult_failure Status_timeout_error ''operation deadline exceeded'') \<and>
     handle_stream c3 h' = sid \<and> ro_pending h' \<noteq> Some r \<and>
     (\<exists>c4. read_completed E c3 True (Some (encode_frame (final_frame g))) = Some c4 \<and>
        snd (async_wait_completed E (fst (async_wait E c4 h')) h' tr) = Some (DecodeResult_success w))"
proof -
  note inv = reachable_inv [OF env client(1)]
  have r: "r < length (cc_heap c)" using timer(1) by simp
  let ?c1 = "timeout_pending E c r"
  note t = timeout_effect [OF env inv r timer(2)]
  have inv1: "client_inv vf ?c1" using client_advancesD timeout_pending_advances(1) [OF env inv r] by blast
  have wait1: "async_wait_completed E (fst (async_wait E ?c1 h)) h tr = (c2, outcome)"
    using wait by (simp add: timer_completed_def)
  have "r < length (cc_heap ?c1)" using r t(13) by simp
  note w = awaited_failure [OF env inv1 this t(10,11,1,12) _ _ wait1]
  have out: "outcome = Some (DecodeResult_failure Status_timeout_error ''operation deadline exceeded'')"
    using w(1) h by (simp add: OperationResult_failure_def)
  have ids: "cc_stream_ids c2 = release (cc_stream_ids c) sid" using w(2) t(3,9) stream(1) h by simp
  have inv2: "client_inv vf c2" using w(7) h by simp
  have here: "map_of (cc_pending c) sid = Some r"
    using pend_inv_unsettled [OF client_inv_parts(1) [OF inv] r] stream(1) timer(2)
      op_inv_result [OF pend_inv_request(1) [OF client_inv_parts(1) [OF inv] r]] by simp
  have "alloc_inv (cc_stream_ids c)" using client_inv_parts(1) [OF inv] by (simp add: pend_inv_def)
  from least_released_reallocated [OF this pending_entry_stream(2) [OF inv here] stream(3)]
  have sid: "handle_stream c3 h' = sid" using started_stream [OF inv2 start] ids by simp
  obtain sid' f where st: "pending_stream c3 (length (cc_heap c2)) = sid'"
    "map_of (cc_pending c3) sid' = Some (length (cc_heap c2))"
    "cc_decoder c3 = cc_decoder c2" "cc_transport_open c3 = cc_transport_open c2"
    "cc_terminal_streams c3 = cc_terminal_streams c2" "ro_pending h' = Some (length (cc_heap c2))" "ro_connected h'"
    by (rule started_request [OF env inv2 start])
  have "sid' = sid" using st(1,6) sid by (simp add: handle_stream_def)
  have inv3: "client_inv vf c3"
    using client_advancesD [OF start_request_advances [OF env inv2, of ty v]] start by simp
  obtain c4 where "read_completed E c3 True (Some (encode_frame (final_frame g))) = Some c4"
    "snd (async_wait_completed E (fst (async_wait E c4 h')) h' tr) = Some (DecodeResult_success w)"
    by (rule response_comes_back [OF env inv3 _ _ st(2) [unfolded \<open>sid' = sid\<close>] _ codec assms(3) resp st(7,6)])
      (use client(2,3) stream(2) st(3-5) w(3-5) t(5,7,8) h in simp_all)
  then show ?thesis using out sid st(6) w(6) t(13) r h by auto
qed

text \<open>The client of a session runs like any client.\<close>

lemma session_client_reachable:
  assumes "session_run P E S log S'"
  shows "client_reachable E (ss_client S) (ss_client S')"
  using assms
proof (induction rule: session_run.induct)
  case (step S log S' ev S'' vis)
  then show ?case
    by (cases ev) (auto intro: client_reachable.step split: option.splits)
qed (rule client_reachable.start)

text \<open>
  A run in which the first request has a deadline and its answer is on the way back. From there the
  caller gives up at the deadline, waits for the outcome and issues a second request; then the
  response to the first arrives.
\<close>

abbreviation timed_exchange :: "(unit, Buffer) SessionEvent list" where
  "timed_exchange \<equiv> sample_exchange (Client_start_deadline () [5] 40)"

abbreviation sample_calls :: "(unit, Buffer) RpcEvent list" where
  "sample_calls \<equiv> [Rpc_issue 0 () [5], Rpc_serve 0 () [5], Rpc_reply 0 () [6]]"

definition stale_exchange :: "(unit, Buffer) SessionEvent list" where
  "stale_exchange = timed_exchange @
     [At_client (Client_timer 0 False), At_client (Client_wait (sample_handle 0)),
      At_client (Client_wait_completed (sample_handle 0) ()), At_client (Client_start () [7]),
      At_client (Client_read True (Some (encode_frame sample_response))),
      At_client (Client_wait (sample_handle 1)), At_client (Client_wait_completed (sample_handle 1) ())]"

definition stale_log :: "(unit, Buffer) RpcEvent list" where
  "stale_log = sample_calls @ [Rpc_issue 1 () [7], Rpc_deliver 1 () [6]]"

lemma timed_state:
  obtains S c2 outcome c3 where
    "session_exec (\<lambda>_ _. True) sample_env sample_session timed_exchange = Some (S, sample_calls)"
    and "cc_transport_open (ss_client S)" and "dec_clean (cc_decoder (ss_client S))"
    and "client_enabled (ss_client S) (Client_timer 0 False :: (unit, Buffer) ClientEvent)"
    and "op_result (pr_operation (cc_heap (ss_client S) ! 0)) = None"
    and "pending_stream (ss_client S) 0 = StreamId 1" and "StreamId 1 \<notin> cc_terminal_streams (ss_client S)"
    and "available (cc_stream_ids (ss_client S)) = {}"
    and "async_wait_completed sample_env (fst (async_wait sample_env
        (timer_completed sample_env (ss_client S) 0 False) (sample_handle 0))) (sample_handle 0) () = (c2, outcome)"
    and "start_request sample_env c2 () [7] = (c3, Start_ok (sample_handle 1))"
proof -
  obtain d d' b bs b' bs' where arr: "arrives sample_request d" "arrives sample_response d'"
    and bs: "encode_frame sample_request = b # bs" "encode_frame sample_response = b' # bs'"
    by (rule sample_arrivals)
  have q: "env_queue sample_env = reference_queue_ops" by (simp add: sample_env_def)
  let ?next = "\<lambda>c. case async_wait_completed sample_env (fst (async_wait sample_env
      (timer_completed sample_env c 0 False) (sample_handle 0))) (sample_handle 0) () of
      (c2, outcome) \<Rightarrow> snd (start_request sample_env c2 () [7]) = Start_ok (sample_handle 1)"
  have "\<exists>S. session_exec (\<lambda>_ _. True) sample_env sample_session timed_exchange = Some (S, sample_calls) \<and>
      cc_transport_open (ss_client S) \<and> dec_clean (cc_decoder (ss_client S)) \<and>
      client_enabled (ss_client S) (Client_timer 0 False :: (unit, Buffer) ClientEvent) \<and>
      op_result (pr_operation (cc_heap (ss_client S) ! 0)) = None \<and>
      pending_stream (ss_client S) 0 = StreamId 1 \<and> StreamId 1 \<notin> cc_terminal_streams (ss_client S) \<and>
      available (cc_stream_ids (ss_client S)) = {} \<and> ?next (ss_client S)"
    using arr [unfolded arrives_def bs] unfolding sample_exchange_def
    by (simp add: sample_eval q bs new_decoder_clean Let_def cong: bind_strict let_strict)
  then show thesis using that by (auto split: prod.splits) (metis prod.collapse)
qed

theorem stale_response_misdelivered_witness:
  "\<exists>S c2 c3 c4. session_exec (\<lambda>_ _. True) sample_env sample_session timed_exchange = Some (S, sample_calls) \<and>
     async_wait_completed sample_env (fst (async_wait sample_env
        (timer_completed sample_env (ss_client S) 0 False) (sample_handle 0))) (sample_handle 0) () =
       (c2, Some (DecodeResult_failure Status_timeout_error ''operation deadline exceeded'')) \<and>
     start_request sample_env c2 () [7] = (c3, Start_ok (sample_handle 1)) \<and>
     read_completed sample_env c3 True (Some (encode_frame sample_response)) = Some c4 \<and>
     snd (async_wait_completed sample_env (fst (async_wait sample_env c4 (sample_handle 1))) (sample_handle 1) ()) =
       Some (DecodeResult_success [6])"
proof -
  obtain S c2 outcome c3 where S:
    "session_exec (\<lambda>_ _. True) sample_env sample_session timed_exchange = Some (S, sample_calls)"
    "cc_transport_open (ss_client S)" "dec_clean (cc_decoder (ss_client S))"
    "client_enabled (ss_client S) (Client_timer 0 False :: (unit, Buffer) ClientEvent)"
    "op_result (pr_operation (cc_heap (ss_client S) ! 0)) = None"
    "pending_stream (ss_client S) 0 = StreamId 1" "StreamId 1 \<notin> cc_terminal_streams (ss_client S)"
    "available (cc_stream_ids (ss_client S)) = {}"
    "async_wait_completed sample_env (fst (async_wait sample_env
        (timer_completed sample_env (ss_client S) 0 False) (sample_handle 0))) (sample_handle 0) () = (c2, outcome)"
    "start_request sample_env c2 () [7] = (c3, Start_ok (sample_handle 1))"
    by (rule timed_state)
  have "client_reachable sample_env sample_client (ss_client S)"
    using session_client_reachable [OF session_exec_run [OF S(1)]] by (simp add: new_session_def)
  from stale_response_misdelivered [OF sample_queue_env sample_codec _ this S(2-7) _ sample_encodings(3) refl S(9,10)]
  show ?thesis using S by (auto simp: sample_frames)
qed

text \<open>
  So the session as a whole is not a request/response service: its user is given a value for the second request
  although no handler has been entered with that request, which no run of the specification allows.
\<close>

lemma abandoned_session_is_no_rpc:
  "(\<exists>S. session_exec (\<lambda>_ _. True) sample_env sample_session stale_exchange = Some (S, stale_log)) \<and>
   Rpc_deliver 1 () [6] \<in> set stale_log \<and> (\<forall>i. Rpc_serve i () [7] \<notin> set stale_log) \<and>
   \<not> (\<exists>A. rpc_run new_rpc stale_log A)"
proof (intro conjI notI)
  obtain d d' b bs b' bs' where arr: "arrives sample_request d" "arrives sample_response d'"
    and bs: "encode_frame sample_request = b # bs" "encode_frame sample_response = b' # bs'"
    by (rule sample_arrivals)
  have q: "env_queue sample_env = reference_queue_ops" by (simp add: sample_env_def)
  show "\<exists>S. session_exec (\<lambda>_ _. True) sample_env sample_session stale_exchange = Some (S, stale_log)"
    using arr [unfolded arrives_def bs] unfolding stale_exchange_def sample_exchange_def stale_log_def
    by (simp add: sample_eval q bs Let_def cong: bind_strict let_strict)
  assume "\<exists>A. rpc_run new_rpc stale_log A"
  then obtain A where "rpc_run new_rpc stale_log A" by blast
  then show False by (rule rpc_delivery [of _ A 1 "()" "[6]"]) (auto simp: stale_log_def)
qed (simp_all add: stale_log_def)

end
