(* ===== verification/Queue_Progress.thy ===== *)
theory Queue_Progress
  imports Write_Queue "HOL-Library.Multiset"
begin

text \<open>
  Suspended senders of the write queue. \<open>enqueue\<close> waits in \<open>space_channel_.async_receive\<close> while
  the queue is full, and \<open>run\<close> signals that channel once per frame it takes, dropping the signal
  when the channel is full. Here the calls of \<open>enqueue\<close> that are suspended are tracked beside the
  queue, and it is shown that no dropped signal leaves one of them behind: as long as the queue
  is open and a call is suspended, a frame is queued (whose removal signals) or a signal is
  waiting, so that a transport that keeps writing lets every one of them return.
\<close>

section \<open>The queue with its suspended senders\<close>

definition sender_step ::
  "('ch, 'sp) QueueOps \<Rightarrow> ('ch, 'sp) WriteQueue \<times> Frame list \<Rightarrow> QueueEvent \<Rightarrow>
     ('ch, 'sp) WriteQueue \<times> Frame list" where
  "sender_step Q s e =
     (case s of (q, ws) \<Rightarrow>
        case e of
          Queue_enqueue f \<Rightarrow>
            (case enqueue Q q f of (q', r) \<Rightarrow> (q', if r = None then ws @ [f] else ws))
        | Queue_resume msg f \<Rightarrow>
            if f \<in> set ws then
              (case enqueue_resume Q msg q f of
                 (q', r) \<Rightarrow> (q', if r = None then ws else remove1 f ws))
            else (q, ws)
        | _ \<Rightarrow> (fst (queue_event Q q e), ws))"

definition sender_run ::
  "('ch, 'sp) QueueOps \<Rightarrow> WriteQueueLimits \<Rightarrow> QueueEvent list \<Rightarrow> ('ch, 'sp) WriteQueue \<times> Frame list" where
  "sender_run Q lim es = foldl (sender_step Q) (new_write_queue Q lim, []) es"

text \<open>
  A transport that keeps up, with the suspended calls resumed one after the other in the order
  \<open>fs\<close>, the writer taking up to \<open>n\<close> frames before each.
\<close>

fun serve ::
  "nat \<Rightarrow> ('ch, 'sp) QueueOps \<Rightarrow> string \<Rightarrow> ('ch, 'sp) WriteQueue \<Rightarrow> Frame list \<Rightarrow>
     WriteResult option list" where
  "serve n Q msg q [] = []"
| "serve n Q msg q (f # fs) =
     (case enqueue_resume Q msg (drain n Q q) f of (q', r) \<Rightarrow> r # serve n Q msg q' fs)"

section \<open>Invariant\<close>

definition admissible :: "WriteQueueLimits \<Rightarrow> Frame \<Rightarrow> bool" where
  "admissible lim f \<longleftrightarrow>
     representable f \<and> queued_bytes f \<le> max_bytes lim \<and> max_frames lim \<noteq> 0"

text \<open>The signals that are waiting, and the calls that wait for one.\<close>

abbreviation signals_of :: "('sp \<Rightarrow> unit ChannelView) \<Rightarrow> ('ch, 'sp) WriteQueue \<Rightarrow> unit list" where
  "signals_of vs q \<equiv> view_buffer (vs (wq_space_channel q))"

definition space_inv :: "('sp \<Rightarrow> unit ChannelView) \<Rightarrow> ('ch, 'sp) WriteQueue \<Rightarrow> nat \<Rightarrow> bool" where
  "space_inv vs q n \<longleftrightarrow>
     (let s = vs (wq_space_channel q) in
      view_waiting s = n \<and> view_open s = (\<not> wq_closed q) \<and> 0 < view_capacity s)"

definition senders_inv ::
  "('ch \<Rightarrow> Frame ChannelView) \<Rightarrow> ('sp \<Rightarrow> unit ChannelView) \<Rightarrow>
     ('ch, 'sp) WriteQueue \<times> Frame list \<Rightarrow> bool" where
  "senders_inv vf vs s \<longleftrightarrow>
     (case s of (q, ws) \<Rightarrow>
        wq_inv vf q \<and> space_inv vs q (length ws) \<and> list_all (admissible (wq_limits q)) ws \<and>
        (ws = [] \<or> wq_closed q \<or> buffer_of vf q \<noteq> [] \<or> signals_of vs q \<noteq> []))"

lemma new_queue_senders:
  assumes "queue_env Q vf vs"
  shows "senders_inv vf vs (new_write_queue Q lim, [])"
proof -
  have "implements_channel (space_channel Q) vs" using assms by (simp add: queue_env_def)
  from implements_channelD(1) [OF this] show ?thesis
    using new_write_queue_inv(1) [OF assms, of lim]
    by (simp add: senders_inv_def space_inv_def) 
      (simp add: new_write_queue_def view_new_def space_signal_capacity_def unat_gt_0)
qed

section \<open>Senders\<close>

lemma empty_queue_accepts:
  assumes "queue_env Q vf vs" and "wq_inv vf q" and "admissible (wq_limits q) f"
    and "\<not> wq_closed q" and "buffer_of vf q = []"
  shows "snd (try_enqueue_frame Q q f) = WriteResult_success"
proof -
  have impl: "implements_channel (frame_channel Q) vf" using assms(1) by (simp add: queue_env_def)
  have "wq_queued_bytes q = 0" and room: "0 < view_capacity (vf (wq_channel q))"
    "view_open (vf (wq_channel q))"
    using assms(2-5) by (simp_all add: wq_inv_def Let_def admissible_def unat_gt_0 unat_eq_zero)
  then have "can_fit q (queued_bytes f)"
    using assms(3,4) by (simp add: can_fit_def admissible_def)
  moreover have "snd (chan_try_send (frame_channel Q) (wq_channel q) f)"
    using implements_channelD(3) [OF impl] room assms(5) by (simp add: view_op_defs)
  ultimately show ?thesis by (simp add: try_enqueue_frame_def Let_def case_prod_beta)
qed

lemma try_enqueue_space [simp]:
  "wq_space_channel (fst (try_enqueue_frame Q q f)) = wq_space_channel q"
  by (simp add: try_enqueue_frame_def Let_def case_prod_beta)

text \<open>How one iteration of the loop of \<open>enqueue\<close> ends.\<close>

lemma enqueue_attempt_cases:
  assumes "queue_env Q vf vs" and "wq_inv vf q" and "admissible (wq_limits q) f"
  obtains
    (accepted) q' where "enqueue_attempt Q q f = (q', Some WriteResult_success)" "wq_inv vf q'"
      "buffer_of vf q' = buffer_of vf q @ [f]" "wq_space_channel q' = wq_space_channel q"
      "wq_limits q' = wq_limits q" "wq_closed q' = wq_closed q" "wq_writer q' = wq_writer q"
  | (refused) q' msg where "enqueue_attempt Q q f =
        (q', Some (WriteResult_failure Status_resource_limit_exceeded msg))" "wq_inv vf q'"
      "wq_closed q" "wq_space_channel q' = wq_space_channel q"
      "wq_limits q' = wq_limits q" "wq_closed q' = wq_closed q"
  | (blocked) q' where "enqueue_attempt Q q f = (q', None)" "wq_inv vf q'" "\<not> wq_closed q"
      "buffer_of vf q' = buffer_of vf q" "buffer_of vf q \<noteq> []"
      "wq_space_channel q' = chan_begin_receive (space_channel Q) (wq_space_channel q)"
      "wq_limits q' = wq_limits q" "wq_closed q' = wq_closed q" "wq_writer q' = wq_writer q"
proof -
  have rep: "representable f" using assms(3) by (simp add: admissible_def)
  note space = try_enqueue_space [of Q q f]
  show thesis
  proof (cases rule: try_enqueue_cases [OF assms(1,2) rep])
    case (1 q')
    then show thesis
      using accepted [of q'] space
      by (simp add: enqueue_attempt_def write_ok_def WriteResult_success_def)
  next
    case (2 q' msg)
    show thesis
    proof (cases "wq_closed q")
      case True
      then show thesis
        using 2 refused [of q' msg] space
        by (simp add: enqueue_attempt_def write_ok_def WriteResult_failure_def)
    next
      case False
      have "buffer_of vf q \<noteq> []"
        using empty_queue_accepts [OF assms False] 2(1)
        by (auto simp: WriteResult_success_def WriteResult_failure_def)
      then show thesis
        using 2 False space blocked [of "q'\<lparr>wq_space_channel :=
            chan_begin_receive (space_channel Q) (wq_space_channel q')\<rparr>"]
        by (simp add: enqueue_attempt_def write_ok_def WriteResult_failure_def)
    qed
  qed
qed

lemma space_inv_cong:
  "wq_space_channel q' = wq_space_channel q \<Longrightarrow> wq_closed q' = wq_closed q \<Longrightarrow>
     space_inv vs q' n = space_inv vs q n"
  by (simp add: space_inv_def)

lemma space_inv_begin:
  assumes "queue_env Q vf vs" and "space_inv vs q n" and "wq_closed q' = wq_closed q"
    and "wq_space_channel q' = chan_begin_receive (space_channel Q) (wq_space_channel q)"
  shows "space_inv vs q' (Suc n)"
proof -
  have "implements_channel (space_channel Q) vs" using assms(1) by (simp add: queue_env_def)
  from implements_channelD(4) [OF this] show ?thesis
    using assms(2-) by (simp add: space_inv_def view_begin_receive_def Let_def)
qed

lemma enqueue_senders:
  assumes "queue_env Q vf vs" and "senders_inv vf vs (q, ws)" and "representable f"
  shows "senders_inv vf vs (sender_step Q (q, ws) (Queue_enqueue f))"
proof (cases "admissible (wq_limits q) f")
  case False
  then have "enqueue Q q f = (q, Some (WriteResult_failure Status_resource_limit_exceeded
      ''write queue capacity exceeded''))"
    using assms(3) by (auto simp: admissible_def enqueue_def Let_def)
  then show ?thesis using assms(2) by (simp add: sender_step_def)
next
  case True
  then have eq: "enqueue Q q f = enqueue_attempt Q q f"
    by (auto simp: admissible_def enqueue_def Let_def)
  have q: "wq_inv vf q" "space_inv vs q (length ws)" using assms(2) by (simp_all add: senders_inv_def)
  show ?thesis
  proof (cases rule: enqueue_attempt_cases [OF assms(1) q(1) True])
    case (1 q')
    then show ?thesis
      using assms(2) space_inv_cong [of q' q] by (simp add: eq sender_step_def senders_inv_def)
  next
    case (2 q' msg)
    then show ?thesis
      using assms(2) space_inv_cong [of q' q] by (simp add: eq sender_step_def senders_inv_def)
  next
    case (3 q')
    then show ?thesis
      using assms(2) True space_inv_begin [OF assms(1) q(2), of q']
      by (simp add: eq sender_step_def senders_inv_def)
  qed
qed

text \<open>
  What resuming a suspended call does: nothing without a signal, a failure when the channel is
  closed and no signal is left, otherwise another attempt, with one signal taken.
\<close>

lemma enqueue_resume_cases:
  assumes env: "queue_env Q vf vs" and sp: "space_inv vs q (Suc n)"
  obtains
    (idle) q' where "enqueue_resume Q msg q f = (q', None)" "signals_of vs q = []"
      "\<not> wq_closed q" "q' = q\<lparr>wq_space_channel := wq_space_channel q'\<rparr>"
      "space_inv vs q' (Suc n)" "signals_of vs q' = []"
  | (shut) q' where "enqueue_resume Q msg q f =
        (q', Some (WriteResult_failure Status_resource_limit_exceeded msg))"
      "wq_closed q" "q' = q\<lparr>wq_space_channel := wq_space_channel q'\<rparr>" "space_inv vs q' n"
  | (signalled) q' where "enqueue_resume Q msg q f = enqueue_attempt Q q' f"
      "signals_of vs q \<noteq> []" "q' = q\<lparr>wq_space_channel := wq_space_channel q'\<rparr>"
      "space_inv vs q' n"
proof -
  have impl: "implements_channel (space_channel Q) vs" using env by (simp add: queue_env_def)
  let ?s = "vs (wq_space_channel q)"
  obtain ch ev where rcv: "chan_end_receive (space_channel Q) (wq_space_channel q) = (ch, ev)"
    by fastforce
  note e = implements_channelD(5,6) [OF impl, of "wq_space_channel q", unfolded rcv
      view_end_receive_def]
  let ?q = "q\<lparr>wq_space_channel := ch\<rparr>"
  show thesis
  proof (cases "view_buffer ?s")
    case Cons
    with e sp have "ev = Channel_message ()" "space_inv vs ?q n"
      by (simp_all add: space_inv_def Let_def)
    with Cons show thesis
      by (intro signalled [of ?q]) (simp_all add: enqueue_resume_def rcv)
  next
    case Nil
    show thesis
    proof (cases "wq_closed q")
      case True
      with e Nil sp have "ev = Channel_closed" "space_inv vs ?q n"
        by (simp_all add: space_inv_def Let_def)
      with True show thesis by (intro shut [of ?q]) (simp_all add: enqueue_resume_def rcv)
    next
      case False
      with e Nil sp have "ev = Channel_pending" "space_inv vs ?q (Suc n)" "vs ch = ?s"
        by (simp_all add: space_inv_def Let_def)
      with False Nil show thesis by (intro idle [of ?q]) (simp_all add: enqueue_resume_def rcv)
    qed
  qed
qed

lemma resume_senders:
  assumes "queue_env Q vf vs" and inv: "senders_inv vf vs (q, ws)" and "f \<in> set ws"
  shows "senders_inv vf vs (sender_step Q (q, ws) (Queue_resume msg f))"
proof -
  obtain n where n: "length ws = Suc n" using assms(3) by (cases ws) auto
  then have len: "length (remove1 f ws) = n" using assms(3) by (simp add: length_remove1)
  have q: "wq_inv vf q" "space_inv vs q (Suc n)" "admissible (wq_limits q) f"
    "list_all (admissible (wq_limits q)) (remove1 f ws)"
    using inv n assms(3) by (auto simp: senders_inv_def list_all_iff dest: notin_set_remove1)
  show ?thesis
  proof (cases rule: enqueue_resume_cases [OF assms(1) q(2), where msg = msg and f = f])
    case (1 q')
    obtain sp where "q' = q\<lparr>wq_space_channel := sp\<rparr>" using 1(4) by blast
    with 1 inv n show ?thesis by (simp add: sender_step_def senders_inv_def assms(3))
  next
    case (2 q')
    obtain sp where "q' = q\<lparr>wq_space_channel := sp\<rparr>" using 2(3) by blast
    with 2 q len assms(3) show ?thesis by (simp add: sender_step_def senders_inv_def)
  next
    case (3 q1)
    obtain sp where q1: "q1 = q\<lparr>wq_space_channel := sp\<rparr>" using 3(3) by blast
    have h: "wq_inv vf q1" "admissible (wq_limits q1) f" using q q1 by simp_all
    show ?thesis
    proof (cases rule: enqueue_attempt_cases [OF assms(1) h])
      case (1 q')
      then show ?thesis
        using 3 q q1 len assms(3) space_inv_cong [of q' q1]
        by (simp add: sender_step_def senders_inv_def)
    next
      case (2 q' msg')
      then show ?thesis
        using 3 q q1 len assms(3) space_inv_cong [of q' q1]
        by (simp add: sender_step_def senders_inv_def)
    next
      case r: (3 q')
      then show ?thesis
        using 3 q1 inv n assms(3) space_inv_begin [OF assms(1) 3(4), of q']
        by (simp add: sender_step_def senders_inv_def)
    qed
  qed
qed

section \<open>Writer and owner\<close>

lemma received_senders:
  assumes env: "queue_env Q vf vs" and inv: "senders_inv vf vs (q, ws)"
    and w: "wq_writer q = Writer_receiving"
  shows "senders_inv vf vs (writer_received Q q, ws)"
proof -
  have impl: "implements_channel (frame_channel Q) vf" "implements_channel (space_channel Q) vs"
    using env by (simp_all add: queue_env_def)
  let ?q = "writer_received Q q"
  have inv': "wq_inv vf ?q" using writer_received_step [OF env _ w] inv by (simp add: senders_inv_def)
  have frame: "wq_limits ?q = wq_limits q" "wq_closed ?q = wq_closed q"
    by (simp_all add: writer_received_def Let_def split: prod.splits ChannelEvent.splits)
  note ev = implements_channelD(6) [OF impl(1), of "wq_channel q"]
  show ?thesis
  proof (cases "buffer_of vf q")
    case Nil
    then have "wq_space_channel ?q = wq_space_channel q" "buffer_of vf ?q = []"
      using ev implements_channelD(5) [OF impl(1), of "wq_channel q"]
      by (auto simp: writer_received_def view_end_receive_def Let_def split: prod.splits
          ChannelEvent.splits if_splits)
    then show ?thesis
      using inv inv' frame Nil space_inv_cong [of ?q q] by (simp add: senders_inv_def)
  next
    case (Cons f fs)
    then have "wq_space_channel ?q =
        fst (chan_try_send (space_channel Q) (wq_space_channel q) ())"
      using ev by (auto simp: writer_received_def view_end_receive_def Let_def split: prod.splits
          ChannelEvent.splits)
    then have "vs (wq_space_channel ?q) = fst (view_try_send (vs (wq_space_channel q)) ())"
      using implements_channelD(2) [OF impl(2)] by simp
    then show ?thesis
      using inv inv' frame
      by (auto simp: senders_inv_def space_inv_def view_try_send_def view_accepts_def Let_def)
  qed
qed

lemma loop_senders:
  assumes "queue_env Q vf vs" and "senders_inv vf vs (q, ws)" and "wq_writer q \<noteq> Writer_receiving"
  shows "senders_inv vf vs (writer_loop Q q, ws)"
  using assms(2) writer_loop_inv [OF assms(1) _ assms(3)] space_inv_cong [of "writer_loop Q q" q]
  by (simp add: senders_inv_def) (simp add: writer_loop_def)

lemma close_senders:
  assumes "queue_env Q vf vs" and "senders_inv vf vs (q, ws)"
  shows "senders_inv vf vs (close_queue Q q, ws)"
proof -
  have "implements_channel (space_channel Q) vs" using assms(1) by (simp add: queue_env_def)
  from implements_channelD(7) [OF this] show ?thesis
    using assms(2) close_queue_inv(1) [OF assms(1), of q]
    by (simp add: senders_inv_def) (simp add: space_inv_def close_queue_def view_close_def Let_def)
qed

lemma try_enqueue_senders:
  assumes "queue_env Q vf vs" and "senders_inv vf vs (q, ws)" and "representable f"
  shows "senders_inv vf vs (fst (try_enqueue Q q f), ws)"
proof -
  let ?q = "fst (try_enqueue_frame Q q f)"
  have inv: "wq_inv vf q" using assms(2) by (simp add: senders_inv_def)
  have "wq_inv vf ?q \<and> wq_limits ?q = wq_limits q \<and> wq_closed ?q = wq_closed q \<and>
      (buffer_of vf q \<noteq> [] \<longrightarrow> buffer_of vf ?q \<noteq> [])"
    by (cases rule: try_enqueue_cases [OF assms(1) inv assms(3)]) simp_all
  then show ?thesis
    using assms(2) space_inv_cong [of ?q q] by (auto simp: try_enqueue_def senders_inv_def)
qed

lemma wrote_senders:
  assumes "queue_env Q vf vs" and "senders_inv vf vs (q, ws)"
  shows "senders_inv vf vs (fst (writer_wrote Q q failure), ws)"
proof (cases "\<exists>f bs. wq_writer q = Writer_writing f bs")
  case True
  then have ready: "wq_writer q \<noteq> Writer_receiving" by auto
  then have "wq_writer (close_queue Q q) \<noteq> Writer_receiving" by (simp add: close_queue_def)
  with close_senders [OF assms]
  have "senders_inv vf vs ((close_queue Q q)\<lparr>wq_writer := Writer_returned r\<rparr>, ws)" for r
    by (simp add: senders_inv_def space_inv_def wq_inv_def Let_def)
  with True loop_senders [OF assms ready] show ?thesis
    by (auto simp: writer_wrote_def split: option.splits)
next
  case False
  then show ?thesis using assms(2) by (auto simp: writer_wrote_def split: Writer.splits)
qed

lemma sender_step_inv:
  assumes "queue_env Q vf vs" and "senders_inv vf vs s" and "event_representable e"
  shows "senders_inv vf vs (sender_step Q s e)"
proof -
  obtain q ws where s: "s = (q, ws)" by fastforce
  note inv = assms(2) [unfolded s]
  show ?thesis
  proof (cases e)
    case (Queue_try_enqueue f)
    then show ?thesis
      using try_enqueue_senders [OF assms(1) inv, of f] assms(3)
      by (simp add: s sender_step_def case_prod_beta)
  next
    case (Queue_enqueue f)
    then show ?thesis using enqueue_senders [OF assms(1) inv, of f] assms(3) by (simp add: s)
  next
    case (Queue_resume msg f)
    then show ?thesis
      using resume_senders [OF assms(1) inv, of f msg] inv
      by (cases "f \<in> set ws") (simp_all add: s, simp add: sender_step_def)
  next
    case Queue_close
    then show ?thesis using close_senders [OF assms(1) inv] by (simp add: s sender_step_def)
  next
    case Queue_run
    then show ?thesis using loop_senders [OF assms(1) inv] inv by (simp add: s sender_step_def)
  next
    case Queue_received
    then show ?thesis using received_senders [OF assms(1) inv] inv by (simp add: s sender_step_def)
  next
    case (Queue_wrote failure)
    then show ?thesis using wrote_senders [OF assms(1) inv] by (simp add: s sender_step_def)
  qed
qed

lemma sender_run_inv:
  assumes "queue_env Q vf vs" and "list_all event_representable es"
  shows "senders_inv vf vs (sender_run Q lim es)"
proof -
  have "senders_inv vf vs (foldl (sender_step Q) s es)"
    if "senders_inv vf vs s" "list_all event_representable es" for s es
    using that by (induction es arbitrary: s) (simp_all add: sender_step_inv [OF assms(1)])
  then show ?thesis
    using new_queue_senders [OF assms(1)] assms(2) by (simp add: sender_run_def)
qed

section \<open>Progress\<close>

lemma drain_senders:
  assumes "queue_env Q vf vs" and "senders_inv vf vs (q, ws)" and "\<not> wq_closed q"
    and "wq_writer q = Writer_receiving" and "length (buffer_of vf q) \<le> n"
  shows "senders_inv vf vs (drain n Q q, ws) \<and> buffer_of vf (drain n Q q) = [] \<and>
     \<not> wq_closed (drain n Q q) \<and> wq_writer (drain n Q q) = Writer_receiving"
  using assms(2-)
proof (induction n arbitrary: q)
  case (Suc n)
  let ?q = "writer_received Q q"
  have inv: "wq_inv vf q" using Suc.prems(1) by (simp add: senders_inv_def)
  note rec = received_senders [OF assms(1) Suc.prems(1,3)]
  have closed: "\<not> wq_closed ?q"
    using Suc.prems(2) by (auto simp: writer_received_def Let_def split: prod.splits
        ChannelEvent.splits)
  show ?case
  proof (cases rule: writer_received_cases [OF assms(1) inv Suc.prems(3)])
    case (1 f fs)
    then have w: "wq_writer ?q \<noteq> Writer_receiving" by simp
    have "length (buffer_of vf (writer_loop Q ?q)) \<le> n" "\<not> wq_closed (writer_loop Q ?q)"
      "wq_writer (writer_loop Q ?q) = Writer_receiving"
      using 1 Suc.prems(4) closed writer_loop_inv(2) [OF assms(1) 1(2) w]
      by (simp_all add: writer_loop_def)
    then show ?thesis
      using Suc.IH [OF loop_senders [OF assms(1) rec w]] 1 by (simp add: wrote_ok)
  next
    case 2
    then show ?thesis using Suc.prems(2) by simp
  next
    case 3
    then show ?thesis using rec closed by simp
  qed
qed simp

text \<open>On an empty open queue every suspended call has a signal and its frame fits.\<close>

lemma resume_succeeds:
  assumes "queue_env Q vf vs" and inv: "senders_inv vf vs (q, ws)" and "f \<in> set ws"
    and "\<not> wq_closed q" and "buffer_of vf q = []"
  obtains q' where "enqueue_resume Q msg q f = (q', Some WriteResult_success)"
    "senders_inv vf vs (q', remove1 f ws)" "buffer_of vf q' = [f]" "\<not> wq_closed q'"
    "wq_writer q' = wq_writer q"
proof -
  obtain n where n: "length ws = Suc n" using assms(3) by (cases ws) auto
  have q: "wq_inv vf q" "space_inv vs q (Suc n)" "admissible (wq_limits q) f"
    "signals_of vs q \<noteq> []"
    using inv n assms(3-) by (auto simp: senders_inv_def list_all_iff)
  show thesis
  proof (cases rule: enqueue_resume_cases [OF assms(1) q(2), where msg = msg and f = f])
    case (3 q1)
    obtain sp where q1: "q1 = q\<lparr>wq_space_channel := sp\<rparr>" using 3(3) by blast
    have h: "wq_inv vf q1" "admissible (wq_limits q1) f" using q q1 by simp_all
    show thesis
    proof (cases rule: enqueue_attempt_cases [OF assms(1) h])
      case (1 q')
      then show thesis
        using resume_senders [OF assms(1-3), of msg] 3 q1 assms(3-) that [of q']
        by (simp add: sender_step_def)
    qed (use q1 assms(4,5) in simp_all)
  qed (use q assms(4) in simp_all)
qed

lemma serve_all:
  assumes "queue_env Q vf vs" and "senders_inv vf vs (q, ws)" and "\<not> wq_closed q"
    and "wq_writer q = Writer_receiving" and "length (buffer_of vf q) \<le> n" and "0 < n"
    and "mset fs = mset ws"
  shows "serve n Q msg q fs = map (\<lambda>f. Some WriteResult_success) fs"
  using assms(2-5,7)
proof (induction fs arbitrary: q ws)
  case (Cons f fs)
  have f: "f \<in> set ws" "mset fs = mset (remove1 f ws)"
    using Cons.prems(5) by (metis list.set_intros(1) set_mset_mset, metis mset_remove1
        remove1.simps(2))
  note d = drain_senders [OF assms(1) Cons.prems(1-4)]
  obtain q' where q': "enqueue_resume Q msg (drain n Q q) f = (q', Some WriteResult_success)"
    "senders_inv vf vs (q', remove1 f ws)" "buffer_of vf q' = [f]" "\<not> wq_closed q'"
    "wq_writer q' = wq_writer (drain n Q q)"
    using resume_succeeds [OF assms(1) _ f(1), of "drain n Q q" msg] d by metis
  then have "serve n Q msg q' fs = map (\<lambda>f. Some WriteResult_success) fs"
    using d assms(6) by (intro Cons.IH [OF q'(2) _ _ _ f(2)]) simp_all
  then show ?case using q'(1) by simp
qed simp

text \<open>
  After the queue has been closed a suspended call returns a failure as soon as it is resumed,
  whether or not a signal was left in the channel.
\<close>

lemma closed_senders_released:
  assumes "queue_env Q vf vs" and "list_all event_representable es"
    and "sender_run Q lim es = (q, ws)" and "wq_closed q" and "f \<in> set ws"
  shows "\<exists>q' what. enqueue_resume Q msg q f =
     (q', Some (WriteResult_failure Status_resource_limit_exceeded what))"
proof -
  have inv: "senders_inv vf vs (q, ws)" using sender_run_inv [OF assms(1,2), of lim] assms(3) by simp
  obtain n where n: "length ws = Suc n" using assms(5) by (cases ws) auto
  have q: "wq_inv vf q" "space_inv vs q (Suc n)" "admissible (wq_limits q) f"
    using inv n assms(5) by (auto simp: senders_inv_def list_all_iff)
  show ?thesis
  proof (cases rule: enqueue_resume_cases [OF assms(1) q(2), where msg = msg and f = f])
    case (3 q1)
    obtain sp where q1: "q1 = q\<lparr>wq_space_channel := sp\<rparr>" using 3(3) by blast
    then show ?thesis
      using 3(1) assms(4)
      by (simp add: enqueue_attempt_def try_enqueue_frame_def can_fit_def Let_def write_ok_def
          WriteResult_failure_def)
  qed (use assms(4) in auto)
qed

text \<open>
  Property C17. No suspended sender is forgotten. Take any interleaving of senders, resumptions
  and the writer that leaves the queue open with the writer waiting for frames and the calls
  \<open>ws\<close> of \<open>enqueue\<close> suspended. If the transport keeps writing, every one of these calls returns
  with success, in whatever order they are resumed, although \<open>run\<close> drops the signals for which
  the space channel has no room.
\<close>

theorem suspended_senders_return:
  assumes "queue_env Q vf vs" and "list_all event_representable es"
    and "sender_run Q lim es = (q, ws)" and "\<not> wq_closed q" and "wq_writer q = Writer_receiving"
    and "length (view_buffer (vf (wq_channel q))) \<le> n" and "0 < n" and "mset fs = mset ws"
  shows "serve n Q msg q fs = map (\<lambda>f. Some WriteResult_success) fs"
  using sender_run_inv [OF assms(1,2), of lim] assms(3-) by (intro serve_all [OF assms(1)]) simp_all

definition crowded :: "QueueEvent list" where
  "crowded = Queue_run # replicate 4 (Queue_enqueue tiny_frame)"

theorem suspended_senders_return_witness:
  "snd (sender_run reference_queue_ops \<lparr>max_frames = 1, max_bytes = 100\<rparr> crowded) =
     [tiny_frame, tiny_frame] \<and>
   serve 2 reference_queue_ops ''closed''
     (fst (sender_run reference_queue_ops \<lparr>max_frames = 1, max_bytes = 100\<rparr> crowded))
     [tiny_frame, tiny_frame] = [Some WriteResult_success, Some WriteResult_success]"
proof -
  let ?r = "sender_run reference_queue_ops \<lparr>max_frames = 1, max_bytes = 100\<rparr> crowded"
  have r: "\<not> wq_closed (fst ?r) \<and> wq_writer (fst ?r) = Writer_receiving \<and>
      length (view_buffer (wq_channel (fst ?r))) \<le> 2 \<and> snd ?r = [tiny_frame, tiny_frame]"
    by code_simp
  have "list_all event_representable crowded"
    by (simp add: crowded_def tiny_frame_representable numeral_eq_Suc)
  then show ?thesis
    using suspended_senders_return [OF reference_queue_env, where lim = "\<lparr>max_frames = 1, max_bytes = 100\<rparr>",
        OF _ prod.collapse [symmetric], of crowded 2 "[tiny_frame, tiny_frame]" "''closed''"] r
    by simp
qed

end
