(* ===== verification/Server_Trace.thy ===== *)
theory Server_Trace
  imports Server_Effects
begin

text \<open>
  Runs of a server connection with the events they consist of, and what they say about the bytes
  that were read: every handler task belongs to a request frame of its own in the stream that has
  been received, and is entered and left at most once.
\<close>

section \<open>Runs and the bytes they read\<close>

definition event_bytes :: "('t, 'v) ServerEvent \<Rightarrow> Buffer" where
  "event_bytes ev = (case ev of Server_read _ (Some bs) \<Rightarrow> bs | _ \<Rightarrow> [])"

definition received :: "('t, 'v) ServerEvent list \<Rightarrow> Buffer" where
  "received evs = concat (map event_bytes evs)"

definition starts :: "nat \<Rightarrow> ('t, 'v) ServerEvent \<Rightarrow> bool" where
  "starts i ev \<longleftrightarrow> (case ev of Server_handler_started j \<Rightarrow> j = i | _ \<Rightarrow> False)"

definition returns :: "nat \<Rightarrow> ('t, 'v) ServerEvent \<Rightarrow> bool" where
  "returns i ev \<longleftrightarrow> (case ev of Server_handler_returned j _ \<Rightarrow> j = i | _ \<Rightarrow> False)"

lemma received_snoc [simp]: "received (evs @ [ev]) = received evs @ event_bytes ev"
  by (simp add: received_def)

lemma server_events_snoc:
  "server_events E s (evs @ [ev]) = Some s2 \<longleftrightarrow>
     (\<exists>s1. server_events E s evs = Some s1 \<and> server_enabled s1 ev \<and> server_event E s1 ev = Some s2)"
  by (induction evs arbitrary: s) (auto split: option.splits)

lemma reachable_events:
  assumes "server_reachable E s s'"
  obtains evs where "server_events E s evs = Some s'"
proof -
  have "\<exists>evs. server_events E s evs = Some s'"
    using assms
  proof (induction rule: server_reachable.induct)
    case (start s)
    show ?case by (rule exI [of _ "[]"]) simp
  next
    case (step s s' ev s'')
    then show ?case using server_events_snoc by blast
  qed
  then show thesis using that by blast
qed

section \<open>What an event does to the frames that have been read\<close>

text \<open>
  Every event but a read with bytes and the dispatch of a frame leaves the decoder alone, spawns
  nothing and drops frames at most.
\<close>

lemma idle_event:
  assumes env: "queue_env (env_queue E) vf vs" and inv: "server_inv vf s"
    and en: "server_enabled s ev" and ev: "server_event E s ev = Some s'"
    and "event_bytes ev = []" and "ev \<noteq> Server_dispatch_next"
  shows "sc_decoder s' = sc_decoder s \<and> length (sc_tasks s') = length (sc_tasks s) \<and>
    reads_on s' (reader_frames (sc_reader s))"
proof (cases ev)
  case (Server_read b result)
  then have "result = None \<or> result = Some []" using assms(5) by (auto simp: event_bytes_def split: option.splits)
  then obtain lost where "s' = server_read_exit E (s\<lparr>sc_transport_open := sc_transport_open s \<and> b\<rparr>) lost"
    using ev Server_read by (auto simp: server_read_completed_def)
  moreover have "server_inv vf (s\<lparr>sc_transport_open := sc_transport_open s \<and> b\<rparr>)"
    using inv by (simp add: server_inv_def server_core_def)
  ultimately show ?thesis
    using read_exit_quiet(1) [OF env, of "s\<lparr>sc_transport_open := sc_transport_open s \<and> b\<rparr>"]
    by (simp add: server_quiet_def)
next
  case (Server_handler_started i)
  then show ?thesis
    using en ev handler_started_moves [OF env inv, of i]
    by (cases "decode_ok (decode_message (env_codec E) (env_registry E)
      (handler_request (task_types (sc_tasks s ! i))) (task_frame (sc_tasks s ! i)))")
      (auto simp: task_moves_def reads_on_def)
next
  case (Server_handler_returned i outcome)
  then have i: "i < length (sc_tasks s)" and s': "s' = handler_returned E s i outcome" using en ev by auto
  show ?thesis
    unfolding s' by (cases rule: handler_returned_moves [OF env inv i, of outcome])
      (simp_all add: task_moves_def reads_on_def)
next
  case (Server_handler_resumed msg i)
  then obtain f where i: "i < length (sc_tasks s)" and f: "task_phase (sc_tasks s ! i) = Task_sending f"
    and s': "s' = handler_resumed E msg s i f"
    using en ev by (auto simp: sending_frame_def split: TaskPhase.splits)
  show ?thesis
    unfolding s' by (rule handler_resumed_moves [OF env inv i f, of msg])
      (simp add: task_moves_def reads_on_def)
qed (use server_quiet_event [OF env inv en ev] assms(6) in \<open>simp_all add: server_quiet_def\<close>)

lemma frames_done_frames:
  "sc_tasks (server_frames_done E s) = sc_tasks s" "sc_decoder (server_frames_done E s) = sc_decoder s"
  "reader_frames (sc_reader (server_frames_done E s)) = []"
  "\<not> sc_transport_open s \<Longrightarrow> sc_reader (server_frames_done E s) = Reader_done"
  by (auto simp: server_frames_done_def server_read_head_def server_read_exit_def reader_frames_def Let_def
      split: option.split)

text \<open>Dispatching a frame spawns at most one task, and that task gets the frame.\<close>

lemma dispatch_event:
  assumes reader: "sc_reader s = Reader_dispatching (f # fs)" and s': "s' = server_dispatch_next E s"
  shows "sc_decoder s' = sc_decoder s" and "reads_on s' fs"
    and "map task_frame (sc_tasks s') = map task_frame (sc_tasks s) \<or>
      map task_frame (sc_tasks s') = map task_frame (sc_tasks s) @ [f]"
proof -
  let ?s1 = "frame_seen s f"
  let ?s2 = "server_dispatch E ?s1 f"
  have s2: "sc_decoder ?s2 = sc_decoder s"
    by (simp add: server_dispatch_def Let_def split: option.split)
  have same: "(map task_frame ts)[i := task_frame (ts ! i)] = map task_frame ts" for ts :: "('c, 'd) HandlerTask list" and i
    by (metis list_update_id map_update)
  have tasks: "map task_frame (sc_tasks ?s2) = map task_frame (sc_tasks s) \<or>
      map task_frame (sc_tasks ?s2) = map task_frame (sc_tasks s) @ [f]"
    by (auto simp: server_dispatch_def call_task_operation_def update_task_def map_update same case_prod_beta
        Let_def split: option.split)
  have eq: "s' = (if \<not> sc_transport_open ?s2 then server_frames_done E ?s2
      else ?s2\<lparr>sc_reader := Reader_dispatching fs\<rparr>)"
    by (simp add: s' server_dispatch_next_def reader Let_def)
  show "sc_decoder s' = sc_decoder s" and "reads_on s' fs"
    and "map task_frame (sc_tasks s') = map task_frame (sc_tasks s) \<or>
      map task_frame (sc_tasks s') = map task_frame (sc_tasks s) @ [f]"
    using s2 tasks frames_done_frames [where E = E and s = ?s2]
    by (auto simp: eq reads_on_def reader_frames_def)
qed

section \<open>The frames of the tasks\<close>

text \<open>
  The frames decoded so far (\<open>got\<close>) begin with those that have been dispatched (\<open>seen\<close>), followed by
  those the read loop still holds; each task has a frame of its own among those dispatched.
\<close>

definition tasks_traced :: "('ch, 'sp, 't, 'v) ServerConnection \<Rightarrow> Buffer \<Rightarrow> bool" where
  "tasks_traced s bytes \<longleftrightarrow>
     (\<exists>cs got seen. push_all (new_decoder default_max_payload_size) cs = Some (sc_decoder s, got) \<and>
        concat cs = bytes \<and> prefix (seen @ reader_frames (sc_reader s)) got \<and>
        subseq (map task_frame (sc_tasks s)) seen)"

lemma tasks_traced_frames:
  assumes "tasks_traced s bytes" and "sc_decoder s' = sc_decoder s"
    and "map task_frame (sc_tasks s') = map task_frame (sc_tasks s)"
    and "reads_on s' (reader_frames (sc_reader s))"
  shows "tasks_traced s' bytes"
proof -
  obtain cs got seen where t: "push_all (new_decoder default_max_payload_size) cs = Some (sc_decoder s, got)"
    "concat cs = bytes" "prefix (seen @ reader_frames (sc_reader s)) got"
    "subseq (map task_frame (sc_tasks s)) seen"
    using assms(1) unfolding tasks_traced_def by blast
  have "prefix (seen @ reader_frames (sc_reader s')) got"
    using t(3) assms(4) append_prefixD
    by (cases "sc_reader s' = Reader_done") (auto simp: reads_on_def reader_frames_def)
  then show ?thesis using t assms(2,3) unfolding tasks_traced_def by metis
qed

lemma tasks_traced_event:
  assumes env: "queue_env (env_queue E) vf vs" and inv: "server_inv vf s"
    and en: "server_enabled s ev" and ev: "server_event E s ev = Some s'" and traced: "tasks_traced s bytes"
  shows "tasks_traced s' (bytes @ event_bytes ev)"
proof -
  have "tasks_le (sc_tasks s) (sc_tasks s')"
    using server_event_total [OF env inv en] ev by (auto simp: server_advances_def)
  then have kept: "map task_frame (sc_tasks s') = map task_frame (sc_tasks s)"
    if "length (sc_tasks s') = length (sc_tasks s)"
    using that by (intro nth_equalityI) (simp_all add: tasks_le_def task_step_def)
  obtain cs got seen where t: "push_all (new_decoder default_max_payload_size) cs = Some (sc_decoder s, got)"
    "concat cs = bytes" "prefix (seen @ reader_frames (sc_reader s)) got"
    "subseq (map task_frame (sc_tasks s)) seen"
    using traced unfolding tasks_traced_def by blast
  consider (bytes) b bs where "ev = Server_read b (Some bs)" "bs \<noteq> []"
    | (frame) f fs where "ev = Server_dispatch_next" "sc_reader s = Reader_dispatching (f # fs)"
    | (last) "ev = Server_dispatch_next" "sc_reader s = Reader_dispatching []"
    | (other) "event_bytes ev = []" "ev \<noteq> Server_dispatch_next"
  proof (cases "ev = Server_dispatch_next")
    case True
    then obtain gs where "sc_reader s = Reader_dispatching gs"
      using en by (auto simp: dispatching_def split: Reader.splits)
    then show ?thesis using that(2,3) True by (cases gs) auto
  next
    case False
    then show ?thesis
      using that(1,4) by (cases "event_bytes ev = []") (auto simp: event_bytes_def split: ServerEvent.splits option.splits)
  qed
  then show ?thesis
  proof cases
    case bytes
    then obtain d fs where d: "push (sc_decoder s) bs = Some (d, fs)" "sc_decoder s' = d"
      "sc_reader s' = Reader_dispatching fs" "sc_tasks s' = sc_tasks s"
      using ev by (auto simp: server_read_completed_def Let_def neq_Nil_conv split: Option.bind_splits)
    have "subseq (map task_frame (sc_tasks s)) got"
      using t(3,4) append_prefixD [OF t(3)] prefix_imp_subseq subseq_order.order_trans by blast
    then show ?thesis
      using push_all_snoc [OF t(1) d(1)] t(2) d(2-4) bytes(1) unfolding tasks_traced_def
      by (intro exI [of _ "cs @ [bs]"] exI [of _ "got @ fs"] exI [of _ got])
        (simp add: event_bytes_def reader_frames_def)
  next
    case (frame f fs)
    then have s': "s' = server_dispatch_next E s" using ev by simp
    note d = dispatch_event [OF frame(2) s']
    have "prefix ((seen @ [f]) @ reader_frames (sc_reader s')) got"
      using t(3) d(2) frame(2) append_prefixD [of "seen @ [f]" fs got]
      by (cases "sc_reader s' = Reader_done") (auto simp: reads_on_def reader_frames_def)
    moreover have "subseq (map task_frame (sc_tasks s')) (seen @ [f])"
      using d(3) t(4) by (auto intro: list_emb_append_mono subseq_append' subseq_rev_drop_many)
    ultimately show ?thesis
      using t(1,2) d(1) frame(1) unfolding tasks_traced_def event_bytes_def
      by (intro exI [of _ cs] exI [of _ got] exI [of _ "seen @ [f]"]) simp
  next
    case last
    then have "s' = server_frames_done E s" using ev by (simp add: server_dispatch_next_def)
    then show ?thesis
      using tasks_traced_frames [OF traced, of s'] frames_done_frames [where E = E and s = s] last
      by (simp add: reads_on_def reader_frames_def event_bytes_def)
  next
    case other
    then show ?thesis
      using tasks_traced_frames [OF traced, of s'] idle_event [OF env inv en ev] kept by simp
  qed
qed

section \<open>Entering and leaving a handler\<close>

text \<open>How often a handler can have been entered and left, given how far its task is.\<close>

definition visits_bounded :: "('ch, 'sp, 't, 'v) ServerConnection \<Rightarrow> ('t, 'v) ServerEvent list \<Rightarrow> bool" where
  "visits_bounded s evs \<longleftrightarrow>
     (\<forall>i. length (filter (starts i) evs) \<le>
            (if i < length (sc_tasks s) \<and> 1 \<le> phase_rank (task_phase (sc_tasks s ! i)) then 1 else 0) \<and>
          length (filter (returns i) evs) \<le>
            (if i < length (sc_tasks s) \<and> 2 \<le> phase_rank (task_phase (sc_tasks s ! i)) then 1 else 0))"

lemma handler_started_phase:
  assumes "i < length (sc_tasks s)"
  shows "1 \<le> phase_rank (task_phase (sc_tasks (handler_started E s i) ! i))"
  using assms
  by (auto simp: handler_started_def run_handler_end_task update_task_def tasks_call send_operation_error_def
      case_prod_beta Let_def)

lemma handler_returned_phase:
  assumes "queue_env (env_queue E) vf vs" and "server_inv vf s" and "i < length (sc_tasks s)"
  shows "2 \<le> phase_rank (task_phase (sc_tasks (handler_returned E s i outcome) ! i))"
proof (cases outcome)
  case None
  then show ?thesis using run_handler_end_task [OF assms(3)] by (simp add: handler_returned_def)
next
  case (Some v)
  show ?thesis
    unfolding Some
  proof (cases rule: handler_returned_cases [OF assms, of v])
    case (1 f q res)
    then show "2 \<le> phase_rank (task_phase (sc_tasks (handler_returned E s i (Some v)) ! i))"
      using handler_sent_effect(2) [OF assms(1) 1(8), of i "fst (call_task_operation s i
          (Call_complete ''response ready''))" "final_frame f" res] assms(3)
      by (simp split: option.split)
  qed simp
qed

lemma visits_bounded_event:
  assumes env: "queue_env (env_queue E) vf vs" and inv: "server_inv vf s"
    and en: "server_enabled s ev" and ev: "server_event E s ev = Some s'" and bounded: "visits_bounded s evs"
  shows "visits_bounded s' (evs @ [ev])"
proof -
  have le: "tasks_le (sc_tasks s) (sc_tasks s')"
    using server_event_total [OF env inv en] ev by (auto simp: server_advances_def)
  note bound = bounded [unfolded visits_bounded_def, rule_format]
  have later: "i < length (sc_tasks s') \<and> k \<le> phase_rank (task_phase (sc_tasks s' ! i))"
    if "i < length (sc_tasks s)" "k \<le> phase_rank (task_phase (sc_tasks s ! i))" for i k
    using le that by (fastforce simp: tasks_le_def task_step_def)
  have start: "length (filter (starts i) evs) = 0 \<and> i < length (sc_tasks s') \<and>
      1 \<le> phase_rank (task_phase (sc_tasks s' ! i))" if "starts i ev" for i
  proof -
    have "ev = Server_handler_started i" using that by (simp add: starts_def split: ServerEvent.splits)
    then show ?thesis
      using en ev bound [of i] le handler_started_phase [of i s E] by (auto simp: tasks_le_def)
  qed
  have return: "length (filter (returns i) evs) = 0 \<and> i < length (sc_tasks s') \<and>
      2 \<le> phase_rank (task_phase (sc_tasks s' ! i))" if ret: "returns i ev" for i
  proof -
    obtain outcome where "ev = Server_handler_returned i outcome"
      using ret by (cases ev) (simp_all add: returns_def)
    then show ?thesis
      using en ev bound [of i] le handler_returned_phase [OF env inv, of i outcome]
      by (auto simp: tasks_le_def in_handler_def split: TaskPhase.splits)
  qed
  show ?thesis
    unfolding visits_bounded_def
  proof (intro allI conjI)
    fix i
    show "length (filter (starts i) (evs @ [ev])) \<le>
        (if i < length (sc_tasks s') \<and> 1 \<le> phase_rank (task_phase (sc_tasks s' ! i)) then 1 else 0)"
      using bound [of i] start [of i] later [of i 1] by (auto split: if_splits)
    show "length (filter (returns i) (evs @ [ev])) \<le>
        (if i < length (sc_tasks s') \<and> 2 \<le> phase_rank (task_phase (sc_tasks s' ! i)) then 1 else 0)"
      using bound [of i] return [of i] later [of i 2] by (auto split: if_splits)
  qed
qed

lemma server_events_traced:
  assumes env: "queue_env (env_queue E) vf vs" and "server_events E (new_server E lim hook) evs = Some s"
  shows "tasks_traced s (received evs) \<and> visits_bounded s evs"
  using assms(2)
proof (induction evs arbitrary: s rule: rev_induct)
  case Nil
  then have "s = new_server E lim hook" by simp
  then show ?case
    by (auto simp: tasks_traced_def visits_bounded_def received_def new_server_def reader_frames_def
        intro: exI [of _ "[]"])
next
  case (snoc ev evs)
  then obtain s1 where s1: "server_events E (new_server E lim hook) evs = Some s1" "server_enabled s1 ev"
    "server_event E s1 ev = Some s"
    by (auto simp: server_events_snoc)
  have inv: "server_inv vf s1" by (rule server_reachable_inv [OF env server_events_reachable [OF s1(1)]])
  show ?case
    using snoc.IH [OF s1(1)] tasks_traced_event [OF env inv s1(2,3)] visits_bounded_event [OF env inv s1(2,3)]
    by simp
qed

section \<open>Property\<close>

text \<open>
  Property C20. A request is handled at most once. Over any run of a server connection, the frames
  its handler tasks have been spawned for form a subsequence of the frames contained in the bytes
  read so far, as the specification \<open>parse\<close> cuts them: no task without a frame that arrived, no
  two tasks for one frame, and in the order of arrival. In the run each task is entered at most
  once and its handler returns or throws at most once, and once its coroutine has ended nothing
  touches the task or its operation any more.
\<close>

theorem handler_runs_once:
  assumes "queue_env (env_queue E) vf vs" and "server_events E (new_server E lim hook) evs = Some s"
  shows "subseq (map task_frame (sc_tasks s)) (fst (parse default_max_payload_size (received evs))) \<and>
     (\<forall>i. length (filter (starts i) evs) \<le> (if i < length (sc_tasks s) then 1 else 0) \<and>
       length (filter (returns i) evs) \<le> (if i < length (sc_tasks s) then 1 else 0)) \<and>
     (\<forall>s' i. server_reachable E s s' \<and> i < length (sc_tasks s) \<and> task_phase (sc_tasks s ! i) = Task_done \<longrightarrow>
       sc_tasks s' ! i = sc_tasks s ! i)"
proof -
  note traced = server_events_traced [OF assms]
  obtain cs got seen where t: "push_all (new_decoder default_max_payload_size) cs = Some (sc_decoder s, got)"
    "concat cs = received evs" "prefix (seen @ reader_frames (sc_reader s)) got"
    "subseq (map task_frame (sc_tasks s)) seen"
    using traced unfolding tasks_traced_def by blast
  have "got = fst (parse default_max_payload_size (received evs))"
    using t(1) push_all_parse [of default_max_payload_size cs] unfolding t(2) [symmetric]
    by (metis option.inject prod.inject)
  moreover have "subseq (map task_frame (sc_tasks s)) got"
    using t(4) prefix_imp_subseq [OF append_prefixD [OF t(3)]] by (rule subseq_order.order_trans)
  moreover have "length (filter (starts i) evs) \<le> (if i < length (sc_tasks s) then 1 else 0) \<and>
      length (filter (returns i) evs) \<le> (if i < length (sc_tasks s) then 1 else 0)" for i
    using conjunct2 [OF traced, unfolded visits_bounded_def, rule_format, of i] by (auto split: if_splits)
  moreover have "sc_tasks s' ! i = sc_tasks s ! i"
    if "server_reachable E s s'" "i < length (sc_tasks s)" "task_phase (sc_tasks s ! i) = Task_done" for s' i
  proof -
    have "server_inv vf s" by (rule server_reachable_inv [OF assms(1) server_events_reachable [OF assms(2)]])
    from server_reachable_advances [OF that(1) assms(1) this] show ?thesis
      using that(2,3) by (simp add: server_advances_def tasks_le_def task_step_def)
  qed
  ultimately show ?thesis by blast
qed

theorem handler_runs_once_witness:
  "\<exists>evs s. server_events sample_env sample_server evs = Some s \<and>
     map task_frame (sc_tasks s) = [sample_request] \<and>
     subseq [sample_request] (fst (parse default_max_payload_size (received evs))) \<and>
     length (filter (starts 0) evs) \<le> 1"
proof -
  obtain s where s: "server_reachable sample_env sample_server s" "sc_tasks s = [sample_task]"
    by (rule sample_busy)
  obtain evs where evs: "server_events sample_env sample_server evs = Some s"
    by (rule reachable_events [OF s(1)])
  from handler_runs_once [OF sample_queue_env evs] show ?thesis
    using evs s(2) by (intro exI [of _ evs] exI [of _ s]) (auto split: if_splits)
qed

end
