(* ===== verification/Connection_Drain.thy ===== *)
theory Connection_Drain
  imports Connection_Env
begin

text \<open>
  Calls of \<open>shutdown\<close> on a connection, next to everything else that happens to it. The client and
  the server have the same polling loop; what a run needs to know of a connection is a
  \<open>Drainable\<close>: its other events, the start of \<open>shutdown\<close> and the completion of the timer. What the
  two loops have in common is proved once, in the locale \<open>drain_loop\<close>.
\<close>

section \<open>Runs with calls of shutdown\<close>

record ('s, 'e) Drainable =
  dr_enabled :: "'s \<Rightarrow> 'e \<Rightarrow> bool"
  dr_event :: "'s \<Rightarrow> 'e \<Rightarrow> 's option"
  dr_shutdown :: "'s \<Rightarrow> int \<Rightarrow> int \<Rightarrow> int \<Rightarrow> ('s \<times> DrainCall) option"
  dr_poll :: "'s \<Rightarrow> int \<Rightarrow> int \<Rightarrow> bool \<Rightarrow> ('s \<times> DrainCall) option"

text \<open>A connection, the calls of \<open>shutdown\<close> made so far, and the last reading of the clock.\<close>

record 's Draining =
  dg_connection :: 's
  dg_calls :: "DrainCall list"
  dg_clock :: int

definition not_draining :: "'s \<Rightarrow> int \<Rightarrow> 's Draining" where
  "not_draining s now = \<lparr>dg_connection = s, dg_calls = [], dg_clock = now\<rparr>"

datatype 'e DrainEvent = Drain_other 'e | Drain_call int int int | Drain_poll nat int bool

text \<open>The clock does not go back, and a timer does not fire early; it may be cancelled at any time.\<close>

fun drain_enabled :: "('s, 'e) Drainable \<Rightarrow> 's Draining \<Rightarrow> 'e DrainEvent \<Rightarrow> bool" where
  "drain_enabled D g (Drain_other ev) \<longleftrightarrow> dr_enabled D (dg_connection g) ev"
| "drain_enabled D g (Drain_call now now' period) \<longleftrightarrow> dg_clock g \<le> now \<and> now \<le> now'"
| "drain_enabled D g (Drain_poll j now err) \<longleftrightarrow>
     j < length (dg_calls g) \<and> dg_clock g \<le> now \<and>
     (case dg_calls g ! j of Drain_polling deadline wake \<Rightarrow> err \<or> wake \<le> now | Drain_returned \<Rightarrow> False)"

fun drain_event :: "('s, 'e) Drainable \<Rightarrow> 's Draining \<Rightarrow> 'e DrainEvent \<Rightarrow> 's Draining option" where
  "drain_event D g (Drain_other ev) =
     do { s \<leftarrow> dr_event D (dg_connection g) ev; Some (g\<lparr>dg_connection := s\<rparr>) }"
| "drain_event D g (Drain_call now now' period) =
     do {
       (s, call) \<leftarrow> dr_shutdown D (dg_connection g) now now' period;
       Some \<lparr>dg_connection = s, dg_calls = dg_calls g @ [call], dg_clock = now'\<rparr>
     }"
| "drain_event D g (Drain_poll j now err) =
     (case dg_calls g ! j of
        Drain_returned \<Rightarrow> Some g
      | Drain_polling deadline wake \<Rightarrow>
          do {
            (s, call) \<leftarrow> dr_poll D (dg_connection g) deadline now err;
            Some \<lparr>dg_connection = s, dg_calls = (dg_calls g)[j := call], dg_clock = now\<rparr>
          })"

inductive drain_run ::
  "('s, 'e) Drainable \<Rightarrow> 's Draining \<Rightarrow> 'e DrainEvent list \<Rightarrow> 's Draining \<Rightarrow> bool"
  for D where
  none: "drain_run D g [] g"
| more: "drain_run D g evs g' \<Longrightarrow> drain_enabled D g' ev \<Longrightarrow> drain_event D g' ev = Some g'' \<Longrightarrow>
           drain_run D g (evs @ [ev]) g''"

text \<open>A run given by its events.\<close>

fun drain_exec ::
  "('s, 'e) Drainable \<Rightarrow> 's Draining \<Rightarrow> 'e DrainEvent list \<Rightarrow> 's Draining option" where
  "drain_exec D g [] = Some g"
| "drain_exec D g (ev # evs) =
     (if drain_enabled D g ev then do { g \<leftarrow> drain_event D g ev; drain_exec D g evs } else None)"

lemma drain_run_trans:
  assumes "drain_run D b evs' c" and "drain_run D a evs b"
  shows "drain_run D a (evs @ evs') c"
  using assms
proof (induction rule: drain_run.induct)
  case (more g evs' g' ev g'')
  then show ?case using drain_run.more [of D a "evs @ evs'" g' ev g''] by simp
qed simp

lemma drain_exec_run: "drain_exec D g evs = Some g' \<Longrightarrow> drain_run D g evs g'"
proof (induction evs arbitrary: g)
  case (Cons ev evs)
  then obtain g1 where g1: "drain_enabled D g ev" "drain_event D g ev = Some g1" "drain_exec D g1 evs = Some g'"
    by (auto split: if_splits Option.bind_splits)
  have "drain_run D g [ev] g1" using drain_run.more [OF drain_run.none g1(1,2)] by simp
  then show ?case using drain_run_trans [OF Cons.IH [OF g1(3)]] by fastforce
qed (simp add: drain_run.none)

fun is_poll :: "nat \<Rightarrow> 'e DrainEvent \<Rightarrow> bool" where
  "is_poll j (Drain_poll i _ _) \<longleftrightarrow> i = j"
| "is_poll j _ \<longleftrightarrow> False"

text \<open>How often the timer of a call has fired.\<close>

definition poll_count :: "nat \<Rightarrow> 'e DrainEvent list \<Rightarrow> nat" where
  "poll_count j evs = length (filter (is_poll j) evs)"

lemma poll_count_snoc:
  "poll_count j [] = 0" "poll_count j (evs @ [ev]) = poll_count j evs + (if is_poll j ev then 1 else 0)"
  by (simp_all add: poll_count_def)

section \<open>What the loops have in common\<close>

text \<open>
  \<open>inv\<close> is an invariant of the connection, \<open>closing\<close> holds from the start of a shutdown on and \<open>ended\<close>
  from its end on.
\<close>

definition draining_ok ::
  "('s \<Rightarrow> bool) \<Rightarrow> ('s \<Rightarrow> bool) \<Rightarrow> ('s \<Rightarrow> bool) \<Rightarrow> 's Draining \<Rightarrow> bool" where
  "draining_ok ok closing ended g \<longleftrightarrow>
     ok (dg_connection g) \<and> (dg_calls g \<noteq> [] \<longrightarrow> closing (dg_connection g)) \<and>
     (Drain_returned \<in> set (dg_calls g) \<longrightarrow> ended (dg_connection g))"

locale drain_loop =
  fixes D :: "('s, 'e) Drainable"
    and inv closing ended :: "'s \<Rightarrow> bool"
  assumes event_total: "inv s \<Longrightarrow> dr_enabled D s ev \<Longrightarrow>
      \<exists>s'. dr_event D s ev = Some s' \<and> inv s' \<and> (closing s \<longrightarrow> closing s') \<and> (ended s \<longrightarrow> ended s')"
    and shutdown_total: "inv s \<Longrightarrow> \<exists>s' call. dr_shutdown D s now now' period = Some (s', call) \<and>
      inv s' \<and> closing s' \<and> (ended s \<longrightarrow> ended s') \<and>
      (call = Drain_polling (now + period) (now' + poll_interval) \<and> now' < now + period \<or>
       call = Drain_returned \<and> ended s')"
    and poll_total: "inv s \<Longrightarrow> closing s \<Longrightarrow> \<exists>s' call. dr_poll D s deadline now err = Some (s', call) \<and>
      inv s' \<and> closing s' \<and> (ended s \<longrightarrow> ended s') \<and>
      (call = Drain_polling deadline (now + poll_interval) \<and> now < deadline \<and> \<not> err \<or>
       call = Drain_returned \<and> ended s')"
begin

abbreviation "draining_inv \<equiv> draining_ok inv closing ended"

lemma step_total:
  assumes "draining_inv g" and "drain_enabled D g ev"
  shows "\<exists>g'. drain_event D g ev = Some g' \<and> draining_inv g' \<and> (ended (dg_connection g) \<longrightarrow> ended (dg_connection g'))"
proof (cases ev)
  case (Drain_other e)
  then show ?thesis
    using event_total [of "dg_connection g" e] assms by (auto simp: draining_ok_def)
next
  case (Drain_call now now' period)
  then show ?thesis
    using shutdown_total [of "dg_connection g" now now' period] assms by (auto simp: draining_ok_def)
next
  case (Drain_poll j now err)
  then obtain d w where "dg_calls g ! j = Drain_polling d w" "j < length (dg_calls g)"
    using assms(2) by (auto split: DrainCall.splits)
  moreover have "Drain_returned \<in> set ((dg_calls g)[j := call]) \<Longrightarrow>
      call = Drain_returned \<or> Drain_returned \<in> set (dg_calls g)" for call
    using set_update_subset_insert [of "dg_calls g" j call] by auto
  ultimately show ?thesis
    using poll_total [of "dg_connection g" d now err] assms(1) Drain_poll
    by (force simp: draining_ok_def)
qed

lemma run_inv:
  assumes "drain_run D g evs g'" and "draining_inv g"
  shows "draining_inv g' \<and> (ended (dg_connection g) \<longrightarrow> ended (dg_connection g'))"
  using assms
proof (induction rule: drain_run.induct)
  case (more g evs g' ev g'')
  then show ?case using step_total [of g' ev] by auto
qed simp

lemma start_inv: "inv s \<Longrightarrow> draining_inv (not_draining s now)"
  by (simp add: draining_ok_def not_draining_def)

text \<open>How a step changes the state of one call.\<close>

lemma step_call:
  assumes inv: "draining_inv g" and en: "drain_enabled D g ev" and g': "drain_event D g ev = Some g'"
    and j: "j < length (dg_calls g)"
  shows "j < length (dg_calls g')"
    and "\<not> is_poll j ev \<Longrightarrow> dg_calls g' ! j = dg_calls g ! j"
    and "is_poll j ev \<Longrightarrow> \<exists>d w. dg_calls g ! j = Drain_polling d w \<and>
      (dg_calls g' ! j = Drain_returned \<or>
       (\<exists>now. dg_calls g' ! j = Drain_polling d (now + poll_interval) \<and> w \<le> now \<and> now < d))"
proof -
  have "j < length (dg_calls g') \<and> (\<not> is_poll j ev \<longrightarrow> dg_calls g' ! j = dg_calls g ! j) \<and>
    (is_poll j ev \<longrightarrow> (\<exists>d w. dg_calls g ! j = Drain_polling d w \<and>
      (dg_calls g' ! j = Drain_returned \<or>
       (\<exists>now. dg_calls g' ! j = Drain_polling d (now + poll_interval) \<and> w \<le> now \<and> now < d))))"
  proof (cases ev)
    case (Drain_poll i now err)
    then obtain d w where i: "dg_calls g ! i = Drain_polling d w" "i < length (dg_calls g)" "err \<or> w \<le> now"
      using en by (auto split: DrainCall.splits)
    have "closing (dg_connection g)" using inv j by (auto simp: draining_ok_def)
    then show ?thesis
      using poll_total [of "dg_connection g" d now err] inv g' i j Drain_poll
      by (auto simp: draining_ok_def nth_list_update)
  qed (use g' j in \<open>auto simp: nth_append split: Option.bind_splits\<close>)
  then show "j < length (dg_calls g')" "\<not> is_poll j ev \<Longrightarrow> dg_calls g' ! j = dg_calls g ! j"
    "is_poll j ev \<Longrightarrow> \<exists>d w. dg_calls g ! j = Drain_polling d w \<and>
      (dg_calls g' ! j = Drain_returned \<or>
       (\<exists>now. dg_calls g' ! j = Drain_polling d (now + poll_interval) \<and> w \<le> now \<and> now < d))"
    by blast+
qed

text \<open>Every poll that leaves the call waiting moves its timer by at least the interval.\<close>

lemma polls_bounded:
  assumes "drain_run D g evs g'" and "draining_inv g" and "j < length (dg_calls g)"
    and "dg_calls g ! j = Drain_polling d w" and "w < d + poll_interval"
  shows "j < length (dg_calls g') \<and>
    (\<exists>k \<le> poll_count j evs. poll_count j evs \<le> k + 1 \<and> w + int k * poll_interval < d + poll_interval \<and>
       (dg_calls g' ! j = Drain_returned \<or>
        k = poll_count j evs \<and> (\<exists>w'. dg_calls g' ! j = Drain_polling d w' \<and>
          w + int k * poll_interval \<le> w' \<and> w' < d + poll_interval)))"
  using assms
proof (induction rule: drain_run.induct)
  case (none g)
  then show ?case by (simp add: poll_count_snoc)
next
  case (more g evs g' ev g'')
  then obtain k where k: "j < length (dg_calls g')" "k \<le> poll_count j evs" "poll_count j evs \<le> k + 1"
    "w + int k * poll_interval < d + poll_interval"
    "dg_calls g' ! j = Drain_returned \<or> k = poll_count j evs \<and> (\<exists>w'. dg_calls g' ! j = Drain_polling d w' \<and>
       w + int k * poll_interval \<le> w' \<and> w' < d + poll_interval)" by blast
  have inv': "draining_inv g'" using run_inv [OF more.hyps(1) more.prems(1)] by simp
  note call = step_call [OF inv' more.hyps(2,3) k(1)]
  show ?case
  proof (cases "is_poll j ev")
    case False
    then show ?thesis using k call(1,2) by (intro conjI exI [of _ k]) (auto simp: poll_count_snoc)
  next
    case True
    obtain d' w' where w': "dg_calls g' ! j = Drain_polling d' w'"
      "dg_calls g'' ! j = Drain_returned \<or>
       (\<exists>now. dg_calls g'' ! j = Drain_polling d' (now + poll_interval) \<and> w' \<le> now \<and> now < d')"
      using call(3) [OF True] by blast
    then have same: "d' = d" "k = poll_count j evs" "w + int k * poll_interval \<le> w'" using k(5) by auto
    from w'(2) show ?thesis
    proof
      assume "dg_calls g'' ! j = Drain_returned"
      then show ?thesis
        using call(1) k(4) same(2) True by (intro conjI exI [of _ k]) (auto simp: poll_count_snoc)
    next
      assume "\<exists>now. dg_calls g'' ! j = Drain_polling d' (now + poll_interval) \<and> w' \<le> now \<and> now < d'"
      then obtain now where now: "dg_calls g'' ! j = Drain_polling d (now + poll_interval)" "w' \<le> now" "now < d"
        using same(1) by auto
      then have "w + int (Suc k) * poll_interval \<le> now + poll_interval"
        using same(3) by (simp add: algebra_simps)
      then show ?thesis
        using call(1) now same(2) True by (intro conjI exI [of _ "Suc k"]) (auto simp: poll_count_snoc)
    qed
  qed
qed

lemma returned_stays:
  assumes "drain_run D g evs g'" and "draining_inv g" and "j < length (dg_calls g)"
    and "dg_calls g ! j = Drain_returned"
  shows "j < length (dg_calls g') \<and> dg_calls g' ! j = Drain_returned \<and> poll_count j evs = 0"
  using assms
proof (induction rule: drain_run.induct)
  case (more g evs g' ev g'')
  then have now: "j < length (dg_calls g')" "dg_calls g' ! j = Drain_returned" "poll_count j evs = 0" by simp_all
  note call = step_call [OF conjunct1 [OF run_inv [OF more.hyps(1) more.prems(1)]] more.hyps(2,3) now(1)]
  have "\<not> is_poll j ev" using call(3) now(2) by auto
  then show ?case using call(1,2) now by (simp add: poll_count_snoc)
qed (simp add: poll_count_snoc)

text \<open>The state of a call, any number of steps after it was made.\<close>

lemma call_outcome:
  assumes "draining_inv g" and en: "drain_enabled D g (Drain_call now now' period)"
    and g1: "drain_event D g (Drain_call now now' period) = Some g1" and run: "drain_run D g1 evs g2"
  defines "j \<equiv> length (dg_calls g)"
  shows "draining_inv g2" and "int (poll_count j evs) * poll_interval < max 0 period + poll_interval"
    and "j < length (dg_calls g2)"
    and "dg_calls g2 ! j = Drain_returned \<or>
      (\<exists>w < now + period + poll_interval. dg_calls g2 ! j = Drain_polling (now + period) w)"
proof -
  have inv1: "draining_inv g1" using step_total [OF assms(1,2)] g1 by simp
  then show "draining_inv g2" using run_inv [OF run] by simp
  obtain s1 call where s1: "dr_shutdown D (dg_connection g) now now' period = Some (s1, call)"
    "call = Drain_polling (now + period) (now' + poll_interval) \<and> now' < now + period \<or> call = Drain_returned"
    using shutdown_total [of "dg_connection g" now now' period] assms(1) by (auto simp: draining_ok_def)
  then have j: "j < length (dg_calls g1)" "dg_calls g1 ! j = call" using g1 by (auto simp: j_def)
  have "int (poll_count j evs) * poll_interval < max 0 period + poll_interval \<and> j < length (dg_calls g2) \<and>
    (dg_calls g2 ! j = Drain_returned \<or>
     (\<exists>w < now + period + poll_interval. dg_calls g2 ! j = Drain_polling (now + period) w))"
  proof (cases "call = Drain_returned")
    case True
    then show ?thesis using returned_stays [OF run inv1 j(1)] j(2) by (simp add: poll_interval_def)
  next
    case False
    then have polling: "dg_calls g1 ! j = Drain_polling (now + period) (now' + poll_interval)" "now' < now + period"
      using s1(2) j(2) by auto
    obtain k where k: "j < length (dg_calls g2)" "poll_count j evs \<le> k + 1"
      "now' + poll_interval + int k * poll_interval < now + period + poll_interval"
      "dg_calls g2 ! j = Drain_returned \<or>
       (\<exists>w < now + period + poll_interval. dg_calls g2 ! j = Drain_polling (now + period) w)"
      using polls_bounded [OF run inv1 j(1) polling(1)] polling(2) by auto
    have "int (poll_count j evs) * poll_interval \<le> (int k + 1) * poll_interval"
      using k(2) by (intro mult_right_mono) (simp_all add: poll_interval_def)
    moreover have "int k * poll_interval < period" using k(3) en by simp
    ultimately have "int (poll_count j evs) * poll_interval < max 0 period + poll_interval"
      using max.cobounded2 [of period 0] by (simp only: distrib_right)
    then show ?thesis using k(1,4) by simp
  qed
  then show "int (poll_count j evs) * poll_interval < max 0 period + poll_interval" "j < length (dg_calls g2)"
    "dg_calls g2 ! j = Drain_returned \<or>
     (\<exists>w < now + period + poll_interval. dg_calls g2 ! j = Drain_polling (now + period) w)" by simp_all
qed

text \<open>
  A call of \<open>shutdown\<close> ends: its timer fires at most once per interval of the drain period, rounded
  up; when the call has returned the connection has ended; and a call that still waits returns
  when its timer fires after the deadline.
\<close>

lemma shutdown_ends:
  assumes "draining_inv g" and "drain_enabled D g (Drain_call now now' period)"
    and "drain_event D g (Drain_call now now' period) = Some g1" and "drain_run D g1 evs g2"
  defines "j \<equiv> length (dg_calls g)"
  shows "int (poll_count j evs) * poll_interval < max 0 period + poll_interval"
    and "dg_calls g2 ! j = Drain_returned \<Longrightarrow> ended (dg_connection g2)"
    and "dg_calls g2 ! j \<noteq> Drain_returned \<Longrightarrow> max (dg_clock g2) (now + period + poll_interval) \<le> t \<Longrightarrow>
      drain_enabled D g2 (Drain_poll j t False) \<and>
      (\<exists>g3. drain_event D g2 (Drain_poll j t False) = Some g3 \<and> dg_calls g3 ! j = Drain_returned)"
proof -
  note call = call_outcome [OF assms(1-4), folded j_def]
  show "int (poll_count j evs) * poll_interval < max 0 period + poll_interval" by (rule call(2))
  show "ended (dg_connection g2)" if "dg_calls g2 ! j = Drain_returned"
    using call(1,3) that nth_mem [OF call(3)] by (auto simp: draining_ok_def)
  assume "dg_calls g2 ! j \<noteq> Drain_returned" and t: "max (dg_clock g2) (now + period + poll_interval) \<le> t"
  then obtain w where w: "dg_calls g2 ! j = Drain_polling (now + period) w" "w < now + period + poll_interval"
    using call(4) by auto
  have "closing (dg_connection g2)" "inv (dg_connection g2)"
    using call(1,3) by (auto simp: draining_ok_def)
  then show "drain_enabled D g2 (Drain_poll j t False) \<and>
      (\<exists>g3. drain_event D g2 (Drain_poll j t False) = Some g3 \<and> dg_calls g3 ! j = Drain_returned)"
    using poll_total [of "dg_connection g2" "now + period" t False] call(3) w t
    by (auto simp: poll_interval_def)
qed

end

end
