(* ===== verification/Client_Drain.thy ===== *)
theory Client_Drain
  imports Client_Properties Connection_Drain
begin

text \<open>
  Calls of \<open>ClientConnection::shutdown\<close>: the polling loop as a step of the connection, what it
  waits for, that it ends, and what it leaves behind.
\<close>

section \<open>What only moves towards the end\<close>

text \<open>From draining on, and from the closing of the transport on, there is no way back.\<close>

definition winds_down :: "('ch, 'sp) ClientConnection \<Rightarrow> ('ch, 'sp) ClientConnection \<Rightarrow> bool" where
  "winds_down c c' \<longleftrightarrow>
     (rejects_requests (cc_lifecycle c) \<longrightarrow> rejects_requests (cc_lifecycle c')) \<and>
     (\<not> cc_transport_open c \<longrightarrow> \<not> cc_transport_open c')"

lemma winds_down_refl [simp]: "winds_down c c"
  by (simp add: winds_down_def)

lemma winds_down_trans: "winds_down a b \<Longrightarrow> winds_down b c \<Longrightarrow> winds_down a c"
  by (simp add: winds_down_def)

lemma winds_down_same:
  "cc_lifecycle c' = cc_lifecycle c \<Longrightarrow> cc_transport_open c' \<longrightarrow> cc_transport_open c \<Longrightarrow> winds_down c c'"
  by (auto simp: winds_down_def)

lemma rejects_closed: "rejects_requests st \<Longrightarrow> rejects_requests (fst (connection_transition st Connection_closed))"
  by (auto simp: rejects_requests_def connection_transition_def)

lemma fail_pending_wires:
  assumes "fail_pending E st msg c = Some c'"
  shows "cc_lifecycle c' = cc_lifecycle c \<and> cc_transport_open c' = cc_transport_open c"
proof (induction rule: fail_pending.raw_induct [OF _ assms])
  case (1 fail_pending E st msg c c')
  then show ?case by (auto simp: Let_def split: list.splits)
qed

lemma fail_connection_wires:
  "fail_connection E c st msg = Some c' \<Longrightarrow> cc_lifecycle c' = cc_lifecycle c \<and> \<not> cc_transport_open c'"
  by (auto simp: fail_connection_def Let_def dest!: fail_pending_wires split: Option.bind_splits if_splits)

lemma stretches_wires [simp]:
  "cc_lifecycle (fst (cancel_pending E c r msg)) = cc_lifecycle c"
  "cc_transport_open (fst (cancel_pending E c r msg)) = cc_transport_open c"
  "cc_lifecycle (timeout_pending E c r) = cc_lifecycle c"
  "cc_transport_open (timeout_pending E c r) = cc_transport_open c"
  "cc_lifecycle (discard_pending E c r) = cc_lifecycle c"
  "cc_transport_open (discard_pending E c r) = cc_transport_open c"
  "cc_lifecycle (fst (async_wait E c h)) = cc_lifecycle c"
  "cc_transport_open (fst (async_wait E c h)) = cc_transport_open c"
  "cc_lifecycle (fst (async_wait_completed E c h ty)) = cc_lifecycle c"
  "cc_transport_open (fst (async_wait_completed E c h ty)) = cc_transport_open c"
  by (simp_all add: cancel_pending_def timeout_pending_def discard_pending_def async_wait_def
      async_wait_completed_def case_prod_beta Let_def split: ChannelEvent.split)

lemma dispatch_wires:
  "dispatch E c f = Some c' \<Longrightarrow>
     cc_lifecycle c' = cc_lifecycle c \<and> (cc_transport_open c' \<longrightarrow> cc_transport_open c)"
  by (auto simp: dispatch_def Let_def case_prod_beta
      dest!: fail_connection_wires split: option.splits if_splits)

lemma dispatch_all_wires:
  "dispatch_all E c fs = Some c' \<Longrightarrow>
     cc_lifecycle c' = cc_lifecycle c \<and> (cc_transport_open c' \<longrightarrow> cc_transport_open c)"
proof (induction fs arbitrary: c)
  case (Cons f fs)
  then show ?case by (auto dest!: dispatch_wires split: Option.bind_splits if_splits)
qed simp

lemma read_loop_exit_winds_down: "read_loop_exit E c = Some c' \<Longrightarrow> winds_down c c'"
  by (auto simp: read_loop_exit_def winds_down_def rejects_closed dest!: fail_pending_wires split: Option.bind_splits)

lemma read_loop_head_winds_down: "read_loop_head E c = Some c' \<Longrightarrow> winds_down c c'"
  using read_loop_exit_winds_down by (auto simp: read_loop_head_def winds_down_def split: if_splits)

lemma start_request_wires [simp]:
  "cc_lifecycle (fst (start_request E c ty v)) = cc_lifecycle c"
  "cc_transport_open (fst (start_request E c ty v)) = cc_transport_open c"
  by (simp_all add: start_request_def start_request_sent_def Let_def case_prod_beta split: option.split)

lemma start_request_resume_wires [simp]:
  "cc_lifecycle (fst (start_request_resume E msg c r f)) = cc_lifecycle c"
  "cc_transport_open (fst (start_request_resume E msg c r f)) = cc_transport_open c"
  by (simp_all add: start_request_resume_def start_request_sent_def Let_def case_prod_beta split: option.split)

lemma start_request_deadline_wires [simp]:
  "cc_lifecycle (fst (start_request_deadline c st d)) = cc_lifecycle c"
  "cc_transport_open (fst (start_request_deadline c st d)) = cc_transport_open c"
  by (simp_all add: start_request_deadline_def Let_def split: StartOutcome.split)

lemma shutdown_finish_winds_down: "shutdown_finish E c = Some c' \<Longrightarrow> winds_down c c'"
  by (auto simp: shutdown_finish_def winds_down_def rejects_closed
      dest!: fail_pending_wires split: Option.bind_splits if_splits)

lemma begin_shutdown_winds_down: "winds_down c (begin_shutdown c)"
  using begin_shutdown_frame [of c] begin_shutdown_lifecycle [of c]
  by (auto simp: winds_down_def rejects_requests_def)

lemma read_completed_winds_down:
  assumes "read_completed E c still_open result = Some c'"
  shows "winds_down c c'"
proof -
  let ?c = "c\<lparr>cc_transport_open := cc_transport_open c \<and> still_open\<rparr>"
  have first: "winds_down c ?c" by (rule winds_down_same) simp_all
  show ?thesis
  proof (cases "result = None \<or> result = Some []")
    case True
    then have "read_loop_exit E ?c = Some c'" using assms by (auto simp: read_completed_def)
    then show ?thesis by (rule winds_down_trans [OF first read_loop_exit_winds_down])
  next
    case False
    then obtain b bs where bytes: "result = Some (b # bs)" by (cases result; cases "the result") auto
    let ?c1 = "\<lambda>d. (notify ?c (diagnostics_event Event_bytes_transferred StreamId_default Status_ok
      (length (b # bs)) True []))\<lparr>cc_decoder := d\<rparr>"
    obtain d frames c2 where c2: "dispatch_all E (?c1 d) frames = Some c2"
      and rest: "(case dec_error d of None \<Rightarrow> read_loop_head E c2
         | Some err \<Rightarrow> Option.bind (fail_connection E c2 (status_for_frame_validation err)
             (frame_validation_message err)) (read_loop_exit E)) = Some c'"
      using assms by (auto simp: read_completed_def bytes Let_def split: Option.bind_splits)
    have "winds_down c c2"
      using dispatch_all_wires [OF c2] by (intro winds_down_same) auto
    moreover have "winds_down c2 c'"
    proof (cases "dec_error d")
      case None
      then show ?thesis using rest read_loop_head_winds_down by simp
    next
      case (Some err)
      then obtain c3 where c3: "fail_connection E c2 (status_for_frame_validation err)
          (frame_validation_message err) = Some c3" "read_loop_exit E c3 = Some c'"
        using rest by (auto split: Option.bind_splits)
      have "winds_down c2 c3" using fail_connection_wires [OF c3(1)] by (intro winds_down_same) auto
      then show ?thesis using read_loop_exit_winds_down [OF c3(2)] by (rule winds_down_trans)
    qed
    ultimately show ?thesis by (rule winds_down_trans)
  qed
qed

lemma client_write_completed_winds_down: "winds_down c (client_write_completed E c failure)"
  by (rule winds_down_same)
    (auto simp: client_write_completed_def observe_write_def case_prod_beta Let_def split: option.splits)

lemma client_event_winds_down:
  assumes "client_event E c ev = Some c'"
  shows "winds_down c c'"
proof (cases ev)
  case Client_run
  then obtain c1 where "read_loop_head E c1 = Some c'" "winds_down c c1"
    using assms that [of "_\<lparr>cc_write_queue := _\<rparr>"]
    by (auto simp: client_run_def winds_down_def rejects_requests_def Let_def split: if_splits)
  then show ?thesis using read_loop_head_winds_down winds_down_trans by blast
next
  case (Client_read still_open result)
  then show ?thesis using assms read_completed_winds_down by simp
next
  case (Client_wrote failure)
  then show ?thesis using assms client_write_completed_winds_down by auto
next
  case Client_begin_shutdown
  then show ?thesis using assms begin_shutdown_winds_down by auto
next
  case Client_shutdown_finish
  then show ?thesis using assms shutdown_finish_winds_down by simp
qed (use assms in \<open>auto simp: timer_completed_def handle_cancel_def handle_destroy_def
    client_frame_received_def case_prod_beta intro!: winds_down_same split: if_splits\<close>)

section \<open>Calls of shutdown\<close>

text \<open>
  The other events are all events of the connection, so that the runs here include those without
  calls of \<open>shutdown\<close>.
\<close>

definition client_drainable ::
  "('ch, 'sp, 't, 'v) Env \<Rightarrow> (('ch, 'sp) ClientConnection, ('t, 'v) ClientEvent) Drainable" where
  "client_drainable E =
     \<lparr>dr_enabled = client_enabled, dr_event = client_event E, dr_shutdown = client_shutdown E, dr_poll = client_shutdown_poll E\<rparr>"

definition client_closed :: "('ch, 'sp) ClientConnection \<Rightarrow> bool" where
  "client_closed c \<longleftrightarrow> cc_lifecycle c = Connection_closed \<and> \<not> cc_transport_open c \<and> cc_pending c = []"

lemma closed_stays_closed:
  "client_closed c \<Longrightarrow> client_advances vf c c' \<Longrightarrow> winds_down c c' \<Longrightarrow> client_closed c'"
  by (simp add: client_closed_def client_advances_def winds_down_def client_inv_def)

lemma begin_shutdown_rejects:
  "client_inv vf c \<Longrightarrow> rejects_requests (cc_lifecycle (begin_shutdown c))"
  using client_inv_parts(6) [of vf c]
  by (cases "cc_lifecycle c") (simp_all add: begin_shutdown_lifecycle rejects_requests_def resting_def)

lemma client_shutdown_end_total:
  assumes "client_inv vf c" and "rejects_requests (cc_lifecycle c)"
  shows "\<exists>c'. client_shutdown_end E c = Some (c', Drain_returned) \<and> client_inv vf c' \<and>
     client_closed c' \<and> operations c' = map (fail_unsettled Status_connection_closed
       ''connection drain period expired'') (operations c)"
proof -
  obtain c' where c': "shutdown_finish E c = Some c'" "client_advances vf c c'" "cc_pending c' = []"
    "\<not> cc_transport_open c'" "operations c' = map (fail_unsettled Status_connection_closed
       ''connection drain period expired'') (operations c)"
    "cc_lifecycle c' = fst (connection_transition (cc_lifecycle c) Connection_closed)"
    by (rule shutdown_finish_total [OF assms(1), of E])
  moreover have "cc_lifecycle c' = Connection_closed"
    using c'(6) assms client_inv_parts(6) [OF assms(1)]
    by (auto simp: rejects_requests_def resting_def connection_transition_def)
  ultimately show ?thesis by (simp add: client_shutdown_end_def client_closed_def client_advancesD)
qed

lemma client_shutdown_head_total:
  assumes "client_inv vf c" and "rejects_requests (cc_lifecycle c)"
  shows "\<exists>c' call. client_shutdown_head E c now deadline = Some (c', call) \<and> client_inv vf c' \<and>
     rejects_requests (cc_lifecycle c') \<and> (client_closed c \<longrightarrow> client_closed c') \<and>
     (call = Drain_polling deadline (now + poll_interval) \<and> now < deadline \<or>
      call = Drain_returned \<and> client_closed c')"
proof (cases "shutdown_waits c now deadline")
  case True
  then show ?thesis using assms by (simp add: client_shutdown_head_def shutdown_waits_def)
next
  case False
  then show ?thesis
    using client_shutdown_end_total [OF assms, of E]
    by (auto simp: client_shutdown_head_def client_closed_def rejects_requests_def)
qed

lemma client_shutdown_total:
  assumes "client_inv vf c"
  shows "\<exists>c' call. client_shutdown E c now now' period = Some (c', call) \<and> client_inv vf c' \<and>
     rejects_requests (cc_lifecycle c') \<and> (client_closed c \<longrightarrow> client_closed c') \<and>
     (call = Drain_polling (now + period) (now' + poll_interval) \<and> now' < now + period \<or>
      call = Drain_returned \<and> client_closed c')"
proof -
  have "client_closed c \<Longrightarrow> client_closed (begin_shutdown c)"
    using closed_stays_closed [OF _ begin_shutdown_advances [OF assms] begin_shutdown_winds_down] .
  then show ?thesis
    unfolding client_shutdown_def
    using client_shutdown_head_total [OF client_advancesD [OF begin_shutdown_advances [OF assms]]
        begin_shutdown_rejects [OF assms]] by blast
qed

interpretation client_drain: drain_loop "client_drainable E"
  "\<lambda>c. queue_env (env_queue E) vf vs \<and> client_inv vf c" "\<lambda>c. rejects_requests (cc_lifecycle c)" client_closed
  for E :: "('ch, 'sp, 't, 'v) Env" and vf and vs
proof unfold_locales
  fix c :: "('ch, 'sp) ClientConnection" and ev
  assume h: "queue_env (env_queue E) vf vs \<and> client_inv vf c" "dr_enabled (client_drainable E) c ev"
  then obtain c' where c': "client_event E c ev = Some c'" "client_advances vf c c'"
    using client_event_total by (fastforce simp: client_drainable_def)
  then show "\<exists>c'. dr_event (client_drainable E) c ev = Some c' \<and>
      (queue_env (env_queue E) vf vs \<and> client_inv vf c') \<and>
      (rejects_requests (cc_lifecycle c) \<longrightarrow> rejects_requests (cc_lifecycle c')) \<and>
      (client_closed c \<longrightarrow> client_closed c')"
    using client_event_winds_down [OF c'(1)] closed_stays_closed [OF _ c'(2)] h(1)
    by (auto simp: client_drainable_def client_advancesD winds_down_def)
next
  fix c :: "('ch, 'sp) ClientConnection" and now now' period
  assume h: "queue_env (env_queue E) vf vs \<and> client_inv vf c"
  then show "\<exists>c' call. dr_shutdown (client_drainable E) c now now' period = Some (c', call) \<and>
      (queue_env (env_queue E) vf vs \<and> client_inv vf c') \<and> rejects_requests (cc_lifecycle c') \<and>
      (client_closed c \<longrightarrow> client_closed c') \<and>
      (call = Drain_polling (now + period) (now' + poll_interval) \<and> now' < now + period \<or>
       call = Drain_returned \<and> client_closed c')"
    using client_shutdown_total [of vf c E now now' period] by (auto simp: client_drainable_def)
next
  fix c :: "('ch, 'sp) ClientConnection" and deadline now err
  assume h: "queue_env (env_queue E) vf vs \<and> client_inv vf c" "rejects_requests (cc_lifecycle c)"
  show "\<exists>c' call. dr_poll (client_drainable E) c deadline now err = Some (c', call) \<and>
      (queue_env (env_queue E) vf vs \<and> client_inv vf c') \<and> rejects_requests (cc_lifecycle c') \<and>
      (client_closed c \<longrightarrow> client_closed c') \<and>
      (call = Drain_polling deadline (now + poll_interval) \<and> now < deadline \<and> \<not> err \<or>
       call = Drain_returned \<and> client_closed c')"
    using client_shutdown_head_total [of vf c E now deadline] client_shutdown_end_total [of vf c E] h
    by (cases err) (auto simp: client_drainable_def client_shutdown_poll_def client_closed_def rejects_requests_def)
qed

section \<open>Properties\<close>

abbreviation client_drain_run ::
  "('ch, 'sp, 't, 'v) Env \<Rightarrow> ('ch, 'sp) ClientConnection Draining \<Rightarrow> ('t, 'v) ClientEvent DrainEvent list \<Rightarrow>
     ('ch, 'sp) ClientConnection Draining \<Rightarrow> bool" where
  "client_drain_run E \<equiv> drain_run (client_drainable E)"

lemma client_drain_inv:
  assumes "queue_env (env_queue E) vf vs"
    and "client_drain_run E (not_draining (new_client E lim mx hook) t0) evs g"
  shows "draining_ok (\<lambda>c. queue_env (env_queue E) vf vs \<and> client_inv vf c)
     (\<lambda>c. rejects_requests (cc_lifecycle c)) client_closed g"
  using client_drain.run_inv [OF assms(2) client_drain.start_inv, of vf vs] assms(1) new_client_inv by blast

lemma pending_iff_unsettled:
  assumes "client_inv vf c"
  shows "cc_pending c \<noteq> [] \<longleftrightarrow> (\<exists>r < length (cc_heap c). op_result (pr_operation (cc_heap c ! r)) = None)"
proof -
  note pinv = client_inv_parts(1) [OF assms]
  have terminal: "op_is_terminal (pr_operation (cc_heap c ! r)) \<longleftrightarrow> op_result (pr_operation (cc_heap c ! r)) \<noteq> None"
    if "r < length (cc_heap c)" for r
    using op_inv_result [OF pend_inv_request(1) [OF pinv that]] by simp
  have "\<exists>r < length (cc_heap c). op_result (pr_operation (cc_heap c ! r)) = None" if pend: "cc_pending c \<noteq> []"
  proof -
    obtain sid r where "map_of (cc_pending c) sid = Some r"
      using pend by (cases "cc_pending c") (metis map_of_Cons_code(2) surj_pair)+
    then show ?thesis
      using pend_inv_entry(1) [OF pinv] pend_inv_entry_active [OF pinv] terminal op_is_terminal_active by blast
  qed
  moreover have "op_result (pr_operation (cc_heap c ! r)) \<noteq> None" if "cc_pending c = []" "r < length (cc_heap c)" for r
    using no_pending_settled [OF pinv that(1) nth_mem [OF that(2)]] terminal [OF that(2)] by simp
  ultimately show ?thesis by blast
qed

text \<open>
  A call of \<open>shutdown\<close> on a client connection returns, whatever else happens to the
  connection and whatever other calls of \<open>shutdown\<close> there are: its timer fires at most once per
  millisecond of the drain period, rounded up. When the call has returned the connection is
  closed, with a closed transport and nothing pending; while it has not, its timer can fire, and
  the first time it does so after the deadline the call returns.
\<close>

lemma client_shutdown_returns:
  assumes "queue_env (env_queue E) vf vs"
    and "client_drain_run E (not_draining (new_client E lim mx hook) t0) evs g"
    and "drain_enabled (client_drainable E) g (Drain_call now now' period)"
    and "drain_event (client_drainable E) g (Drain_call now now' period) = Some g1"
    and "client_drain_run E g1 evs' g2"
  defines "j \<equiv> length (dg_calls g)"
  shows "int (poll_count j evs') * poll_interval < max 0 period + poll_interval \<and>
     (dg_calls g2 ! j = Drain_returned \<longrightarrow> client_closed (dg_connection g2)) \<and>
     (dg_calls g2 ! j \<noteq> Drain_returned \<longrightarrow> (\<forall>t \<ge> max (dg_clock g2) (now + period + poll_interval).
        drain_enabled (client_drainable E) g2 (Drain_poll j t False) \<and>
        (\<exists>g3. drain_event (client_drainable E) g2 (Drain_poll j t False) = Some g3 \<and>
           dg_calls g3 ! j = Drain_returned)))"
  using client_drain.shutdown_ends [OF client_drain_inv [OF assms(1,2)] assms(3-5)]
  unfolding j_def by blast

text \<open>The round that leaves the loop.\<close>

lemma client_poll_ends:
  assumes inv: "client_inv vf c" and "rejects_requests (cc_lifecycle c)"
    and "client_shutdown_poll E c deadline now err = Some (c', call)"
    and "\<not> (cc_pending c \<noteq> [] \<and> now < deadline \<and> \<not> err)"
  shows "call = Drain_returned" and "client_closed c'" and "length (cc_heap c') = length (cc_heap c)"
    and "r < length (cc_heap c) \<Longrightarrow> op_result (pr_operation (cc_heap c' ! r)) =
      (case op_result (pr_operation (cc_heap c ! r)) of
         None \<Rightarrow> Some (OperationResult_failure Status_connection_closed ''connection drain period expired'')
       | Some res \<Rightarrow> Some res)"
proof -
  let ?fail = "fail_unsettled Status_connection_closed ''connection drain period expired''"
  have "client_shutdown_end E c = Some (c', call)"
    using assms(3,4) by (auto simp: client_shutdown_poll_def client_shutdown_head_def shutdown_waits_def split: if_splits)
  then have c': "call = Drain_returned" "client_closed c'" "operations c' = map ?fail (operations c)"
    using client_shutdown_end_total [OF assms(1,2), of E] by auto
  then show "call = Drain_returned" "client_closed c'" by simp_all
  show len: "length (cc_heap c') = length (cc_heap c)" using arg_cong [OF c'(3), of length] by simp
  assume r: "r < length (cc_heap c)"
  then show "op_result (pr_operation (cc_heap c' ! r)) =
      (case op_result (pr_operation (cc_heap c ! r)) of
         None \<Rightarrow> Some (OperationResult_failure Status_connection_closed ''connection drain period expired'')
       | Some res \<Rightarrow> Some res)"
    using arg_cong [OF c'(3), of "\<lambda>os. os ! r"] len
      fail_unsettled_result [OF pend_inv_request [OF client_inv_parts(1) [OF inv] r]] by simp
qed

text \<open>
  Property C13. What \<open>shutdown\<close> of a client connection waits for: as long as some request has no result,
  the deadline lies ahead and the timer reports no error, a round of the loop changes nothing. The
  round that ends the loop closes the connection; a request that has a result keeps it, and a
  request without one, which there is only after the deadline or an error of the timer, fails
  with \<open>connection_closed\<close>. From the first call of \<open>shutdown\<close> on new requests are refused.
\<close>

theorem client_shutdown_drains:
  assumes "queue_env (env_queue E) vf vs"
    and "client_drain_run E (not_draining (new_client E lim mx hook) t0) evs g"
    and "j < length (dg_calls g)" and "dg_calls g ! j = Drain_polling deadline wake"
    and "drain_event (client_drainable E) g (Drain_poll j now err) = Some g'"
  defines "c \<equiv> dg_connection g" and "c' \<equiv> dg_connection g'"
  shows "start_request E c ty v = (c, Start_failed Status_connection_closed ''connection is shutting down'') \<and>
    (if (\<exists>r < length (cc_heap c). op_result (pr_operation (cc_heap c ! r)) = None) \<and> now < deadline \<and> \<not> err
     then c' = c \<and> dg_calls g' ! j = Drain_polling deadline (now + poll_interval)
     else dg_calls g' ! j = Drain_returned \<and> client_closed c' \<and> length (cc_heap c') = length (cc_heap c) \<and>
       (\<forall>r < length (cc_heap c). op_result (pr_operation (cc_heap c' ! r)) =
          (case op_result (pr_operation (cc_heap c ! r)) of
             None \<Rightarrow> Some (OperationResult_failure Status_connection_closed ''connection drain period expired'')
           | Some res \<Rightarrow> Some res)))"
proof -
  have inv: "client_inv vf c" and closing: "rejects_requests (cc_lifecycle c)"
    using client_drain_inv [OF assms(1,2)] assms(3) by (auto simp: draining_ok_def c_def)
  obtain call where poll: "client_shutdown_poll E c deadline now err = Some (c', call)" "dg_calls g' ! j = call"
    using assms(3-5) by (auto simp: c_def c'_def client_drainable_def split: Option.bind_splits)
  have "start_request E c ty v = (c, Start_failed Status_connection_closed ''connection is shutting down'')"
    using closing by (simp add: start_request_def)
  moreover have "c' = c \<and> call = Drain_polling deadline (now + poll_interval)"
    if "cc_pending c \<noteq> [] \<and> now < deadline \<and> \<not> err"
    using poll(1) that by (simp add: client_shutdown_poll_def client_shutdown_head_def shutdown_waits_def)
  ultimately show ?thesis
    unfolding pending_iff_unsettled [OF inv, symmetric]
    using client_poll_ends [OF inv closing poll(1)] poll(2)
    by (cases "cc_pending c \<noteq> [] \<and> now < deadline \<and> \<not> err") (simp_all only: if_True if_False, simp_all)
qed

section \<open>An example\<close>

text \<open>
  A shutdown with a drain period of five milliseconds while a request waits for its response: one
  round before the deadline, and one after it.
\<close>

definition sample_drained :: "(unit, Buffer) ClientEvent DrainEvent list" where
  "sample_drained = [Drain_other (Client_start () [5])]"

abbreviation sample_waiting ::
  "int \<Rightarrow> int \<Rightarrow> (Frame ChannelView, unit ChannelView) ClientConnection Draining" where
  "sample_waiting wake clock \<equiv>
     \<lparr>dg_connection = begin_shutdown sample_started, dg_calls = [Drain_polling 5000000 wake], dg_clock = clock\<rparr>"

lemma sample_shutdown_steps:
  "client_drain_run sample_env (not_draining sample_client 0) sample_drained (not_draining sample_started 0)"
  "drain_event (client_drainable sample_env) (not_draining sample_started 0) (Drain_call 0 0 5000000) =
     Some (sample_waiting 1000000 0)"
  "drain_event (client_drainable sample_env) (sample_waiting 1000000 0) (Drain_poll 0 1000000 False) =
     Some (sample_waiting 2000000 1000000)"
proof -
  show "client_drain_run sample_env (not_draining sample_client 0) sample_drained (not_draining sample_started 0)"
    by (rule drain_exec_run)
      (simp add: sample_drained_def not_draining_def client_drainable_def sample_start(1))
  have "cc_pending (begin_shutdown sample_started) \<noteq> []"
    using begin_shutdown_frame [of sample_started] by (auto simp: sample_started_state)
  then show "drain_event (client_drainable sample_env) (not_draining sample_started 0) (Drain_call 0 0 5000000) =
      Some (sample_waiting 1000000 0)"
    "drain_event (client_drainable sample_env) (sample_waiting 1000000 0) (Drain_poll 0 1000000 False) =
      Some (sample_waiting 2000000 1000000)"
    by (simp_all add: not_draining_def client_drainable_def client_shutdown_def client_shutdown_poll_def
        client_shutdown_head_def shutdown_waits_def poll_interval_def)
qed

lemma sample_shutdown_call:
  "drain_enabled (client_drainable sample_env) (not_draining sample_started 0) (Drain_call 0 0 5000000)"
  "client_drain_run sample_env (not_draining sample_client 0) (sample_drained @ [Drain_call 0 0 5000000])
     (sample_waiting 1000000 0)"
proof -
  show en: "drain_enabled (client_drainable sample_env) (not_draining sample_started 0) (Drain_call 0 0 5000000)"
    by (simp add: not_draining_def)
  show "client_drain_run sample_env (not_draining sample_client 0) (sample_drained @ [Drain_call 0 0 5000000])
      (sample_waiting 1000000 0)"
    by (rule drain_run.more [OF sample_shutdown_steps(1) en sample_shutdown_steps(2)])
qed

lemma client_shutdown_returns_example:
  "int (poll_count 0 [Drain_poll 0 1000000 False :: (unit, Buffer) ClientEvent DrainEvent]) * poll_interval
     < 5000000 + poll_interval \<and>
   (\<exists>g. drain_event (client_drainable sample_env) (sample_waiting 2000000 1000000) (Drain_poll 0 6000000 False) =
      Some g \<and> dg_calls g ! 0 = Drain_returned)"
proof -
  have run: "client_drain_run sample_env (sample_waiting 1000000 0) [Drain_poll 0 1000000 False]
      (sample_waiting 2000000 1000000)"
    using sample_shutdown_steps(3) by (intro drain_exec_run) simp
  from client_shutdown_returns [OF sample_queue_env sample_shutdown_steps(1) sample_shutdown_call(1)
      sample_shutdown_steps(2) run]
  show ?thesis by (simp add: not_draining_def poll_interval_def del: drain_event.simps drain_enabled.simps)
qed

theorem client_shutdown_drains_witness:
  "\<exists>g. drain_event (client_drainable sample_env) (sample_waiting 1000000 0) (Drain_poll 0 5000000 False) = Some g \<and>
     op_result (pr_operation (cc_heap (dg_connection g) ! 0)) =
       Some (OperationResult_failure Status_connection_closed ''connection drain period expired'')"
proof -
  obtain g where g: "drain_event (client_drainable sample_env) (sample_waiting 1000000 0)
      (Drain_poll 0 5000000 False) = Some g"
    using client_drain.step_total [OF client_drain_inv [OF sample_queue_env sample_shutdown_call(2)],
        of "Drain_poll 0 5000000 False"] by auto
  have "cc_heap (begin_shutdown sample_started) = cc_heap sample_started"
    using begin_shutdown_frame [of sample_started] by auto
  then have "op_result (pr_operation (cc_heap (dg_connection g) ! 0)) =
      Some (OperationResult_failure Status_connection_closed ''connection drain period expired'')"
    using client_shutdown_drains [OF sample_queue_env sample_shutdown_call(2), of 0 5000000 1000000 5000000 False g]
      sample_unsettled g by (simp add: sample_started_state del: drain_event.simps)
  then show ?thesis using g by blast
qed

end
