(* ===== verification/Server_Drain.thy ===== *)
theory Server_Drain
  imports Server_Properties Connection_Drain
begin

text \<open>
  Calls of \<open>ServerConnection::shutdown\<close>: what the polling loop waits for, that it ends, what it does
  to the handlers that are still busy, and what may be lost.
\<close>

section \<open>What only moves towards the end\<close>

definition server_closed :: "('ch, 'sp, 't, 'v) ServerConnection \<Rightarrow> bool" where
  "server_closed s \<longleftrightarrow> sc_lifecycle s = Connection_closed \<and> \<not> sc_transport_open s"

definition server_winds_down ::
  "('ch, 'sp, 't, 'v) ServerConnection \<Rightarrow> ('ch, 'sp, 't, 'v) ServerConnection \<Rightarrow> bool" where
  "server_winds_down s s' \<longleftrightarrow>
     (draining_or_later (sc_lifecycle s) \<longrightarrow> draining_or_later (sc_lifecycle s')) \<and>
     (server_closed s \<longrightarrow> server_closed s')"

lemma server_winds_down_same:
  "sc_lifecycle s' = sc_lifecycle s \<Longrightarrow> sc_transport_open s' \<longrightarrow> sc_transport_open s \<Longrightarrow> server_winds_down s s'"
  by (auto simp: server_winds_down_def server_closed_def)

lemma draining_closed:
  "draining_or_later st \<Longrightarrow> draining_or_later (fst (connection_transition st Connection_closed))"
  "fst (connection_transition Connection_closed st) = Connection_closed"
  by (auto simp: draining_or_later_def connection_transition_def)

lemma fail_operations_wires [simp]:
  "sc_lifecycle (fail_operations_on_connection_close s) = sc_lifecycle s"
  "sc_transport_open (fail_operations_on_connection_close s) = sc_transport_open s"
proof -
  have "sc_lifecycle (foldl (\<lambda>s (_, i). fail_operation s i) s ps) = sc_lifecycle s"
    and "sc_transport_open (foldl (\<lambda>s (_, i). fail_operation s i) s ps) = sc_transport_open s" for ps
    by (induction ps arbitrary: s) (auto simp: fail_operation_def Let_def)
  then show "sc_lifecycle (fail_operations_on_connection_close s) = sc_lifecycle s"
    "sc_transport_open (fail_operations_on_connection_close s) = sc_transport_open s"
    by (simp_all add: fail_operations_on_connection_close_def)
qed

lemma server_stretches_wires [simp]:
  "sc_lifecycle (run_handler_end E s i) = sc_lifecycle s"
  "sc_transport_open (run_handler_end E s i) = sc_transport_open s"
  "sc_lifecycle (handler_sent E s i f r) = sc_lifecycle s"
  "sc_transport_open (handler_sent E s i f r) = sc_transport_open s"
  "sc_lifecycle (handler_started E s i) = sc_lifecycle s"
  "sc_transport_open (handler_started E s i) = sc_transport_open s"
  by (simp_all add: run_handler_end_def handler_sent_def handler_started_def case_prod_beta Let_def
      split: option.split)

lemma handler_returned_wires [simp]:
  "sc_lifecycle (handler_returned E s i v) = sc_lifecycle s"
  "sc_transport_open (handler_returned E s i v) = sc_transport_open s"
  by (simp_all add: handler_returned_def case_prod_beta Let_def split: option.split)

lemma server_dispatch_wires:
  "sc_lifecycle (server_dispatch E s f) = sc_lifecycle s"
  "sc_transport_open (server_dispatch E s f) \<Longrightarrow> sc_transport_open s"
  by (auto simp: server_dispatch_def Let_def split: option.splits if_splits)

lemma server_read_exit_winds_down: "server_winds_down s (server_read_exit E s lost)"
  by (simp add: server_winds_down_def server_closed_def server_read_exit_def draining_closed Let_def)

lemma server_read_head_winds_down: "server_winds_down s (server_read_head E s)"
  using server_read_exit_winds_down [of s E False]
  by (simp add: server_read_head_def server_winds_down_def server_closed_def)

lemma server_winds_down_trans: "server_winds_down a b \<Longrightarrow> server_winds_down b c \<Longrightarrow> server_winds_down a c"
  by (simp add: server_winds_down_def)

lemma server_frames_done_winds_down: "server_winds_down s (server_frames_done E s)"
proof (cases "dec_error (sc_decoder s)")
  case None
  then show ?thesis using server_read_head_winds_down by (simp add: server_frames_done_def)
next
  case (Some err)
  then show ?thesis
    by (simp add: server_frames_done_def Let_def)
      (intro server_winds_down_trans [OF server_winds_down_same server_read_exit_winds_down], simp_all)
qed

lemma server_dispatch_next_winds_down: "server_winds_down s (server_dispatch_next E s)"
proof (cases "\<exists>f fs. sc_reader s = Reader_dispatching (f # fs)")
  case True
  then obtain f fs where r: "sc_reader s = Reader_dispatching (f # fs)" by blast
  let ?s = "server_dispatch E (frame_seen s f) f"
  have first: "server_winds_down s ?s"
    using server_dispatch_wires [of E "frame_seen s f" f] by (intro server_winds_down_same) auto
  show ?thesis
    using server_winds_down_trans [OF first server_frames_done_winds_down] first r
    by (simp add: server_dispatch_next_def Let_def server_winds_down_def server_closed_def)
next
  case False
  then show ?thesis
    using server_frames_done_winds_down
    by (auto simp: server_dispatch_next_def server_winds_down_same split: Reader.split list.split)
qed

lemma server_read_completed_winds_down:
  assumes "server_read_completed E s still_open result = Some s'"
  shows "server_winds_down s s'"
proof -
  let ?s = "s\<lparr>sc_transport_open := sc_transport_open s \<and> still_open\<rparr>"
  have first: "server_winds_down s ?s" by (rule server_winds_down_same) simp_all
  show ?thesis
  proof (cases "result = None \<or> result = Some []")
    case True
    then obtain lost where "s' = server_read_exit E ?s lost" using assms by (auto simp: server_read_completed_def)
    then show ?thesis using server_winds_down_trans [OF first server_read_exit_winds_down] by simp
  next
    case False
    then obtain b bs where "result = Some (b # bs)" by (cases result; cases "the result") auto
    then show ?thesis
      using assms by (intro server_winds_down_same)
        (auto simp: server_read_completed_def Let_def split: Option.bind_splits)
  qed
qed

lemma server_event_winds_down:
  assumes "server_event E s ev = Some s'"
  shows "server_winds_down s s'"
proof (cases ev)
  case Server_run
  then obtain s1 where "s' = server_read_head E s1" "server_winds_down s s1"
    using assms that [of "_\<lparr>sc_write_queue := _\<rparr>"]
    by (auto simp: server_run_def server_winds_down_def server_closed_def draining_or_later_def Let_def
        split: if_splits)
  then show ?thesis using server_winds_down_trans server_read_head_winds_down by blast
next
  case (Server_read still_open result)
  then show ?thesis using assms server_read_completed_winds_down by simp
next
  case Server_dispatch_next
  then show ?thesis using assms server_dispatch_next_winds_down by auto
next
  case Server_begin_shutdown
  then show ?thesis
    using assms by (auto simp: server_begin_shutdown_def server_winds_down_def server_closed_def
        draining_or_later_def Let_def)
next
  case Server_shutdown_finish
  then show ?thesis
    using assms by (auto simp: server_shutdown_finish_def server_winds_down_def server_closed_def
        draining_closed Let_def)
next
  case (Server_wrote failure)
  then show ?thesis
    using assms by (auto simp: server_write_completed_def server_observe_write_def case_prod_beta Let_def
        intro!: server_winds_down_same split: option.splits)
qed (use assms in \<open>auto simp: server_handle_def handler_resumed_def server_frame_received_def
    intro!: server_winds_down_same split: option.splits\<close>)

section \<open>Calls of shutdown\<close>

definition server_drainable ::
  "('ch, 'sp, 't, 'v) Env \<Rightarrow> (('ch, 'sp, 't, 'v) ServerConnection, ('t, 'v) ServerEvent) Drainable" where
  "server_drainable E =
     \<lparr>dr_enabled = server_enabled, dr_event = server_event E,
      dr_shutdown = (\<lambda>s now now' period. Some (server_shutdown s now now' period)),
      dr_poll = (\<lambda>s deadline now err. Some (server_shutdown_poll s deadline now err))\<rparr>"

lemma server_begin_shutdown_draining:
  assumes "server_inv vf s"
  shows "draining_or_later (sc_lifecycle (server_begin_shutdown s))"
  using server_core_parts(5) [OF server_inv_core [OF assms]]
  by (cases "sc_lifecycle s")
    (simp_all add: server_begin_shutdown_def draining_or_later_def resting_def connection_transition_def Let_def)

lemma server_shutdown_finish_closed:
  assumes "server_inv vf s" and "draining_or_later (sc_lifecycle s)"
  shows "server_inv vf (server_shutdown_finish s)" and "server_closed (server_shutdown_finish s)"
    and "draining_or_later (sc_lifecycle (server_shutdown_finish s))"
proof -
  show "server_inv vf (server_shutdown_finish s)"
    by (rule server_advancesD [OF server_shutdown_finish_advances [OF assms(1)]])
  show "server_closed (server_shutdown_finish s)"
    using assms(2) server_core_parts(5) [OF server_inv_core [OF assms(1)]]
    by (auto simp: server_closed_def server_shutdown_finish_def draining_or_later_def resting_def
        connection_transition_def Let_def)
  then show "draining_or_later (sc_lifecycle (server_shutdown_finish s))"
    by (simp add: server_closed_def draining_or_later_def)
qed

lemma server_shutdown_head_total:
  assumes "server_inv vf s" and "draining_or_later (sc_lifecycle s)"
  shows "\<exists>s' call. server_shutdown_head s now deadline = (s', call) \<and> server_inv vf s' \<and>
     draining_or_later (sc_lifecycle s') \<and> (server_closed s \<longrightarrow> server_closed s') \<and>
     (call = Drain_polling deadline (now + poll_interval) \<and> now < deadline \<or>
      call = Drain_returned \<and> server_closed s')"
  using assms server_shutdown_finish_closed [OF assms]
  by (simp add: server_shutdown_head_def server_shutdown_waits_def)

interpretation server_drain: drain_loop "server_drainable E"
  "\<lambda>s. queue_env (env_queue E) vf vs \<and> server_inv vf s" "\<lambda>s. draining_or_later (sc_lifecycle s)" server_closed
  for E :: "('ch, 'sp, 't, 'v) Env" and vf and vs
proof unfold_locales
  fix s :: "('ch, 'sp, 't, 'v) ServerConnection" and ev
  assume h: "queue_env (env_queue E) vf vs \<and> server_inv vf s" "dr_enabled (server_drainable E) s ev"
  then obtain s' where s': "server_event E s ev = Some s'" "server_advances vf s s'"
    using server_event_total by (fastforce simp: server_drainable_def)
  then show "\<exists>s'. dr_event (server_drainable E) s ev = Some s' \<and>
      (queue_env (env_queue E) vf vs \<and> server_inv vf s') \<and>
      (draining_or_later (sc_lifecycle s) \<longrightarrow> draining_or_later (sc_lifecycle s')) \<and>
      (server_closed s \<longrightarrow> server_closed s')"
    using server_event_winds_down [OF s'(1)] h(1)
    by (simp add: server_drainable_def server_advancesD server_winds_down_def)
next
  fix s :: "('ch, 'sp, 't, 'v) ServerConnection" and now now' period
  assume h: "queue_env (env_queue E) vf vs \<and> server_inv vf s"
  have "server_closed s \<longrightarrow> server_closed (server_begin_shutdown s)"
    using server_event_winds_down [of E s Server_begin_shutdown] by (simp add: server_winds_down_def)
  moreover have "server_inv vf (server_begin_shutdown s)"
    using h server_advancesD [OF server_begin_shutdown_advances] by blast
  ultimately show "\<exists>s' call. dr_shutdown (server_drainable E) s now now' period = Some (s', call) \<and>
      (queue_env (env_queue E) vf vs \<and> server_inv vf s') \<and> draining_or_later (sc_lifecycle s') \<and>
      (server_closed s \<longrightarrow> server_closed s') \<and>
      (call = Drain_polling (now + period) (now' + poll_interval) \<and> now' < now + period \<or>
       call = Drain_returned \<and> server_closed s')"
    using server_shutdown_head_total [of vf "server_begin_shutdown s" now' "now + period"]
      server_begin_shutdown_draining [of vf s] h
    by (auto simp: server_drainable_def server_shutdown_def)
next
  fix s :: "('ch, 'sp, 't, 'v) ServerConnection" and deadline now err
  assume h: "queue_env (env_queue E) vf vs \<and> server_inv vf s" "draining_or_later (sc_lifecycle s)"
  then show "\<exists>s' call. dr_poll (server_drainable E) s deadline now err = Some (s', call) \<and>
      (queue_env (env_queue E) vf vs \<and> server_inv vf s') \<and> draining_or_later (sc_lifecycle s') \<and>
      (server_closed s \<longrightarrow> server_closed s') \<and>
      (call = Drain_polling deadline (now + poll_interval) \<and> now < deadline \<and> \<not> err \<or>
       call = Drain_returned \<and> server_closed s')"
    using server_shutdown_head_total [of vf s now deadline] server_shutdown_finish_closed [of vf s]
    by (cases err) (auto simp: server_drainable_def server_shutdown_poll_def)
qed

section \<open>Properties\<close>

abbreviation server_drain_run ::
  "('ch, 'sp, 't, 'v) Env \<Rightarrow> ('ch, 'sp, 't, 'v) ServerConnection Draining \<Rightarrow>
     ('t, 'v) ServerEvent DrainEvent list \<Rightarrow> ('ch, 'sp, 't, 'v) ServerConnection Draining \<Rightarrow> bool" where
  "server_drain_run E \<equiv> drain_run (server_drainable E)"

lemma server_drain_inv:
  assumes "queue_env (env_queue E) vf vs"
    and "server_drain_run E (not_draining (new_server E lim hook) t0) evs g"
  shows "draining_ok (\<lambda>s. queue_env (env_queue E) vf vs \<and> server_inv vf s)
     (\<lambda>s. draining_or_later (sc_lifecycle s)) server_closed g"
  using server_drain.run_inv [OF assms(2) server_drain.start_inv, of vf vs] assms(1) new_server_inv by blast

text \<open>
  Property C12. A call of \<open>shutdown\<close> on a server connection returns, whatever its handlers do: its
  timer fires at most once per millisecond of the drain period, rounded up. When the call has
  returned the connection is closed and so is its transport; while it has not, its timer can
  fire, and the first time it does so after the deadline the call returns.
\<close>

theorem server_shutdown_returns:
  assumes "queue_env (env_queue E) vf vs"
    and "server_drain_run E (not_draining (new_server E lim hook) t0) evs g"
    and "drain_enabled (server_drainable E) g (Drain_call now now' period)"
    and "drain_event (server_drainable E) g (Drain_call now now' period) = Some g1"
    and "server_drain_run E g1 evs' g2"
  defines "j \<equiv> length (dg_calls g)"
  shows "int (poll_count j evs') * poll_interval < max 0 period + poll_interval \<and>
     (dg_calls g2 ! j = Drain_returned \<longrightarrow> server_closed (dg_connection g2)) \<and>
     (dg_calls g2 ! j \<noteq> Drain_returned \<longrightarrow> (\<forall>t \<ge> max (dg_clock g2) (now + period + poll_interval).
        drain_enabled (server_drainable E) g2 (Drain_poll j t False) \<and>
        (\<exists>g3. drain_event (server_drainable E) g2 (Drain_poll j t False) = Some g3 \<and>
           dg_calls g3 ! j = Drain_returned)))"
  using server_drain.shutdown_ends [OF server_drain_inv [OF assms(1,2)] assms(3-5)]
  unfolding j_def by blast

text \<open>What the last round of the loop does to the tasks.\<close>

lemma live_handlers_busy:
  assumes "server_inv vf s"
  shows "live_handlers s \<noteq> {} \<longleftrightarrow> sc_active_handlers s \<noteq> 0"
proof -
  note core = server_inv_core [OF assms]
  have "live_handlers s = snd ` set (sc_operations s)"
    by (rule live_handlers_table(1) [OF server_core_parts(1) [OF core]])
  then show ?thesis using active_handlers_zero [OF core] by auto
qed

lemma shutdown_finish_tasks:
  assumes inv: "server_inv vf s" and i: "i \<in> live_handlers s"
  shows "task_operation (sc_tasks (server_shutdown_finish s) ! i) = connection_lost_op (task_operation (sc_tasks s ! i))"
    and "task_phase (sc_tasks (server_shutdown_finish s) ! i) = task_phase (sc_tasks s ! i)"
proof -
  note tbl = server_core_parts(1) [OF server_inv_core [OF inv]]
  have "sc_active_handlers s \<noteq> 0" using live_handlers_busy [OF inv] i by auto
  then have "sc_tasks (server_shutdown_finish s) ! i =
      (sc_tasks s ! i)\<lparr>task_operation := connection_lost_op (task_operation (sc_tasks s ! i))\<rparr>"
    using fail_operations_effect(2) [OF tbl] i by (simp add: server_shutdown_finish_def live_handlers_def Let_def)
  then show "task_operation (sc_tasks (server_shutdown_finish s) ! i) = connection_lost_op (task_operation (sc_tasks s ! i))"
    "task_phase (sc_tasks (server_shutdown_finish s) ! i) = task_phase (sc_tasks s ! i)" by simp_all
qed

text \<open>
  Property C14. What \<open>shutdown\<close> of a server connection waits for: as long as a handler is busy, the
  deadline lies ahead and the timer reports no error, a round of the loop changes nothing. The
  round that ends the loop closes the connection and its transport. The handlers that are still
  busy then, which there are only after the deadline or an error of the timer, keep running, but
  an operation without a result gets \<open>connection_closed\<close> and its handler sees the cancellation flag.
\<close>

theorem server_shutdown_drains:
  assumes "queue_env (env_queue E) vf vs"
    and "server_drain_run E (not_draining (new_server E lim hook) t0) evs g"
    and "j < length (dg_calls g)" and "dg_calls g ! j = Drain_polling deadline wake"
    and "drain_event (server_drainable E) g (Drain_poll j now err) = Some g'"
  defines "s \<equiv> dg_connection g" and "s' \<equiv> dg_connection g'"
  shows "if live_handlers s \<noteq> {} \<and> now < deadline \<and> \<not> err
     then s' = s \<and> dg_calls g' ! j = Drain_polling deadline (now + poll_interval)
     else dg_calls g' ! j = Drain_returned \<and> server_closed s' \<and>
       (\<forall>i \<in> live_handlers s. task_phase (sc_tasks s' ! i) = task_phase (sc_tasks s ! i) \<and>
          op_result (task_operation (sc_tasks s' ! i)) =
            (case op_result (task_operation (sc_tasks s ! i)) of
               None \<Rightarrow> Some (OperationResult_failure Status_connection_closed
                              ''connection closed while processing a request'')
             | Some res \<Rightarrow> Some res) \<and>
          (op_result (task_operation (sc_tasks s ! i)) = None \<longrightarrow> context_is_cancelled s' i))"
proof -
  have inv: "server_inv vf s" and closing: "draining_or_later (sc_lifecycle s)"
    using server_drain_inv [OF assms(1,2)] assms(3) by (auto simp: draining_ok_def s_def)
  have busy: "live_handlers s \<noteq> {} \<longleftrightarrow> sc_active_handlers s \<noteq> 0" by (rule live_handlers_busy [OF inv])
  obtain call where poll: "server_shutdown_poll s deadline now err = (s', call)" "dg_calls g' ! j = call"
    using assms(3-5) by (auto simp: s_def s'_def server_drainable_def split: prod.splits)
  show ?thesis
  proof (cases "live_handlers s \<noteq> {} \<and> now < deadline \<and> \<not> err")
    case True
    then show ?thesis
      using poll busy by (simp add: server_shutdown_poll_def server_shutdown_head_def server_shutdown_waits_def)
  next
    case False
    then have "s' = server_shutdown_finish s" "call = Drain_returned"
      using poll(1) busy
      by (auto simp: server_shutdown_poll_def server_shutdown_head_def server_shutdown_waits_def split: if_splits)
    moreover have "i < length (sc_tasks s)" if "i \<in> live_handlers s" for i
      using that by (simp add: live_handlers_def)
    ultimately show ?thesis
      using False poll(2) server_shutdown_finish_closed(2) [OF inv closing] shutdown_finish_tasks [OF inv]
        connection_lost_result [OF live_operation(1,2) [OF inv]]
      by (simp add: context_is_cancelled_def)
  qed
qed

text \<open>
  Property C39. The drain does not cover the responses: when no handler is busy, the next round of
  \<open>shutdown\<close> closes the transport at once, long before the deadline if need be, and leaves the write
  queue as it is. Frames that have been accepted by the queue and not been written, among them
  the responses of the handlers the call has just waited for, stay behind.
\<close>

theorem drain_leaves_responses:
  assumes "queue_env (env_queue E) vf vs"
    and "server_drain_run E (not_draining (new_server E lim hook) t0) evs g"
    and "j < length (dg_calls g)" and "dg_calls g ! j = Drain_polling deadline wake"
    and "live_handlers (dg_connection g) = {}"
    and "drain_event (server_drainable E) g (Drain_poll j now err) = Some g'"
  shows "dg_calls g' ! j = Drain_returned \<and> \<not> sc_transport_open (dg_connection g') \<and>
     sc_write_queue (dg_connection g') = sc_write_queue (dg_connection g)"
proof -
  let ?s = "dg_connection g"
  have inv: "server_inv vf ?s" using server_drain_inv [OF assms(1,2)] by (simp add: draining_ok_def)
  then have "sc_active_handlers ?s = 0" using live_handlers_busy assms(5) by blast
  then have "server_shutdown_poll ?s deadline now err = (server_shutdown_finish ?s, Drain_returned)"
    "sc_write_queue (server_shutdown_finish ?s) = sc_write_queue ?s"
    by (simp_all add: server_shutdown_poll_def server_shutdown_head_def server_shutdown_waits_def
        server_shutdown_finish_def Let_def)
  then show ?thesis
    using assms(3,4,6) by (auto simp: server_drainable_def server_shutdown_finish_def Let_def)
qed

section \<open>An example\<close>

text \<open>A run of the connection is a run without calls of \<open>shutdown\<close>.\<close>

lemma server_reachable_drain:
  "server_reachable E s s' \<Longrightarrow> \<exists>evs. server_drain_run E (not_draining s t) evs (not_draining s' t)"
proof (induction rule: server_reachable.induct)
  case (start s)
  show ?case using drain_run.none by blast
next
  case (step s s' ev s'')
  then obtain evs where "server_drain_run E (not_draining s t) evs (not_draining s' t)" by blast
  moreover have "drain_enabled (server_drainable E) (not_draining s' t) (Drain_other ev)"
    "drain_event (server_drainable E) (not_draining s' t) (Drain_other ev) = Some (not_draining s'' t)"
    using step.hyps(2,3) by (simp_all add: not_draining_def server_drainable_def)
  ultimately show ?case using drain_run.more by blast
qed

text \<open>A shutdown with a drain period of five milliseconds while a handler is busy.\<close>

abbreviation sample_draining ::
  "(Frame ChannelView, unit ChannelView, unit, Buffer) ServerConnection \<Rightarrow> int \<Rightarrow> int \<Rightarrow>
     (Frame ChannelView, unit ChannelView, unit, Buffer) ServerConnection Draining" where
  "sample_draining s wake clock \<equiv>
     \<lparr>dg_connection = s, dg_calls = [Drain_polling 5000000 wake], dg_clock = clock\<rparr>"

lemma sample_server_drain:
  obtains s evs where "server_drain_run sample_env (not_draining sample_server 0) evs (not_draining s 0)"
    and "sc_tasks s = [sample_task]" and "sc_active_handlers s = 1" and "sc_reading s"
    and "sc_write_queue s = sc_write_queue sample_listening"
    and "drain_event (server_drainable sample_env) (not_draining s 0) (Drain_call 0 0 5000000) =
      Some (sample_draining (server_begin_shutdown s) 1000000 0)"
    and "server_drain_run sample_env (not_draining sample_server 0) (evs @ [Drain_call 0 0 5000000])
      (sample_draining (server_begin_shutdown s) 1000000 0)"
proof -
  obtain s where s: "server_reachable sample_env sample_server s" "sc_tasks s = [sample_task]"
    "sc_active_handlers s = 1" "sc_reading s" "sc_write_queue s = sc_write_queue sample_listening"
    by (rule sample_busy)
  obtain evs where run: "server_drain_run sample_env (not_draining sample_server 0) evs (not_draining s 0)"
    using server_reachable_drain [OF s(1)] by blast
  have call: "drain_event (server_drainable sample_env) (not_draining s 0) (Drain_call 0 0 5000000) =
      Some (sample_draining (server_begin_shutdown s) 1000000 0)"
    using s(3) by (simp add: not_draining_def server_drainable_def server_shutdown_def server_shutdown_head_def
        server_shutdown_waits_def server_begin_shutdown_def poll_interval_def Let_def)
  have "drain_enabled (server_drainable sample_env) (not_draining s 0) (Drain_call 0 0 5000000)"
    by (simp add: not_draining_def)
  with that [OF run s(2-5) call] drain_run.more [OF run _ call] show thesis by blast
qed

theorem server_shutdown_returns_witness:
  "\<exists>s g. drain_event (server_drainable sample_env) (sample_draining s 1000000 0) (Drain_poll 0 6000000 False) =
     Some g \<and> dg_calls g ! 0 = Drain_returned"
proof -
  obtain s evs where s: "server_drain_run sample_env (not_draining sample_server 0) evs (not_draining s 0)"
    "drain_event (server_drainable sample_env) (not_draining s 0) (Drain_call 0 0 5000000) =
      Some (sample_draining (server_begin_shutdown s) 1000000 0)"
    by (rule sample_server_drain)
  have "drain_enabled (server_drainable sample_env) (not_draining s 0) (Drain_call 0 0 5000000)"
    by (simp add: not_draining_def)
  from server_shutdown_returns [OF sample_queue_env s(1) this s(2) drain_run.none]
  show ?thesis by (intro exI [of _ "server_begin_shutdown s"])
    (simp add: not_draining_def poll_interval_def del: drain_event.simps drain_enabled.simps)
qed

lemma begin_shutdown_keeps:
  "sc_tasks (server_begin_shutdown s) = sc_tasks s" "sc_write_queue (server_begin_shutdown s) = sc_write_queue s"
  "sc_reading (server_begin_shutdown s) = sc_reading s"
  by (simp_all add: server_begin_shutdown_def Let_def)

theorem server_shutdown_drains_witness:
  "\<exists>s g. drain_event (server_drainable sample_env) (sample_draining s 1000000 0) (Drain_poll 0 5000000 False) =
     Some g \<and> context_is_cancelled (dg_connection g) 0 \<and> dg_calls g ! 0 = Drain_returned"
proof -
  obtain s evs where s: "sc_tasks s = [sample_task]"
    "server_drain_run sample_env (not_draining sample_server 0) evs
      (sample_draining (server_begin_shutdown s) 1000000 0)"
    by (rule sample_server_drain)
  let ?s = "server_begin_shutdown s"
  obtain g where g: "drain_event (server_drainable sample_env) (sample_draining ?s 1000000 0)
      (Drain_poll 0 5000000 False) = Some g"
    using server_drain.step_total [OF server_drain_inv [OF sample_queue_env s(2)],
        of "Drain_poll 0 5000000 False"] by auto
  have "0 \<in> live_handlers ?s" using s(1) by (simp add: live_handlers_def begin_shutdown_keeps)
  then have "context_is_cancelled (dg_connection g) 0 \<and> dg_calls g ! 0 = Drain_returned"
    using server_shutdown_drains [OF sample_queue_env s(2), of 0 5000000 1000000 5000000 False g] g s(1)
    by (simp add: begin_shutdown_keeps del: drain_event.simps)
  then show ?thesis using g by blast
qed

text \<open>The handler of the example has returned its response during the drain.\<close>

lemma sample_handler_done:
  obtains g evs where "server_drain_run sample_env (not_draining sample_server 0) evs g"
    and "dg_calls g = [Drain_polling 5000000 1000000]" and "dg_clock g = 0"
    and "live_handlers (dg_connection g) = {}"
    and "buffer_of id (sc_write_queue (dg_connection g)) = [sample_response]"
proof -
  obtain s evs where s: "sc_tasks s = [sample_task]" "sc_write_queue s = sc_write_queue sample_listening"
    "sc_reading s" "server_drain_run sample_env (not_draining sample_server 0) evs
      (sample_draining (server_begin_shutdown s) 1000000 0)"
    by (rule sample_server_drain)
  let ?s = "server_begin_shutdown s" and ?s2 = "handler_returned sample_env (server_begin_shutdown s) 0 (Some [6])"
  have inv: "server_inv id ?s" using server_drain_inv [OF sample_queue_env s(4)] by (simp add: draining_ok_def)
  obtain q where q: "enqueue (env_queue sample_env) (sc_write_queue sample_listening) sample_response =
      (q, Some WriteResult_success)" "buffer_of id q = [sample_response]" by (rule sample_response_enqueued)
  let ?s1 = "(fst (call_task_operation ?s 0 (Call_complete ''response ready'')))\<lparr>sc_write_queue := q\<rparr>"
  have "?s2 = run_handler_end sample_env ?s1 0"
    using handler_returned_eq [OF inv, of 0 sample_env "[6]"] sample_response_encoding s(1,2) q(1)
    by (auto simp: begin_shutdown_keeps frame_encode_defs handler_sent_def)
  then have ended: "live_handlers ?s2 = {}" "buffer_of id (sc_write_queue ?s2) = [sample_response]"
    using q(2) s(1,3) by (auto simp: run_handler_end_def close_queue_when_idle_def live_handlers_def
        begin_shutdown_keeps tasks_call update_task_def nth_Cons' Let_def)
  have "drain_enabled (server_drainable sample_env) (sample_draining ?s 1000000 0)
      (Drain_other (Server_handler_returned 0 (Some [6])))"
    "drain_event (server_drainable sample_env) (sample_draining ?s 1000000 0)
      (Drain_other (Server_handler_returned 0 (Some [6]))) = Some (sample_draining ?s2 1000000 0)"
    using s(1) by (simp_all add: server_drainable_def in_handler_def begin_shutdown_keeps)
  from drain_run.more [OF s(4) this] ended show thesis by (intro that [of _ "sample_draining ?s2 1000000 0"]) simp_all
qed

theorem drain_leaves_responses_witness:
  "\<exists>g g'. drain_event (server_drainable sample_env) g (Drain_poll 0 1000000 False) = Some g' \<and>
     dg_calls g = [Drain_polling 5000000 1000000] \<and> dg_calls g' ! 0 = Drain_returned \<and>
     \<not> sc_transport_open (dg_connection g') \<and>
     buffer_of id (sc_write_queue (dg_connection g')) = [sample_response]"
proof -
  obtain g evs where g: "server_drain_run sample_env (not_draining sample_server 0) evs g"
    "dg_calls g = [Drain_polling 5000000 1000000]" "dg_clock g = 0" "live_handlers (dg_connection g) = {}"
    "buffer_of id (sc_write_queue (dg_connection g)) = [sample_response]"
    by (rule sample_handler_done)
  obtain g' where g': "drain_event (server_drainable sample_env) g (Drain_poll 0 1000000 False) = Some g'"
    using server_drain.step_total [OF server_drain_inv [OF sample_queue_env g(1)], of "Drain_poll 0 1000000 False"]
      g(2,3) by auto
  from drain_leaves_responses [OF sample_queue_env g(1) _ _ g(4) g', of 5000000 1000000] g(2,5) g'
  show ?thesis by (intro exI [of _ g] exI [of _ g']) (simp del: drain_event.simps)
qed

end
