(* ===== verification/Server_Host.thy ===== *)
theory Server_Host
  imports Tcp_Server Server_Drain
begin

text \<open>
  A TCP server together with the server connections it drains, put together as \<open>README.md\<close> describes
  it: for a connection the application has made, it registers with \<open>register_connection_shutdown\<close> a
  handler that calls \<open>ServerConnection::shutdown\<close> with the time left until the deadline. Such a
  handler is named by the index of its connection. The drain coroutines of \<open>TcpServer::shutdown\<close> start
  at any time, await the call they made, and end when it has returned; calls of \<open>TcpServer::shutdown\<close>
  do not overlap.
\<close>

section \<open>Composition\<close>

record ('ch, 'sp, 't, 'v, 'k, 's) ServerHost =
  sh_tcp :: "(nat, 'k, 's) TcpServer"
  sh_connections :: "('ch, 'sp, 't, 'v) ServerConnection Draining list"
  sh_awaiting :: "nat \<Rightarrow> nat \<Rightarrow> nat option"

definition new_host :: "('ch, 'sp, 't, 'v, 'k, 's) ServerHost" where
  "new_host = \<lparr>sh_tcp = new_tcp_server, sh_connections = [], sh_awaiting = (\<lambda>_ _. None)\<rparr>"

text \<open>
  An event of the TCP server other than the end of a drain; an event of a connection; a new connection;
  and the start and the end of drain \<open>i\<close> of call \<open>j\<close>.
\<close>

datatype ('t, 'v, 'k, 's) HostEvent =
  Host_tcp "(nat, 'k, 's) TcpServerEvent"
| Host_connection nat "('t, 'v) ServerEvent DrainEvent"
| Host_new WriteQueueLimits bool int
| Host_drain_started nat nat int int int
| Host_drain_ended nat nat

text \<open>A drain coroutine that has not ended.\<close>

definition open_drain :: "('h, 'k, 's) TcpServer \<Rightarrow> nat \<Rightarrow> nat \<Rightarrow> 'h Drain option" where
  "open_drain t j i =
     (if tcp_server_enabled t (Tcp_drain_completed j i)
      then (case ts_shutdowns t ! j of Shutdown_waiting drains _ _ \<Rightarrow> Some (drains ! i) | Shutdown_returned \<Rightarrow> None)
      else None)"

fun own_tcp_event :: "(nat, 'k, 's) TcpServerEvent \<Rightarrow> nat \<Rightarrow> bool" where
  "own_tcp_event (Tcp_drain_completed _ _) n \<longleftrightarrow> False"
| "own_tcp_event (Tcp_register h) n \<longleftrightarrow> h < n"
| "own_tcp_event _ n \<longleftrightarrow> True"

text \<open>Whether the coroutine has nothing more to wait for: its call has returned, or there was no handler.\<close>

definition drain_over :: "('ch, 'sp, 't, 'v, 'k, 's) ServerHost \<Rightarrow> nat \<Rightarrow> nat \<Rightarrow> bool" where
  "drain_over H j i \<longleftrightarrow>
     (case open_drain (sh_tcp H) j i of
        None \<Rightarrow> False
      | Some d \<Rightarrow>
          (case (drain_handler d, sh_awaiting H j i) of
             (None, _) \<Rightarrow> True
           | (Some h, Some k) \<Rightarrow> dg_calls (sh_connections H ! h) ! k = Drain_returned
           | (Some h, None) \<Rightarrow> False))"

fun host_enabled ::
  "('ch, 'sp, 't, 'v) Env \<Rightarrow> ('ch, 'sp, 't, 'v, 'k, 's) ServerHost \<Rightarrow> ('t, 'v, 'k, 's) HostEvent \<Rightarrow> bool" where
  "host_enabled E H (Host_tcp ev) \<longleftrightarrow>
     tcp_server_enabled (sh_tcp H) ev \<and> one_shutdown (sh_tcp H) ev \<and> own_tcp_event ev (length (sh_connections H))"
| "host_enabled E H (Host_connection h ev) \<longleftrightarrow>
     h < length (sh_connections H) \<and> drain_enabled (server_drainable E) (sh_connections H ! h) ev"
| "host_enabled E H (Host_new _ _ _) \<longleftrightarrow> True"
| "host_enabled E H (Host_drain_started j i n now now') \<longleftrightarrow>
     (case open_drain (sh_tcp H) j i of
        None \<Rightarrow> False
      | Some d \<Rightarrow>
          sh_awaiting H j i = None \<and> n \<le> now \<and>
          (case drain_handler d of
             None \<Rightarrow> False
           | Some h \<Rightarrow> drain_enabled (server_drainable E) (sh_connections H ! h)
               (Drain_call now now' (drain_deadline d - n))))"
| "host_enabled E H (Host_drain_ended j i) \<longleftrightarrow> drain_over H j i"

fun host_event ::
  "('ch, 'sp, 't, 'v) Env \<Rightarrow> ('ch, 'sp, 't, 'v, 'k, 's) ServerHost \<Rightarrow> ('t, 'v, 'k, 's) HostEvent \<Rightarrow>
     ('ch, 'sp, 't, 'v, 'k, 's) ServerHost option" where
  "host_event E H (Host_tcp ev) = Some (H\<lparr>sh_tcp := tcp_server_event (sh_tcp H) ev\<rparr>)"
| "host_event E H (Host_connection h ev) =
     do {
       g \<leftarrow> drain_event (server_drainable E) (sh_connections H ! h) ev;
       Some (H\<lparr>sh_connections := (sh_connections H)[h := g]\<rparr>)
     }"
| "host_event E H (Host_new lim hook now) =
     Some (H\<lparr>sh_connections := sh_connections H @ [not_draining (new_server E lim hook) now]\<rparr>)"
| "host_event E H (Host_drain_started j i n now now') =
     do {
       d \<leftarrow> open_drain (sh_tcp H) j i;
       h \<leftarrow> drain_handler d;
       g \<leftarrow> drain_event (server_drainable E) (sh_connections H ! h) (Drain_call now now' (drain_deadline d - n));
       Some (H\<lparr>sh_connections := (sh_connections H)[h := g],
               sh_awaiting := (sh_awaiting H)(j := (sh_awaiting H j)
                 (i := Some (length (dg_calls (sh_connections H ! h)))))\<rparr>)
     }"
| "host_event E H (Host_drain_ended j i) = Some (H\<lparr>sh_tcp := drain_completed (sh_tcp H) j i\<rparr>)"

inductive host_run ::
  "('ch, 'sp, 't, 'v) Env \<Rightarrow> ('ch, 'sp, 't, 'v, 'k, 's) ServerHost \<Rightarrow>
     ('t, 'v, 'k, 's) HostEvent list \<Rightarrow> ('ch, 'sp, 't, 'v, 'k, 's) ServerHost \<Rightarrow> bool"
  for E where
  none: "host_run E H [] H"
| more: "host_run E H evs H' \<Longrightarrow> host_enabled E H' ev \<Longrightarrow> host_event E H' ev = Some H'' \<Longrightarrow>
           host_run E H (evs @ [ev]) H''"

section \<open>Invariants\<close>

abbreviation connection_ok ::
  "('ch, 'sp, 't, 'v) Env \<Rightarrow> ('ch \<Rightarrow> Frame ChannelView) \<Rightarrow> ('sp \<Rightarrow> unit ChannelView) \<Rightarrow>
     ('ch, 'sp, 't, 'v) ServerConnection Draining \<Rightarrow> bool" where
  "connection_ok E vf vs \<equiv> draining_ok (\<lambda>s. queue_env (env_queue E) vf vs \<and> server_inv vf s)
     (\<lambda>s. draining_or_later (sc_lifecycle s)) server_closed"

text \<open>What only grows: the connections, their calls of \<open>shutdown\<close>, and the closed ones.\<close>

definition conns_le ::
  "('ch, 'sp, 't, 'v) ServerConnection Draining list \<Rightarrow> ('ch, 'sp, 't, 'v) ServerConnection Draining list \<Rightarrow> bool" where
  "conns_le cs cs' \<longleftrightarrow> length cs \<le> length cs' \<and>
     (\<forall>h < length cs. length (dg_calls (cs ! h)) \<le> length (dg_calls (cs' ! h)) \<and>
        (server_closed (dg_connection (cs ! h)) \<longrightarrow> server_closed (dg_connection (cs' ! h))))"

lemma conns_le_refl [simp]: "conns_le cs cs"
  by (simp add: conns_le_def)

lemma conns_le_snoc: "conns_le cs (cs @ [g])"
  by (simp add: conns_le_def nth_append)

lemma connection_step:
  assumes "connection_ok E vf vs (cs ! h)" and "drain_enabled (server_drainable E) (cs ! h) ev"
    and "drain_event (server_drainable E) (cs ! h) ev = Some g"
  shows "connection_ok E vf vs g" and "conns_le cs (cs[h := g])"
    and "\<And>n n' p. ev = Drain_call n n' p \<Longrightarrow> length (dg_calls g) = Suc (length (dg_calls (cs ! h)))"
proof -
  have g: "connection_ok E vf vs g \<and> (server_closed (dg_connection (cs ! h)) \<longrightarrow> server_closed (dg_connection g))"
    using server_drain.step_total [OF assms(1,2)] assms(3) by auto
  then show "connection_ok E vf vs g" by simp
  have "length (dg_calls (cs ! h)) \<le> length (dg_calls g)"
    using assms(3) by (cases ev) (auto split: Option.bind_splits DrainCall.splits)
  then show "conns_le cs (cs[h := g])" using g
    by (cases "h < length cs") (auto simp: conns_le_def nth_list_update list_update_beyond)
  show "length (dg_calls g) = Suc (length (dg_calls (cs ! h)))" if "ev = Drain_call n n' p" for n n' p
    using assms(3) that by (auto split: Option.bind_splits)
qed

text \<open>A drain belongs to an existing connection, awaits an existing call, and leaves a closed connection.\<close>

definition drain_ok ::
  "('ch, 'sp, 't, 'v) ServerConnection Draining list \<Rightarrow> nat option \<Rightarrow> nat Drain \<Rightarrow> bool" where
  "drain_ok cs awaited d \<longleftrightarrow>
     (\<forall>h. drain_handler d = Some h \<longrightarrow>
        h < length cs \<and> (drain_ended d \<longrightarrow> server_closed (dg_connection (cs ! h))) \<and>
        (\<forall>k. awaited = Some k \<longrightarrow> k < length (dg_calls (cs ! h))))"

lemma drain_ok_mono: "drain_ok cs awaited d \<Longrightarrow> conns_le cs cs' \<Longrightarrow> drain_ok cs' awaited d"
  by (fastforce simp: drain_ok_def conns_le_def)

definition drains_ok ::
  "(nat, 'k, 's) TcpServer \<Rightarrow> ('ch, 'sp, 't, 'v) ServerConnection Draining list \<Rightarrow> (nat \<Rightarrow> nat \<Rightarrow> nat option) \<Rightarrow> bool" where
  "drains_ok t cs awaiting \<longleftrightarrow>
     (\<forall>h. Some h \<in> set (ts_shutdown_handlers t) \<longrightarrow> h < length cs) \<and>
     (\<forall>j i. length (ts_shutdowns t) \<le> j \<longrightarrow> awaiting j i = None) \<and>
     (\<forall>j < length (ts_shutdowns t). \<forall>drains m n. ts_shutdowns t ! j = Shutdown_waiting drains m n \<longrightarrow>
        (\<forall>i < length drains. drain_ok cs (awaiting j i) (drains ! i)))"

definition host_inv ::
  "('ch, 'sp, 't, 'v) Env \<Rightarrow> ('ch \<Rightarrow> Frame ChannelView) \<Rightarrow> ('sp \<Rightarrow> unit ChannelView) \<Rightarrow>
     ('ch, 'sp, 't, 'v, 'k, 's) ServerHost \<Rightarrow> bool" where
  "host_inv E vf vs H \<longleftrightarrow>
     shutdown_inv (sh_tcp H) \<and> (\<forall>g \<in> set (sh_connections H). connection_ok E vf vs g) \<and>
     drains_ok (sh_tcp H) (sh_connections H) (sh_awaiting H)"

lemma drains_ok_mono:
  assumes "drains_ok t cs awaiting" and le: "conns_le cs cs'"
  shows "drains_ok t cs' awaiting"
proof -
  have "length cs \<le> length cs'" using le by (simp add: conns_le_def)
  then show ?thesis
    using assms(1) drain_ok_mono [OF _ le] unfolding drains_ok_def by (meson less_le_trans)
qed

text \<open>Where the calls and handlers of a TCP server come from.\<close>

lemma tcp_handlers_after:
  assumes "Some h \<in> set (ts_shutdown_handlers (tcp_server_event t ev))"
  shows "Some h \<in> set (ts_shutdown_handlers t) \<or> ev = Tcp_register h"
  using assms
  by (cases ev) (auto simp: tcp_server_ops stop_server_def shutdown_loop_head_def Let_def
      split: option.splits if_splits Shutdown.splits)

lemma tcp_new_call:
  assumes "length (ts_shutdowns t) \<le> j" and "j < length (ts_shutdowns (tcp_server_event t ev))"
    and "ts_shutdowns (tcp_server_event t ev) ! j = Shutdown_waiting drains m n"
  shows "\<exists>now period. ev = Tcp_shutdown now period" and "j = length (ts_shutdowns t)"
    and "d \<in> set drains \<Longrightarrow> \<not> drain_ended d \<and> drain_handler d \<in> set (ts_shutdown_handlers t)"
    and "map drain_handler drains = ts_shutdown_handlers t"
  using assms
  by (cases ev; auto simp: tcp_server_ops stop_server_def shutdown_loop_head_def nth_append comp_def Let_def
      split: option.splits if_splits Shutdown.splits)+

lemma drains_ok_tcp:
  assumes ok: "drains_ok t cs awaiting" and inv: "shutdown_inv t" and en: "tcp_server_enabled t ev"
    and one: "one_shutdown t ev" and own: "\<And>h. ev = Tcp_register h \<Longrightarrow> h < length cs"
    and ended: "\<And>j i drains m n h. ev = Tcp_drain_completed j i \<Longrightarrow> ts_shutdowns t ! j = Shutdown_waiting drains m n \<Longrightarrow>
      drain_handler (drains ! i) = Some h \<Longrightarrow> server_closed (dg_connection (cs ! h))"
  shows "drains_ok (tcp_server_event t ev) cs awaiting"
proof -
  let ?t = "tcp_server_event t ev"
  have "drain_ok cs (awaiting j i) (drains ! i)"
    if j: "j < length (ts_shutdowns ?t)" and w: "ts_shutdowns ?t ! j = Shutdown_waiting drains m n"
      and i: "i < length drains" for j drains m n i
  proof (cases "j < length (ts_shutdowns t)")
    case False
    then have "awaiting j i = None" using ok by (simp add: drains_ok_def)
    then show ?thesis
      using tcp_new_call(3) [of t j ev drains m n "drains ! i"] False j w i ok
      by (fastforce simp: drains_ok_def drain_ok_def)
  next
    case True
    then obtain ds m0 n0 where ds: "ts_shutdowns t ! j = Shutdown_waiting ds m0 n0"
      using returned_call_step [OF True _ en] w by (cases "ts_shutdowns t ! j") auto
    then have old: "i < length ds \<Longrightarrow> drain_ok cs (awaiting j i) (ds ! i)" for i
      using ok True by (simp add: drains_ok_def)
    from waiting_call_step(2) [OF inv True ds en one w] show ?thesis
    proof
      assume "drains = ds"
      then show ?thesis using old i by simp
    next
      assume "\<exists>i < length ds. ev = Tcp_drain_completed j i \<and> drains = ds[i := (ds ! i)\<lparr>drain_ended := True\<rparr>]"
      then obtain k where k: "k < length ds" "ev = Tcp_drain_completed j k"
        "drains = ds[k := (ds ! k)\<lparr>drain_ended := True\<rparr>]" by blast
      then show ?thesis
        using old [of i] i ended [OF k(2) ds] by (auto simp: drain_ok_def nth_list_update)
    qed
  qed
  moreover have "h < length cs" if "Some h \<in> set (ts_shutdown_handlers ?t)" for h
    using tcp_handlers_after [OF that] own ok by (auto simp: drains_ok_def)
  ultimately show ?thesis
    using ok tcp_event_calls [of t ev] by (auto simp: drains_ok_def)
qed

text \<open>A drain that is over has left its connection closed.\<close>

lemma drain_over_closed:
  assumes inv: "host_inv E vf vs H" and over: "drain_over H j i"
    and w: "ts_shutdowns (sh_tcp H) ! j = Shutdown_waiting drains m n" and h: "drain_handler (drains ! i) = Some h"
  shows "server_closed (dg_connection (sh_connections H ! h))"
proof -
  have d: "open_drain (sh_tcp H) j i = Some (drains ! i)" "j < length (ts_shutdowns (sh_tcp H))" "i < length drains"
    using over w by (auto simp: drain_over_def open_drain_def split: option.splits if_splits)
  then obtain k where k: "sh_awaiting H j i = Some k" "dg_calls (sh_connections H ! h) ! k = Drain_returned"
    using over h by (auto simp: drain_over_def split: option.splits)
  have "drain_ok (sh_connections H) (sh_awaiting H j i) (drains ! i)"
    using inv d w by (simp add: host_inv_def drains_ok_def)
  then have "h < length (sh_connections H)" "k < length (dg_calls (sh_connections H ! h))"
    using h k(1) by (simp_all add: drain_ok_def)
  moreover from this have "connection_ok E vf vs (sh_connections H ! h)" using inv by (simp add: host_inv_def)
  ultimately show ?thesis using k(2) nth_mem [of k] by (metis draining_ok_def)
qed

lemma drain_started_ok:
  assumes ok: "drains_ok t cs awaiting" and d: "open_drain t j i = Some d" "drain_handler d = Some h"
    and le: "conns_le cs cs'" and k: "k < length (dg_calls (cs' ! h))"
  shows "drains_ok t cs' (awaiting(j := (awaiting j)(i := Some k)))"
proof -
  obtain drains m n where w: "j < length (ts_shutdowns t)" "ts_shutdowns t ! j = Shutdown_waiting drains m n"
    "drains ! i = d" using d(1) by (auto simp: open_drain_def split: if_splits Shutdown.splits)
  have ok': "drains_ok t cs' awaiting" by (rule drains_ok_mono [OF ok le])
  then have "\<And>ds m n. ts_shutdowns t ! j = Shutdown_waiting ds m n \<Longrightarrow> i < length ds \<Longrightarrow> drain_ok cs' (Some k) (ds ! i)"
    using w d(2) k by (auto simp: drains_ok_def drain_ok_def)
  then show ?thesis using ok' w(1) by (auto simp: drains_ok_def)
qed

lemma tcp_step_inv:
  assumes "host_inv E vf vs H" and "tcp_server_enabled (sh_tcp H) ev" and "one_shutdown (sh_tcp H) ev"
    and "own_tcp_event ev (length (sh_connections H)) \<or> (\<exists>j i. ev = Tcp_drain_completed j i \<and> drain_over H j i)"
  shows "host_inv E vf vs (H\<lparr>sh_tcp := tcp_server_event (sh_tcp H) ev\<rparr>)"
proof -
  note parts = assms(1) [unfolded host_inv_def]
  have "drains_ok (tcp_server_event (sh_tcp H) ev) (sh_connections H) (sh_awaiting H)"
    using assms(4) drain_over_closed [OF assms(1)]
    by (intro drains_ok_tcp [OF _ _ assms(2,3)]) (auto simp: parts)
  then show ?thesis using parts tcp_event_inv [OF _ assms(2,3)] by (simp add: host_inv_def)
qed

lemma drain_started_inv:
  assumes inv: "host_inv E vf vs H" and en: "host_enabled E H (Host_drain_started j i n now now')"
    and H': "host_event E H (Host_drain_started j i n now now') = Some H'"
  shows "host_inv E vf vs H' \<and> conns_le (sh_connections H) (sh_connections H')"
proof -
  note parts = inv [unfolded host_inv_def]
  obtain d h g where g: "open_drain (sh_tcp H) j i = Some d" "drain_handler d = Some h"
    "drain_event (server_drainable E) (sh_connections H ! h) (Drain_call now now' (drain_deadline d - n)) = Some g"
    "H' = H\<lparr>sh_connections := (sh_connections H)[h := g], sh_awaiting := (sh_awaiting H)
       (j := (sh_awaiting H j)(i := Some (length (dg_calls (sh_connections H ! h)))))\<rparr>"
    using H' by (auto simp del: drain_event.simps split: Option.bind_splits)
  have h: "h < length (sh_connections H)"
    using parts g(1,2) by (auto simp: drains_ok_def drain_ok_def open_drain_def split: if_splits Shutdown.splits)
  have en': "drain_enabled (server_drainable E) (sh_connections H ! h) (Drain_call now now' (drain_deadline d - n))"
    using en g(1,2) by simp
  have "connection_ok E vf vs (sh_connections H ! h)" using parts h by simp
  note step = connection_step [OF this en' g(3)]
  have "\<forall>g' \<in> set ((sh_connections H)[h := g]). connection_ok E vf vs g'"
    using parts step(1) set_update_subset_insert [of "sh_connections H" h g] by auto
  then show ?thesis
    using g(4) parts step drain_started_ok [OF _ g(1,2) step(2)] h by (simp add: host_inv_def)
qed

lemma host_step_inv:
  assumes inv: "host_inv E vf vs H" and env: "queue_env (env_queue E) vf vs"
    and en: "host_enabled E H ev" and H': "host_event E H ev = Some H'"
  shows "host_inv E vf vs H' \<and> conns_le (sh_connections H) (sh_connections H')"
proof -
  note parts = inv [unfolded host_inv_def]
  have conn: "h < length (sh_connections H) \<Longrightarrow> connection_ok E vf vs (sh_connections H ! h)" for h
    using parts by simp
  have upd: "\<forall>g' \<in> set ((sh_connections H)[h := g]). connection_ok E vf vs g'" if "connection_ok E vf vs g" for h g
    using parts that set_update_subset_insert [of "sh_connections H" h g] by auto
  show ?thesis
  proof (cases ev)
    case (Host_tcp tev)
    then have "H' = H\<lparr>sh_tcp := tcp_server_event (sh_tcp H) tev\<rparr>" using H' by auto
    then show ?thesis using tcp_step_inv [OF inv, of tev] en Host_tcp by simp
  next
    case (Host_connection h dev)
    then obtain g where g: "drain_event (server_drainable E) (sh_connections H ! h) dev = Some g"
      "H' = H\<lparr>sh_connections := (sh_connections H)[h := g]\<rparr>"
      using H' by (auto split: Option.bind_splits)
    note step = connection_step [OF conn _ g(1)]
    show ?thesis
      using en Host_connection g(2) parts upd [OF step(1)] drains_ok_mono [OF _ step(2)] step(2)
      by (auto simp: host_inv_def)
  next
    case (Host_new lim hook now)
    have "connection_ok E vf vs (not_draining (new_server E lim hook) now)"
      using env by (intro server_drain.start_inv) (simp add: new_server_inv)
    then show ?thesis
      using Host_new H' parts drains_ok_mono [OF _ conns_le_snoc] by (auto simp: host_inv_def conns_le_snoc)
  next
    case (Host_drain_started j i n now now')
    then show ?thesis using drain_started_inv [OF inv] en H' by blast
  next
    case (Host_drain_ended j i)
    then have over: "drain_over H j i" using en by simp
    then have "tcp_server_enabled (sh_tcp H) (Tcp_drain_completed j i)"
      by (auto simp: drain_over_def open_drain_def split: option.splits if_splits)
    moreover have "H' = H\<lparr>sh_tcp := tcp_server_event (sh_tcp H) (Tcp_drain_completed j i)\<rparr>"
      using H' Host_drain_ended by auto
    ultimately show ?thesis using tcp_step_inv [OF inv, of "Tcp_drain_completed j i"] over by auto
  qed
qed

lemma new_host_inv: "host_inv E vf vs new_host"
  by (simp add: host_inv_def new_host_def new_tcp_server_def shutdown_inv_def drains_ok_def)

lemma host_run_inv:
  assumes "host_run E H evs H'" and "queue_env (env_queue E) vf vs" and "host_inv E vf vs H"
  shows "host_inv E vf vs H'"
  using assms
proof (induction rule: host_run.induct)
  case (more H evs H' ev H'')
  then show ?case using host_step_inv by blast
qed simp

section \<open>A shutdown closes the connections\<close>

text \<open>What a call of \<open>TcpServer::shutdown\<close> owes a connection: a drain while it waits, the closing once it returned.\<close>

definition drain_promise ::
  "('ch, 'sp, 't, 'v, 'k, 's) ServerHost \<Rightarrow> nat \<Rightarrow> nat \<Rightarrow> bool" where
  "drain_promise H j h \<longleftrightarrow>
     j < length (ts_shutdowns (sh_tcp H)) \<and> h < length (sh_connections H) \<and>
     (case ts_shutdowns (sh_tcp H) ! j of
        Shutdown_returned \<Rightarrow> server_closed (dg_connection (sh_connections H ! h))
      | Shutdown_waiting drains m n \<Rightarrow> \<exists>d \<in> set drains. drain_handler d = Some h)"

lemma drain_promise_tcp:
  assumes inv: "host_inv E vf vs H" and p: "drain_promise H j h"
    and en: "tcp_server_enabled (sh_tcp H) ev" "one_shutdown (sh_tcp H) ev"
  shows "drain_promise (H\<lparr>sh_tcp := tcp_server_event (sh_tcp H) ev\<rparr>) j h"
proof -
  let ?t = "sh_tcp H" and ?t' = "tcp_server_event (sh_tcp H) ev"
  have j: "j < length (ts_shutdowns ?t)" "j < length (ts_shutdowns ?t')" "h < length (sh_connections H)"
    using p tcp_event_calls [of ?t ev] by (simp_all add: drain_promise_def)
  show ?thesis
  proof (cases "ts_shutdowns ?t ! j")
    case Shutdown_returned
    then show ?thesis using returned_call_step [OF j(1) _ en(1)] p j by (simp add: drain_promise_def)
  next
    case (Shutdown_waiting drains m n)
    then obtain d where d: "d \<in> set drains" "drain_handler d = Some h" using p by (auto simp: drain_promise_def)
    have "shutdown_inv ?t" using inv by (simp add: host_inv_def)
    note step = waiting_call_step [OF this j(1) Shutdown_waiting en]
    show ?thesis
    proof (cases "ts_shutdowns ?t' ! j")
      case Shutdown_returned
      obtain i where i: "i < length drains" "drains ! i = d" using d(1) by (auto simp: in_set_conv_nth)
      have "drain_ok (sh_connections H) (sh_awaiting H j i) d"
        using inv j(1) Shutdown_waiting i by (auto simp: host_inv_def drains_ok_def)
      then show ?thesis using step(1) [OF Shutdown_returned] d j Shutdown_returned
        by (simp add: drain_promise_def drain_ok_def)
    next
      case w: (Shutdown_waiting drains' m' n')
      have "map drain_handler drains' = map drain_handler drains"
        using step(2) [OF w] by (auto simp: map_update list_update_same_conv)
      then have "drain_handler ` set drains' = drain_handler ` set drains" by (metis set_map)
      then have "\<exists>d' \<in> set drains'. drain_handler d' = Some h" using d by (metis imageI image_iff)
      then show ?thesis using w j by (simp add: drain_promise_def)
    qed
  qed
qed

lemma drain_promise_step:
  assumes inv: "host_inv E vf vs H" and env: "queue_env (env_queue E) vf vs" and p: "drain_promise H j h"
    and en: "host_enabled E H ev" and H': "host_event E H ev = Some H'"
  shows "drain_promise H' j h"
proof -
  have le: "conns_le (sh_connections H) (sh_connections H')" using host_step_inv [OF inv env en H'] by simp
  have same: "drain_promise H' j h" if "sh_tcp H' = sh_tcp H"
    using p le that by (auto simp: drain_promise_def conns_le_def split: Shutdown.split)
  show ?thesis
  proof (cases ev)
    case (Host_tcp tev)
    then show ?thesis using drain_promise_tcp [OF inv p, of tev] en H' by auto
  next
    case (Host_drain_ended k i)
    then have "tcp_server_enabled (sh_tcp H) (Tcp_drain_completed k i)"
      using en by (auto simp: drain_over_def open_drain_def split: option.splits if_splits)
    then show ?thesis using drain_promise_tcp [OF inv p, of "Tcp_drain_completed k i"] H' Host_drain_ended by auto
  qed (use H' same in \<open>auto split: Option.bind_splits\<close>)
qed

text \<open>
  Property C11. A shutdown of the TCP server that no other one overlaps closes the connections: when it has
  returned, every connection whose drain handler was registered when it was called is closed and
  so is its transport, whatever the connections, their handlers, their peers and their owners did
  in between and in whatever order the drains were started and ended.
\<close>

theorem shutdown_closes_connections:
  assumes "queue_env (env_queue E) vf vs" and "host_run E new_host evs H"
    and "host_enabled E H (Host_tcp (Tcp_shutdown now period))"
    and "host_event E H (Host_tcp (Tcp_shutdown now period)) = Some H1" and "host_run E H1 evs' H2"
    and "ts_shutdowns (sh_tcp H2) ! length (ts_shutdowns (sh_tcp H)) = Shutdown_returned"
    and "Some h \<in> set (ts_shutdown_handlers (sh_tcp H))"
  shows "server_closed (dg_connection (sh_connections H2 ! h))"
proof -
  let ?t = "sh_tcp H" and ?j = "length (ts_shutdowns (sh_tcp H))"
  have inv: "host_inv E vf vs H" by (rule host_run_inv [OF assms(2,1) new_host_inv])
  have inv1: "host_inv E vf vs H1" using host_step_inv [OF inv assms(1,3,4)] by simp
  have "drain_promise H1 ?j h"
    using assms(4,7) inv
    by (auto simp: drain_promise_def host_inv_def drains_ok_def shutdown_server_def shutdown_loop_head_def
        stop_server_def Let_def image_iff)
  with assms(5) inv1 have "host_inv E vf vs H2 \<and> drain_promise H2 ?j h"
  proof (induction rule: host_run.induct)
    case (more H evs H' ev H'')
    then show ?case using host_step_inv [OF _ assms(1)] drain_promise_step [OF _ assms(1)] by blast
  qed simp
  then show ?thesis using assms(6) by (simp add: drain_promise_def)
qed

text \<open>A host with one idle connection, shut down.\<close>

fun host_exec ::
  "('ch, 'sp, 't, 'v) Env \<Rightarrow> ('ch, 'sp, 't, 'v, 'k, 's) ServerHost \<Rightarrow> ('t, 'v, 'k, 's) HostEvent list \<Rightarrow>
     ('ch, 'sp, 't, 'v, 'k, 's) ServerHost option" where
  "host_exec E H [] = Some H"
| "host_exec E H (ev # evs) =
     (if host_enabled E H ev then do { H \<leftarrow> host_event E H ev; host_exec E H evs } else None)"

lemma host_exec_run: "host_exec E H' evs' = Some H'' \<Longrightarrow> host_run E H evs H' \<Longrightarrow> host_run E H (evs @ evs') H''"
proof (induction evs' arbitrary: evs H')
  case (Cons ev evs')
  then obtain H1 where "host_enabled E H' ev" "host_event E H' ev = Some H1" "host_exec E H1 evs' = Some H''"
    by (auto split: if_splits Option.bind_splits)
  then show ?case using Cons.IH [OF _ host_run.more [OF Cons.prems(2)]] by fastforce
qed simp

type_synonym SampleHost = "(Frame ChannelView, unit ChannelView, unit, Buffer, nat, bool) ServerHost"

theorem shutdown_closes_connections_witness:
  "\<exists>(H :: SampleHost) evs. host_run sample_env new_host evs H \<and>
     ts_shutdowns (sh_tcp H) = [Shutdown_returned] \<and> server_closed (dg_connection (sh_connections H ! 0))"
proof -
  let ?evs = "[Host_new sample_limits False 0, Host_tcp (Tcp_register 0)] :: (unit, Buffer, nat, bool) HostEvent list"
  let ?evs' = "[Host_drain_started 0 0 0 0 0, Host_drain_ended 0 0, Host_tcp (Tcp_drain_received 0)]
    :: (unit, Buffer, nat, bool) HostEvent list"
  note ops = open_drain_def drain_over_def tcp_server_ops stop_server_def shutdown_loop_head_def
    new_tcp_server_def new_host_def not_draining_def server_drainable_def server_shutdown_def
    server_shutdown_head_def server_shutdown_waits_def server_begin_shutdown_def new_server_def Let_def
  obtain H :: SampleHost where H: "host_exec sample_env new_host ?evs = Some H" by (simp add: ops)
  obtain H1 where H1: "host_enabled sample_env H (Host_tcp (Tcp_shutdown 0 5000000))"
    "host_event sample_env H (Host_tcp (Tcp_shutdown 0 5000000)) = Some H1" using H by (auto simp: ops)
  obtain H2 where H2: "host_exec sample_env H1 ?evs' = Some H2" "ts_shutdowns (sh_tcp H2) = [Shutdown_returned]"
    using H H1(2) by (auto simp: ops)
  have run: "host_run sample_env new_host ?evs H" using host_exec_run [OF H host_run.none] by simp
  have "host_run sample_env H1 ?evs' H2" using host_exec_run [OF H2(1) host_run.none] by simp
  moreover have "ts_shutdowns (sh_tcp H) = []" "Some 0 \<in> set (ts_shutdown_handlers (sh_tcp H))"
    using H by (auto simp: ops)
  ultimately have "server_closed (dg_connection (sh_connections H2 ! 0))"
    using shutdown_closes_connections [OF sample_queue_env run H1] H2(2) by simp
  moreover have "host_run sample_env new_host ((?evs @ [Host_tcp (Tcp_shutdown 0 5000000)]) @ ?evs') H2"
    by (rule host_exec_run [OF H2(1) host_run.more [OF run H1]])
  ultimately show ?thesis using H2(2) by blast
qed

end
