(* ===== verification/Spec2Isabelle.thy ===== *)
theory Spec2Isabelle
  imports Session_Properties Queue_Progress Server_Trace Client_Drain Server_Host
begin

text \<open>
  Verification of rillnet, a C++ library for multiplexed request/response messaging over byte
  streams. A client connection sends typed requests as frames on numbered streams, a server
  connection dispatches them to handlers and sends the responses back, and both share the frame
  format, the incremental decoder, the write queue and the bookkeeping of operations. The code is
  in \<open>src/include/rillnet\<close>; every theory below names the file it models.

  \<^bold>\<open>Parts and theories, bottom up.\<close>

  \<^item> \<open>Prelude\<close>: machine words, byte buffers, lemmas on lists and association lists, the collections
    \<open>layout_simps\<close> and \<open>inv_intros\<close>.
  \<^item> \<open>Identifiers\<close> (\<open>identifiers.hpp\<close>, \<open>protocol_version.hpp\<close>), \<open>Status\<close> (\<open>status_code.hpp\<close>,
    \<open>error.hpp\<close>), \<open>Lifecycle\<close> (\<open>lifecycle.hpp\<close>), \<open>Diagnostics\<close> (\<open>diagnostics.hpp\<close>): values, enumerations and
    the two state machines.
  \<^item> \<open>Frame_Model\<close>, \<open>Frame_Codec\<close>, \<open>Frame_Decoder\<close> (\<open>frame.hpp\<close>, \<open>frame_flags.hpp\<close>, \<open>frame_codec.hpp\<close>,
    \<open>frame_decoder.hpp\<close>): frames and their validation, the 18-byte header in big-endian order, and the
    decoder that is fed arbitrary reads. The decoder is shown to refine \<open>parse\<close>, which cuts the
    whole stream at once.
  \<^item> \<open>Protocol_Violation\<close> (\<open>protocol_violation.hpp\<close>): error frames.
  \<^item> \<open>Codec_Model\<close>, \<open>Message_Registry\<close>, \<open>Message_Codec\<close> (\<open>codec.hpp\<close>, \<open>message_registry.hpp\<close>,
    \<open>message_codec.hpp\<close>): typed messages. A codec is a record of two functions with the contract
    \<open>codec_contract\<close>, which \<open>PodCodec\<close> satisfies.
  \<^item> \<open>Operation_Model\<close>, \<open>Operation_Facts\<close> (\<open>operation.hpp\<close>): the one-shot operation object, settled at
    most once.
  \<^item> \<open>Stream_Id_Allocator\<close> (\<open>stream_id_allocator.hpp\<close>): refines taking the least free identifier.
  \<^item> \<open>Channel\<close>, \<open>Write_Queue\<close> (\<open>write_queue.hpp\<close>): the bounded queue in front of the transport. The
    Boost channels are parameters; \<open>queue_env\<close> says that they behave like bounded buffers.
    \<open>Queue_Progress\<close>: the senders suspended on a full queue, none of which is forgotten.
  \<^item> \<open>Client_Connection\<close>, \<open>Client_Invariant\<close>, \<open>Client_Behaviour\<close>, \<open>Client_Properties\<close>
    (\<open>client_connection.hpp\<close>): the model, its invariant, the proof that every stretch of execution
    returns and keeps it, and what follows for all reachable states.
  \<^item> \<open>Server_Connection\<close>, \<open>Server_Invariant\<close>, \<open>Server_Behaviour\<close>, \<open>Server_Properties\<close>
    (\<open>server_connection.hpp\<close>): the same for the server side. \<open>Connection_Env\<close> and \<open>Sample_Env\<close> hold
    what both sides are parameterised by and an instance of it for examples.
  \<^item> \<open>Tcp_Transport\<close>, \<open>Tcp_Client\<close>, \<open>Tcp_Server\<close> (\<open>transport.hpp\<close>, \<open>tcp_transport.hpp\<close>,
    \<open>tcp_client.hpp\<close>, \<open>tcp_server.hpp\<close>): the transport interface as the locale \<open>byte_transport\<close>, its
    TCP implementation, connecting, accepting and shutting down.
  \<^item> \<open>Connection_Drain\<close>, \<open>Client_Drain\<close>, \<open>Server_Drain\<close>: calls of \<open>shutdown\<close> on a connection with their
    polling loops, timers and clock, next to all other events. What both loops share is proved in the
    locale \<open>drain_loop\<close>. \<open>Server_Host\<close>: a TCP server together with the connections it drains, as
    \<open>README.md\<close> tells applications to register them.
  \<^item> \<open>Session\<close> and this theory: the components together.
  \<^item> \<open>Rpc_Spec\<close>: what the library promises as a whole, a request/response service in terms of calls,
    handlers and values only. \<open>Session_Model\<close>: a client and a server connection joined by two byte
    streams, with their visible events. \<open>Session_Pipe\<close>, \<open>Session_Play\<close>, \<open>Client_Effects\<close>, \<open>Server_Effects\<close>: what a
    stream, the frames and handlers in play, and the events at each end contribute.
    \<open>Session_Relation\<close>, \<open>Session_Refinement\<close>: the simulation relation and that every event keeps it.
    \<open>Session_Properties\<close>: the refinement, and why it leaves out abandoned requests: the response to one
    is taken for the response to the next, with a run of a session in which that happens.
    \<open>Server_Trace\<close>: the handlers a server connection has run, traced back to the bytes it has read.

  \<^bold>\<open>How the code is represented.\<close> A class is a record, an enumeration a datatype or a word with
  named constants where the code can hold unnamed values. Fixed-width integers are words; sizes of
  containers are natural numbers. Methods are functions from state to state; errors are values. A
  coroutine is cut at its suspension points into functions that run from one to the next; its
  place is kept in the state (\<open>Writer\<close>, \<open>Reader\<close>, \<open>TaskPhase\<close>, \<open>AcceptLoop\<close>, \<open>Shutdown\<close>, \<open>DrainCall\<close>). Everything runs
  on one executor, so a stretch between two suspension points is atomic and the interleavings are
  the sequences of such stretches: \<open>client_reachable\<close>, \<open>server_reachable\<close>, \<open>tcp_server_steps\<close>, \<open>drain_run\<close> and
  \<open>host_run\<close> range over all of them. Objects shared by pointer are addresses into a list (\<open>cc_heap\<close>, \<open>sc_tasks\<close>). An
  unordered map is an association list whose order no result depends on. Time is an integer
  supplied with the events; \<open>drain_enabled\<close> says that the clock does not go back and that a timer
  does not fire early. The timer of a request can complete only if the request was started with a
  deadline (\<open>timer_armed\<close>).

  Loops that the code does not bound structurally (\<open>push_loop\<close>, \<open>fail_pending\<close>) are partial functions
  into \<open>option\<close>; that they return is proved (\<open>push_loop_correct\<close>, \<open>fail_pending_total\<close>) and part of
  \<open>client_never_stuck\<close> and \<open>server_never_stuck\<close>. No definition of the code uses fuel; \<open>drain\<close>,
  \<open>serve\<close> and \<open>write_out\<close>, which run a writer, take a number of rounds or the outcomes of its writes,
  and the results say how many are enough.

  \<^bold>\<open>What is shown.\<close> Each component theory states its invariant and that every operation keeps it,
  and ends with the properties it promises. For the components together: a session in which no request is
  abandoned refines the service \<open>Rpc\<close> (\<open>session_refines_rpc\<close>), a request reaches its
  handler and its response the caller (\<open>request_round_trip\<close>), frames arrive in the order in which
  they were accepted (\<open>wire_delivers_in_order\<close>), and when a shutdown of the TCP server has returned the
  connections it drained are closed (\<open>shutdown_closes_connections\<close>). The refinement is a simulation: \<open>session_rel\<close> relates
  a session to the state of the specification through the multiset of items in play (requests
  under way, handlers that have not ended, answers under way), of which no two are on one stream,
  and each event at either end is matched by the specification's steps for its visible events. Some properties record where the code does not do
  what its documentation says: a request that timed out leaves its answer to the next request on the
  recycled stream (\<open>stale_response_misdelivered\<close>), refusals of a draining server break the client
  (\<open>draining_refusal_breaks_client\<close>), cancelled and recycled streams end the connection
  (\<open>cancelled_stream_is_unusable\<close>, \<open>recycled_stream_ends_connection\<close>), protocol violations and failing
  handlers leave operations open (\<open>violation_leaves_operations\<close>, \<open>failed_handler_is_silent\<close>), a late
  registration blocks a shutdown of the TCP server (\<open>late_registration_blocks_shutdown\<close>), two shutdowns
  that overlap return early (\<open>overlapping_shutdown_returns_early\<close>), and a drained server connection may
  drop the responses it waited for (\<open>drain_leaves_responses\<close>).

  \<^bold>\<open>Interfaces.\<close> Where one component relies on another, the contract is a locale interpreted on the
  model: the readers and writers of fixed-width integers, the two lifecycles, the decoder as a source
  of frames, the allocator as a pool of identifiers, the codec, the registry as a directory of
  types, the write path of a connection, the byte transport, and the polling loop of \<open>shutdown\<close>.

  \<^bold>\<open>Not modelled.\<close> Boost.Asio itself: executors, timers, sockets, channels and name resolution are
  parameters or inputs of events. Exceptions thrown by a diagnostics hook (the code swallows them),
  by a completion handler or by a connection handler, and failures to allocate memory.
  \<open>TcpServer::local_endpoint\<close> and
  \<open>ServerConnection::state\<close> only return a value the state holds. The transports of the unit tests, the
  tests, and the build.
\<close>

section \<open>The version of the library\<close>

definition version_major :: int where
  "version_major = 0"

section \<open>Properties: a request and its response\<close>

text \<open>
  Property C2. A request on a fresh stream makes the round trip. A client whose transport is open
  starts a request with a value of a registered type, on a stream on which neither end has seen a final
  frame. A server connection that is not draining, waits for data, has a handler for the type and no
  open operation on the stream reads the bytes the client's queue took in for it; both decoders
  are between two frames. (On a stream that was used before the round trip fails:
  \<open>recycled_stream_ends_connection\<close>, \<open>cancelled_stream_is_unusable\<close>.) Then the
  handler is entered with exactly that value. When it returns a response that can be encoded,
  that response is what the server's queue takes in, and once its bytes have been read by the
  client, waiting on the operation yields exactly the handler's response.
\<close>

theorem request_round_trip:
  assumes env: "queue_env (env_queue E) vf vs" and codec: "codec_contract (env_codec E) good"
    and "good ty v" and "good tr w"
    and client: "client_reachable E (new_client E lim mx hook) c"
      "start_request E c ty v = (c1, Start_ok h)" "cc_transport_open c" "dec_clean (cc_decoder c)"
      "handle_stream c1 h = sid" "sid \<notin> cc_terminal_streams c"
    and server: "server_reachable E (new_server E lim' hook') s" "sc_reader s = Reader_reading"
      "sc_transport_open s" "dec_clean (sc_decoder s)" "\<not> draining_or_later (sc_lifecycle s)"
      "sid \<notin> sc_terminal_streams s" "map_of (sc_operations s) sid = None"
      "message_type (env_registry E) ty = Some mt"
      "sc_handlers s mt = Some \<lparr>handler_request = ty, handler_response = tr\<rparr>"
    and resp: "encode_message (env_codec E) (env_registry E) tr w sid FrameType_response Flags_none
      default_max_payload_size current_protocol_version = FrameEncodeResult_success g"
  shows "\<exists>f s1 c2.
     queue_contents vf (cc_write_queue c1) = queue_contents vf (cc_write_queue c) @ [encode_frame f] \<and>
     server_events E s [Server_read True (Some (encode_frame f)), Server_dispatch_next,
       Server_handler_started (length (sc_tasks s))] = Some s1 \<and>
     task_phase (sc_tasks s1 ! length (sc_tasks s)) = Task_running v \<and>
     queue_contents vf (sc_write_queue (handler_returned E s1 (length (sc_tasks s)) (Some w))) =
       queue_contents vf (sc_write_queue s1) @ map encode_frame (accepted_frame
         (snd (enqueue (env_queue E) (sc_write_queue s1) (final_frame g))) (final_frame g)) \<and>
     read_completed E c1 True (Some (encode_frame (final_frame g))) = Some c2 \<and>
     snd (async_wait_completed E (fst (async_wait E c2 h)) h tr) = Some (DecodeResult_success w)"
proof -
  let ?r = "length (cc_heap c)" and ?i = "length (sc_tasks s)"
  let ?types = "\<lparr>handler_request = ty, handler_response = tr\<rparr>"
  note inv = reachable_inv [OF env client(1)]
  obtain sid' f where st: "request_encoding E ty v sid' = FrameEncodeResult_success f"
    "queue_contents vf (cc_write_queue c1) = queue_contents vf (cc_write_queue c) @ [encode_frame f]"
    "pending_stream c1 ?r = sid'" "map_of (cc_pending c1) sid' = Some ?r"
    "cc_decoder c1 = cc_decoder c" "cc_transport_open c1 = cc_transport_open c"
    "cc_terminal_streams c1 = cc_terminal_streams c" "ro_pending h = Some ?r" "ro_connected h"
    by (rule started_request [OF env inv client(2)])
  have sid: "sid' = sid" using client(5) st(3,8) by (simp add: handle_stream_def)
  have inv1: "client_inv vf c1"
    using client_advancesD [OF start_request_advances [OF env inv, of ty v]] client(2) by simp
  have valid: "stream_is_valid sid"
    using pending_entry_stream(1) [OF inv1 st(4)] sid by (simp add: is_client_stream_def)
  obtain s1 where s1: "server_events E s [Server_read True (Some (encode_frame f)), Server_dispatch_next,
      Server_handler_started ?i] = Some s1"
    "sc_tasks s1 = sc_tasks s @ [(new_task ?types f)\<lparr>task_phase := Task_running v\<rparr>]"
    using request_served [OF codec assms(3) st(1) [unfolded sid request_encoding_def] valid
        server(8,9) _ server(2-7)] by auto
  have "task_stream (sc_tasks s1 ! ?i) = sid"
    by (rule encode_message_success [OF st(1) [unfolded sid request_encoding_def]]) (simp add: s1(2))
  then have enc: "response_encoding E (sc_tasks s1 ! ?i) w = FrameEncodeResult_success g"
    using resp s1(2) by (simp add: response_encoding_def)
  have inv_s: "server_inv vf s1"
    using server_reachable_inv [OF env server_reachable_trans [OF server(1) server_events_reachable [OF s1(1)]]] .
  have sent: "queue_contents vf (sc_write_queue (handler_returned E s1 ?i (Some w))) =
      queue_contents vf (sc_write_queue s1) @ map encode_frame (accepted_frame
        (snd (enqueue (env_queue E) (sc_write_queue s1) (final_frame g))) (final_frame g))"
    using handler_sends [OF env inv_s _ enc] s1(2) by simp
  obtain c2 where "read_completed E c1 True (Some (encode_frame (final_frame g))) = Some c2"
    "snd (async_wait_completed E (fst (async_wait E c2 h)) h tr) = Some (DecodeResult_success w)"
    using response_comes_back [OF env inv1 _ _ st(4) [unfolded sid] _ codec assms(4) resp st(9,8)]
      client(3,4,6) st(5-7) by auto
  then show ?thesis using st(2) s1 sent by (intro exI conjI) (simp_all add: nth_append)
qed

theorem request_round_trip_witness:
  "\<exists>f s1 c2.
     server_events sample_env sample_listening [Server_read True (Some (encode_frame f)),
       Server_dispatch_next, Server_handler_started 0] = Some s1 \<and>
     task_phase (sc_tasks s1 ! 0) = Task_running [5] \<and>
     read_completed sample_env sample_started True (Some (encode_frame sample_response)) = Some c2 \<and>
     snd (async_wait_completed sample_env
       (fst (async_wait sample_env c2 \<lparr>ro_connected = True, ro_pending = Some 0\<rparr>))
       \<lparr>ro_connected = True, ro_pending = Some 0\<rparr> ()) = Some (DecodeResult_success [6])"
proof -
  let ?h = "\<lparr>ro_connected = True, ro_pending = Some 0\<rparr>"
  obtain g where g: "response_encoding sample_env sample_task [6] = FrameEncodeResult_success g"
    "final_frame g = sample_response" using sample_response_encoding by blast
  have enc: "encode_message (env_codec sample_env) (env_registry sample_env) () [6] (StreamId 1)
      FrameType_response Flags_none default_max_payload_size current_protocol_version =
      FrameEncodeResult_success g"
    using g(1) by (simp add: response_encoding_def sample_request_def)
  have c: "cc_transport_open sample_client" "dec_clean (cc_decoder sample_client)"
    "handle_stream sample_started ?h = StreamId 1" "StreamId 1 \<notin> cc_terminal_streams sample_client"
    "cc_heap sample_client = []"
    by (simp_all add: new_client_def new_decoder_clean handle_stream_def sample_started_state
        new_pending_def op_activate_def new_operation_def operation_transition_def)
  have s: "dec_clean (sc_decoder sample_listening)" "\<not> draining_or_later (sc_lifecycle sample_listening)"
    by (simp_all add: sample_listening_state new_decoder_clean draining_or_later_def)
  note trip = request_round_trip [OF sample_queue_env sample_codec, where ty = "()" and v = "[5]" and tr = "()" and w = "[6]",
      OF _ _ client_reachable.start sample_start(1) c(1-4) sample_listening_reachable
        sample_listening_state(1,2) s _ _ sample_message_type _ enc]
  show ?thesis using trip sample_listening_state c(5) by (simp add: g(2)) blast
qed

section \<open>Properties: bytes between two ends\<close>

text \<open>
  Property C4. What is sent is what arrives, in order: frames are offered to a write queue in any
  interleaving with its writer, and the bytes its writer hands to the transport reach a decoder
  as far as they have got, cut into reads in any way. The queue does not look into the frames it
  accepts, so it is required that each of them is valid at the decoder's payload limit, as the frames
  the two connections build are. Then the decoder reports no error and has
  produced an initial part of the frames the queue accepted, in the same order; and when
  everything written has arrived, exactly the frames written, with no bytes left over.
\<close>

theorem wire_delivers_in_order:
  assumes "queue_env Q vf vs" and "list_all event_representable es"
    and run: "queue_run Q (new_write_queue Q lim) es = (q, accepted)"
    and "list_all (\<lambda>f. validate_frame f mx = Validation_none) accepted"
    and "concat (wq_writes q) = concat cs @ in_flight"
  shows "\<exists>d fs rest. push_all (new_decoder mx) cs = Some (d, fs) \<and> accepted = fs @ rest \<and>
     dec_error d = None \<and>
     (in_flight = [] \<longrightarrow> fs = take (length (wq_writes q)) accepted \<and> buffered d = [])"
proof -
  let ?n = "length (wq_writes q)"
  have fifo: "wq_writes q @ map encode_frame (buffer_of vf q) = map encode_frame accepted"
    using queue_run_step [OF assms(1) new_write_queue_inv(1) [OF assms(1)] assms(2), of lim]
      new_write_queue_inv(2) [OF assms(1), of lim] run
    by (simp add: queue_contents_def) (simp add: new_write_queue_def)
  have written: "wq_writes q = map encode_frame (take ?n accepted)"
    using arg_cong [OF fifo, of "take ?n"] by (simp add: take_map)
  have "list_all (\<lambda>f. validate_frame f mx = Validation_none) (take ?n accepted)"
    using assms(4) by (auto simp: list_all_iff dest: in_set_takeD)
  moreover have "concat (map encode_frame (take ?n accepted)) = concat cs @ in_flight"
    using assms(5) written by simp
  ultimately obtain rest where rest: "take ?n accepted = fst (parse mx (concat cs)) @ rest"
    "snd (snd (parse mx (concat cs))) = None"
    "in_flight = [] \<longrightarrow> rest = [] \<and> fst (snd (parse mx (concat cs))) = []"
    by (rule parse_prefix)
  obtain d where d: "push_all (new_decoder mx) cs = Some (d, fst (parse mx (concat cs)))"
    "buffered d = fst (snd (parse mx (concat cs)))" "dec_error d = snd (snd (parse mx (concat cs)))"
    by (rule push_all_parse [of mx cs])
  have "accepted = fst (parse mx (concat cs)) @ (rest @ drop ?n accepted)"
    using append_take_drop_id [of ?n accepted] rest(1) by simp
  then show ?thesis using d rest by (intro exI conjI) auto
qed

theorem wire_delivers_in_order_witness:
  "\<exists>d. push_all (new_decoder 8) [take 5 (encode_frame sample_frame), drop 5 (encode_frame sample_frame)] =
       Some (d, [sample_frame]) \<and> dec_error d = None \<and> buffered d = []"
proof -
  let ?es = "[Queue_try_enqueue sample_frame, Queue_run, Queue_received]"
  let ?run = "queue_run reference_queue_ops (new_write_queue reference_queue_ops sample_limits) ?es"
  have rep: "list_all event_representable ?es"
    by (simp add: representable_def frame_bytes_def sample_frame_def frame_header_size_def)
  have "snd ?run = [sample_frame] \<and> wq_writes (fst ?run) = [encode_frame sample_frame]"
    by (simp add: reference_queue_ops_def reference_channel_def view_op_defs try_enqueue_def
        try_enqueue_frame_def new_write_queue_def can_fit_def queued_bytes_def write_ok_def
        WriteResult_success_def WriteResult_failure_def frame_header_size_def accepted_frame_def
        sample_frame_def writer_loop_def
        writer_received_def Let_def)
  then obtain q where run: "?run = (q, [sample_frame])" "wq_writes q = [encode_frame sample_frame]"
    by (metis prod.collapse)
  from wire_delivers_in_order [OF reference_queue_env rep run(1), of 8
      "[take 5 (encode_frame sample_frame), drop 5 (encode_frame sample_frame)]" "[]"] run(2)
  show ?thesis by (auto simp: sample_frame_valid)
qed

section \<open>Properties: where the two ends disagree\<close>

text \<open>
  Property C34. The refusal of a draining server breaks its client: an error frame that carries
  a transport status, as the one \<open>dispatch\<close> sends while draining does, is valid on the wire, but a client
  that gets it for a pending request does not fail that request only: it closes the connection
  and fails every unsettled request with \<open>malformed_frame\<close>.
\<close>

theorem draining_refusal_breaks_client:
  assumes "queue_env (env_queue E) vf vs" and "client_reachable E (new_client E lim mx hook) c"
    and "map_of (cc_pending c) sid = Some r" and "sid \<notin> cc_terminal_streams c"
    and "status_category st = Category_transport"
  shows "validate_frame (make_error_frame sid st) default_max_payload_size = Validation_none \<and>
     (\<exists>c' msg. dispatch E c (make_error_frame sid st) = Some c' \<and> \<not> cc_transport_open c' \<and>
        cc_pending c' = [] \<and>
        (\<forall>q < length (cc_heap c). op_result (pr_operation (cc_heap c ! q)) = None \<longrightarrow>
           op_result (pr_operation (cc_heap c' ! q)) =
             Some (OperationResult_failure Status_malformed_frame msg)))"
proof -
  note inv = reachable_inv [OF assms(1,2)]
  let ?msg = "''malformed protocol error payload''"
  have "stream_is_valid sid"
    using pending_entry_stream(1) [OF inv assms(3)] by (simp add: is_client_stream_def)
  then have valid: "validate_frame (make_error_frame sid st) default_max_payload_size = Validation_none"
    by (simp add: error_frame_valid default_max_payload_size_def)
  have "decode_error_status (make_error_frame sid st) = None"
    using assms(5) wire_status_category [of st] by (auto simp: decode_error_frame)
  then have disp: "dispatch E c (make_error_frame sid st) = fail_connection E c Status_malformed_frame ?msg"
    using assms(3,4) by (simp add: dispatch_def error_frame_header error_frame_flags Let_def)
  obtain c' where c': "fail_connection E c Status_malformed_frame ?msg = Some c'" "cc_pending c' = []"
    "\<not> cc_transport_open c'"
    "operations c' = map (fail_unsettled Status_malformed_frame ?msg) (operations c)"
    by (rule fail_connection_total [OF inv, of Status_malformed_frame E ?msg]) simp_all
  have len: "length (cc_heap c') = length (cc_heap c)"
    using arg_cong [OF c'(4), of length] by simp
  have "op_result (pr_operation (cc_heap c' ! q)) = Some (OperationResult_failure Status_malformed_frame ?msg)"
    if q: "q < length (cc_heap c)" and none: "op_result (pr_operation (cc_heap c ! q)) = None" for q
  proof -
    have "pr_operation (cc_heap c' ! q) =
        fail_unsettled Status_malformed_frame ?msg (pr_operation (cc_heap c ! q))"
      using arg_cong [OF c'(4), of "\<lambda>os. os ! q"] q len by simp
    then show ?thesis
      using fail_unsettled_result [OF pend_inv_request [OF client_inv_parts(1) [OF inv] q]] none by simp
  qed
  then show ?thesis using valid disp c' by (intro conjI exI [of _ c'] exI [of _ ?msg]) simp_all
qed

theorem draining_refusal_breaks_client_witness:
  "\<exists>c' msg. dispatch sample_env sample_started
       (make_error_frame (StreamId 1) Status_connection_closed) = Some c' \<and>
     \<not> cc_transport_open c' \<and> op_result (pr_operation (cc_heap c' ! 0)) =
       Some (OperationResult_failure Status_malformed_frame msg)"
proof -
  have "op_result (pr_operation (cc_heap sample_started ! 0)) = None"
    by (simp add: sample_started_state new_pending_def op_activate_def new_operation_def
        operation_transition_def)
  then show ?thesis
    using draining_refusal_breaks_client [OF sample_queue_env sample_started_reachable,
        of "StreamId 1" 0 Status_connection_closed] sample_started_state
    by (auto simp: status_category_def Let_def)
qed

text \<open>
  Property C35. A stream that was cancelled is unusable on the server although the client takes it
  for free. When the owner of a pending request lets go of it, the client sends a cancellation
  and releases the identifier for reuse; but the cancellation carries the end-of-stream flag, the
  server remembers that for the rest of the connection, and the next frame on the stream, such as
  the client's next request that reuses the identifier, closes the connection.
\<close>

theorem cancelled_stream_is_unusable:
  assumes "queue_env (env_queue E) vf vs"
    and "client_reachable E (new_client E lim mx hook) c" and "map_of (cc_pending c) sid = Some r"
    and "sc_reader s = Reader_dispatching (cancellation_frame sid # fs)"
    and "sc_transport_open s" and "cancels s (cancellation_frame sid) i"
    and "server_reachable E (server_dispatch_next E s) s2"
    and "sc_reader s2 = Reader_dispatching (f # fs2)" and "header_stream (frame_header f) = sid"
    and "sc_lifecycle s2 = Connection_active"
  shows "live_streams (cc_stream_ids (discard_pending E c r)) = live_streams (cc_stream_ids c) - {sid} \<and>
     sc_transport_open (server_dispatch_next E s) \<and>
     \<not> sc_transport_open (server_dispatch_next E s2) \<and>
     sc_lifecycle (server_dispatch_next E s2) = Connection_closed"
proof -
  let ?f = "cancellation_frame sid"
  have head: "header_stream (frame_header ?f) = sid" "header_type (frame_header ?f) = FrameType_request"
    "has_flag (header_flags (frame_header ?f)) Flags_end_of_stream"
    by (simp_all add: cancellation_frame_def has_flag_def flags_and_def flags_or_def)
  have disp: "server_dispatch E (frame_seen s ?f) ?f = server_mark_terminal
      (fst (call_task_operation (frame_seen s ?f) i (Call_cancel ''operation cancelled by peer''))) ?f"
    using assms(6) by (simp add: server_dispatch_def cancels_def Let_def)
  then have still_open: "sc_transport_open (server_dispatch E (frame_seen s ?f) ?f)" using assms(5) by simp
  note eq = dispatch_next_open [OF assms(4) still_open]
  have "sid \<in> sc_terminal_streams (server_dispatch_next E s)"
    unfolding eq disp server_mark_terminal_def using head by simp
  then have sid: "sid \<in> sc_terminal_streams s2" using server_reachable_terminal [OF assms(7)] by blast
  have "\<not> sc_transport_open (server_dispatch_next E s2) \<and>
      sc_lifecycle (server_dispatch_next E s2) = Connection_closed"
    using violating_frame [OF assms(8,10) _ refl, of E] sid assms(9) by (simp add: protocol_violation_def)
  then show ?thesis
    using discard_releases [OF reachable_inv [OF assms(1,2)] assms(3)] still_open by (simp add: eq)
qed

lemma sample_cancel_frame: "cancellation_frame (StreamId 1) = sample_cancel"
  by (simp add: cancellation_frame_def sample_cancel_def default_header_def)

theorem cancelled_stream_is_unusable_witness:
  "\<exists>s2. server_reachable sample_env sample_server s2 \<and>
     sc_reader s2 = Reader_dispatching [sample_request] \<and> sc_transport_open s2 \<and>
     \<not> sc_transport_open (server_dispatch_next sample_env s2)"
proof -
  obtain s where s: "server_reachable sample_env sample_server s"
    "sc_reader s = Reader_dispatching [sample_cancel]" "sc_transport_open s"
    "sc_lifecycle s = Connection_active" "sc_terminal_streams s = {}"
    "sc_operations s = [(StreamId 1, 0)]" "dec_clean (sc_decoder s)"
    by (rule sample_busy_arrival [OF sample_cancel_valid]) simp
  note cancel = sample_cancels [OF s(4-6)]
  let ?s1 = "server_dispatch_next sample_env s"
  have disp: "server_dispatch sample_env (frame_seen s sample_cancel) sample_cancel = server_mark_terminal
      (fst (call_task_operation (frame_seen s sample_cancel) 0
        (Call_cancel ''operation cancelled by peer''))) sample_cancel"
    using cancel by (simp add: server_dispatch_def cancels_def Let_def)
  have s1: "sc_reader ?s1 = Reader_dispatching []" "sc_transport_open ?s1"
    "sc_lifecycle ?s1 = Connection_active" "dec_clean (sc_decoder ?s1)"
    using dispatch_next_open [OF s(2), of sample_env] s disp by simp_all
  let ?s2 = "?s1\<lparr>sc_reader := Reader_reading\<rparr>"
  have next2: "server_dispatch_next sample_env ?s1 = ?s2"
    using s1 by (simp add: server_dispatch_next_def [of _ ?s1] server_frames_done_def
        server_read_head_def dec_clean_def)
  obtain D d where arr: "server_event sample_env ?s2 (Server_read True (Some (encode_frame sample_request))) =
      Some (?s2\<lparr>sc_diagnostics := D, sc_decoder := d, sc_reader := Reader_dispatching [sample_request]\<rparr>)"
    (is "_ = Some ?s3")
    by (rule frame_arrives [of ?s2 sample_request sample_env]) (use s1 sample_request_valid in simp_all)
  have "server_events sample_env ?s1 [Server_dispatch_next,
      Server_read True (Some (encode_frame sample_request))] = Some ?s3"
    using arr next2 s1(1) by (simp add: dispatching_def)
  then have r3: "server_reachable sample_env ?s1 ?s3" by (rule server_events_reachable)
  have "server_reachable sample_env sample_server ?s1"
    using server_reachable.step [OF s(1), of Server_dispatch_next ?s1] s(2) by (simp add: dispatching_def)
  then have r: "server_reachable sample_env sample_server ?s3" using r3 by (rule server_reachable_trans)
  have "\<not> sc_transport_open (server_dispatch_next sample_env ?s3)"
    using cancelled_stream_is_unusable [OF sample_queue_env sample_started_reachable, of "StreamId 1" 0 s "[]" 0 ?s3 sample_request "[]"]
      s cancel r3 s1 sample_started_state(2)
    by (simp add: sample_cancel_frame) (simp add: sample_request_def)
  then show ?thesis using r s1 by (intro exI [of _ ?s3]) simp
qed

end
